(* ===== verification/Chakra_Prelude.thy ===== *)
theory Chakra_Prelude
  imports Main "HOL-Library.List_Lexorder" "HOL-Library.Char_ord"
    "HOL-Library.Option_ord" "HOL-Library.Product_Lexorder" "HOL-Library.Multiset"
begin

section \<open>Shared vocabulary of the development\<close>

text \<open>
  Fixed-width arithmetic as the Rust code uses it, the ordered maps that stand for
  \<open>BTreeMap\<close>, \<open>HashMap\<close> and the persistent maps of the graph, string helpers of the
  Rust standard library, and the collections of rewrite rules that the component
  theories extend.

  Strings are lists of bytes (a Rust \<open>str\<close> is UTF-8, its \<open>len\<close> counts bytes and its
  \<open>Ord\<close> compares bytes), ordered lexicographically by \<open>HOL-Library.List_Lexorder\<close>.
  \<open>Option\<close> and tuples are ordered as \<open>derive(Ord)\<close> orders them, by
  \<open>HOL-Library.Option_ord\<close> and \<open>HOL-Library.Product_Lexorder\<close>.
\<close>

named_theorems omap_simps \<open>lookup laws of ordered maps\<close>
named_theorems sat_simps \<open>saturating arithmetic\<close>
named_theorems chakra_inv \<open>invariants kept by the operations of a component\<close>

subsection \<open>Fixed-width counters\<close>

text \<open>
  A \<open>u64\<close> is a natural number below \<open>2 ^ 64\<close>; every place where the source saturates,
  wraps or converts is written with one of these operations.
\<close>

definition u64_max :: nat where "u64_max = 2 ^ 64 - 1"
definition u32_max :: nat where "u32_max = 2 ^ 32 - 1"
definition u8_max :: nat where "u8_max = 2 ^ 8 - 1"

definition sat_add64 :: "nat \<Rightarrow> nat \<Rightarrow> nat" where
  "sat_add64 a b = min (a + b) u64_max"

definition sat_add32 :: "nat \<Rightarrow> nat \<Rightarrow> nat" where
  "sat_add32 a b = min (a + b) u32_max"

definition sat_add8 :: "nat \<Rightarrow> nat \<Rightarrow> nat" where
  "sat_add8 a b = min (a + b) u8_max"

text \<open>\<open>u64::try_from(x).unwrap_or(u64::MAX)\<close> and the same for \<open>u8\<close>.\<close>

definition to_u64 :: "nat \<Rightarrow> nat" where "to_u64 n = min n u64_max"
definition to_u8 :: "nat \<Rightarrow> nat" where "to_u8 n = min n u8_max"

text \<open>\<open>saturating_sub\<close> is the truncated subtraction of the naturals.\<close>

abbreviation (input) sat_sub :: "nat \<Rightarrow> nat \<Rightarrow> nat" where "sat_sub a b \<equiv> a - b"

lemma sat_add64_le [sat_simps]: "sat_add64 a b \<le> u64_max"
  by (simp add: sat_add64_def)

lemma sat_add64_exact [sat_simps]: "a + b \<le> u64_max \<Longrightarrow> sat_add64 a b = a + b"
  by (simp add: sat_add64_def)

lemma sat_add64_below: "sat_add64 a b < u64_max \<Longrightarrow> sat_add64 a b = a + b"
  by (simp add: sat_add64_def min_def split: if_splits)

lemma sat_add64_Suc_below:
  "sat_add64 a (Suc 0) < u64_max \<Longrightarrow> sat_add64 a (Suc 0) = Suc a \<and> a < u64_max"
  by (simp add: sat_add64_def min_def split: if_splits)

lemma sat_add64_Suc: "a < u64_max \<Longrightarrow> sat_add64 a (Suc 0) = Suc a"
  by (simp add: sat_add64_def)

lemma sat_add64_mono: "a \<le> c \<Longrightarrow> b \<le> d \<Longrightarrow> sat_add64 a b \<le> sat_add64 c d"
  by (simp add: sat_add64_def min_def)

lemma sat_add64_le_iff: "m < u64_max \<Longrightarrow> sat_add64 a b \<le> m \<longleftrightarrow> a + b \<le> m"
  by (auto simp: sat_add64_def)

lemma sat_add64_0 [simp]: "a \<le> u64_max \<Longrightarrow> sat_add64 a 0 = a" "b \<le> u64_max \<Longrightarrow> sat_add64 0 b = b"
  by (simp_all add: sat_add64_def)

lemma sat_add8_le [sat_simps]: "sat_add8 a b \<le> u8_max"
  by (simp add: sat_add8_def)

subsection \<open>Ordered maps\<close>

text \<open>
  A \<open>BTreeMap\<close>, \<open>HashMap\<close> or persistent map is the list of its bindings in key order.
  Lookup is \<open>map_of\<close>. The lookup laws below hold for every list; a map built from the
  empty map by insertions and removals is strictly sorted by key (\<open>omap_ok\<close>), which is
  what iteration, counting and comparison rely on.
\<close>

type_synonym ('k, 'v) omap = "('k \<times> 'v) list"

abbreviation omap_get :: "('k, 'v) omap \<Rightarrow> 'k \<Rightarrow> 'v option" where
  "omap_get m k \<equiv> map_of m k"

fun omap_insert :: "'k::linorder \<Rightarrow> 'v \<Rightarrow> ('k, 'v) omap \<Rightarrow> ('k, 'v) omap" where
  "omap_insert k v [] = [(k, v)]"
| "omap_insert k v ((k', v') # m) =
     (if k = k' then (k, v) # m
      else if k < k' then (k, v) # (k', v') # m
      else (k', v') # omap_insert k v m)"

definition omap_delete :: "'k \<Rightarrow> ('k, 'v) omap \<Rightarrow> ('k, 'v) omap" where
  "omap_delete k m = filter (\<lambda>kv. fst kv \<noteq> k) m"

definition omap_keys :: "('k, 'v) omap \<Rightarrow> 'k list" where
  "omap_keys m = map fst m"

definition omap_ok :: "('k::linorder, 'v) omap \<Rightarrow> bool" where
  "omap_ok m \<longleftrightarrow> sorted_wrt (<) (map fst m)"

text \<open>\<open>m.get(k).map_or(default, |v| v.clone())\<close> and \<open>entry(k).or_default()\<close>.\<close>

definition omap_get_or :: "'v \<Rightarrow> ('k, 'v) omap \<Rightarrow> 'k \<Rightarrow> 'v" where
  "omap_get_or d m k = (case omap_get m k of None \<Rightarrow> d | Some v \<Rightarrow> v)"

definition omap_of_list :: "('k::linorder \<times> 'v) list \<Rightarrow> ('k, 'v) omap" where
  "omap_of_list kvs = fold (\<lambda>(k, v) m. omap_insert k v m) kvs []"

lemma omap_get_insert [omap_simps, simp]:
  "omap_get (omap_insert k v m) x = (if x = k then Some v else omap_get m x)"
  by (induction k v m rule: omap_insert.induct) auto

lemma omap_get_delete [omap_simps, simp]:
  "omap_get (omap_delete k m) x = (if x = k then None else omap_get m x)"
  by (induction m) (auto simp: omap_delete_def)

lemma omap_get_or_insert [omap_simps, simp]:
  "omap_get_or d (omap_insert k v m) x = (if x = k then v else omap_get_or d m x)"
  by (simp add: omap_get_or_def)

lemma omap_get_or_delete [omap_simps, simp]:
  "omap_get_or d (omap_delete k m) x = (if x = k then d else omap_get_or d m x)"
  by (simp add: omap_get_or_def)

lemma omap_get_or_Nil [simp]: "omap_get_or d [] k = d"
  by (simp add: omap_get_or_def)

lemma set_omap_insert_keys: "fst ` set (omap_insert k v m) = insert k (fst ` set m)"
  by (induction k v m rule: omap_insert.induct) auto

lemma omap_ok_Nil [simp]: "omap_ok []"
  by (simp add: omap_ok_def)

lemma omap_ok_Cons: "omap_ok ((k, v) # m) \<longleftrightarrow> (\<forall>x\<in>fst ` set m. k < x) \<and> omap_ok m"
  by (auto simp: omap_ok_def)

lemma omap_ok_insert [simp]: "omap_ok m \<Longrightarrow> omap_ok (omap_insert k v m)"
proof (induction k v m rule: omap_insert.induct)
  case (2 k v k' v' m)
  then show ?case
    by (auto simp: omap_ok_Cons set_omap_insert_keys)
qed (simp add: omap_ok_Cons)

lemma omap_ok_delete [simp]: "omap_ok m \<Longrightarrow> omap_ok (omap_delete k m)"
  by (induction m) (auto simp: omap_ok_Cons omap_delete_def)

lemma omap_ok_distinct: "omap_ok m \<Longrightarrow> distinct (map fst m)"
  by (simp add: omap_ok_def strict_sorted_iff)

lemma omap_ok_get_iff: "omap_ok m \<Longrightarrow> (k, v) \<in> set m \<longleftrightarrow> omap_get m k = Some v"
  by (simp add: omap_ok_distinct)

text \<open>Two ordered maps with the same lookup are the same list.\<close>

lemma omap_ext:
  assumes "omap_ok m" "omap_ok n" "\<And>k. omap_get m k = omap_get n k"
  shows "m = n"
proof -
  have sets: "set m = set n"
    using assms by (auto simp: omap_ok_get_iff)
  then have "set (map fst m) = set (map fst n)"
    by simp
  then have keys: "map fst m = map fst n"
    using assms(1,2) unfolding omap_ok_def
    by (metis strict_sorted_equal)
  have m: "map (\<lambda>k. (k, the (omap_get m k))) (map fst m) = m"
    using omap_ok_distinct [OF assms(1)] by (auto intro!: map_idI)
  have n: "map (\<lambda>k. (k, the (omap_get n k))) (map fst n) = n"
    using omap_ok_distinct [OF assms(2)] by (auto intro!: map_idI)
  have "omap_get m = omap_get n"
    using assms(3) by (rule ext)
  then show ?thesis
    using m n keys by simp
qed

lemma omap_delete_absent: "omap_get m k = None \<Longrightarrow> omap_delete k m = m"
  by (induction m) (auto simp: omap_delete_def split: if_splits)

lemma length_omap_delete:
  "omap_ok m \<Longrightarrow> length (omap_delete k m) = length m - (if omap_get m k = None then 0 else 1)"
proof (induction m)
  case (Cons kv m)
  obtain k' v' where kv: "kv = (k', v')" by (cases kv)
  from Cons.prems kv have ok: "omap_ok m" and lt: "\<forall>x\<in>fst ` set m. k' < x"
    by (simp_all add: omap_ok_Cons)
  show ?case
  proof (cases "k' = k")
    case True
    with lt have "k \<notin> fst ` set m" by blast
    then have "omap_get m k = None" by (simp add: map_of_eq_None_iff)
    then have "omap_delete k m = m" by (rule omap_delete_absent)
    with True kv show ?thesis by (simp add: omap_delete_def)
  next
    case False
    have "omap_get m k \<noteq> None \<Longrightarrow> 0 < length m" by (cases m) simp_all
    with False kv Cons.IH [OF ok] show ?thesis
      by (cases "omap_get m k = None") (simp_all add: omap_delete_def)
  qed
qed (simp add: omap_delete_def)

lemma length_omap_insert:
  "omap_ok m \<Longrightarrow> length (omap_insert k v m) = length m + (if omap_get m k = None then 1 else 0)"
proof (induction k v m rule: omap_insert.induct)
  case (2 k v k' v' m)
  moreover have "k < k' \<Longrightarrow> omap_ok ((k', v') # m) \<Longrightarrow> omap_get m k = None"
    by (force simp: omap_ok_Cons map_of_eq_None_iff)
  ultimately show ?case by (auto simp: omap_ok_Cons)
qed simp

lemma omap_get_of_list:
  "omap_get (omap_of_list kvs) k = map_of (rev kvs) k"
proof -
  have "omap_get (fold (\<lambda>(k, v) m. omap_insert k v m) kvs m) k
        = (case map_of (rev kvs) k of None \<Rightarrow> omap_get m k | Some v \<Rightarrow> Some v)" for m
    by (induction kvs arbitrary: m) (auto simp: map_add_def split: option.splits)
  from this [of "[]"] show ?thesis
    by (simp add: omap_of_list_def split: option.splits)
qed

lemma omap_ok_of_list [simp]: "omap_ok (omap_of_list kvs)"
proof -
  have "omap_ok m \<Longrightarrow> omap_ok (fold (\<lambda>(k, v) m. omap_insert k v m) kvs m)" for m
    by (induction kvs arbitrary: m) auto
  then show ?thesis by (simp add: omap_of_list_def)
qed

subsection \<open>Multi-valued indexes\<close>

text \<open>
  The secondary indexes of the code map a key to the list of items filed under it and
  drop a key whose list becomes empty.
\<close>

definition index_at :: "('k, 'v list) omap \<Rightarrow> 'k \<Rightarrow> 'v list" where
  "index_at m k = omap_get_or [] m k"

definition index_push :: "'k::linorder \<Rightarrow> 'v \<Rightarrow> ('k, 'v list) omap \<Rightarrow> ('k, 'v list) omap" where
  "index_push k v m = omap_insert k (index_at m k @ [v]) m"

definition index_drop :: "'k::linorder \<Rightarrow> 'v \<Rightarrow> ('k, 'v list) omap \<Rightarrow> ('k, 'v list) omap" where
  "index_drop k v m =
     (case omap_get m k of
        None \<Rightarrow> m
      | Some vs \<Rightarrow>
          (let vs' = filter (\<lambda>x. x \<noteq> v) vs
           in if vs' = [] then omap_delete k m else omap_insert k vs' m))"

definition index_ok :: "('k::linorder, 'v list) omap \<Rightarrow> bool" where
  "index_ok m \<longleftrightarrow> omap_ok m \<and> (\<forall>k. omap_get m k \<noteq> Some [])"

lemma index_at_Nil [simp]: "index_at [] k = []"
  by (simp add: index_at_def)

lemma index_at_push [simp]:
  "index_at (index_push k v m) x = (if x = k then index_at m k @ [v] else index_at m x)"
  by (simp add: index_push_def index_at_def)

lemma index_at_drop [simp]:
  "index_at (index_drop k v m) x =
     (if x = k then filter (\<lambda>y. y \<noteq> v) (index_at m k) else index_at m x)"
  by (auto simp: index_drop_def index_at_def omap_get_or_def Let_def split: option.splits)

lemma index_at_delete [simp]: "index_at (omap_delete k m) x = (if x = k then [] else index_at m x)"
  by (simp add: index_at_def)

lemma index_ok_Nil [simp]: "index_ok []"
  by (simp add: index_ok_def)

lemma index_ok_push [simp]: "index_ok m \<Longrightarrow> index_ok (index_push k v m)"
  by (auto simp: index_ok_def index_push_def)

lemma index_ok_drop [simp]: "index_ok m \<Longrightarrow> index_ok (index_drop k v m)"
  by (auto simp: index_ok_def index_drop_def Let_def split: option.splits if_splits)

lemma index_get_conv:
  "index_ok m \<Longrightarrow> omap_get m k = (if index_at m k = [] then None else Some (index_at m k))"
  by (auto simp: index_ok_def index_at_def omap_get_or_def split: option.splits)

lemma index_ext:
  assumes "index_ok m" "index_ok n" "\<And>k. index_at m k = index_at n k"
  shows "m = n"
  using assms by (intro omap_ext) (auto simp: index_get_conv index_ok_def [of m] index_ok_def [of n])

subsection \<open>The contents of an index as a multiset\<close>

text \<open>
  \<open>omap_sum f m\<close> collects \<open>f k v\<close> over all bindings of \<open>m\<close>; \<open>index_mset\<close> is everything
  filed in a multi-valued index, whatever the key.
\<close>

definition omap_sum :: "('k \<Rightarrow> 'v \<Rightarrow> 'a list) \<Rightarrow> ('k, 'v) omap \<Rightarrow> 'a multiset" where
  "omap_sum f m = mset (concat (map (\<lambda>(k, v). f k v) m))"

definition index_mset :: "('k, 'v list) omap \<Rightarrow> 'v multiset" where
  "index_mset m = omap_sum (\<lambda>_ vs. vs) m"

definition index_remove_first :: "'k::linorder \<Rightarrow> 'v \<Rightarrow> ('k, 'v list) omap \<Rightarrow> ('k, 'v list) omap" where
  "index_remove_first k v m =
     (let vs = remove1 v (index_at m k)
      in if vs = [] then omap_delete k m else omap_insert k vs m)"

lemma omap_sum_Nil [simp]: "omap_sum f [] = {#}"
  by (simp add: omap_sum_def)

lemma omap_sum_Cons [simp]: "omap_sum f ((k, v) # m) = mset (f k v) + omap_sum f m"
  by (simp add: omap_sum_def)

lemma omap_sum_cong:
  "(\<And>k v. (k, v) \<in> set m \<Longrightarrow> mset (f k v) = mset (g k v)) \<Longrightarrow> omap_sum f m = omap_sum g m"
  by (induction m) auto

lemma omap_sum_insert:
  assumes "omap_ok m"
  shows "omap_sum f (omap_insert k v m) + (case omap_get m k of None \<Rightarrow> {#} | Some w \<Rightarrow> mset (f k w))
       = omap_sum f m + mset (f k v)"
  using assms
proof (induction k v m rule: omap_insert.induct)
  case (2 k v k' v' m)
  then have ok: "omap_ok m" and lt: "\<forall>x\<in>fst ` set m. k' < x"
    by (simp_all add: omap_ok_Cons)
  consider "k = k'" | "k < k'" | "\<not> k < k'" "k \<noteq> k'" by blast
  then show ?case
  proof cases
    case 2
    then have "k \<notin> fst ` set m" using lt by force
    then have "omap_get m k = None" by (simp add: map_of_eq_None_iff)
    with 2 show ?thesis by simp
  next
    case 3
    then show ?thesis using "2.IH" ok by (simp add: ac_simps)
  qed (simp add: ac_simps)
qed simp

lemma omap_sum_delete:
  assumes "omap_ok m"
  shows "omap_sum f (omap_delete k m) + (case omap_get m k of None \<Rightarrow> {#} | Some w \<Rightarrow> mset (f k w))
       = omap_sum f m"
  using assms
proof (induction m)
  case (Cons kv m)
  obtain k' v' where kv: "kv = (k', v')" by (cases kv)
  from Cons.prems kv have ok: "omap_ok m" and lt: "\<forall>x\<in>fst ` set m. k' < x"
    by (simp_all add: omap_ok_Cons)
  show ?case
  proof (cases "k' = k")
    case True
    with lt have "k \<notin> fst ` set m" by blast
    then have "omap_get m k = None" by (simp add: map_of_eq_None_iff)
    then have "omap_delete k m = m" by (rule omap_delete_absent)
    moreover have "omap_delete k (kv # m) = omap_delete k m"
      using True kv by (simp add: omap_delete_def)
    ultimately show ?thesis using True kv by simp
  next
    case False
    then have "omap_delete k (kv # m) = kv # omap_delete k m"
      using kv by (simp add: omap_delete_def)
    with False kv Cons.IH [OF ok] show ?thesis by (simp add: ac_simps)
  qed
qed (simp add: omap_delete_def)

lemma in_omap_sum: "omap_ok m \<Longrightarrow>
    x \<in># omap_sum f m \<longleftrightarrow> (\<exists>k v. omap_get m k = Some v \<and> x \<in> set (f k v))"
  by (fastforce simp: omap_sum_def omap_ok_get_iff [symmetric])

lemma index_mset_Nil [simp]: "index_mset [] = {#}"
  by (simp add: index_mset_def)

lemma index_mset_push [simp]:
  assumes "omap_ok m"
  shows "index_mset (index_push k v m) = add_mset v (index_mset m)"
  using omap_sum_insert [OF assms, of "\<lambda>_ vs. vs" k "index_at m k @ [v]"]
  by (auto simp: index_mset_def index_push_def index_at_def omap_get_or_def split: option.splits)

lemma in_index_mset:
  "omap_ok m \<Longrightarrow> v \<in># index_mset m \<longleftrightarrow> (\<exists>k. v \<in> set (index_at m k))"
  by (auto simp: index_mset_def in_omap_sum index_at_def omap_get_or_def split: option.split) metis+

lemma omap_ok_push [simp]: "omap_ok m \<Longrightarrow> omap_ok (index_push k v m)"
  by (simp add: index_push_def)

lemma index_at_remove_first [simp]:
  "index_at (index_remove_first k v m) x =
     (if x = k then remove1 v (index_at m k) else index_at m x)"
  by (auto simp: index_remove_first_def index_at_def Let_def)

lemma index_ok_remove_first [simp]: "index_ok m \<Longrightarrow> index_ok (index_remove_first k v m)"
  by (auto simp: index_ok_def index_remove_first_def Let_def)

lemma index_mset_remove_first:
  assumes "omap_ok m" "v \<in> set (index_at m k)"
  shows "index_mset (index_remove_first k v m) = index_mset m - {#v#}"
proof -
  from assms(2) obtain vs where vs: "omap_get m k = Some vs"
    by (cases "omap_get m k") (auto simp: index_at_def omap_get_or_def)
  then have at: "index_at m k = vs" by (simp add: index_at_def omap_get_or_def)
  with assms(2) have v: "v \<in> set vs" by simp
  have "index_mset (index_remove_first k v m) + mset vs = index_mset m + mset (remove1 v vs)"
    using omap_sum_insert [OF assms(1), of "\<lambda>_ vs. vs" k "remove1 v vs"]
      omap_sum_delete [OF assms(1), of "\<lambda>_ vs. vs" k] vs at
    by (simp add: index_mset_def index_remove_first_def Let_def del: mset_remove1)
  moreover have "mset vs = add_mset v (mset (remove1 v vs))" using v by simp
  ultimately have "add_mset v (index_mset (index_remove_first k v m)) = index_mset m"
    by (simp del: mset_remove1)
  then show ?thesis
    by (metis add_mset_remove_trivial)
qed

lemma index_mset_delete:
  assumes "omap_ok m"
  shows "index_mset (omap_delete k m) + mset (index_at m k) = index_mset m"
  using omap_sum_delete [OF assms, of "\<lambda>_ vs. vs" k]
  by (auto simp: index_mset_def index_at_def omap_get_or_def split: option.splits)

subsection \<open>Operations that mutate a state and may fail\<close>

text \<open>
  A method on \<open>&mut self\<close> that returns a \<open>Result\<close>: the result and the state it leaves,
  also when it fails half way. \<open>op_each\<close> is a \<open>for\<close> loop whose body ends in \<open>?\<close>.
\<close>

type_synonym ('s, 'e, 'a) op = "'s \<Rightarrow> ('e + 'a) \<times> 's"

definition op_bind :: "('s, 'e, 'a) op \<Rightarrow> ('a \<Rightarrow> ('s, 'e, 'b) op) \<Rightarrow> ('s, 'e, 'b) op" where
  "op_bind m f s = (case m s of (Inl e, s') \<Rightarrow> (Inl e, s') | (Inr a, s') \<Rightarrow> f a s')"

fun op_each :: "('a \<Rightarrow> ('s, 'e, unit) op) \<Rightarrow> 'a list \<Rightarrow> ('s, 'e, unit) op" where
  "op_each f [] s = (Inr (), s)"
| "op_each f (x # xs) s =
     (case f x s of (Inl e, s') \<Rightarrow> (Inl e, s') | (Inr _, s') \<Rightarrow> op_each f xs s')"

text \<open>A \<open>for\<close> loop that also updates local variables.\<close>

fun op_fold :: "('a \<Rightarrow> 'b \<Rightarrow> ('s, 'e, 'b) op) \<Rightarrow> 'a list \<Rightarrow> 'b \<Rightarrow> ('s, 'e, 'b) op" where
  "op_fold f [] b s = (Inr b, s)"
| "op_fold f (x # xs) b s =
     (case f x b s of (Inl e, s') \<Rightarrow> (Inl e, s') | (Inr b', s') \<Rightarrow> op_fold f xs b' s')"

lemma op_fold_inv:
  assumes "\<And>x b t. x \<in> set xs \<Longrightarrow> I t \<Longrightarrow> I (snd (f x b t))" "I s"
  shows "I (snd (op_fold f xs b s))"
  using assms
proof (induction xs arbitrary: b s)
  case (Cons x xs)
  then have step: "I (snd (f x b s))" by simp
  show ?case
  proof (cases "f x b s")
    case (Pair r s')
    with step Cons show ?thesis by (cases r) simp_all
  qed
qed simp

lemma op_fold_succeeds:
  assumes "\<And>x ys b t. P (x # ys) b t \<Longrightarrow> \<exists>b' t'. f x b t = (Inr b', t') \<and> P ys b' t'" "P xs b s"
  shows "\<exists>b' s'. op_fold f xs b s = (Inr b', s') \<and> P [] b' s'"
  using assms(2)
proof (induction xs arbitrary: b s)
  case (Cons x xs)
  from assms(1) [OF Cons.prems] obtain b' s' where "f x b s = (Inr b', s')" "P xs b' s'" by blast
  with Cons.IH show ?case by simp
qed simp

lemma op_bind_Inr: "m s = (Inr a, s') \<Longrightarrow> op_bind m f s = f a s'"
  by (simp add: op_bind_def)

lemma op_bind_Inl: "m s = (Inl e, s') \<Longrightarrow> op_bind m f s = (Inl e, s')"
  by (simp add: op_bind_def)

text \<open>A loop whose body keeps an invariant keeps it, whether or not it stops early.\<close>

lemma op_each_inv:
  assumes "\<And>x t. x \<in> set xs \<Longrightarrow> I t \<Longrightarrow> I (snd (f x t))" "I s"
  shows "I (snd (op_each f xs s))"
  using assms
proof (induction xs arbitrary: s)
  case (Cons x xs)
  then have step: "I (snd (f x s))" by simp
  show ?case
  proof (cases "f x s")
    case (Pair r s')
    with step Cons show ?thesis by (cases r) simp_all
  qed
qed simp

text \<open>A loop whose body succeeds as long as what remains to be done is fine succeeds.\<close>

lemma op_each_succeeds:
  assumes "\<And>x ys t. P (x # ys) t \<Longrightarrow> fst (f x t) = Inr () \<and> P ys (snd (f x t))" "P xs s"
  shows "fst (op_each f xs s) = Inr () \<and> P [] (snd (op_each f xs s))"
  using assms(2)
proof (induction xs arbitrary: s)
  case (Cons x xs)
  from assms(1) [OF Cons.prems] have
    "f x s = (Inr (), snd (f x s))" "P xs (snd (f x s))"
    by (metis prod.collapse)+
  with Cons.IH [of "snd (f x s)"] show ?case by (cases "f x s") simp
qed simp

subsection \<open>Selection over an iterator\<close>

text \<open>
  One pass that keeps the best item so far and replaces it by \<open>x\<close> when
  \<open>replaces x best\<close>. \<open>max_by\<close> keeps the last of equal items, \<open>min_by_key\<close> the first.
\<close>

definition select_by :: "('a \<Rightarrow> 'a \<Rightarrow> bool) \<Rightarrow> 'a list \<Rightarrow> 'a option" where
  "select_by replaces xs =
     fold (\<lambda>x best. case best of
             None \<Rightarrow> Some x
           | Some b \<Rightarrow> if replaces x b then Some x else Some b) xs None"

definition max_by_key :: "('a \<Rightarrow> 'k::linorder) \<Rightarrow> 'a list \<Rightarrow> 'a option" where
  "max_by_key key xs = select_by (\<lambda>x b. key b \<le> key x) xs"

definition min_by_key :: "('a \<Rightarrow> 'k::linorder) \<Rightarrow> 'a list \<Rightarrow> 'a option" where
  "min_by_key key xs = select_by (\<lambda>x b. key x < key b) xs"

lemma select_by_snoc:
  "select_by r (xs @ [x]) =
     (case select_by r xs of None \<Rightarrow> Some x | Some b \<Rightarrow> if r x b then Some x else Some b)"
  by (simp add: select_by_def)

lemma select_by_Nil [simp]: "select_by r [] = None"
  by (simp add: select_by_def)

lemma select_by_None_iff [simp]: "select_by r xs = None \<longleftrightarrow> xs = []"
proof (induction xs rule: rev_induct)
  case Nil
  then show ?case by (simp add: select_by_def)
next
  case (snoc x xs)
  then show ?case by (simp add: select_by_snoc split: option.splits)
qed

lemma select_by_in: "select_by r xs = Some e \<Longrightarrow> e \<in> set xs"
proof (induction xs arbitrary: e rule: rev_induct)
  case Nil
  then show ?case by (simp add: select_by_def)
next
  case (snoc x xs)
  then show ?case by (auto simp: select_by_snoc split: option.splits if_splits)
qed

lemma select_by_best:
  assumes "select_by r xs = Some e" "y \<in> set xs"
    and trans: "\<And>a b c. below a b \<Longrightarrow> below b c \<Longrightarrow> below a c"
    and refl: "\<And>a. below a a"
    and yes: "\<And>x b. x \<in> set xs \<Longrightarrow> b \<in> set xs \<Longrightarrow> r x b \<Longrightarrow> below b x"
    and no: "\<And>x b. x \<in> set xs \<Longrightarrow> b \<in> set xs \<Longrightarrow> \<not> r x b \<Longrightarrow> below x b"
  shows "below y e"
  using assms(1,2) yes no
proof (induction xs arbitrary: e y rule: rev_induct)
  case Nil
  then show ?case by simp
next
  case (snoc x xs)
  show ?case
  proof (cases "select_by r xs")
    case None
    with snoc.prems refl show ?thesis by (simp add: select_by_snoc)
  next
    case (Some b)
    have b: "b \<in> set xs" using Some by (rule select_by_in)
    have IH: "z \<in> set xs \<Longrightarrow> below z b" for z
      using snoc.IH [OF Some] snoc.prems(3,4) by simp
    show ?thesis
    proof (cases "r x b")
      case True
      then have "e = x" using Some snoc.prems(1) by (simp add: select_by_snoc)
      moreover have "below b x" using snoc.prems(3) [of x b] b True by simp
      ultimately show ?thesis using IH trans refl snoc.prems(2) by auto
    next
      case False
      then have "e = b" using Some snoc.prems(1) by (simp add: select_by_snoc)
      moreover have "below x b" using snoc.prems(4) [of x b] b False by simp
      ultimately show ?thesis using IH snoc.prems(2) by auto
    qed
  qed
qed

lemma max_by_key_None_iff [simp]: "max_by_key k xs = None \<longleftrightarrow> xs = []"
  by (simp add: max_by_key_def)

lemma min_by_key_None_iff [simp]: "min_by_key k xs = None \<longleftrightarrow> xs = []"
  by (simp add: min_by_key_def)

lemma max_by_key_in: "max_by_key k xs = Some e \<Longrightarrow> e \<in> set xs"
  unfolding max_by_key_def by (rule select_by_in)

lemma min_by_key_in: "min_by_key k xs = Some e \<Longrightarrow> e \<in> set xs"
  unfolding min_by_key_def by (rule select_by_in)

lemma max_by_key_le: "max_by_key k xs = Some e \<Longrightarrow> y \<in> set xs \<Longrightarrow> k y \<le> k e"
  unfolding max_by_key_def
  by (rule select_by_best [where below = "\<lambda>a b. k a \<le> k b" and r = "\<lambda>x b. k b \<le> k x"]) auto

lemma min_by_key_le: "min_by_key k xs = Some e \<Longrightarrow> y \<in> set xs \<Longrightarrow> k e \<le> k y"
  unfolding min_by_key_def
  by (rule select_by_best [where below = "\<lambda>a b. k b \<le> k a" and r = "\<lambda>x b. k x < k b"]) auto

subsection \<open>Strings\<close>

definition starts_with :: "string \<Rightarrow> string \<Rightarrow> bool" where
  "starts_with p s \<longleftrightarrow> take (length p) s = p"

definition ends_with :: "string \<Rightarrow> string \<Rightarrow> bool" where
  "ends_with p s \<longleftrightarrow> starts_with (rev p) (rev s)"

definition strip_prefix :: "string \<Rightarrow> string \<Rightarrow> string option" where
  "strip_prefix p s = (if starts_with p s then Some (drop (length p) s) else None)"

text \<open>\<open>s.split(c)\<close>: always at least one component.\<close>

fun split_on :: "char \<Rightarrow> string \<Rightarrow> string list" where
  "split_on c [] = [[]]"
| "split_on c (x # xs) =
     (if x = c then [] # split_on c xs
      else (case split_on c xs of [] \<Rightarrow> [[x]] | w # ws \<Rightarrow> (x # w) # ws))"

lemma starts_with_iff: "starts_with p s \<longleftrightarrow> (\<exists>t. s = p @ t)"
  by (metis append_eq_conv_conj append_take_drop_id starts_with_def)

lemma strip_prefix_Some_iff: "strip_prefix p s = Some t \<longleftrightarrow> s = p @ t"
  by (auto simp: strip_prefix_def starts_with_iff)

lemma split_on_nonempty: "split_on c s \<noteq> []"
  by (induction s) (auto split: list.splits)

lemma split_on_no_sep: "w \<in> set (split_on c s) \<Longrightarrow> c \<notin> set w"
proof (induction s arbitrary: w)
  case (Cons x xs)
  then show ?case by (auto split: if_splits list.splits)
qed simp

text \<open>\<open>if !xs.contains(&x) { xs.push(x) }\<close> and the loop that collects distinct items.\<close>

definition push_new :: "'a \<Rightarrow> 'a list \<Rightarrow> 'a list" where
  "push_new x xs = (if x \<in> set xs then xs else xs @ [x])"

text \<open>A \<open>BTreeSet\<close> collected from an iterator: sorted, without duplicates.\<close>

definition to_set :: "'a::linorder list \<Rightarrow> 'a list" where
  "to_set xs = fold insort_insert xs []"

lemma to_set_ok: "sorted (to_set xs)" "distinct (to_set xs)" "set (to_set xs) = set xs"
proof -
  have "sorted acc \<Longrightarrow> distinct acc \<Longrightarrow> sorted (fold insort_insert xs acc) \<and>
      distinct (fold insort_insert xs acc) \<and> set (fold insort_insert xs acc) = set acc \<union> set xs" for acc
    by (induction xs arbitrary: acc)
      (auto simp: sorted_insort_insert distinct_insort_insert set_insort_insert)
  from this [of "[]"] show "sorted (to_set xs)" "distinct (to_set xs)" "set (to_set xs) = set xs"
    by (simp_all add: to_set_def)
qed

lemma to_set_eq: "to_set xs = sorted_list_of_set (set xs)"
  by (rule sorted_distinct_set_unique) (simp_all add: to_set_ok)

end
