(* ===== verification/Chakra_Location.thy ===== *)
theory Chakra_Location
  imports Chakra_Prelude
begin

section \<open>Paths, positions, revisions and lifecycle states\<close>

text \<open>
  The value types at the bottom of \<open>chakra-domain\<close>: repository-relative paths, text
  positions and source ranges (\<open>location.rs\<close>), the workspace revision
  (\<open>revision.rs\<close>), and the freshness and lifecycle enumerations (\<open>state.rs\<close>).
  Private fields with a validating constructor become a datatype, the constructor
  function of the source, and a predicate that holds of exactly the values that function
  can return.
\<close>

subsection \<open>Repository-relative paths\<close>

datatype repo_path = RepoPath (path_str: string)

datatype repo_path_error =
    PathEmpty
  | PathAbsolute string
  | PathDotComponent string
  | PathBackslash string
  | PathTrailingSlash string

definition dot_component :: "string \<Rightarrow> bool" where
  "dot_component c \<longleftrightarrow> c = ''.'' \<or> c = ''..''"

definition repo_path_new :: "string \<Rightarrow> repo_path_error + repo_path" where
  "repo_path_new raw =
     (if raw = [] then Inl PathEmpty
      else if starts_with ''/'' raw \<or> starts_with ''~/'' raw then Inl (PathAbsolute raw)
      else if CHR 0x5C \<in> set raw then Inl (PathBackslash raw)
      else if ends_with ''/'' raw then Inl (PathTrailingSlash raw)
      else if list_ex dot_component (split_on CHR ''/'' raw) then Inl (PathDotComponent raw)
      else Inr (RepoPath raw))"

definition repo_path_ok :: "repo_path \<Rightarrow> bool" where
  "repo_path_ok p \<longleftrightarrow> repo_path_new (path_str p) = Inr p"

instantiation repo_path :: linorder
begin

definition less_eq_repo_path :: "repo_path \<Rightarrow> repo_path \<Rightarrow> bool" where
  "p \<le> q \<longleftrightarrow> path_str p \<le> path_str q"

definition less_repo_path :: "repo_path \<Rightarrow> repo_path \<Rightarrow> bool" where
  "p < q \<longleftrightarrow> path_str p < path_str q"

instance
  by standard (auto simp: less_eq_repo_path_def less_repo_path_def repo_path.expand)

end

lemma repo_path_new_Inr:
  "repo_path_new raw = Inr p \<longleftrightarrow>
     p = RepoPath raw \<and> raw \<noteq> [] \<and> \<not> starts_with ''/'' raw \<and> \<not> starts_with ''~/'' raw \<and>
     CHR 0x5C \<notin> set raw \<and> \<not> ends_with ''/'' raw \<and>
     (\<forall>c\<in>set (split_on CHR ''/'' raw). c \<noteq> ''.'' \<and> c \<noteq> ''..'')"
  by (auto simp: repo_path_new_def list_ex_iff dot_component_def)

lemma repo_path_new_ok: "repo_path_new raw = Inr p \<Longrightarrow> repo_path_ok p"
  by (simp add: repo_path_ok_def repo_path_new_Inr)

lemma repo_path_okD:
  assumes "repo_path_ok p"
  shows "path_str p \<noteq> []" "\<not> starts_with ''/'' (path_str p)" "\<not> ends_with ''/'' (path_str p)"
    "CHR 0x5C \<notin> set (path_str p)" "path_str p \<noteq> ''.''"
    "\<forall>c\<in>set (split_on CHR ''/'' (path_str p)). c \<noteq> ''.'' \<and> c \<noteq> ''..''"
proof -
  show "path_str p \<noteq> ''.''"
  proof
    assume "path_str p = ''.''"
    with assms show False
      by (simp add: repo_path_ok_def repo_path_new_def starts_with_def ends_with_def dot_component_def)
  qed
qed (use assms in \<open>auto simp: repo_path_ok_def repo_path_new_Inr\<close>)

text \<open>
  The file system's reading of a relative path, as the specification of traversal safety:
  start in a directory, given by the names that lead to it from the file-system root, and
  follow the components; \<open>..\<close> leaves the last directory, \<open>.\<close> and the empty component
  stay.
\<close>

fun walk :: "string list \<Rightarrow> string list \<Rightarrow> string list" where
  "walk dir [] = dir"
| "walk dir (c # cs) =
     (if c = [] \<or> c = ''.'' then walk dir cs
      else if c = ''..'' then walk (butlast dir) cs
      else walk (dir @ [c]) cs)"

lemma walk_plain:
  "\<forall>c\<in>set cs. c \<noteq> ''.'' \<and> c \<noteq> ''..'' \<Longrightarrow> walk dir cs = dir @ filter (\<lambda>c. c \<noteq> []) cs"
  by (induction cs arbitrary: dir) auto

subsection \<open>Positions and ranges\<close>

datatype text_position = TextPosition (pos_line: nat) (pos_column: nat)

datatype position_error = PositionError nat nat

definition text_position_new :: "nat \<Rightarrow> nat \<Rightarrow> position_error + text_position" where
  "text_position_new line column =
     (if line = 0 \<or> column = 0 then Inl (PositionError line column)
      else Inr (TextPosition line column))"

definition position_key :: "text_position \<Rightarrow> nat \<times> nat" where
  "position_key p = (pos_line p, pos_column p)"

instantiation text_position :: linorder
begin

definition less_eq_text_position :: "text_position \<Rightarrow> text_position \<Rightarrow> bool" where
  "p \<le> q \<longleftrightarrow> position_key p \<le> position_key q"

definition less_text_position :: "text_position \<Rightarrow> text_position \<Rightarrow> bool" where
  "p < q \<longleftrightarrow> position_key p < position_key q"

instance
  by standard (auto simp: less_eq_text_position_def less_text_position_def position_key_def
      text_position.expand)

end

record source_range =
  range_file :: repo_path
  range_start :: text_position
  range_end :: text_position

datatype range_error =
    RangePosition position_error
  | EndBeforeStart text_position text_position

definition source_range_new ::
  "repo_path \<Rightarrow> text_position \<Rightarrow> text_position \<Rightarrow> range_error + source_range" where
  "source_range_new file start stop =
     (if stop < start then Inl (EndBeforeStart start stop)
      else Inr \<lparr>range_file = file, range_start = start, range_end = stop\<rparr>)"

text \<open>
  Deserialisation (\<open>TextPositionWire\<close>, \<open>SourceRangeWire\<close>): the nested positions validate
  themselves first, then the range; the first failure is the result.
\<close>

definition source_range_decode ::
  "string \<Rightarrow> nat \<times> nat \<Rightarrow> nat \<times> nat \<Rightarrow> (repo_path_error + range_error) + source_range" where
  "source_range_decode file start stop =
     (case repo_path_new file of
        Inl e \<Rightarrow> Inl (Inl e)
      | Inr f \<Rightarrow>
          (case text_position_new (fst start) (snd start) of
             Inl e \<Rightarrow> Inl (Inr (RangePosition e))
           | Inr s \<Rightarrow>
               (case text_position_new (fst stop) (snd stop) of
                  Inl e \<Rightarrow> Inl (Inr (RangePosition e))
                | Inr t \<Rightarrow>
                    (case source_range_new f s t of
                       Inl e \<Rightarrow> Inl (Inr e)
                     | Inr r \<Rightarrow> Inr r))))"

definition text_position_ok :: "text_position \<Rightarrow> bool" where
  "text_position_ok p \<longleftrightarrow> 1 \<le> pos_line p \<and> 1 \<le> pos_column p"

definition source_range_ok :: "source_range \<Rightarrow> bool" where
  "source_range_ok r \<longleftrightarrow>
     repo_path_ok (range_file r) \<and> text_position_ok (range_start r) \<and>
     text_position_ok (range_end r) \<and> range_start r \<le> range_end r"

lemma text_position_new_Inr:
  "text_position_new l c = Inr p \<longleftrightarrow> p = TextPosition l c \<and> text_position_ok p"
  by (auto simp: text_position_new_def text_position_ok_def)

lemma source_range_new_Inr:
  "source_range_new f s t = Inr r \<longleftrightarrow>
     s \<le> t \<and> r = \<lparr>range_file = f, range_start = s, range_end = t\<rparr>"
  by (auto simp: source_range_new_def)

lemma source_range_decode_ok:
  "source_range_decode f s t = Inr r \<longleftrightarrow>
     source_range_ok r \<and> path_str (range_file r) = f \<and>
     (pos_line (range_start r), pos_column (range_start r)) = s \<and>
     (pos_line (range_end r), pos_column (range_end r)) = t"
proof
  assume "source_range_decode f s t = Inr r"
  then obtain p s' t' where p: "repo_path_new f = Inr p"
    and s': "text_position_new (fst s) (snd s) = Inr s'"
    and t': "text_position_new (fst t) (snd t) = Inr t'"
    and r: "source_range_new p s' t' = Inr r"
    by (auto simp: source_range_decode_def split: sum.splits)
  from r have r': "s' \<le> t'" "r = \<lparr>range_file = p, range_start = s', range_end = t'\<rparr>"
    by (simp_all add: source_range_new_Inr)
  have "p = RepoPath f" using p by (simp add: repo_path_new_Inr)
  then have "repo_path_ok p" "path_str p = f" using p by (simp_all add: repo_path_ok_def)
  moreover have "text_position_ok s'" "s' = TextPosition (fst s) (snd s)"
    "text_position_ok t'" "t' = TextPosition (fst t) (snd t)"
    using s' t' unfolding text_position_new_Inr by blast+
  ultimately show "source_range_ok r \<and> path_str (range_file r) = f \<and>
     (pos_line (range_start r), pos_column (range_start r)) = s \<and>
     (pos_line (range_end r), pos_column (range_end r)) = t"
    using r' by (simp add: source_range_ok_def)
next
  assume a: "source_range_ok r \<and> path_str (range_file r) = f \<and>
     (pos_line (range_start r), pos_column (range_start r)) = s \<and>
     (pos_line (range_end r), pos_column (range_end r)) = t"
  then have "repo_path_new f = Inr (range_file r)"
    by (auto simp: source_range_ok_def repo_path_ok_def)
  moreover have "text_position_new (fst s) (snd s) = Inr (range_start r)"
    "text_position_new (fst t) (snd t) = Inr (range_end r)"
    using a by (auto simp: source_range_ok_def text_position_new_Inr text_position.expand)
  moreover have "source_range_new (range_file r) (range_start r) (range_end r) = Inr r"
    using a by (simp add: source_range_ok_def source_range_new_Inr)
  ultimately show "source_range_decode f s t = Inr r"
    by (simp add: source_range_decode_def)
qed

subsection \<open>Revisions\<close>

text \<open>A revision is a \<open>u64\<close>; \<open>next\<close> adds one (and panics or wraps at the top of the type).\<close>

type_synonym revision = nat

definition revision_initial :: revision where "revision_initial = 0"

definition revision_next :: "revision \<Rightarrow> revision" where
  "revision_next r = (r + 1) mod 2 ^ 64"

lemma revision_next_greater: "r < u64_max \<Longrightarrow> revision_next r = Suc r"
  by (simp add: revision_next_def u64_max_def)

subsection \<open>Freshness and lifecycle\<close>

datatype freshness = Fresh | Stale

datatype freshness_requirement = RequireFresh | AllowStale

fun is_satisfied_by :: "freshness_requirement \<Rightarrow> freshness \<Rightarrow> bool" where
  "is_satisfied_by RequireFresh f \<longleftrightarrow> f = Fresh"
| "is_satisfied_by AllowStale f \<longleftrightarrow> True"

datatype provider_state =
    NotConfigured
  | Dormant
  | ProviderInitializing
  | ProviderReady
  | CatchingUp
  | ProviderDegraded

datatype workspace_status =
    StatusInitializing
  | StatusIndexing
  | StatusReady
  | StatusDegraded
  | StatusStale
  | StatusFailed

lemma split_on_hd: "hd (split_on c s) = [] \<longleftrightarrow> s = [] \<or> hd s = c"
  by (cases s) (auto split: list.splits simp: split_on_nonempty)

lemma split_on_last: "last (split_on c s) = [] \<longleftrightarrow> s = [] \<or> last s = c"
proof (induction s)
  case (Cons x xs)
  then show ?case
    using split_on_nonempty [of c xs] by (cases xs) (auto simp: split_on_nonempty split: list.splits if_splits)
qed simp

lemma split_on_home:
  assumes "hd (split_on CHR ''/'' s) = ''~''"
  shows "split_on CHR ''/'' s = [''~''] \<or> starts_with ''~/'' s"
proof (cases s)
  case (Cons x xs)
  show ?thesis
  proof (cases "x = CHR ''/''")
    case False
    obtain w ws where w: "split_on CHR ''/'' xs = w # ws"
      using split_on_nonempty [of "CHR ''/''" xs] by (cases "split_on CHR ''/'' xs") auto
    with assms Cons False have "x = CHR ''~''" "w = []" by auto
    moreover from this w have "xs = [] \<or> hd xs = CHR ''/''" using split_on_hd [of "CHR ''/''" xs] by simp
    ultimately show ?thesis using Cons by (cases xs) (auto simp: starts_with_def)
  qed (use assms Cons in simp)
qed (use assms in simp)

text \<open>
  C1: Traversal safety. A string accepted as a repository-relative path is kept as it is; it
  starts and ends with a non-empty component, so it is neither empty nor absolute nor ends with
  a slash; it has no prefix \<open>~/\<close> and no backslash; and read by the file
  system from any directory it ends strictly below that directory: the walk only appends the
  path's non-empty components and never leaves the directory it starts in.
\<close>

theorem repo_path_traversal_safe:
  assumes "repo_path_new raw = Inr p"
  shows "let components = split_on CHR ''/'' raw
    in path_str p = raw \<and> hd components \<noteq> [] \<and> last components \<noteq> [] \<and>
       (hd components = ''~'' \<longrightarrow> components = [''~'']) \<and> CHR 0x5C \<notin> set raw \<and>
       walk dir components = dir @ filter (\<lambda>c. c \<noteq> []) components \<and>
       length dir < length (walk dir components)"
proof -
  have p: "path_str p = raw" "raw \<noteq> []" "\<not> starts_with ''/'' raw" "\<not> starts_with ''~/'' raw"
    "CHR 0x5C \<notin> set raw" "\<not> ends_with ''/'' raw"
    "\<forall>c\<in>set (split_on CHR ''/'' raw). c \<noteq> ''.'' \<and> c \<noteq> ''..''"
    using assms by (auto simp: repo_path_new_Inr)
  have first: "hd (split_on CHR ''/'' raw) \<noteq> []"
    using p(2,3) by (cases raw) (auto simp: split_on_hd starts_with_def simp del: split_on.simps)
  have final: "last (split_on CHR ''/'' raw) \<noteq> []"
    using p(2,6) by (cases raw rule: rev_cases) (auto simp: split_on_last ends_with_def starts_with_def simp del: split_on.simps)
  note path = walk_plain [OF p(7), of dir]
  have "hd (split_on CHR ''/'' raw) \<in> set (filter (\<lambda>c. c \<noteq> []) (split_on CHR ''/'' raw))"
    using first split_on_nonempty by simp
  then have "0 < length (filter (\<lambda>c. c \<noteq> []) (split_on CHR ''/'' raw))" by (rule length_pos_if_in_set)
  with first final path p(1,4,5) split_on_home [of raw] show ?thesis by (auto simp: Let_def)
qed

theorem repo_path_traversal_safe_witness:
  "walk [''repo''] (split_on CHR ''/'' ''src/a.rs'') = [''repo'', ''src'', ''a.rs'']"
proof -
  have "repo_path_new ''src/a.rs'' = Inr (RepoPath ''src/a.rs'')"
    by (simp add: repo_path_new_def starts_with_def ends_with_def dot_component_def)
  from repo_path_traversal_safe [OF this, of "[''repo'']"] show ?thesis
    by (simp add: Let_def)
qed

text \<open>
  Validated deserialisation of a source range succeeds on exactly the wire values that
  describe a well-formed range (valid path, one-based positions, end not before start), and
  then returns the range with those fields: no zero position and no reversed range enters
  the core, and no well-formed range is refused.
\<close>

theorem source_range_decode_exact:
  "source_range_decode file (l, c) (l', c') = Inr r \<longleftrightarrow>
     source_range_ok r \<and> path_str (range_file r) = file \<and>
     range_start r = TextPosition l c \<and> range_end r = TextPosition l' c'"
  by (auto simp: source_range_decode_ok text_position.expand)

end
