(* ===== verification/Chakra_Symbols.thy ===== *)
theory Chakra_Symbols
  imports Chakra_Location "HOL-Library.Word"
begin

section \<open>Symbols, relations and source metadata\<close>

text \<open>
  The fact vocabulary of \<open>chakra-domain\<close>: languages, symbols, edges and call sites
  (\<open>symbol.rs\<close>), precision and provenance (\<open>provenance.rs\<close>), source roles and
  metadata (\<open>source.rs\<close>), and syntax diagnostics (\<open>diagnostic.rs\<close>). Enumerations
  that derive \<open>Ord\<close> are ordered by the position of their variant.
\<close>

subsection \<open>Languages, precision, provenance\<close>

datatype language =
    LangRust
  | LangPhp
  | LangTypeScript
  | LangPython
  | LangJavaScript
  | LangJava
  | LangCSharp
  | LangShell
  | LangCpp
  | LangHcl
  | LangGo
  | LangKotlin

definition language_all :: "language list" where
  "language_all =
     [LangRust, LangPhp, LangTypeScript, LangPython, LangJavaScript, LangJava,
      LangCSharp, LangShell, LangCpp, LangHcl, LangGo, LangKotlin]"

fun language_rank :: "language \<Rightarrow> nat" where
  "language_rank LangRust = 0"
| "language_rank LangPhp = 1"
| "language_rank LangTypeScript = 2"
| "language_rank LangPython = 3"
| "language_rank LangJavaScript = 4"
| "language_rank LangJava = 5"
| "language_rank LangCSharp = 6"
| "language_rank LangShell = 7"
| "language_rank LangCpp = 8"
| "language_rank LangHcl = 9"
| "language_rank LangGo = 10"
| "language_rank LangKotlin = 11"

lemma language_rank_inj: "language_rank a = language_rank b \<Longrightarrow> a = b"
  by (cases a; cases b) simp_all

instantiation language :: linorder
begin

definition less_eq_language :: "language \<Rightarrow> language \<Rightarrow> bool" where
  "a \<le> b \<longleftrightarrow> language_rank a \<le> language_rank b"

definition less_language :: "language \<Rightarrow> language \<Rightarrow> bool" where
  "a < b \<longleftrightarrow> language_rank a < language_rank b"

instance
  by standard (auto simp: less_eq_language_def less_language_def intro: language_rank_inj)

end

lemma language_all_UNIV: "set language_all = UNIV"
proof -
  have "l \<in> set language_all" for l by (cases l) (simp_all add: language_all_def)
  then show ?thesis by auto
qed

datatype precision = Textual | Heuristic | Syntax | Precise

fun precision_rank :: "precision \<Rightarrow> nat" where
  "precision_rank Textual = 0"
| "precision_rank Heuristic = 1"
| "precision_rank Syntax = 2"
| "precision_rank Precise = 3"

lemma precision_rank_inj: "precision_rank a = precision_rank b \<Longrightarrow> a = b"
  by (cases a; cases b) simp_all

instantiation precision :: linorder
begin

definition less_eq_precision :: "precision \<Rightarrow> precision \<Rightarrow> bool" where
  "a \<le> b \<longleftrightarrow> precision_rank a \<le> precision_rank b"

definition less_precision :: "precision \<Rightarrow> precision \<Rightarrow> bool" where
  "a < b \<longleftrightarrow> precision_rank a < precision_rank b"

instance
  by standard (auto simp: less_eq_precision_def less_precision_def intro: precision_rank_inj)

end

datatype provenance =
    RustAnalyzer
  | Vtsls
  | Pyright
  | Jdtls
  | CsharpLs
  | BashLanguageServer
  | Clangd
  | TerraformLs
  | Gopls
  | KotlinLsp
  | ChakraResolver
  | TreeSitter
  | ProvGit
  | TextSearch
  | ProvHeuristic

subsection \<open>Symbols, edges and call sites\<close>

datatype symbol_kind =
    KindModule
  | KindFunction
  | KindMethod
  | KindStruct
  | KindClass
  | KindEnum
  | KindTrait
  | KindInterface
  | KindConstant
  | KindField
  | KindProperty
  | KindTypeAlias
  | KindImplBlock
  | KindImport
  | KindTest
  | KindConfiguration

text \<open>\<open>EntityId(pub u64)\<close>, a 64-bit word so that the slot tag and counter are bits.\<close>

type_synonym entity_id = "64 word"

record symbol_key =
  key_language :: language
  qualified_name :: string
  container :: "string option"
  key_kind :: symbol_kind
  key_path :: repo_path

record symbol =
  sym_id :: entity_id
  sym_key :: symbol_key
  sym_location :: source_range
  signature :: "string option"
  sym_provenance :: provenance
  sym_precision :: precision

text \<open>
  \<open>s.rsplit_once("::")\<close>: the parts around the rightmost occurrence of the separator;
  \<open>s.rsplit("::").next()\<close> is the part after it, or all of \<open>s\<close>.
\<close>

fun rsplit_once_sep :: "string \<Rightarrow> (string \<times> string) option" where
  "rsplit_once_sep (x # y # zs) =
     (case rsplit_once_sep (y # zs) of
        Some (a, b) \<Rightarrow> Some (x # a, b)
      | None \<Rightarrow> if x = CHR '':'' \<and> y = CHR '':'' then Some ([], zs) else None)"
| "rsplit_once_sep _ = None"

definition last_segment :: "string \<Rightarrow> string" where
  "last_segment s = (case rsplit_once_sep s of None \<Rightarrow> s | Some (_, b) \<Rightarrow> b)"

definition symbol_name :: "symbol \<Rightarrow> string" where
  "symbol_name s = last_segment (qualified_name (sym_key s))"

datatype edge_kind =
    Contains
  | Defines
  | References
  | Calls
  | Imports
  | Implements
  | Extends
  | Tests
  | DependsOn
  | Binds
  | Resolves
  | RoutesTo
  | Dispatches
  | ListensTo
  | Schedules
  | Registers
  | AuthorizesWith
  | ModifiedBy

record edge =
  edge_kind :: edge_kind
  edge_from :: entity_id
  edge_to :: entity_id
  edge_provenance :: provenance
  edge_precision :: precision
  edge_location :: "source_range option"

datatype call_form = FormFunction | FormMember | FormNullsafeMember | FormScoped

datatype call_target_kind =
    TargetFunction
  | TargetMethod
  | TargetFunctionOrMethod
  | TargetTest
  | TargetConfiguration

fun call_target_rank :: "call_target_kind \<Rightarrow> nat" where
  "call_target_rank TargetFunction = 0"
| "call_target_rank TargetMethod = 1"
| "call_target_rank TargetFunctionOrMethod = 2"
| "call_target_rank TargetTest = 3"
| "call_target_rank TargetConfiguration = 4"

lemma call_target_rank_inj: "call_target_rank a = call_target_rank b \<Longrightarrow> a = b"
  by (cases a; cases b) simp_all

instantiation call_target_kind :: linorder
begin

definition less_eq_call_target_kind :: "call_target_kind \<Rightarrow> call_target_kind \<Rightarrow> bool" where
  "a \<le> b \<longleftrightarrow> call_target_rank a \<le> call_target_rank b"

definition less_call_target_kind :: "call_target_kind \<Rightarrow> call_target_kind \<Rightarrow> bool" where
  "a < b \<longleftrightarrow> call_target_rank a < call_target_rank b"

instance
  by standard (auto simp: less_eq_call_target_kind_def less_call_target_kind_def intro: call_target_rank_inj)

end

datatype receiver_type_source =
    ReceiverThis
  | ReceiverParameter
  | ReceiverProperty
  | ReceiverPromotedProperty
  | ReceiverLocalNew
  | ReceiverServiceLocator
  | ReceiverScopedType
  | ReceiverSelfType
  | ReceiverParentType

datatype call_resolution =
    Resolved entity_id
  | Ambiguous nat
  | Unresolved

record call_site =
  site_caller :: entity_id
  site_form :: call_form
  site_target_kind :: call_target_kind
  site_name :: string
  site_qualifier :: "string option"
  site_receiver_type :: "string option"
  site_receiver_type_source :: "receiver_type_source option"
  site_receiver_hint :: "string option"
  site_location :: source_range
  site_resolution :: call_resolution
  site_provenance :: provenance
  site_precision :: precision

definition max_receiver_hint_chars :: nat where "max_receiver_hint_chars = 128"

lemma rsplit_once_sep_Some:
  "rsplit_once_sep s = Some (a, b) \<Longrightarrow> s = a @ ''::'' @ b \<and> rsplit_once_sep b = None"
proof (induction s arbitrary: a rule: rsplit_once_sep.induct)
  case (1 x y zs)
  show ?case
  proof (cases "rsplit_once_sep (y # zs)")
    case None
    moreover from None have "rsplit_once_sep zs = None"
      by (cases zs) (auto split: option.splits)
    ultimately show ?thesis using "1.prems" by (auto split: if_splits)
  next
    case (Some ab)
    then obtain a' b' where ab: "rsplit_once_sep (y # zs) = Some (a', b')"
      by (cases ab) auto
    with "1.prems" have "a = x # a'" "b = b'" by auto
    with "1.IH" [of a'] ab show ?thesis by simp
  qed
qed simp_all

lemma last_segment_suffix: "\<exists>p. s = p @ last_segment s"
proof (cases "rsplit_once_sep s")
  case None
  then show ?thesis by (simp add: last_segment_def)
next
  case (Some ab)
  then obtain a b where "rsplit_once_sep s = Some (a, b)" by (cases ab) auto
  then show ?thesis
    using rsplit_once_sep_Some [of s a b] by (auto simp: last_segment_def)
qed

lemma last_segment_flat: "rsplit_once_sep (last_segment s) = None"
  by (auto simp: last_segment_def dest: rsplit_once_sep_Some split: option.splits)

subsection \<open>Source roles and metadata\<close>

datatype source_role =
    Production
  | RoleTest
  | RoleExample
  | RoleBench
  | RoleFixture
  | Generated
  | Vendor

datatype source_classification =
    CargoMetadata
  | ComposerMetadata
  | PackageJsonMetadata
  | PyprojectMetadata
  | MavenMetadata
  | GradleMetadata
  | DotnetProjectMetadata
  | ShellProjectMetadata
  | CppProjectMetadata
  | TerraformModuleMetadata
  | GoModuleMetadata
  | PathFallbackMetadata

record source_package =
  package_name :: string
  package_root :: "repo_path option"

record source_metadata =
  meta_role :: source_role
  meta_classification :: source_classification
  meta_package :: "source_package option"

definition ascii_lower :: "char \<Rightarrow> char" where
  "ascii_lower c = (if CHR ''A'' \<le> c \<and> c \<le> CHR ''Z'' then char_of (of_char c + (32::nat)) else c)"

definition eq_ignore_ascii_case :: "string \<Rightarrow> string \<Rightarrow> bool" where
  "eq_ignore_ascii_case s t \<longleftrightarrow> map ascii_lower s = map ascii_lower t"

definition path_contains :: "repo_path \<Rightarrow> string list \<Rightarrow> bool" where
  "path_contains p names \<longleftrightarrow>
     list_ex (\<lambda>component. list_ex (eq_ignore_ascii_case component) names)
       (split_on CHR ''/'' (path_str p))"

definition classify_path_role :: "repo_path \<Rightarrow> source_role" where
  "classify_path_role p =
     (if path_contains p [''vendor'', ''third_party'', ''third-party''] then Vendor
      else if path_contains p [''generated'', ''autogen'', ''codegen''] then Generated
      else if path_contains p
        [''fixture'', ''fixtures'', ''snapshot'', ''snapshots'', ''test_data'', ''testdata'', ''golden'']
      then RoleFixture
      else if path_contains p [''benches'', ''benchmarks''] then RoleBench
      else if path_contains p [''examples'', ''example''] then RoleExample
      else if path_contains p [''tests'', ''test''] then RoleTest
      else Production)"

definition path_fallback_metadata :: "repo_path \<Rightarrow> source_metadata" where
  "path_fallback_metadata p =
     \<lparr>meta_role = classify_path_role p, meta_classification = PathFallbackMetadata,
      meta_package = None\<rparr>"

subsection \<open>Syntax diagnostics\<close>

datatype diagnostic_kind = DiagError | DiagMissing

datatype known_grammar_gap =
    PhpTypedClassConstantNamedDefault
  | RustLifetimeFirstTraitObject
  | RustAttributeOnPatternField

datatype diagnostic_cause = ParseRecovery | KnownGrammarGap known_grammar_gap

record syntax_diagnostic =
  diag_language :: language
  diag_range :: source_range
  diag_kind :: diagnostic_kind
  diag_provenance :: provenance
  diag_precision :: precision
  diag_cause :: diagnostic_cause
  diag_node_kind :: string

end
