(* ===== verification/Symbol_Graph.thy ===== *)
theory Symbol_Graph
  imports Chakra_Symbols
begin

section \<open>The symbol graph: state, symbols and files\<close>

text \<open>
  Models \<open>SymbolGraph\<close> of \<open>chakra-engine/src/graph.rs\<close> for one owned language
  partition: the record of its arenas and indexes, the entity-id layout, the callable
  lookup keys, and every operation on files and symbols (\<open>add_file\<close> and its variants,
  \<open>add_symbol\<close>, \<open>remove_file\<close>, the \<open>replace_\<close> family). Edges, call sites, bounded
  construction and composed graphs are in the theories that import this one.

  Each persistent map (\<open>HashTrieMapSync\<close>, \<open>RedBlackTreeMapSync\<close>) is an ordered map; the
  \<open>Arc\<close> around a payload is sharing only and is left out. Case folding
  (\<open>str::to_lowercase\<close>, Unicode tables) is the parameter \<open>lower\<close>; nothing is assumed
  about it.
\<close>

subsection \<open>Data\<close>

datatype source_layer = CommitSnapshot | WorktreeOverlay

text \<open>\<open>CallLookupKey\<close>: language, target kind, name, qualifier.\<close>

type_synonym call_lookup_key = "language \<times> call_target_kind \<times> string \<times> string option"

record indexed_file =
  file_symbols :: "entity_id list"
  file_source :: "string option"
  file_provenance :: provenance
  file_precision :: precision
  file_metadata :: source_metadata
  file_diagnostics :: "syntax_diagnostic list"
  file_diagnostic_count :: nat

record partition =
  symbols :: "(entity_id, symbol) omap"
  symbols_by_exact_name :: "(string, entity_id list) omap"
  symbols_by_folded_name :: "(string, entity_id list) omap"
  files :: "(repo_path, indexed_file) omap"
  outgoing :: "(entity_id, edge list) omap"
  incoming :: "(entity_id, edge list) omap"
  relationship_edges_by_owner :: "(repo_path, edge list) omap"
  edge_count :: nat
  call_sites :: "(nat, call_site) omap"
  call_sites_by_caller :: "(entity_id, nat list) omap"
  call_sites_by_lookup :: "(call_lookup_key, nat list) omap"
  callables :: "(call_lookup_key, entity_id list) omap"
  ambiguous_call_sites :: nat
  unresolved_call_sites :: nat
  truncated_call_sites :: nat
  next_entity_ids :: "nat list"
  next_call_site_id :: nat
  symbol_counts :: "nat list"
  adjacency_entries_copied :: nat

datatype consistency_error =
    ConsistencyUnknownEntity entity_id
  | IdKeyMismatch entity_id entity_id
  | EdgeWrongOutgoingKey entity_id entity_id
  | EdgeWrongIncomingKey entity_id entity_id
  | EdgeMirrorMissing entity_id entity_id
  | EdgeIncomingMirrorMissing entity_id entity_id
  | EdgeCountMismatch nat nat nat
  | FileIndexMismatch
  | ExactNameIndexMismatch
  | FoldedNameIndexMismatch
  | CallableIndexMismatch
  | AuditCallSiteLocationMismatch nat
  | CallSiteResolutionMismatch nat
  | ResolvedCallEdgeMissing nat
  | ResolvedTestEdgeMissing nat
  | CallSiteIndexMismatch
  | CallSiteCountMismatch nat nat nat nat
  | RelationshipOwnershipMismatch
  | AuditDiagnosticCountUnderflow repo_path nat nat
  | AuditDiagnosticPathMismatch repo_path repo_path
  | AuditInvalidDiagnosticQuality repo_path provenance precision

datatype graph_error =
    KeyLocationMismatch string string
  | UnknownEntity entity_id
  | DuplicateFile repo_path
  | UnknownFile repo_path
  | EmptyCallSiteName
  | ReceiverHintTooLong nat
  | ReceiverTypeEvidenceMismatch
  | CallSiteLocationMismatch entity_id repo_path repo_path
  | OverlappingLanguageGraph language
  | EntityStillReferenced entity_id
  | MissingOwnedEdge
  | CompositeMutation
  | EntityIdSpaceExhausted language
  | PreservedEntityKeyChanged entity_id
  | DiagnosticPathMismatch repo_path repo_path
  | DiagnosticCountUnderflow nat nat
  | InvalidDiagnosticQuality provenance precision
  | Consistency consistency_error

type_synonym 'a graph_op = "(partition, graph_error, 'a) op"

definition entity_id_slot_count :: nat where "entity_id_slot_count = 16"
definition entity_id_slot_shift :: nat where "entity_id_slot_shift = 60"
definition entity_id_counter_limit :: nat where "entity_id_counter_limit = 2 ^ entity_id_slot_shift"

text \<open>\<open>SymbolGraph::new()\<close>, the derived default.\<close>

definition partition_new :: partition where
  "partition_new =
     \<lparr>symbols = [], symbols_by_exact_name = [], symbols_by_folded_name = [], files = [],
      outgoing = [], incoming = [], relationship_edges_by_owner = [], edge_count = 0,
      call_sites = [], call_sites_by_caller = [], call_sites_by_lookup = [], callables = [],
      ambiguous_call_sites = 0, unresolved_call_sites = 0, truncated_call_sites = 0,
      next_entity_ids = replicate entity_id_slot_count 0, next_call_site_id = 0,
      symbol_counts = replicate entity_id_slot_count 0, adjacency_entries_copied = 0\<rparr>"

subsection \<open>Entity ids\<close>

definition entity_slot_languages :: "language list" where
  "entity_slot_languages =
     [LangRust, LangPhp, LangTypeScript, LangPython, LangJavaScript, LangJava,
      LangCSharp, LangShell, LangCpp, LangHcl, LangGo, LangKotlin]"

fun language_entity_slot :: "language \<Rightarrow> nat" where
  "language_entity_slot LangRust = 0"
| "language_entity_slot LangPhp = 1"
| "language_entity_slot LangTypeScript = 2"
| "language_entity_slot LangPython = 3"
| "language_entity_slot LangJavaScript = 4"
| "language_entity_slot LangJava = 5"
| "language_entity_slot LangCSharp = 6"
| "language_entity_slot LangShell = 7"
| "language_entity_slot LangCpp = 8"
| "language_entity_slot LangHcl = 9"
| "language_entity_slot LangGo = 10"
| "language_entity_slot LangKotlin = 11"

text \<open>\<open>((slot as u64) << ENTITY_ID_SLOT_SHIFT) + counter\<close>.\<close>

definition entity_id_of :: "nat \<Rightarrow> nat \<Rightarrow> entity_id" where
  "entity_id_of slot counter = push_bit entity_id_slot_shift (word_of_nat slot) + word_of_nat counter"

lemma language_entity_slot_less: "language_entity_slot l < 12"
  by (cases l) simp_all

lemma language_entity_slot_count [simp]: "language_entity_slot l < entity_id_slot_count"
  using language_entity_slot_less [of l] by (simp add: entity_id_slot_count_def)

lemma language_entity_slot_inj: "language_entity_slot a = language_entity_slot b \<longleftrightarrow> a = b"
  by (cases a; cases b) simp_all

lemma entity_slot_languages_nth:
  "language_entity_slot l < length entity_slot_languages \<and>
   entity_slot_languages ! language_entity_slot l = l"
  by (cases l) (simp_all add: entity_slot_languages_def)

lemma unat_entity_id_of:
  assumes "slot < entity_id_slot_count" "counter < entity_id_counter_limit"
  shows "unat (entity_id_of slot counter) = slot * 2 ^ 60 + counter"
proof -
  have "slot * 2 ^ 60 + counter < 2 ^ 64"
    using assms by (simp add: entity_id_slot_count_def entity_id_counter_limit_def
        entity_id_slot_shift_def)
  moreover have "entity_id_of slot counter = word_of_nat (slot * 2 ^ 60 + counter)"
    by (simp add: entity_id_of_def entity_id_slot_shift_def push_bit_eq_mult mult.commute)
  ultimately show ?thesis
    by (simp only: unsigned_of_nat take_bit_eq_mod) simp
qed

lemma entity_id_of_inj:
  assumes "slot < entity_id_slot_count" "counter < entity_id_counter_limit"
    "slot' < entity_id_slot_count" "counter' < entity_id_counter_limit"
  shows "entity_id_of slot counter = entity_id_of slot' counter' \<longleftrightarrow> slot = slot' \<and> counter = counter'"
proof
  assume "entity_id_of slot counter = entity_id_of slot' counter'"
  then have eq: "slot * 2 ^ 60 + counter = slot' * 2 ^ 60 + counter'"
    using unat_entity_id_of [OF assms(1,2)] unat_entity_id_of [OF assms(3,4)] by simp
  have "counter < 2 ^ 60" "counter' < 2 ^ 60"
    using assms by (simp_all add: entity_id_counter_limit_def entity_id_slot_shift_def)
  with eq have "slot = slot'" by simp
  with eq show "slot = slot' \<and> counter = counter'" by simp
qed simp

text \<open>The slot tag is the top four bits.\<close>

lemma entity_id_of_slot:
  assumes "slot < entity_id_slot_count" "counter < entity_id_counter_limit"
  shows "drop_bit 60 (entity_id_of slot counter) = word_of_nat slot"
proof -
  have "counter < 2 ^ 60"
    using assms by (simp add: entity_id_counter_limit_def entity_id_slot_shift_def)
  moreover have "unat (drop_bit 60 (entity_id_of slot counter)) = drop_bit 60 (slot * 2 ^ 60 + counter)"
    by (simp only: unat_drop_bit_eq unat_entity_id_of [OF assms])
  ultimately have "unat (drop_bit 60 (entity_id_of slot counter)) = slot"
    by (simp add: drop_bit_eq_div)
  moreover have "unat (word_of_nat slot :: 64 word) = slot"
    using assms by (simp add: unsigned_of_nat take_bit_eq_mod entity_id_slot_count_def)
  ultimately show ?thesis by (simp add: word_unat_eq_iff)
qed

lemma entity_id_of_less:
  assumes "slot < entity_id_slot_count" "counter < counter'" "counter' < entity_id_counter_limit"
  shows "entity_id_of slot counter < entity_id_of slot counter'"
  using assms by (simp add: word_less_nat_alt unat_entity_id_of)

subsection \<open>Lookup keys\<close>

fun call_target_kind_of :: "symbol_kind \<Rightarrow> call_target_kind option" where
  "call_target_kind_of KindFunction = Some TargetFunction"
| "call_target_kind_of KindMethod = Some TargetMethod"
| "call_target_kind_of KindTest = Some TargetTest"
| "call_target_kind_of KindModule = Some TargetConfiguration"
| "call_target_kind_of KindProperty = Some TargetConfiguration"
| "call_target_kind_of KindConfiguration = Some TargetConfiguration"
| "call_target_kind_of _ = None"

definition callable_qualifiers :: "symbol_key \<Rightarrow> string option list" where
  "callable_qualifiers key =
     (let qs = [None] @ (case container key of None \<Rightarrow> [] | Some c \<Rightarrow> [Some c])
      in case rsplit_once_sep (qualified_name key) of
           None \<Rightarrow> qs
         | Some (c, _) \<Rightarrow> push_new (Some (last_segment c)) (push_new (Some c) qs))"

definition callable_lookup_keys :: "symbol \<Rightarrow> call_lookup_key list" where
  "callable_lookup_keys s =
     (case call_target_kind_of (key_kind (sym_key s)) of
        None \<Rightarrow> []
      | Some k \<Rightarrow>
          map (\<lambda>q. (key_language (sym_key s), k, symbol_name s, q))
            (callable_qualifiers (sym_key s)))"

text \<open>
  The loop over \<open>[simple, qualified]\<close> that stops after the first round when both are the
  same name, for the exact and for the case-folded index.
\<close>

definition name_pair :: "string \<Rightarrow> string \<Rightarrow> string list" where
  "name_pair simple qualified = (if simple = qualified then [simple] else [simple, qualified])"

definition exact_names :: "symbol \<Rightarrow> string list" where
  "exact_names s = name_pair (symbol_name s) (qualified_name (sym_key s))"

definition folded_names :: "(string \<Rightarrow> string) \<Rightarrow> symbol \<Rightarrow> string list" where
  "folded_names lower s = name_pair (lower (symbol_name s)) (lower (qualified_name (sym_key s)))"

definition index_symbol :: "(symbol \<Rightarrow> 'k::linorder list) \<Rightarrow> symbol \<Rightarrow>
    ('k, entity_id list) omap \<Rightarrow> ('k, entity_id list) omap" where
  "index_symbol keys_of s m = fold (\<lambda>k. index_push k (sym_id s)) (keys_of s) m"

definition unindex_symbol :: "(symbol \<Rightarrow> 'k::linorder list) \<Rightarrow> symbol \<Rightarrow>
    ('k, entity_id list) omap \<Rightarrow> ('k, entity_id list) omap" where
  "unindex_symbol keys_of s m = fold (\<lambda>k. index_drop k (sym_id s)) (keys_of s) m"

subsection \<open>Files\<close>

definition validate_diagnostics ::
    "repo_path \<Rightarrow> syntax_diagnostic list \<Rightarrow> nat \<Rightarrow> graph_error option" where
  "validate_diagnostics path diagnostics diag_total =
     (if diag_total < length diagnostics
      then Some (DiagnosticCountUnderflow diag_total (length diagnostics))
      else case find (\<lambda>d. range_file (diag_range d) \<noteq> path) diagnostics of
        Some d \<Rightarrow> Some (DiagnosticPathMismatch path (range_file (diag_range d)))
      | None \<Rightarrow>
          (case find (\<lambda>d. diag_provenance d \<noteq> TreeSitter \<or> diag_precision d \<noteq> Syntax) diagnostics of
             Some d \<Rightarrow> Some (InvalidDiagnosticQuality (diag_provenance d) (diag_precision d))
           | None \<Rightarrow> None))"

definition add_file_full ::
    "repo_path \<Rightarrow> string \<Rightarrow> source_metadata \<Rightarrow> syntax_diagnostic list \<Rightarrow> nat \<Rightarrow> unit graph_op" where
  "add_file_full path source metadata diagnostics diag_total g =
     (case validate_diagnostics path diagnostics diag_total of
        Some e \<Rightarrow> (Inl e, g)
      | None \<Rightarrow>
          (case omap_get (files g) path of
             None \<Rightarrow>
               (Inr (), g\<lparr>files := omap_insert path
                  \<lparr>file_symbols = [], file_source = Some source, file_provenance = ProvGit,
                   file_precision = Precise, file_metadata = metadata,
                   file_diagnostics = diagnostics, file_diagnostic_count = diag_total\<rparr> (files g)\<rparr>)
           | Some existing \<Rightarrow>
               if file_source existing \<noteq> None then (Inl (DuplicateFile path), g)
               else (Inr (), g\<lparr>files := omap_insert path
                  (existing\<lparr>file_source := Some source, file_provenance := ProvGit,
                     file_precision := Precise, file_metadata := metadata,
                     file_diagnostics := diagnostics, file_diagnostic_count := diag_total\<rparr>) (files g)\<rparr>)))"

definition add_file_with_metadata :: "repo_path \<Rightarrow> string \<Rightarrow> source_metadata \<Rightarrow> unit graph_op" where
  "add_file_with_metadata path source metadata = add_file_full path source metadata [] 0"

definition add_file :: "repo_path \<Rightarrow> string \<Rightarrow> unit graph_op" where
  "add_file path source = add_file_with_metadata path source (path_fallback_metadata path)"

definition replace_file_source :: "repo_path \<Rightarrow> string \<Rightarrow> unit graph_op" where
  "replace_file_source path source g =
     (case omap_get (files g) path of
        None \<Rightarrow> (Inl (UnknownFile path), g)
      | Some existing \<Rightarrow>
          (Inr (), g\<lparr>files := omap_insert path
             (existing\<lparr>file_source := Some source, file_provenance := ProvGit,
                file_precision := Precise\<rparr>) (files g)\<rparr>))"

definition replace_file_source_and_diagnostics ::
    "repo_path \<Rightarrow> string \<Rightarrow> syntax_diagnostic list \<Rightarrow> nat \<Rightarrow> unit graph_op" where
  "replace_file_source_and_diagnostics path source diagnostics diag_total g =
     (case validate_diagnostics path diagnostics diag_total of
        Some e \<Rightarrow> (Inl e, g)
      | None \<Rightarrow>
          (case omap_get (files g) path of
             None \<Rightarrow> (Inl (UnknownFile path), g)
           | Some existing \<Rightarrow>
               (Inr (), g\<lparr>files := omap_insert path
                  (existing\<lparr>file_source := Some source, file_provenance := ProvGit,
                     file_precision := Precise, file_diagnostics := diagnostics,
                     file_diagnostic_count := diag_total\<rparr>) (files g)\<rparr>)))"

definition replace_file_metadata :: "repo_path \<Rightarrow> source_metadata \<Rightarrow> bool graph_op" where
  "replace_file_metadata path metadata g =
     (case omap_get (files g) path of
        None \<Rightarrow> (Inl (UnknownFile path), g)
      | Some existing \<Rightarrow>
          if file_metadata existing = metadata then (Inr False, g)
          else (Inr True, g\<lparr>files := omap_insert path (existing\<lparr>file_metadata := metadata\<rparr>) (files g)\<rparr>))"

subsection \<open>Symbols\<close>

definition file_for_symbol :: "symbol \<Rightarrow> partition \<Rightarrow> indexed_file" where
  "file_for_symbol s g =
     (case omap_get (files g) (range_file (sym_location s)) of
        Some f \<Rightarrow> f
      | None \<Rightarrow>
          \<lparr>file_symbols = [], file_source = None, file_provenance = sym_provenance s,
           file_precision = sym_precision s,
           file_metadata = path_fallback_metadata (range_file (sym_location s)),
           file_diagnostics = [], file_diagnostic_count = 0\<rparr>)"

definition add_symbol ::
    "(string \<Rightarrow> string) \<Rightarrow> symbol_key \<Rightarrow> source_range \<Rightarrow> string option \<Rightarrow> provenance \<Rightarrow> precision \<Rightarrow>
     entity_id graph_op" where
  "add_symbol lower key location signatur provenanc precisio g =
     (if key_path key \<noteq> range_file location
      then (Inl (KeyLocationMismatch (path_str (key_path key)) (path_str (range_file location))), g)
      else
        (let slot = language_entity_slot (key_language key);
             counter = next_entity_ids g ! slot
         in if entity_id_counter_limit \<le> counter
            then (Inl (EntityIdSpaceExhausted (key_language key)), g)
            else
              (let id = entity_id_of slot counter;
                   s = \<lparr>sym_id = id, sym_key = key, sym_location = location, signature = signatur,
                        sym_provenance = provenanc, sym_precision = precisio\<rparr>;
                   file = file_for_symbol s g
               in (Inr id,
                   g\<lparr>next_entity_ids := (next_entity_ids g)[slot := counter + 1],
                     symbol_counts := (symbol_counts g)[slot := sat_add64 (symbol_counts g ! slot) 1],
                     files := omap_insert (range_file location)
                       (file\<lparr>file_symbols := file_symbols file @ [id]\<rparr>) (files g),
                     callables := index_symbol callable_lookup_keys s (callables g),
                     symbols_by_exact_name := index_symbol exact_names s (symbols_by_exact_name g),
                     symbols_by_folded_name :=
                       index_symbol (folded_names lower) s (symbols_by_folded_name g),
                     symbols := omap_insert id s (symbols g)\<rparr>))))"

text \<open>The three checks of \<open>remove_file\<close> that nothing refers to the symbol any more.\<close>

definition still_referenced :: "partition \<Rightarrow> entity_id \<Rightarrow> bool" where
  "still_referenced g eid \<longleftrightarrow>
     index_at (outgoing g) eid \<noteq> [] \<or> index_at (incoming g) eid \<noteq> [] \<or>
     omap_get (call_sites_by_caller g) eid \<noteq> None"

text \<open>The body of the loop of \<open>remove_file\<close> over the declarations of the file.\<close>

definition remove_declaration :: "(string \<Rightarrow> string) \<Rightarrow> entity_id \<Rightarrow> unit graph_op" where
  "remove_declaration lower eid g =
     (case omap_get (symbols g) eid of
        None \<Rightarrow> (Inl (UnknownEntity eid), g)
      | Some s \<Rightarrow>
          (let slot = language_entity_slot (key_language (sym_key s))
           in (Inr (),
               g\<lparr>callables :=
                   fold (\<lambda>k. index_drop k eid) (callable_lookup_keys s) (callables g),
                 symbols_by_exact_name :=
                   fold (\<lambda>n. index_drop n eid) (exact_names s) (symbols_by_exact_name g),
                 symbols_by_folded_name :=
                   fold (\<lambda>n. index_drop n eid) (folded_names lower s) (symbols_by_folded_name g),
                 symbol_counts := (symbol_counts g)[slot := sat_sub (symbol_counts g ! slot) 1],
                 symbols := omap_delete eid (symbols g)\<rparr>)))"

definition remove_file :: "(string \<Rightarrow> string) \<Rightarrow> repo_path \<Rightarrow> bool graph_op" where
  "remove_file lower path g =
     (case omap_get (files g) path of
        None \<Rightarrow> (Inr False, g)
      | Some file \<Rightarrow>
          (case find (still_referenced g) (file_symbols file) of
             Some eid \<Rightarrow> (Inl (EntityStillReferenced eid), g)
           | None \<Rightarrow>
               (case op_each (remove_declaration lower) (file_symbols file) g of
                  (Inl e, g') \<Rightarrow> (Inl e, g')
                | (Inr _, g') \<Rightarrow> (Inr True, g'\<lparr>files := omap_delete path (files g')\<rparr>))))"

definition replace_symbol_payload ::
    "entity_id \<Rightarrow> symbol_key \<Rightarrow> source_range \<Rightarrow> string option \<Rightarrow> provenance \<Rightarrow> precision \<Rightarrow>
     bool graph_op" where
  "replace_symbol_payload eid key location signatur provenanc precisio g =
     (if key_path key \<noteq> range_file location
      then (Inl (KeyLocationMismatch (path_str (key_path key)) (path_str (range_file location))), g)
      else case omap_get (symbols g) eid of
        None \<Rightarrow> (Inl (UnknownEntity eid), g)
      | Some existing \<Rightarrow>
          if sym_key existing \<noteq> key then (Inl (PreservedEntityKeyChanged eid), g)
          else
            (let replacement = \<lparr>sym_id = eid, sym_key = key, sym_location = location,
                   signature = signatur, sym_provenance = provenanc, sym_precision = precisio\<rparr>
             in if existing = replacement then (Inr False, g)
                else (Inr True, g\<lparr>symbols := omap_insert eid replacement (symbols g)\<rparr>)))"

end
