(* ===== verification/Graph_Arena.thy ===== *)
theory Graph_Arena
  imports Symbol_Graph
begin

section \<open>The arena invariant\<close>

text \<open>
  What the file and symbol operations of \<open>SymbolGraph\<close> keep true: ids are fresh and tagged
  with the slot of their language, the file index and the three lookup indexes list exactly
  the symbols of the arena, the per-slot counters count them. The three lookup indexes
  (exact names, folded names, callables) share one interface, the locale \<open>derived_index\<close>.
\<close>

subsection \<open>An index derived from the arena\<close>

definition index_covers :: "(symbol \<Rightarrow> 'k::linorder list) \<Rightarrow> (entity_id, symbol) omap \<Rightarrow>
    ('k, entity_id list) omap \<Rightarrow> bool" where
  "index_covers keys_of syms m \<longleftrightarrow>
     index_ok m \<and>
     (\<forall>k. distinct (index_at m k) \<and>
        (\<forall>eid. eid \<in> set (index_at m k) \<longleftrightarrow>
           (\<exists>s. omap_get syms eid = Some s \<and> k \<in> set (keys_of s))))"

text \<open>
  The contract of a derived index: filing a symbol appends its id under each of its keys,
  unfiling takes the id out again, and the keys depend on the symbol's key only.
\<close>

locale derived_index =
  fixes keys_of :: "symbol \<Rightarrow> 'k::linorder list"
    and file_under :: "symbol \<Rightarrow> ('k, entity_id list) omap \<Rightarrow> ('k, entity_id list) omap"
    and unfile :: "symbol \<Rightarrow> ('k, entity_id list) omap \<Rightarrow> ('k, entity_id list) omap"
  assumes keys_by_key: "sym_key s = sym_key t \<Longrightarrow> keys_of s = keys_of t"
    and file_at: "index_at (file_under s m) k =
      index_at m k @ (if k \<in> set (keys_of s) then [sym_id s] else [])"
    and file_ok: "index_ok m \<Longrightarrow> index_ok (file_under s m)"
    and unfile_at: "index_at (unfile s m) k =
      (if k \<in> set (keys_of s) then filter (\<lambda>x. x \<noteq> sym_id s) (index_at m k) else index_at m k)"
    and unfile_ok: "index_ok m \<Longrightarrow> index_ok (unfile s m)"
begin

lemma covers_file:
  assumes "index_covers keys_of syms m" "omap_get syms (sym_id s) = None"
  shows "index_covers keys_of (omap_insert (sym_id s) s syms) (file_under s m)"
  using assms by (auto simp: index_covers_def file_at file_ok split: if_splits)

lemma covers_unfile:
  assumes "index_covers keys_of syms m" "omap_get syms (sym_id s) = Some s"
  shows "index_covers keys_of (omap_delete (sym_id s) syms) (unfile s m)"
  using assms by (auto simp: index_covers_def unfile_at unfile_ok split: if_splits)

lemma covers_replace:
  assumes "index_covers keys_of syms m" "omap_get syms eid = Some s" "sym_key s = sym_key t"
  shows "index_covers keys_of (omap_insert eid t syms) m"
  using assms keys_by_key [OF assms(3)] by (auto simp: index_covers_def split: if_splits)

text \<open>Filing a new symbol and unfiling it restores the index.\<close>

lemma unfile_file:
  assumes "index_covers keys_of syms m" "omap_get syms (sym_id s) = None"
  shows "unfile s (file_under s m) = m"
proof (rule index_ext)
  show "index_ok (unfile s (file_under s m))" "index_ok m"
    using assms by (simp_all add: index_covers_def file_ok unfile_ok)
next
  fix k
  have "sym_id s \<notin> set (index_at m k)"
    using assms by (simp add: index_covers_def)
  then have "filter (\<lambda>x. x \<noteq> sym_id s) (index_at m k) = index_at m k"
    by (auto simp: filter_id_conv)
  then show "index_at (unfile s (file_under s m)) k = index_at m k"
    by (simp add: unfile_at file_at)
qed

text \<open>An index filled in id order stays in id order.\<close>

lemma file_sorted:
  assumes "index_covers keys_of syms m" "\<forall>k. sorted (index_at m k)"
    and "\<forall>x s'. omap_get syms x = Some s' \<longrightarrow> x \<le> sym_id s"
  shows "\<forall>k. sorted (index_at (file_under s m) k)"
  using assms by (auto simp: file_at sorted_append index_covers_def)

lemma unfile_sorted:
  "\<forall>k. sorted (index_at m k) \<Longrightarrow> \<forall>k. sorted (index_at (unfile s m) k)"
  by (simp add: unfile_at sorted_wrt_filter)

end

lemma index_at_fold_push:
  "distinct ks \<Longrightarrow> index_at (fold (\<lambda>k. index_push k v) ks m) x =
     index_at m x @ (if x \<in> set ks then [v] else [])"
  by (induction ks arbitrary: m) auto

lemma index_ok_fold_push: "index_ok m \<Longrightarrow> index_ok (fold (\<lambda>k. index_push k v) ks m)"
  by (induction ks arbitrary: m) auto

lemma index_at_fold_drop:
  "index_at (fold (\<lambda>k. index_drop k v) ks m) x =
     (if x \<in> set ks then filter (\<lambda>y. y \<noteq> v) (index_at m x) else index_at m x)"
  by (induction ks arbitrary: m) auto

lemma index_ok_fold_drop: "index_ok m \<Longrightarrow> index_ok (fold (\<lambda>k. index_drop k v) ks m)"
  by (induction ks arbitrary: m) auto

lemmas index_fold_laws =
  index_at_fold_push index_ok_fold_push index_at_fold_drop index_ok_fold_drop

lemma distinct_push_new: "distinct xs \<Longrightarrow> distinct (push_new x xs)"
  by (simp add: push_new_def)

lemma distinct_callable_qualifiers: "distinct (callable_qualifiers key)"
  by (simp add: callable_qualifiers_def Let_def distinct_push_new split: option.split)

lemma distinct_callable_lookup_keys: "distinct (callable_lookup_keys s)"
  by (auto simp: callable_lookup_keys_def distinct_map inj_on_def distinct_callable_qualifiers
      split: option.split)

lemma distinct_name_pair: "distinct (name_pair a b)"
  by (simp add: name_pair_def)

lemma symbol_name_by_key: "sym_key s = sym_key t \<Longrightarrow> symbol_name s = symbol_name t"
  by (simp add: symbol_name_def)

interpretation exact: derived_index exact_names "index_symbol exact_names"
    "unindex_symbol exact_names"
  by unfold_locales
    (auto simp: index_symbol_def unindex_symbol_def index_fold_laws exact_names_def
      distinct_name_pair dest: symbol_name_by_key)

interpretation folded: derived_index "folded_names lower" "index_symbol (folded_names lower)"
    "unindex_symbol (folded_names lower)" for lower
  by unfold_locales
    (auto simp: index_symbol_def unindex_symbol_def index_fold_laws folded_names_def
      distinct_name_pair dest: symbol_name_by_key)

interpretation callable: derived_index callable_lookup_keys "index_symbol callable_lookup_keys"
    "unindex_symbol callable_lookup_keys"
proof unfold_locales
  show "callable_lookup_keys s = callable_lookup_keys t" if "sym_key s = sym_key t" for s t
    using that by (simp add: callable_lookup_keys_def symbol_name_def split: option.split)
qed (simp_all add: index_symbol_def unindex_symbol_def index_fold_laws distinct_callable_lookup_keys)

subsection \<open>The invariant\<close>

definition file_symbols_at :: "partition \<Rightarrow> repo_path \<Rightarrow> entity_id list" where
  "file_symbols_at g p = (case omap_get (files g) p of None \<Rightarrow> [] | Some f \<Rightarrow> file_symbols f)"

definition symbols_ok :: "partition \<Rightarrow> bool" where
  "symbols_ok g \<longleftrightarrow>
     omap_ok (symbols g) \<and>
     (\<forall>eid s. omap_get (symbols g) eid = Some s \<longrightarrow>
        sym_id s = eid \<and> key_path (sym_key s) = range_file (sym_location s))"

definition ids_ok :: "partition \<Rightarrow> bool" where
  "ids_ok g \<longleftrightarrow>
     length (next_entity_ids g) = entity_id_slot_count \<and>
     (\<forall>slot<entity_id_slot_count. next_entity_ids g ! slot \<le> entity_id_counter_limit) \<and>
     (\<forall>eid s. omap_get (symbols g) eid = Some s \<longrightarrow>
        (\<exists>c<next_entity_ids g ! language_entity_slot (key_language (sym_key s)).
           eid = entity_id_of (language_entity_slot (key_language (sym_key s))) c))"

definition symbols_of_language :: "partition \<Rightarrow> language \<Rightarrow> entity_id set" where
  "symbols_of_language g l =
     {eid. \<exists>s. omap_get (symbols g) eid = Some s \<and> key_language (sym_key s) = l}"

definition counts_ok :: "partition \<Rightarrow> bool" where
  "counts_ok g \<longleftrightarrow>
     length (symbol_counts g) = entity_id_slot_count \<and>
     (\<forall>l. symbol_counts g ! language_entity_slot l = card (symbols_of_language g l))"

definition files_ok :: "partition \<Rightarrow> bool" where
  "files_ok g \<longleftrightarrow>
     omap_ok (files g) \<and>
     (\<forall>p. distinct (file_symbols_at g p) \<and>
        (\<forall>eid. eid \<in> set (file_symbols_at g p) \<longleftrightarrow>
           (\<exists>s. omap_get (symbols g) eid = Some s \<and> range_file (sym_location s) = p)))"

definition diagnostics_ok :: "partition \<Rightarrow> bool" where
  "diagnostics_ok g \<longleftrightarrow>
     (\<forall>p f. omap_get (files g) p = Some f \<longrightarrow>
        validate_diagnostics p (file_diagnostics f) (file_diagnostic_count f) = None)"

text \<open>Everything but the file index, which is out of date while \<open>remove_file\<close> loops.\<close>

definition lookups_ok :: "(string \<Rightarrow> string) \<Rightarrow> partition \<Rightarrow> bool" where
  "lookups_ok lower g \<longleftrightarrow>
     symbols_ok g \<and> ids_ok g \<and> counts_ok g \<and>
     index_covers exact_names (symbols g) (symbols_by_exact_name g) \<and>
     index_covers (folded_names lower) (symbols g) (symbols_by_folded_name g) \<and>
     index_covers callable_lookup_keys (symbols g) (callables g)"

definition arena_ok :: "(string \<Rightarrow> string) \<Rightarrow> partition \<Rightarrow> bool" where
  "arena_ok lower g \<longleftrightarrow> lookups_ok lower g \<and> files_ok g \<and> diagnostics_ok g"

lemma arena_ok_new [chakra_inv]: "arena_ok lower partition_new"
  by (simp add: arena_ok_def lookups_ok_def symbols_ok_def ids_ok_def counts_ok_def files_ok_def
      diagnostics_ok_def index_covers_def partition_new_def file_symbols_at_def
      symbols_of_language_def)

subsection \<open>Files\<close>

text \<open>
  An operation that only rewrites a file record, keeping its declarations and with valid
  diagnostics, keeps the invariant.
\<close>

lemma arena_ok_put_file:
  assumes "arena_ok lower g" "file_symbols f = file_symbols_at g p"
    "validate_diagnostics p (file_diagnostics f) (file_diagnostic_count f) = None"
  shows "arena_ok lower (g\<lparr>files := omap_insert p f (files g)\<rparr>)"
proof -
  have "file_symbols_at (g\<lparr>files := omap_insert p f (files g)\<rparr>) q = file_symbols_at g q" for q
    using assms(2) by (simp add: file_symbols_at_def)
  with assms show ?thesis
    by (simp add: arena_ok_def lookups_ok_def symbols_ok_def ids_ok_def counts_ok_def files_ok_def
        diagnostics_ok_def symbols_of_language_def)
qed

lemma arena_ok_add_file_full [chakra_inv]:
  "arena_ok lower g \<Longrightarrow> arena_ok lower (snd (add_file_full p src md ds n g))"
  by (auto simp: add_file_full_def file_symbols_at_def split: option.splits
      intro!: arena_ok_put_file)

lemma arena_ok_add_file [chakra_inv]:
  "arena_ok lower g \<Longrightarrow> arena_ok lower (snd (add_file p src g))"
  "arena_ok lower g \<Longrightarrow> arena_ok lower (snd (add_file_with_metadata p src md g))"
  by (simp_all add: add_file_def add_file_with_metadata_def chakra_inv)

lemma arena_ok_file_diagnostics:
  "arena_ok lower g \<Longrightarrow> omap_get (files g) p = Some f \<Longrightarrow>
   validate_diagnostics p (file_diagnostics f) (file_diagnostic_count f) = None"
  by (simp add: arena_ok_def diagnostics_ok_def)

lemma arena_ok_replace_file [chakra_inv]:
  "arena_ok lower g \<Longrightarrow> arena_ok lower (snd (replace_file_source p src g))"
  "arena_ok lower g \<Longrightarrow> arena_ok lower (snd (replace_file_source_and_diagnostics p src ds n g))"
  "arena_ok lower g \<Longrightarrow> arena_ok lower (snd (replace_file_metadata p md g))"
  by (auto simp: replace_file_source_def replace_file_source_and_diagnostics_def
      replace_file_metadata_def file_symbols_at_def arena_ok_file_diagnostics split: option.splits
      intro!: arena_ok_put_file)

subsection \<open>Adding a symbol\<close>

lemma finite_symbols_of_language [simp]: "finite (symbols_of_language g l)"
  by (rule finite_subset [OF _ finite_dom_map_of [of "symbols g"]])
    (auto simp: symbols_of_language_def)

lemma symbols_of_language_bound:
  assumes "ids_ok g"
  shows "card (symbols_of_language g l) \<le> next_entity_ids g ! language_entity_slot l"
proof -
  have "symbols_of_language g l \<subseteq>
      entity_id_of (language_entity_slot l) ` {..<next_entity_ids g ! language_entity_slot l}"
    using assms by (fastforce simp: symbols_of_language_def ids_ok_def)
  then have "card (symbols_of_language g l) \<le>
      card (entity_id_of (language_entity_slot l) ` {..<next_entity_ids g ! language_entity_slot l})"
    by (intro card_mono) simp_all
  also have "\<dots> \<le> next_entity_ids g ! language_entity_slot l"
    using card_image_le [of "{..<next_entity_ids g ! language_entity_slot l}"
        "entity_id_of (language_entity_slot l)"] by simp
  finally show ?thesis .
qed

lemma entity_id_counter_limit_u64: "entity_id_counter_limit < u64_max"
  by (simp add: entity_id_counter_limit_def entity_id_slot_shift_def u64_max_def)

lemma fresh_entity_id:
  assumes "ids_ok g" "next_entity_ids g ! language_entity_slot l < entity_id_counter_limit"
  shows "omap_get (symbols g)
    (entity_id_of (language_entity_slot l) (next_entity_ids g ! language_entity_slot l)) = None"
proof (rule ccontr)
  let ?n = "next_entity_ids g ! language_entity_slot l"
  assume "omap_get (symbols g) (entity_id_of (language_entity_slot l) ?n) \<noteq> None"
  then obtain s where s: "omap_get (symbols g) (entity_id_of (language_entity_slot l) ?n) = Some s"
    by auto
  define m where "m = language_entity_slot (key_language (sym_key s))"
  from assms(1) s obtain c where c: "c < next_entity_ids g ! m"
    and eq: "entity_id_of (language_entity_slot l) ?n = entity_id_of m c"
    unfolding ids_ok_def m_def by blast
  have "next_entity_ids g ! m \<le> entity_id_counter_limit"
    using assms(1) by (simp add: ids_ok_def m_def)
  with c have "c < entity_id_counter_limit" by (rule less_le_trans)
  moreover have "m < entity_id_slot_count" by (simp add: m_def)
  ultimately have "language_entity_slot l = m \<and> ?n = c"
    using eq assms(2) entity_id_of_inj [OF language_entity_slot_count [of l], of ?n m c] by blast
  with c show False by (metis less_irrefl)
qed

text \<open>The id and symbol record \<open>add_symbol\<close> creates.\<close>

definition next_id_for :: "language \<Rightarrow> partition \<Rightarrow> entity_id" where
  "next_id_for l g =
     entity_id_of (language_entity_slot l) (next_entity_ids g ! language_entity_slot l)"

lemma add_symbol_Inr:
  assumes "add_symbol lower key loc sg pv pr g = (Inr eid, g')"
  shows "eid = next_id_for (key_language key) g" "key_path key = range_file loc"
    "next_entity_ids g ! language_entity_slot (key_language key) < entity_id_counter_limit"
    "symbols g' = omap_insert eid \<lparr>sym_id = eid, sym_key = key, sym_location = loc,
       signature = sg, sym_provenance = pv, sym_precision = pr\<rparr> (symbols g)"
  using assms by (auto simp: add_symbol_def Let_def next_id_for_def split: if_splits)

lemma add_symbol_Inl:
  assumes "add_symbol lower key loc sg pv pr g = (Inl e, g')"
  shows "g' = g"
  using assms by (auto simp: add_symbol_def Let_def split: if_splits)

lemma lookups_ok_add_symbol:
  assumes ok: "lookups_ok lower g" and add: "add_symbol lower key loc sg pv pr g = (Inr eid, g')"
  shows "lookups_ok lower g'"
proof -
  let ?l = "key_language key"
  let ?s = "\<lparr>sym_id = eid, sym_key = key, sym_location = loc, signature = sg,
    sym_provenance = pv, sym_precision = pr\<rparr>"
  note res = add_symbol_Inr [OF add]
  have ids: "ids_ok g" using ok by (simp add: lookups_ok_def)
  have fresh: "omap_get (symbols g) (sym_id ?s) = None"
    using fresh_entity_id [OF ids res(3)] res(1) by (simp add: next_id_for_def)
  have parts: "next_entity_ids g' =
      (next_entity_ids g)[language_entity_slot ?l := next_entity_ids g ! language_entity_slot ?l + 1]"
    "symbol_counts g' = (symbol_counts g)[language_entity_slot ?l :=
      sat_add64 (symbol_counts g ! language_entity_slot ?l) 1]"
    "callables g' = index_symbol callable_lookup_keys ?s (callables g)"
    "symbols_by_exact_name g' = index_symbol exact_names ?s (symbols_by_exact_name g)"
    "symbols_by_folded_name g' = index_symbol (folded_names lower) ?s (symbols_by_folded_name g)"
    using add by (auto simp: add_symbol_def Let_def split: if_splits)
  have "symbols_ok g'"
    using ok res(2,4) by (simp add: lookups_ok_def symbols_ok_def)
  moreover have "ids_ok g'"
  proof -
    have "\<exists>c<next_entity_ids g' ! language_entity_slot (key_language (sym_key t)).
        x = entity_id_of (language_entity_slot (key_language (sym_key t))) c"
      if "omap_get (symbols g') x = Some t" for x t
    proof (cases "x = eid")
      case True
      with that res parts ids show ?thesis
        by (auto simp: next_id_for_def ids_ok_def)
    next
      case False
      with that res(4) have "omap_get (symbols g) x = Some t" by simp
      with ids obtain c where "c < next_entity_ids g ! language_entity_slot (key_language (sym_key t))"
        "x = entity_id_of (language_entity_slot (key_language (sym_key t))) c"
        unfolding ids_ok_def by blast
      then show ?thesis
        using ids parts(1) by (intro exI [of _ c]) (auto simp: ids_ok_def nth_list_update)
    qed
    then show ?thesis
      using ids parts(1) res(3) by (auto simp: ids_ok_def nth_list_update)
  qed
  moreover have "counts_ok g'"
  proof -
    have lang: "symbols_of_language g' l =
        (if l = ?l then insert eid (symbols_of_language g l) else symbols_of_language g l)" for l
      using fresh res(4) by (auto simp: symbols_of_language_def split: if_splits)
    have new: "eid \<notin> symbols_of_language g ?l"
      using fresh by (simp add: symbols_of_language_def)
    have "card (symbols_of_language g ?l) < u64_max"
      using symbols_of_language_bound [OF ids, of ?l] res(3) entity_id_counter_limit_u64 by simp
    with ok new show ?thesis
      by (auto simp: lookups_ok_def counts_ok_def parts lang nth_list_update sat_add64_Suc
          language_entity_slot_inj)
  qed
  moreover have "index_covers exact_names (symbols g') (symbols_by_exact_name g')"
    "index_covers (folded_names lower) (symbols g') (symbols_by_folded_name g')"
    "index_covers callable_lookup_keys (symbols g') (callables g')"
    using ok exact.covers_file [OF _ fresh] folded.covers_file [OF _ fresh]
      callable.covers_file [OF _ fresh] by (simp_all add: lookups_ok_def parts res(4))
  ultimately show ?thesis by (simp add: lookups_ok_def)
qed

lemma arena_ok_add_symbol [chakra_inv]:
  assumes ok: "arena_ok lower g"
  shows "arena_ok lower (snd (add_symbol lower key loc sg pv pr g))"
proof (cases "add_symbol lower key loc sg pv pr g")
  case (Pair r g')
  show ?thesis
  proof (cases r)
    case (Inl e)
    with Pair add_symbol_Inl [of lower key loc sg pv pr g e g'] ok show ?thesis by simp
  next
    case (Inr eid)
    with Pair have add: "add_symbol lower key loc sg pv pr g = (Inr eid, g')" by simp
    let ?s = "\<lparr>sym_id = eid, sym_key = key, sym_location = loc, signature = sg,
      sym_provenance = pv, sym_precision = pr\<rparr>"
    let ?f = "file_for_symbol ?s g"
    note res = add_symbol_Inr [OF add]
    have lk: "lookups_ok lower g'"
      using lookups_ok_add_symbol [OF _ add] ok by (simp add: arena_ok_def)
    have fresh: "omap_get (symbols g) eid = None"
      using fresh_entity_id [OF _ res(3)] ok res(1)
      by (simp add: next_id_for_def arena_ok_def lookups_ok_def)
    have files: "files g' =
        omap_insert (range_file loc) (?f\<lparr>file_symbols := file_symbols ?f @ [eid]\<rparr>) (files g)"
      using add by (auto simp: add_symbol_def Let_def split: if_splits)
    have fs: "file_symbols ?f = file_symbols_at g (range_file loc)"
      by (simp add: file_for_symbol_def file_symbols_at_def split: option.split)
    have at: "file_symbols_at g' p =
        file_symbols_at g p @ (if p = range_file loc then [eid] else [])" for p
      using fs by (simp add: file_symbols_at_def files)
    have "files_ok g'"
      using ok fresh res(4) by (auto simp: arena_ok_def files_ok_def files at split: if_splits)
    moreover have "diagnostics_ok g'"
    proof -
      have "validate_diagnostics (range_file loc) (file_diagnostics ?f) (file_diagnostic_count ?f) = None"
      proof (cases "omap_get (files g) (range_file loc)")
        case None
        then show ?thesis by (simp add: file_for_symbol_def validate_diagnostics_def)
      next
        case (Some f)
        with arena_ok_file_diagnostics [OF ok Some] show ?thesis by (simp add: file_for_symbol_def)
      qed
      with ok show ?thesis
        by (simp add: arena_ok_def diagnostics_ok_def files)
    qed
    ultimately show ?thesis using lk Pair by (simp add: arena_ok_def)
  qed
qed

subsection \<open>Frames\<close>

text \<open>
  The fields the file and symbol operations work on, and the fields of edges and call
  sites. An operation of one kind leaves the other group alone.
\<close>

definition arena_of where
  "arena_of g = (symbols g, symbols_by_exact_name g, symbols_by_folded_name g, files g,
     callables g, next_entity_ids g, symbol_counts g)"

definition relations_of where
  "relations_of g = (outgoing g, incoming g, relationship_edges_by_owner g, edge_count g,
     call_sites g, call_sites_by_caller g, call_sites_by_lookup g, ambiguous_call_sites g,
     unresolved_call_sites g, truncated_call_sites g, next_call_site_id g,
     adjacency_entries_copied g)"

lemma arena_ok_cong:
  "arena_of g = arena_of h \<Longrightarrow> arena_ok lower g = arena_ok lower h"
  by (simp add: arena_of_def arena_ok_def lookups_ok_def symbols_ok_def ids_ok_def counts_ok_def
      files_ok_def diagnostics_ok_def file_symbols_at_def symbols_of_language_def)

lemma put_files:
  "lookups_ok lower (g\<lparr>files := m\<rparr>) = lookups_ok lower g"
  "relations_of (g\<lparr>files := m\<rparr>) = relations_of g"
  by (simp_all add: lookups_ok_def symbols_ok_def ids_ok_def counts_ok_def relations_of_def
      symbols_of_language_def)

lemma relations_of_remove_declaration:
  "relations_of (snd (remove_declaration lower eid g)) = relations_of g"
  "files (snd (remove_declaration lower eid g)) = files g"
  "next_entity_ids (snd (remove_declaration lower eid g)) = next_entity_ids g"
  by (simp_all add: remove_declaration_def relations_of_def Let_def split: option.split)

lemma relations_of_add_symbol:
  "relations_of (snd (add_symbol lower key loc sg pv pr g)) = relations_of g"
  by (simp add: add_symbol_def relations_of_def Let_def)

subsection \<open>Removing a file\<close>

lemma remove_declaration_ok:
  assumes ok: "lookups_ok lower g" and s: "omap_get (symbols g) eid = Some s"
  shows "fst (remove_declaration lower eid g) = Inr ()"
    "symbols (snd (remove_declaration lower eid g)) = omap_delete eid (symbols g)"
    "lookups_ok lower (snd (remove_declaration lower eid g))"
proof -
  let ?g = "snd (remove_declaration lower eid g)"
  show "fst (remove_declaration lower eid g) = Inr ()"
    and syms: "symbols ?g = omap_delete eid (symbols g)"
    using s by (simp_all add: remove_declaration_def Let_def)
  have eid: "sym_id s = eid"
    using ok s by (simp add: lookups_ok_def symbols_ok_def)
  with s have s': "omap_get (symbols g) (sym_id s) = Some s" by simp
  have parts: "callables ?g = unindex_symbol callable_lookup_keys s (callables g)"
    "symbols_by_exact_name ?g = unindex_symbol exact_names s (symbols_by_exact_name g)"
    "symbols_by_folded_name ?g = unindex_symbol (folded_names lower) s (symbols_by_folded_name g)"
    "symbol_counts ?g = (symbol_counts g)[language_entity_slot (key_language (sym_key s)) :=
      symbol_counts g ! language_entity_slot (key_language (sym_key s)) - 1]"
    "next_entity_ids ?g = next_entity_ids g"
    using s eid by (simp_all add: remove_declaration_def Let_def unindex_symbol_def)
  have lang: "symbols_of_language ?g l = symbols_of_language g l - {eid}" for l
    by (auto simp: symbols_of_language_def syms split: if_splits)
  have other: "eid \<notin> symbols_of_language g l" if "l \<noteq> key_language (sym_key s)" for l
    using that s by (simp add: symbols_of_language_def)
  have this_one: "eid \<in> symbols_of_language g (key_language (sym_key s))"
    using s by (simp add: symbols_of_language_def)
  have "counts_ok ?g"
    using ok other this_one
    by (auto simp: lookups_ok_def counts_ok_def parts lang nth_list_update language_entity_slot_inj)
  moreover have "symbols_ok ?g" "ids_ok ?g"
    using ok by (auto simp: lookups_ok_def symbols_ok_def ids_ok_def syms parts split: if_splits)
  moreover have "index_covers exact_names (symbols ?g) (symbols_by_exact_name ?g)"
    "index_covers (folded_names lower) (symbols ?g) (symbols_by_folded_name ?g)"
    "index_covers callable_lookup_keys (symbols ?g) (callables ?g)"
    using ok exact.covers_unfile [OF _ s'] folded.covers_unfile [OF _ s']
      callable.covers_unfile [OF _ s'] eid by (simp_all add: lookups_ok_def parts syms)
  ultimately show "lookups_ok lower ?g" by (simp add: lookups_ok_def)
qed

text \<open>
  What \<open>remove_file\<close> does on a graph that satisfies the invariant: it refuses while a
  declaration is referenced, and otherwise drops exactly the declarations of the file.
\<close>

lemma remove_file_cases:
  assumes ok: "arena_ok lower g" and f: "omap_get (files g) p = Some f"
    and free: "\<forall>eid\<in>set (file_symbols f). \<not> still_referenced g eid"
  obtains g' where "remove_file lower p g = (Inr True, g')"
    "lookups_ok lower g'" "relations_of g' = relations_of g"
    "files g' = omap_delete p (files g)" "next_entity_ids g' = next_entity_ids g"
    "\<And>x. omap_get (symbols g') x =
       (if x \<in> set (file_symbols f) then None else omap_get (symbols g) x)"
proof -
  let ?fs = "file_symbols f"
  have at: "file_symbols_at g p = ?fs" using f by (simp add: file_symbols_at_def)
  have decls: "distinct (file_symbols_at g p) \<and> (\<forall>x. x \<in> set (file_symbols_at g p) \<longleftrightarrow>
      (\<exists>s. omap_get (symbols g) x = Some s \<and> range_file (sym_location s) = p))"
    using ok unfolding arena_ok_def files_ok_def by blast
  then have distinct: "distinct ?fs" and known: "\<forall>x\<in>set ?fs. omap_get (symbols g) x \<noteq> None"
    unfolding at by auto
  define P where "P ys t \<longleftrightarrow> distinct ys \<and> set ys \<subseteq> set ?fs \<and> lookups_ok lower t \<and>
      relations_of t = relations_of g \<and> files t = files g \<and>
      next_entity_ids t = next_entity_ids g \<and>
      (\<forall>x. omap_get (symbols t) x =
         (if x \<in> set ?fs - set ys then None else omap_get (symbols g) x))" for ys t
  have step: "fst (remove_declaration lower x t) = Inr () \<and> P ys (snd (remove_declaration lower x t))"
    if "P (x # ys) t" for x ys t
  proof -
    from that known obtain s where s: "omap_get (symbols t) x = Some s"
      by (auto simp: P_def)
    note r = remove_declaration_ok [OF _ s, of lower]
    from that r show ?thesis
      by (auto simp: P_def relations_of_remove_declaration)
  qed
  have "P ?fs g"
    using ok distinct by (simp add: P_def arena_ok_def)
  from op_each_succeeds [of P "remove_declaration lower", OF step this]
  have loop: "fst (op_each (remove_declaration lower) ?fs g) = Inr ()"
    "P [] (snd (op_each (remove_declaration lower) ?fs g))" by blast+
  have find: "find (still_referenced g) ?fs = None"
    using free by (simp add: find_None_iff)
  define g' where "g' = (snd (op_each (remove_declaration lower) ?fs g))
    \<lparr>files := omap_delete p (files g)\<rparr>"
  have "remove_file lower p g = (Inr True, g')"
    using loop f find unfolding remove_file_def g'_def P_def
    by (cases "op_each (remove_declaration lower) ?fs g") simp
  moreover have "lookups_ok lower g'" "relations_of g' = relations_of g"
    "files g' = omap_delete p (files g)" "next_entity_ids g' = next_entity_ids g"
    using loop(2) by (simp_all add: g'_def P_def put_files)
  moreover have "omap_get (symbols g') x =
       (if x \<in> set ?fs then None else omap_get (symbols g) x)" for x
    using loop(2) by (simp add: g'_def P_def)
  ultimately show ?thesis by (rule that)
qed

lemma arena_ok_remove_file [chakra_inv]:
  assumes ok: "arena_ok lower g"
  shows "arena_ok lower (snd (remove_file lower p g))"
proof (cases "omap_get (files g) p")
  case None
  with ok show ?thesis by (simp add: remove_file_def)
next
  case (Some f)
  show ?thesis
  proof (cases "find (still_referenced g) (file_symbols f)")
    case None
    then have "\<forall>eid\<in>set (file_symbols f). \<not> still_referenced g eid"
      by (auto simp: find_None_iff)
    from remove_file_cases [OF ok Some this] obtain g' where g':
      "remove_file lower p g = (Inr True, g')" "lookups_ok lower g'"
      "files g' = omap_delete p (files g)"
      "\<And>x. omap_get (symbols g') x =
         (if x \<in> set (file_symbols f) then None else omap_get (symbols g) x)"
      by blast
    have at: "file_symbols_at g' q = (if q = p then [] else file_symbols_at g q)" for q
      by (simp add: file_symbols_at_def g'(3))
    have fs: "file_symbols_at g p = file_symbols f" using Some by (simp add: file_symbols_at_def)
    have "files_ok g'"
      unfolding files_ok_def
    proof (intro conjI allI)
      show "omap_ok (files g')" using ok by (simp add: arena_ok_def files_ok_def g'(3))
      show "distinct (file_symbols_at g' q)" for q
        using ok by (simp add: arena_ok_def files_ok_def at)
      show "eid \<in> set (file_symbols_at g' q) \<longleftrightarrow>
          (\<exists>s. omap_get (symbols g') eid = Some s \<and> range_file (sym_location s) = q)" for q eid
        using ok by (auto simp: arena_ok_def files_ok_def at g'(4) fs [symmetric])
    qed
    moreover have "diagnostics_ok g'"
      using ok by (auto simp: arena_ok_def diagnostics_ok_def g'(3) split: if_splits)
    ultimately show ?thesis using g'(1,2) by (simp add: arena_ok_def)
  next
    case found: (Some eid)
    with ok Some show ?thesis by (simp add: remove_file_def)
  qed
qed

subsection \<open>Replacing a symbol's payload\<close>

lemma arena_ok_replace_symbol_payload [chakra_inv]:
  assumes ok: "arena_ok lower g"
  shows "arena_ok lower (snd (replace_symbol_payload eid key loc sg pv pr g))"
proof -
  let ?r = "\<lparr>sym_id = eid, sym_key = key, sym_location = loc, signature = sg,
    sym_provenance = pv, sym_precision = pr\<rparr>"
  have "arena_ok lower (g\<lparr>symbols := omap_insert eid ?r (symbols g)\<rparr>)"
    if s: "omap_get (symbols g) eid = Some s" and key: "sym_key s = key"
      and path: "key_path key = range_file loc" for s
  proof -
    let ?g = "g\<lparr>symbols := omap_insert eid ?r (symbols g)\<rparr>"
    have s_path: "range_file (sym_location s) = range_file loc"
      using ok s key path by (auto simp: arena_ok_def lookups_ok_def symbols_ok_def)
    have keys: "sym_key s = sym_key ?r" using key by simp
    have "symbols_of_language ?g l = symbols_of_language g l" for l
      using s key by (auto simp: symbols_of_language_def)
    then have "counts_ok ?g" using ok by (simp add: arena_ok_def lookups_ok_def counts_ok_def)
    moreover have "symbols_ok ?g"
      using ok path by (simp add: arena_ok_def lookups_ok_def symbols_ok_def)
    moreover have "ids_ok ?g"
      using ok s key unfolding arena_ok_def lookups_ok_def ids_ok_def
      by (auto split: if_splits)
    moreover have "index_covers exact_names (symbols ?g) (symbols_by_exact_name ?g)"
      "index_covers (folded_names lower) (symbols ?g) (symbols_by_folded_name ?g)"
      "index_covers callable_lookup_keys (symbols ?g) (callables ?g)"
      using ok exact.covers_replace [OF _ s keys] folded.covers_replace [OF _ s keys]
        callable.covers_replace [OF _ s keys] by (simp_all add: arena_ok_def lookups_ok_def)
    moreover have "files_ok ?g" "diagnostics_ok ?g"
      using ok s s_path
      by (auto simp: arena_ok_def files_ok_def file_symbols_at_def diagnostics_ok_def)
    ultimately show ?thesis by (simp add: arena_ok_def lookups_ok_def)
  qed
  with ok show ?thesis
    by (auto simp: replace_symbol_payload_def Let_def split: option.split)
qed

end
