(* ===== verification/Graph_Edges.thy ===== *)
theory Graph_Edges
  imports Graph_Arena
begin

section \<open>Typed edges\<close>

text \<open>
  The edge operations of \<open>SymbolGraph\<close> (\<open>graph.rs\<close>): \<open>add_edge\<close>, \<open>add_edge_owned_by\<close>,
  \<open>add_edge_raw\<close>, \<open>remove_edge_raw\<close>, \<open>remove_adjacency_edge\<close>,
  \<open>remove_relationships_in_file\<close>. The invariant: the two adjacency indexes hold the same
  multiset of edges, each under its own endpoint, between known symbols, and \<open>edge_count\<close>
  counts them. \<open>edge_count += 1\<close> is exact (a \<open>u64\<close> cannot be exhausted by edges in memory).
\<close>

subsection \<open>Operations\<close>

definition add_edge_raw :: "edge \<Rightarrow> unit graph_op" where
  "add_edge_raw e g =
     (case find (\<lambda>i. omap_get (symbols g) i = None) [edge_from e, edge_to e] of
        Some i \<Rightarrow> (Inl (UnknownEntity i), g)
      | None \<Rightarrow>
          (let outgoing_copied = length (index_at (outgoing g) (edge_from e));
               incoming_copied = length (index_at (incoming g) (edge_to e))
           in (Inr (),
               g\<lparr>outgoing := index_push (edge_from e) e (outgoing g),
                 incoming := index_push (edge_to e) e (incoming g),
                 adjacency_entries_copied :=
                   sat_add64 (sat_add64 (adjacency_entries_copied g) outgoing_copied) incoming_copied,
                 edge_count := edge_count g + 1\<rparr>)))"

definition add_edge_owned_by :: "repo_path \<Rightarrow> edge \<Rightarrow> unit graph_op" where
  "add_edge_owned_by owner e g =
     (case add_edge_raw e g of
        (Inl err, g') \<Rightarrow> (Inl err, g')
      | (Inr _, g') \<Rightarrow>
          (Inr (), g'\<lparr>relationship_edges_by_owner :=
             index_push owner e (relationship_edges_by_owner g')\<rparr>))"

definition add_edge ::
    "edge_kind \<Rightarrow> entity_id \<Rightarrow> entity_id \<Rightarrow> provenance \<Rightarrow> precision \<Rightarrow> source_range option \<Rightarrow>
     unit graph_op" where
  "add_edge kind from to pv pr location g =
     (case (case location of
              Some r \<Rightarrow> Some (range_file r)
            | None \<Rightarrow> map_option (\<lambda>s. key_path (sym_key s)) (omap_get (symbols g) from)) of
        None \<Rightarrow> (Inl (UnknownEntity from), g)
      | Some owner \<Rightarrow>
          add_edge_owned_by owner
            \<lparr>edge_kind = kind, edge_from = from, edge_to = to, edge_provenance = pv,
             edge_precision = pr, edge_location = location\<rparr> g)"

definition remove_adjacency_edge ::
    "(entity_id, edge list) omap \<Rightarrow> entity_id \<Rightarrow> edge \<Rightarrow>
     graph_error + nat \<times> (entity_id, edge list) omap" where
  "remove_adjacency_edge adjacency key e =
     (case omap_get adjacency key of
        None \<Rightarrow> Inl MissingOwnedEdge
      | Some existing \<Rightarrow>
          if e \<notin> set existing then Inl MissingOwnedEdge
          else
            (let edges = remove1 e existing
             in Inr (length existing,
                  if edges = [] then omap_delete key adjacency
                  else omap_insert key edges adjacency)))"

definition remove_edge_raw :: "edge \<Rightarrow> unit graph_op" where
  "remove_edge_raw e g =
     (case remove_adjacency_edge (outgoing g) (edge_from e) e of
        Inl err \<Rightarrow> (Inl err, g)
      | Inr (outgoing_copied, out') \<Rightarrow>
          (let g1 = g\<lparr>outgoing := out'\<rparr>
           in case remove_adjacency_edge (incoming g1) (edge_to e) e of
                Inl err \<Rightarrow> (Inl err, g1)
              | Inr (incoming_copied, inc') \<Rightarrow>
                  (Inr (),
                   g1\<lparr>incoming := inc',
                      adjacency_entries_copied :=
                        sat_add64 (sat_add64 (adjacency_entries_copied g) outgoing_copied)
                          incoming_copied,
                      edge_count := sat_sub (edge_count g) 1\<rparr>)))"

definition remove_relationships_in_file :: "repo_path \<Rightarrow> nat graph_op" where
  "remove_relationships_in_file owner g =
     (case omap_get (relationship_edges_by_owner g) owner of
        None \<Rightarrow> (Inr 0, g)
      | Some edges \<Rightarrow>
          (case op_each remove_edge_raw edges g of
             (Inl err, g') \<Rightarrow> (Inl err, g')
           | (Inr _, g') \<Rightarrow>
               (Inr (length edges),
                g'\<lparr>relationship_edges_by_owner :=
                     omap_delete owner (relationship_edges_by_owner g')\<rparr>)))"

subsection \<open>The edge invariant\<close>

definition all_edges :: "partition \<Rightarrow> edge multiset" where
  "all_edges g = index_mset (outgoing g)"

definition owned_edges :: "partition \<Rightarrow> edge multiset" where
  "owned_edges g = index_mset (relationship_edges_by_owner g)"

definition edges_ok :: "partition \<Rightarrow> bool" where
  "edges_ok g \<longleftrightarrow>
     index_ok (outgoing g) \<and> index_ok (incoming g) \<and>
     index_ok (relationship_edges_by_owner g) \<and>
     (\<forall>i. \<forall>e\<in>set (index_at (outgoing g) i). edge_from e = i) \<and>
     (\<forall>i. \<forall>e\<in>set (index_at (incoming g) i). edge_to e = i) \<and>
     index_mset (incoming g) = all_edges g \<and>
     edge_count g = size (all_edges g) \<and>
     (\<forall>e. e \<in># all_edges g \<longrightarrow>
        omap_get (symbols g) (edge_from e) \<noteq> None \<and> omap_get (symbols g) (edge_to e) \<noteq> None)"

text \<open>The fields of call sites, which the edge operations leave alone.\<close>

definition calls_of where
  "calls_of g = (call_sites g, call_sites_by_caller g, call_sites_by_lookup g,
     ambiguous_call_sites g, unresolved_call_sites g, truncated_call_sites g,
     next_call_site_id g)"

lemma edges_ok_cong:
  "relations_of g = relations_of h \<Longrightarrow> symbols g = symbols h \<Longrightarrow> edges_ok g = edges_ok h"
  by (simp add: relations_of_def edges_ok_def all_edges_def)

lemma edges_ok_new [chakra_inv]: "edges_ok partition_new"
  by (simp add: edges_ok_def partition_new_def all_edges_def)

lemma omap_ok_index [simp]: "index_ok m \<Longrightarrow> omap_ok m"
  by (simp add: index_ok_def)

lemma edges_okD:
  assumes "edges_ok g"
  shows "index_ok (outgoing g)" "index_ok (incoming g)" "index_ok (relationship_edges_by_owner g)"
    "index_mset (incoming g) = all_edges g" "edge_count g = size (all_edges g)"
    "e \<in> set (index_at (outgoing g) i) \<Longrightarrow> edge_from e = i"
    "e \<in> set (index_at (incoming g) i) \<Longrightarrow> edge_to e = i"
    "e \<in># all_edges g \<Longrightarrow>
       omap_get (symbols g) (edge_from e) \<noteq> None \<and> omap_get (symbols g) (edge_to e) \<noteq> None"
  using assms unfolding edges_ok_def by blast+

lemma edges_ok_at:
  assumes "edges_ok g"
  shows "e \<in># all_edges g \<longleftrightarrow> e \<in> set (index_at (outgoing g) (edge_from e))"
    "e \<in># all_edges g \<longleftrightarrow> e \<in> set (index_at (incoming g) (edge_to e))"
proof -
  note ok = edges_okD [OF assms]
  show "e \<in># all_edges g \<longleftrightarrow> e \<in> set (index_at (outgoing g) (edge_from e))"
    unfolding all_edges_def in_index_mset [OF omap_ok_index [OF ok(1)]] using ok(6) by metis
  show "e \<in># all_edges g \<longleftrightarrow> e \<in> set (index_at (incoming g) (edge_to e))"
    unfolding ok(4) [symmetric] in_index_mset [OF omap_ok_index [OF ok(2)]] using ok(7) by metis
qed

subsection \<open>Adding\<close>

lemma add_edge_raw_unknown:
  assumes "omap_get (symbols g) (edge_from e) = None \<or> omap_get (symbols g) (edge_to e) = None"
  shows "\<exists>i. add_edge_raw e g = (Inl (UnknownEntity i), g)"
  using assms by (auto simp: add_edge_raw_def)

lemma add_edge_raw_known:
  assumes "omap_get (symbols g) (edge_from e) \<noteq> None" "omap_get (symbols g) (edge_to e) \<noteq> None"
  shows "fst (add_edge_raw e g) = Inr ()"
    "outgoing (snd (add_edge_raw e g)) = index_push (edge_from e) e (outgoing g)"
    "incoming (snd (add_edge_raw e g)) = index_push (edge_to e) e (incoming g)"
    "edge_count (snd (add_edge_raw e g)) = edge_count g + 1"
  using assms by (auto simp: add_edge_raw_def Let_def)

lemma add_edge_raw_frame:
  "arena_of (snd (add_edge_raw e g)) = arena_of g"
  "calls_of (snd (add_edge_raw e g)) = calls_of g"
  "relationship_edges_by_owner (snd (add_edge_raw e g)) = relationship_edges_by_owner g"
  "symbols (snd (add_edge_raw e g)) = symbols g"
  "files (snd (add_edge_raw e g)) = files g"
  by (auto simp: add_edge_raw_def arena_of_def calls_of_def Let_def)

lemma edges_ok_add_edge_raw:
  assumes ok: "edges_ok g" and known: "omap_get (symbols g) (edge_from e) \<noteq> None"
    "omap_get (symbols g) (edge_to e) \<noteq> None"
  shows "edges_ok (snd (add_edge_raw e g))" "all_edges (snd (add_edge_raw e g)) = add_mset e (all_edges g)"
proof -
  note r = add_edge_raw_known [OF known] add_edge_raw_frame
  show all: "all_edges (snd (add_edge_raw e g)) = add_mset e (all_edges g)"
    using edges_okD(1) [OF ok] by (simp add: all_edges_def r)
  have "index_mset (incoming (snd (add_edge_raw e g))) = add_mset e (all_edges g)"
    using edges_okD(2,4) [OF ok] by (simp add: r)
  with ok known show "edges_ok (snd (add_edge_raw e g))"
    unfolding edges_ok_def all by (auto simp: r)
qed

lemma edges_ok_add_edge_raw_any [chakra_inv]:
  assumes "edges_ok g"
  shows "edges_ok (snd (add_edge_raw e g))"
proof (cases "omap_get (symbols g) (edge_from e) = None \<or> omap_get (symbols g) (edge_to e) = None")
  case True
  with assms add_edge_raw_unknown [of g e] show ?thesis by auto
next
  case False
  with assms edges_ok_add_edge_raw(1) [of g e] show ?thesis by simp
qed

lemma put_owners:
  "edges_ok (g\<lparr>relationship_edges_by_owner := m\<rparr>) \<longleftrightarrow> edges_ok g"
  if "index_ok m" "edges_ok g"
  using that by (simp add: edges_ok_def all_edges_def)

lemma edges_ok_add_edge_owned_by [chakra_inv]:
  assumes "edges_ok g"
  shows "edges_ok (snd (add_edge_owned_by p e g))"
proof (cases "add_edge_raw e g")
  case (Pair r g')
  with edges_ok_add_edge_raw_any [OF assms, of e] have ok: "edges_ok g'" by simp
  then have "index_ok (index_push p e (relationship_edges_by_owner g'))"
    by (simp add: edges_ok_def)
  with ok Pair show ?thesis
    by (cases r) (simp_all add: add_edge_owned_by_def put_owners)
qed

lemma edges_ok_add_edge [chakra_inv]:
  "edges_ok g \<Longrightarrow> edges_ok (snd (add_edge kind from to pv pr loc g))"
  by (auto simp: add_edge_def chakra_inv split: option.splits)

subsection \<open>Removing\<close>

lemma remove_adjacency_edge_present:
  assumes "e \<in> set (index_at m k)"
  shows "remove_adjacency_edge m k e = Inr (length (index_at m k), index_remove_first k e m)"
proof -
  from assms obtain es where "omap_get m k = Some es"
    by (cases "omap_get m k") (auto simp: index_at_def omap_get_or_def)
  with assms show ?thesis
    by (simp add: remove_adjacency_edge_def index_remove_first_def index_at_def omap_get_or_def Let_def)
qed

lemma remove_adjacency_edge_absent:
  "e \<notin> set (index_at m k) \<Longrightarrow> remove_adjacency_edge m k e = Inl MissingOwnedEdge"
  by (simp add: remove_adjacency_edge_def index_at_def omap_get_or_def split: option.splits)

lemma remove_edge_raw_frame:
  "arena_of (snd (remove_edge_raw e g)) = arena_of g"
  "calls_of (snd (remove_edge_raw e g)) = calls_of g"
  "relationship_edges_by_owner (snd (remove_edge_raw e g)) = relationship_edges_by_owner g"
  "symbols (snd (remove_edge_raw e g)) = symbols g"
  "files (snd (remove_edge_raw e g)) = files g"
  by (auto simp: remove_edge_raw_def arena_of_def calls_of_def Let_def split: sum.split)

text \<open>Removing an edge that is there succeeds and removes exactly one copy of it.\<close>

lemma edges_ok_remove_edge_raw:
  assumes ok: "edges_ok g" and e: "e \<in># all_edges g"
  shows "fst (remove_edge_raw e g) = Inr ()" "edges_ok (snd (remove_edge_raw e g))"
    "all_edges (snd (remove_edge_raw e g)) = all_edges g - {#e#}"
proof -
  let ?g = "snd (remove_edge_raw e g)"
  have at: "e \<in> set (index_at (outgoing g) (edge_from e))" "e \<in> set (index_at (incoming g) (edge_to e))"
    using e edges_ok_at [OF ok] by blast+
  note out = remove_adjacency_edge_present [OF at(1)] and inc = remove_adjacency_edge_present [OF at(2)]
  show "fst (remove_edge_raw e g) = Inr ()"
    by (simp add: remove_edge_raw_def out inc)
  have r: "outgoing ?g = index_remove_first (edge_from e) e (outgoing g)"
    "incoming ?g = index_remove_first (edge_to e) e (incoming g)"
    "edge_count ?g = edge_count g - 1" "symbols ?g = symbols g"
    "relationship_edges_by_owner ?g = relationship_edges_by_owner g"
    by (simp_all add: remove_edge_raw_def out inc)
  show all: "all_edges ?g = all_edges g - {#e#}"
    using edges_okD(1) [OF ok] at(1) by (simp add: all_edges_def r index_mset_remove_first)
  have rm: "x \<in> set xs" if "x \<in> set (remove1 y xs)" for x y :: edge and xs
    using that by (metis notin_set_remove1)
  have "index_mset (incoming ?g) = all_edges g - {#e#}"
    using edges_okD(2,4) [OF ok] at(2) by (simp add: r index_mset_remove_first)
  moreover have "edge_count g - 1 = size (all_edges g - {#e#})"
    using e edges_okD(5) [OF ok] by (simp add: size_Diff_singleton)
  moreover have "\<forall>i. \<forall>x\<in>set (index_at (outgoing ?g) i). edge_from x = i"
    "\<forall>i. \<forall>x\<in>set (index_at (incoming ?g) i). edge_to x = i"
    using edges_okD(6,7) [OF ok] by (auto simp: r dest!: rm split: if_splits)
  moreover have "\<forall>x. x \<in># all_edges g - {#e#} \<longrightarrow>
      omap_get (symbols g) (edge_from x) \<noteq> None \<and> omap_get (symbols g) (edge_to x) \<noteq> None"
    using edges_okD(8) [OF ok] by (meson in_diffD)
  moreover have "index_ok (outgoing ?g)" "index_ok (incoming ?g)"
    "index_ok (relationship_edges_by_owner g)"
    using edges_okD(1-5) [OF ok] by (simp_all add: r)
  ultimately show "edges_ok ?g"
    unfolding edges_ok_def all r(3-5) by (intro conjI)
qed

lemma edges_ok_remove_all:
  assumes "edges_ok g" "mset es \<subseteq># all_edges g"
  shows "fst (op_each remove_edge_raw es g) = Inr ()"
    "edges_ok (snd (op_each remove_edge_raw es g))"
    "all_edges (snd (op_each remove_edge_raw es g)) = all_edges g - mset es"
    "arena_of (snd (op_each remove_edge_raw es g)) = arena_of g"
    "calls_of (snd (op_each remove_edge_raw es g)) = calls_of g"
    "relationship_edges_by_owner (snd (op_each remove_edge_raw es g)) = relationship_edges_by_owner g"
  using assms
proof (induction es arbitrary: g)
  case (Cons e es)
  {
    case 1
    then have e: "e \<in># all_edges g" by (simp add: insert_subset_eq_iff)
    note r = edges_ok_remove_edge_raw [OF 1(1) e]
    have sub: "mset es \<subseteq># all_edges (snd (remove_edge_raw e g))"
      using 1(2) by (simp add: r insert_subset_eq_iff)
    note IH = Cons.IH [OF r(2) sub]
    have step: "op_each remove_edge_raw (e # es) g = op_each remove_edge_raw es (snd (remove_edge_raw e g))"
      using r(1) by (cases "remove_edge_raw e g") simp
    show "fst (op_each remove_edge_raw (e # es) g) = Inr ()"
      "edges_ok (snd (op_each remove_edge_raw (e # es) g))"
      "all_edges (snd (op_each remove_edge_raw (e # es) g)) = all_edges g - mset (e # es)"
      "arena_of (snd (op_each remove_edge_raw (e # es) g)) = arena_of g"
      "calls_of (snd (op_each remove_edge_raw (e # es) g)) = calls_of g"
      "relationship_edges_by_owner (snd (op_each remove_edge_raw (e # es) g)) =
        relationship_edges_by_owner g"
      using IH by (simp_all add: step r remove_edge_raw_frame del: op_each.simps)
  }
qed simp_all

text \<open>Removing the relationships of one file.\<close>

lemma remove_relationships_ok:
  fixes g :: partition and p :: repo_path
  assumes ok: "edges_ok g" and owned: "owned_edges g \<subseteq># all_edges g"
  defines "es \<equiv> index_at (relationship_edges_by_owner g) p"
  shows "fst (remove_relationships_in_file p g) = Inr (length es)"
    "edges_ok (snd (remove_relationships_in_file p g))"
    "all_edges (snd (remove_relationships_in_file p g)) = all_edges g - mset es"
    "owned_edges (snd (remove_relationships_in_file p g)) = owned_edges g - mset es"
    "arena_of (snd (remove_relationships_in_file p g)) = arena_of g"
    "calls_of (snd (remove_relationships_in_file p g)) = calls_of g"
    "relationship_edges_by_owner (snd (remove_relationships_in_file p g)) =
       omap_delete p (relationship_edges_by_owner g)"
    "mset es \<subseteq># owned_edges g"
proof -
  have idx: "index_ok (relationship_edges_by_owner g)" using ok by (simp add: edges_ok_def)
  from index_mset_delete [of "relationship_edges_by_owner g" p] idx
  have del: "index_mset (omap_delete p (relationship_edges_by_owner g)) + mset es = owned_edges g"
    by (simp add: es_def owned_edges_def)
  then show es: "mset es \<subseteq># owned_edges g"
    by (metis mset_subset_eq_add_right)
  then have sub: "mset es \<subseteq># all_edges g" using owned by (rule subset_mset.order_trans)
  note r = edges_ok_remove_all [OF ok sub]
  have del': "index_ok (omap_delete p (relationship_edges_by_owner g))"
    using idx by (auto simp: index_ok_def)
  have "fst (remove_relationships_in_file p g) = Inr (length es) \<and>
    edges_ok (snd (remove_relationships_in_file p g)) \<and>
    all_edges (snd (remove_relationships_in_file p g)) = all_edges g - mset es \<and>
    arena_of (snd (remove_relationships_in_file p g)) = arena_of g \<and>
    calls_of (snd (remove_relationships_in_file p g)) = calls_of g \<and>
    relationship_edges_by_owner (snd (remove_relationships_in_file p g)) =
      omap_delete p (relationship_edges_by_owner g)"
  proof (cases "omap_get (relationship_edges_by_owner g) p")
    case None
    then have "es = []" by (simp add: es_def index_at_def omap_get_or_def)
    with None ok show ?thesis
      by (simp add: remove_relationships_in_file_def omap_delete_absent)
  next
    case (Some es')
    then have "es' = es" by (simp add: es_def index_at_def omap_get_or_def)
    with Some r del' show ?thesis
      by (cases "op_each remove_edge_raw es g")
        (simp add: remove_relationships_in_file_def put_owners all_edges_def arena_of_def calls_of_def)
  qed
  then show "fst (remove_relationships_in_file p g) = Inr (length es)"
    "edges_ok (snd (remove_relationships_in_file p g))"
    "all_edges (snd (remove_relationships_in_file p g)) = all_edges g - mset es"
    "arena_of (snd (remove_relationships_in_file p g)) = arena_of g"
    "calls_of (snd (remove_relationships_in_file p g)) = calls_of g"
    "relationship_edges_by_owner (snd (remove_relationships_in_file p g)) =
      omap_delete p (relationship_edges_by_owner g)" by blast+
  then show "owned_edges (snd (remove_relationships_in_file p g)) = owned_edges g - mset es"
    using del by (metis add_diff_cancel_right' owned_edges_def)
qed

end
