(* ===== verification/Graph_Calls.thy ===== *)
theory Graph_Calls
  imports Graph_Edges
begin

section \<open>Call sites\<close>

text \<open>
  The call-site operations of \<open>SymbolGraph\<close> (\<open>graph.rs\<close>): lookup keys, resolution
  against the callable index, \<open>add_call_site\<close>, \<open>remove_call_sites_in_file\<close>, and the
  bounded queries over ambiguous sites. A resolved call site materializes one \<open>CALLS\<close> edge
  and, the first time a test calls a target, one \<open>TESTS\<close> edge; the invariant states that
  the edges of the graph are exactly the file-owned relationships and these derived edges.
\<close>

subsection \<open>Lookup keys and resolution\<close>

record call_site_input =
  in_caller :: entity_id
  in_form :: call_form
  in_target_kind :: call_target_kind
  in_name :: string
  in_qualifier :: "string option"
  in_receiver_type :: "string option"
  in_receiver_type_source :: "receiver_type_source option"
  in_receiver_hint :: "string option"
  in_location :: source_range
  in_provenance :: provenance
  in_precision :: precision

definition call_site_lookup_key ::
    "language \<Rightarrow> call_form \<Rightarrow> call_target_kind \<Rightarrow> string \<Rightarrow> string option \<Rightarrow> call_lookup_key option" where
  "call_site_lookup_key lang form kind name qualifier =
     (if qualifier = None \<and> form \<in> {FormMember, FormNullsafeMember, FormScoped} then None
      else Some (lang, kind, name, qualifier))"

definition call_site_lookup_keys ::
    "language option \<Rightarrow> call_form \<Rightarrow> call_target_kind \<Rightarrow> string \<Rightarrow> string option \<Rightarrow>
     call_lookup_key list" where
  "call_site_lookup_keys lang form kind name qualifier =
     (case lang of
        None \<Rightarrow> []
      | Some l \<Rightarrow>
          if kind = TargetFunctionOrMethod then
            (case call_site_lookup_key l form TargetMethod name qualifier of
               None \<Rightarrow> [] | Some k \<Rightarrow> [k]) @
            (case call_site_lookup_key l FormFunction TargetFunction name None of
               None \<Rightarrow> [] | Some k \<Rightarrow> [k])
          else
            (case call_site_lookup_key l form kind name qualifier of None \<Rightarrow> [] | Some k \<Rightarrow> [k]))"

text \<open>The distinct ids filed under the keys, in the order they are first met.\<close>

definition candidates_for ::
    "(call_lookup_key, 'v list) omap \<Rightarrow> call_lookup_key list \<Rightarrow> 'v list" where
  "candidates_for m keys = fold (\<lambda>k acc. fold push_new (index_at m k) acc) keys []"

definition resolve_call ::
    "partition \<Rightarrow> language \<Rightarrow> call_form \<Rightarrow> call_target_kind \<Rightarrow> string \<Rightarrow> string option \<Rightarrow>
     call_resolution" where
  "resolve_call g lang form kind name qualifier =
     (let keys = call_site_lookup_keys (Some lang) form kind name qualifier
      in if keys = [] then Unresolved
         else case candidates_for (callables g) keys of
                [] \<Rightarrow> Unresolved
              | [target] \<Rightarrow> Resolved target
              | c # d # ids \<Rightarrow> Ambiguous (length (c # d # ids)))"

text \<open>
  \<open>s.trim().is_empty()\<close>: only Unicode white space, here over the UTF-8 bytes;
  \<open>s.chars().count()\<close>: the bytes that are not UTF-8 continuation bytes.
\<close>

definition wide_space :: "nat \<Rightarrow> nat \<Rightarrow> nat \<Rightarrow> bool" where
  "wide_space x y z \<longleftrightarrow>
     x = 225 \<and> y = 154 \<and> z = 128 \<or>
     x = 226 \<and> y = 128 \<and> (128 \<le> z \<and> z \<le> 138 \<or> z \<in> {168, 169, 175}) \<or>
     x = 226 \<and> y = 129 \<and> z = 159 \<or>
     x = 227 \<and> y = 128 \<and> z = 128"

fun all_whitespace :: "nat list \<Rightarrow> bool" where
  "all_whitespace [] = True"
| "all_whitespace (x # xs) =
     (if x \<in> {9, 10, 11, 12, 13, 32} then all_whitespace xs
      else if x = 194
      then (case xs of y # ys \<Rightarrow> y \<in> {133, 160} \<and> all_whitespace ys | [] \<Rightarrow> False)
      else (case xs of y # z # ys \<Rightarrow> wide_space x y z \<and> all_whitespace ys | _ \<Rightarrow> False))"

definition trim_is_empty :: "string \<Rightarrow> bool" where
  "trim_is_empty s = all_whitespace (map of_char s)"

definition char_count :: "string \<Rightarrow> nat" where
  "char_count s = length (filter (\<lambda>c. of_char c < (128::nat) \<or> of_char c \<ge> (192::nat)) s)"

definition validate_call_site_input :: "partition \<Rightarrow> call_site_input \<Rightarrow> graph_error option" where
  "validate_call_site_input g i =
     (if trim_is_empty (in_name i) then Some EmptyCallSiteName
      else if (case in_receiver_hint i of None \<Rightarrow> False
               | Some h \<Rightarrow> max_receiver_hint_chars < char_count h)
      then Some (ReceiverHintTooLong max_receiver_hint_chars)
      else if (in_receiver_type i \<noteq> None) \<noteq> (in_receiver_type_source i \<noteq> None)
      then Some ReceiverTypeEvidenceMismatch
      else case omap_get (symbols g) (in_caller i) of
        None \<Rightarrow> Some (UnknownEntity (in_caller i))
      | Some caller \<Rightarrow>
          if range_file (sym_location caller) \<noteq> range_file (in_location i)
          then Some (CallSiteLocationMismatch (in_caller i) (range_file (in_location i))
                 (range_file (sym_location caller)))
          else None)"

subsection \<open>Derived edges\<close>

definition call_relation_tier :: "provenance \<Rightarrow> precision \<Rightarrow> provenance \<times> precision" where
  "call_relation_tier pv pr = (if pr = Precise then (pv, Precise) else (pv, Heuristic))"

definition test_relation_tier :: "provenance \<Rightarrow> precision \<Rightarrow> provenance \<times> precision" where
  "test_relation_tier pv pr = (if pr = Precise then (pv, Precise) else (ProvHeuristic, Heuristic))"

definition calls_edge ::
    "entity_id \<Rightarrow> entity_id \<Rightarrow> provenance \<Rightarrow> precision \<Rightarrow> source_range \<Rightarrow> edge" where
  "calls_edge caller target pv pr location =
     \<lparr>edge_kind = Calls, edge_from = caller, edge_to = target,
      edge_provenance = fst (call_relation_tier pv pr),
      edge_precision = snd (call_relation_tier pv pr), edge_location = Some location\<rparr>"

definition tests_edge ::
    "entity_id \<Rightarrow> entity_id \<Rightarrow> provenance \<Rightarrow> precision \<Rightarrow> source_range \<Rightarrow> edge" where
  "tests_edge caller target pv pr location =
     \<lparr>edge_kind = Tests, edge_from = caller, edge_to = target,
      edge_provenance = fst (test_relation_tier pv pr),
      edge_precision = snd (test_relation_tier pv pr), edge_location = Some location\<rparr>"

definition is_test :: "partition \<Rightarrow> entity_id \<Rightarrow> bool" where
  "is_test g i \<longleftrightarrow>
     (case omap_get (symbols g) i of None \<Rightarrow> False | Some s \<Rightarrow> key_kind (sym_key s) = KindTest)"

definition call_sites_from :: "partition \<Rightarrow> entity_id \<Rightarrow> call_site list" where
  "call_sites_from g caller =
     List.map_filter (omap_get (call_sites g)) (index_at (call_sites_by_caller g) caller)"

definition site_keys :: "partition \<Rightarrow> call_site \<Rightarrow> call_lookup_key list" where
  "site_keys g cs =
     call_site_lookup_keys
       (map_option (\<lambda>s. key_language (sym_key s)) (omap_get (symbols g) (site_caller cs)))
       (site_form cs) (site_target_kind cs) (site_name cs) (site_qualifier cs)"

subsection \<open>Adding a call site\<close>

definition insert_call_site :: "call_site \<Rightarrow> unit graph_op" where
  "insert_call_site cs g =
     (case validate_call_site_input g
        \<lparr>in_caller = site_caller cs, in_form = site_form cs, in_target_kind = site_target_kind cs,
         in_name = site_name cs, in_qualifier = site_qualifier cs,
         in_receiver_type = site_receiver_type cs,
         in_receiver_type_source = site_receiver_type_source cs,
         in_receiver_hint = site_receiver_hint cs, in_location = site_location cs,
         in_provenance = site_provenance cs, in_precision = site_precision cs\<rparr> of
        Some e \<Rightarrow> (Inl e, g)
      | None \<Rightarrow>
          (case (case site_resolution cs of
                   Resolved target \<Rightarrow>
                     if omap_get (symbols g) target = None then Some (UnknownEntity target) else None
                 | _ \<Rightarrow> None) of
             Some e \<Rightarrow> (Inl e, g)
           | None \<Rightarrow>
               (let index = next_call_site_id g;
                    g1 = g\<lparr>next_call_site_id := sat_add64 (next_call_site_id g) 1,
                           call_sites_by_caller :=
                             index_push (site_caller cs) index (call_sites_by_caller g)\<rparr>;
                    g2 = (case site_resolution cs of
                            Ambiguous _ \<Rightarrow>
                              g1\<lparr>ambiguous_call_sites := ambiguous_call_sites g1 + 1,
                                 call_sites_by_lookup :=
                                   fold (\<lambda>k. index_push k index) (site_keys g cs)
                                     (call_sites_by_lookup g1)\<rparr>
                          | Unresolved \<Rightarrow>
                              g1\<lparr>unresolved_call_sites := unresolved_call_sites g1 + 1\<rparr>
                          | Resolved _ \<Rightarrow> g1)
                in (Inr (), g2\<lparr>call_sites := omap_insert index cs (call_sites g2)\<rparr>))))"

definition materialize_call ::
    "call_site_input \<Rightarrow> entity_id \<Rightarrow> unit graph_op" where
  "materialize_call i target g =
     (case add_edge_raw
         (calls_edge (in_caller i) target (in_provenance i) (in_precision i) (in_location i)) g of
        (Inl e, g') \<Rightarrow> (Inl e, g')
      | (Inr _, g') \<Rightarrow>
          if is_test g' (in_caller i) \<and>
             \<not> list_ex (\<lambda>cs. site_resolution cs = Resolved target) (call_sites_from g' (in_caller i))
          then add_edge_raw
            (tests_edge (in_caller i) target (in_provenance i) (in_precision i) (in_location i)) g'
          else (Inr (), g'))"

definition site_of_input :: "call_site_input \<Rightarrow> call_resolution \<Rightarrow> call_site" where
  "site_of_input i resolution =
     \<lparr>site_caller = in_caller i, site_form = in_form i, site_target_kind = in_target_kind i,
      site_name = in_name i, site_qualifier = in_qualifier i,
      site_receiver_type = in_receiver_type i,
      site_receiver_type_source = in_receiver_type_source i,
      site_receiver_hint = in_receiver_hint i, site_location = in_location i,
      site_resolution = resolution, site_provenance = in_provenance i,
      site_precision = in_precision i\<rparr>"

definition add_call_site :: "call_site_input \<Rightarrow> call_resolution graph_op" where
  "add_call_site i g =
     (case validate_call_site_input g i of
        Some e \<Rightarrow> (Inl e, g)
      | None \<Rightarrow>
          (case omap_get (symbols g) (in_caller i) of
             None \<Rightarrow> (Inl (UnknownEntity (in_caller i)), g)
           | Some caller \<Rightarrow>
               (let resolution = resolve_call g (key_language (sym_key caller)) (in_form i)
                      (in_target_kind i) (in_name i) (in_qualifier i)
                in case (case resolution of
                           Resolved target \<Rightarrow> materialize_call i target g
                         | _ \<Rightarrow> (Inr (), g)) of
                     (Inl e, g') \<Rightarrow> (Inl e, g')
                   | (Inr _, g') \<Rightarrow>
                       (case insert_call_site (site_of_input i resolution) g' of
                          (Inl e, g'') \<Rightarrow> (Inl e, g'')
                        | (Inr _, g'') \<Rightarrow> (Inr resolution, g'')))))"

definition call_site_edge_cost :: "partition \<Rightarrow> call_site_input \<Rightarrow> graph_error + nat" where
  "call_site_edge_cost g i =
     (case validate_call_site_input g i of
        Some e \<Rightarrow> Inl e
      | None \<Rightarrow>
          (case omap_get (symbols g) (in_caller i) of
             None \<Rightarrow> Inl (UnknownEntity (in_caller i))
           | Some caller \<Rightarrow>
               Inr (case resolve_call g (key_language (sym_key caller)) (in_form i)
                         (in_target_kind i) (in_name i) (in_qualifier i) of
                      Resolved _ \<Rightarrow> if key_kind (sym_key caller) = KindTest then 2 else 1
                    | _ \<Rightarrow> 0)))"

subsection \<open>Removing the call sites of a file\<close>

text \<open>
  The locals of the loop: how many sites were removed, and the (caller, target) pairs
  whose \<open>TESTS\<close> edge has been removed already.
\<close>

type_synonym removal_state = "nat \<times> (entity_id \<times> entity_id) list"

definition dematerialize_call ::
    "call_site \<Rightarrow> entity_id \<Rightarrow> (entity_id \<times> entity_id) list \<Rightarrow>
     (entity_id \<times> entity_id) list graph_op" where
  "dematerialize_call cs target gone g =
     (case remove_edge_raw
         (calls_edge (site_caller cs) target (site_provenance cs) (site_precision cs)
            (site_location cs)) g of
        (Inl e, g') \<Rightarrow> (Inl e, g')
      | (Inr _, g') \<Rightarrow>
          if is_test g' (site_caller cs) \<and> (site_caller cs, target) \<notin> set gone
          then (case remove_edge_raw
                    (tests_edge (site_caller cs) target (site_provenance cs) (site_precision cs)
                       (site_location cs)) g' of
                  (Inl e, g'') \<Rightarrow> (Inl e, g'')
                | (Inr _, g'') \<Rightarrow> (Inr ((site_caller cs, target) # gone), g''))
          else (Inr gone, g'))"

definition forget_call_site :: "nat \<Rightarrow> call_site \<Rightarrow> partition \<Rightarrow> partition" where
  "forget_call_site index cs g =
     (let g1 = (case site_resolution cs of
                  Ambiguous _ \<Rightarrow>
                    g\<lparr>ambiguous_call_sites := sat_sub (ambiguous_call_sites g) 1,
                      call_sites_by_lookup :=
                        fold (\<lambda>k. index_drop k index) (site_keys g cs) (call_sites_by_lookup g)\<rparr>
                | Unresolved \<Rightarrow> g\<lparr>unresolved_call_sites := sat_sub (unresolved_call_sites g) 1\<rparr>
                | Resolved _ \<Rightarrow> g)
      in g1\<lparr>call_sites := omap_delete index (call_sites g1)\<rparr>)"

definition remove_call_site :: "nat \<Rightarrow> removal_state \<Rightarrow> removal_state graph_op" where
  "remove_call_site index st g =
     (case omap_get (call_sites g) index of
        None \<Rightarrow> (Inr st, g)
      | Some cs \<Rightarrow>
          (case (case site_resolution cs of
                   Resolved target \<Rightarrow> dematerialize_call cs target (snd st) g
                 | _ \<Rightarrow> (Inr (snd st), g)) of
             (Inl e, g') \<Rightarrow> (Inl e, g')
           | (Inr gone, g') \<Rightarrow> (Inr (sat_add64 (fst st) 1, gone), forget_call_site index cs g')))"

definition remove_calls_of :: "entity_id \<Rightarrow> removal_state \<Rightarrow> removal_state graph_op" where
  "remove_calls_of caller st g =
     (case omap_get (call_sites_by_caller g) caller of
        None \<Rightarrow> (Inr st, g)
      | Some indexes \<Rightarrow>
          (case op_fold remove_call_site indexes st g of
             (Inl e, g') \<Rightarrow> (Inl e, g')
           | (Inr st', g') \<Rightarrow>
               (Inr st',
                g'\<lparr>call_sites_by_caller := omap_delete caller (call_sites_by_caller g')\<rparr>)))"

definition remove_call_sites_in_file :: "repo_path \<Rightarrow> nat graph_op" where
  "remove_call_sites_in_file path g =
     (case omap_get (files g) path of
        None \<Rightarrow> (Inr 0, g)
      | Some file \<Rightarrow>
          (case op_fold remove_calls_of (file_symbols file) (0, []) g of
             (Inl e, g') \<Rightarrow> (Inl e, g')
           | (Inr st, g') \<Rightarrow> (Inr (fst st), g')))"

subsection \<open>Queries over ambiguous sites\<close>

text \<open>
  The loop that collects distinct items until one more than \<open>limit\<close> is found: the first
  \<open>limit + 1\<close> distinct items in order.
\<close>

definition call_candidates :: "partition \<Rightarrow> call_site \<Rightarrow> nat \<Rightarrow> symbol list \<times> bool" where
  "call_candidates g cs limit =
     (case site_resolution cs of
        Ambiguous _ \<Rightarrow>
          (let keys = site_keys g cs
           in if keys = [] then ([], False)
              else
                (let ids = take (limit + 1) (candidates_for (callables g) keys)
                 in (List.map_filter (omap_get (symbols g)) (take limit ids), limit < length ids)))
      | _ \<Rightarrow> ([], False))"

definition call_sites_for_target :: "partition \<Rightarrow> entity_id \<Rightarrow> nat \<Rightarrow> call_site list \<times> bool" where
  "call_sites_for_target g target limit =
     (case omap_get (symbols g) target of
        None \<Rightarrow> ([], False)
      | Some s \<Rightarrow>
          (let indexes = sort (take (limit + 1)
                 (candidates_for (call_sites_by_lookup g) (callable_lookup_keys s)))
           in (List.map_filter (omap_get (call_sites g)) (take limit indexes),
               limit < length indexes)))"

definition call_site_for_edge :: "partition \<Rightarrow> edge \<Rightarrow> call_site option" where
  "call_site_for_edge g e =
     (if edge_kind e \<in> {Calls, Tests}
      then find (\<lambda>cs. site_resolution cs = Resolved (edge_to e) \<and>
                   edge_location e = Some (site_location cs)) (call_sites_from g (edge_from e))
      else None)"

end
