(* ===== verification/Graph_Invariant.thy ===== *)
theory Graph_Invariant
  imports Graph_Calls
begin

section \<open>The whole graph invariant\<close>

text \<open>
  The invariant of a partition (\<open>graph_ok\<close>): the arena, the adjacency indexes, the
  call-site indexes and counters, and the balance of edges: what the graph holds is exactly
  the file-owned relationships plus the edges derived from resolved call sites. Every
  operation of the graph keeps it.
\<close>

subsection \<open>Edges derived from call sites\<close>

text \<open>
  The edges of one caller's sites in order; \<open>seen\<close> are the targets that already have a
  \<open>TESTS\<close> edge.
\<close>

fun site_edges :: "bool \<Rightarrow> entity_id list \<Rightarrow> call_site list \<Rightarrow> edge list" where
  "site_edges test seen [] = []"
| "site_edges test seen (cs # rest) =
     (case site_resolution cs of
        Resolved t \<Rightarrow>
          calls_edge (site_caller cs) t (site_provenance cs) (site_precision cs) (site_location cs) #
          (if test \<and> t \<notin> set seen
           then tests_edge (site_caller cs) t (site_provenance cs) (site_precision cs)
                  (site_location cs) # site_edges test (t # seen) rest
           else site_edges test seen rest)
      | _ \<Rightarrow> site_edges test seen rest)"

definition new_site_edges :: "bool \<Rightarrow> entity_id list \<Rightarrow> call_site list \<Rightarrow> call_site \<Rightarrow> edge list" where
  "new_site_edges test seen sites cs =
     (case site_resolution cs of
        Resolved t \<Rightarrow>
          calls_edge (site_caller cs) t (site_provenance cs) (site_precision cs) (site_location cs) #
          (if test \<and> t \<notin> set seen \<and> \<not> list_ex (\<lambda>x. site_resolution x = Resolved t) sites
           then [tests_edge (site_caller cs) t (site_provenance cs) (site_precision cs)
                  (site_location cs)]
           else [])
      | _ \<Rightarrow> [])"

definition caller_sites :: "partition \<Rightarrow> nat list \<Rightarrow> call_site list" where
  "caller_sites g idxs = List.map_filter (omap_get (call_sites g)) idxs"

definition caller_edges :: "partition \<Rightarrow> entity_id \<Rightarrow> nat list \<Rightarrow> edge list" where
  "caller_edges g c idxs = site_edges (is_test g c) [] (caller_sites g idxs)"

definition derived_edges :: "partition \<Rightarrow> edge multiset" where
  "derived_edges g = omap_sum (caller_edges g) (call_sites_by_caller g)"

definition is_ambiguous :: "call_site \<Rightarrow> bool" where
  "is_ambiguous cs \<longleftrightarrow> (case site_resolution cs of Ambiguous _ \<Rightarrow> True | _ \<Rightarrow> False)"

definition is_unresolved :: "call_site \<Rightarrow> bool" where
  "is_unresolved cs \<longleftrightarrow> site_resolution cs = Unresolved"

definition sites_where :: "(call_site \<Rightarrow> bool) \<Rightarrow> (nat, call_site) omap \<Rightarrow> nat" where
  "sites_where P m = size (omap_sum (\<lambda>_ cs. if P cs then [cs] else []) m)"

definition site_index_ok :: "partition \<Rightarrow> bool" where
  "site_index_ok g \<longleftrightarrow>
     omap_ok (call_sites g) \<and> index_ok (call_sites_by_caller g) \<and>
     (\<forall>c. distinct (index_at (call_sites_by_caller g) c)) \<and>
     (\<forall>c i. i \<in> set (index_at (call_sites_by_caller g) c) \<longleftrightarrow>
        (\<exists>cs. omap_get (call_sites g) i = Some cs \<and> site_caller cs = c))"

definition site_lookup_ok :: "partition \<Rightarrow> bool" where
  "site_lookup_ok g \<longleftrightarrow>
     index_ok (call_sites_by_lookup g) \<and>
     (\<forall>k. distinct (index_at (call_sites_by_lookup g) k)) \<and>
     (\<forall>k i. i \<in> set (index_at (call_sites_by_lookup g) k) \<longleftrightarrow>
        (\<exists>cs. omap_get (call_sites g) i = Some cs \<and> is_ambiguous cs \<and> k \<in> set (site_keys g cs)))"

definition site_callers_ok :: "partition \<Rightarrow> bool" where
  "site_callers_ok g \<longleftrightarrow>
     (\<forall>i cs. omap_get (call_sites g) i = Some cs \<longrightarrow>
        i < next_call_site_id g \<and>
        (\<exists>s. omap_get (symbols g) (site_caller cs) = Some s \<and>
           range_file (sym_location s) = range_file (site_location cs)))"

definition site_counts_ok :: "partition \<Rightarrow> bool" where
  "site_counts_ok g \<longleftrightarrow>
     ambiguous_call_sites g = sites_where is_ambiguous (call_sites g) \<and>
     unresolved_call_sites g = sites_where is_unresolved (call_sites g)"

definition sites_ok :: "partition \<Rightarrow> bool" where
  "sites_ok g \<longleftrightarrow> site_index_ok g \<and> site_lookup_ok g \<and> site_callers_ok g \<and> site_counts_ok g"

definition graph_ok :: "(string \<Rightarrow> string) \<Rightarrow> partition \<Rightarrow> bool" where
  "graph_ok lower g \<longleftrightarrow>
     arena_ok lower g \<and> edges_ok g \<and> sites_ok g \<and> all_edges g = owned_edges g + derived_edges g"

lemma site_edges_snoc:
  "site_edges test seen (sites @ [cs]) = site_edges test seen sites @ new_site_edges test seen sites cs"
proof (induction sites arbitrary: seen)
  case Nil
  then show ?case by (simp add: new_site_edges_def split: call_resolution.split)
next
  case (Cons x sites)
  show ?case
  proof (cases "site_resolution x")
    case (Resolved t)
    have "new_site_edges test (t # seen) sites cs = new_site_edges test seen (x # sites) cs"
      using Resolved by (auto simp: new_site_edges_def split: call_resolution.split)
    moreover have "new_site_edges test seen sites cs = new_site_edges test seen (x # sites) cs"
      if "\<not> (test \<and> t \<notin> set seen)"
      using that Resolved by (auto simp: new_site_edges_def split: call_resolution.split)
    ultimately show ?thesis
      using Cons.IH [of seen] Cons.IH [of "t # seen"] Resolved
      by (cases test; cases "t \<in> set seen") simp_all
  next
    case (Ambiguous n)
    then have "new_site_edges test seen sites cs = new_site_edges test seen (x # sites) cs"
      by (auto simp: new_site_edges_def split: call_resolution.split)
    with Cons.IH Ambiguous show ?thesis by simp
  next
    case Unresolved
    then have "new_site_edges test seen sites cs = new_site_edges test seen (x # sites) cs"
      by (auto simp: new_site_edges_def split: call_resolution.split)
    with Cons.IH Unresolved show ?thesis by simp
  qed
qed

lemma call_sites_from_caller_sites:
  "call_sites_from g c = caller_sites g (index_at (call_sites_by_caller g) c)"
  by (simp add: call_sites_from_def caller_sites_def)

lemma caller_edges_Nil [simp]: "caller_edges g c [] = []"
  by (simp add: caller_edges_def caller_sites_def List.map_filter_def)

lemma sites_where_insert:
  assumes "omap_ok m" "omap_get m i = None"
  shows "sites_where P (omap_insert i cs m) = sites_where P m + (if P cs then 1 else 0)"
  using omap_sum_insert [OF assms(1), of "\<lambda>_ cs. if P cs then [cs] else []" i cs] assms(2)
  by (auto simp: sites_where_def)

lemma sites_where_delete:
  assumes "omap_ok m" "omap_get m i = Some cs"
  shows "sites_where P (omap_delete i m) = sites_where P m - (if P cs then 1 else 0)"
proof -
  have "omap_sum (\<lambda>_ cs. if P cs then [cs] else []) (omap_delete i m) + (if P cs then {#cs#} else {#})
      = omap_sum (\<lambda>_ cs. if P cs then [cs] else []) m"
    using omap_sum_delete [OF assms(1), of "\<lambda>_ cs. if P cs then [cs] else []" i] assms(2)
    by (cases "P cs") simp_all
  from arg_cong [OF this, of size] show ?thesis
    by (simp add: sites_where_def split: if_splits)
qed

lemma graph_ok_new [chakra_inv]: "graph_ok lower partition_new"
  using arena_ok_new [of lower] edges_ok_new
  by (simp add: graph_ok_def sites_ok_def site_index_ok_def site_lookup_ok_def site_callers_ok_def
      site_counts_ok_def sites_where_def all_edges_def owned_edges_def derived_edges_def
      partition_new_def)

subsection \<open>Changes that leave call sites alone\<close>

text \<open>
  A change of the symbol arena that keeps key and file of every caller keeps the call-site
  part of the invariant and the derived edges.
\<close>

definition callers_kept :: "partition \<Rightarrow> partition \<Rightarrow> bool" where
  "callers_kept g h \<longleftrightarrow>
     (\<forall>i cs s. omap_get (call_sites g) i = Some cs \<longrightarrow> omap_get (symbols g) (site_caller cs) = Some s \<longrightarrow>
        (\<exists>s'. omap_get (symbols h) (site_caller cs) = Some s' \<and> sym_key s' = sym_key s \<and>
           range_file (sym_location s') = range_file (sym_location s)))"

lemma callers_keptD:
  assumes "sites_ok g" "callers_kept g h" "omap_get (call_sites g) i = Some cs"
  obtains s s' where "omap_get (symbols g) (site_caller cs) = Some s"
    "omap_get (symbols h) (site_caller cs) = Some s'" "sym_key s' = sym_key s"
    "range_file (sym_location s') = range_file (sym_location s)"
    "range_file (sym_location s) = range_file (site_location cs)"
proof -
  from assms(1,3) obtain s where "omap_get (symbols g) (site_caller cs) = Some s"
    "range_file (sym_location s) = range_file (site_location cs)"
    unfolding sites_ok_def site_callers_ok_def by blast
  moreover with assms(2,3) obtain s' where "omap_get (symbols h) (site_caller cs) = Some s'"
    "sym_key s' = sym_key s" "range_file (sym_location s') = range_file (sym_location s)"
    unfolding callers_kept_def by blast
  ultimately show ?thesis using that by blast
qed

lemma sites_ok_callers_kept:
  assumes ok: "sites_ok g" and same: "calls_of h = calls_of g" and kept: "callers_kept g h"
  shows "sites_ok h" "derived_edges h = derived_edges g"
proof -
  have eqs: "call_sites h = call_sites g" "call_sites_by_caller h = call_sites_by_caller g"
    "call_sites_by_lookup h = call_sites_by_lookup g" "next_call_site_id h = next_call_site_id g"
    "ambiguous_call_sites h = ambiguous_call_sites g"
    "unresolved_call_sites h = unresolved_call_sites g"
    using same by (simp_all add: calls_of_def)
  have keys: "site_keys h cs = site_keys g cs" if "omap_get (call_sites g) i = Some cs" for i cs
    by (rule callers_keptD [OF ok kept that]) (simp add: site_keys_def)
  have "site_index_ok h" "site_counts_ok h"
    using ok by (simp_all add: sites_ok_def site_index_ok_def site_counts_ok_def eqs)
  moreover have "site_lookup_ok h"
    using ok keys unfolding sites_ok_def site_lookup_ok_def eqs by metis
  moreover have "site_callers_ok h"
    unfolding site_callers_ok_def eqs
  proof (intro allI impI)
    fix i cs assume cs: "omap_get (call_sites g) i = Some cs"
    with ok have "i < next_call_site_id g" by (simp add: sites_ok_def site_callers_ok_def)
    then show "i < next_call_site_id g \<and> (\<exists>s. omap_get (symbols h) (site_caller cs) = Some s \<and>
        range_file (sym_location s) = range_file (site_location cs))"
      by (rule_tac callers_keptD [OF ok kept cs]) simp
  qed
  ultimately show "sites_ok h" by (simp add: sites_ok_def)
  show "derived_edges h = derived_edges g"
    unfolding derived_edges_def eqs
  proof (rule omap_sum_cong)
    fix c idxs assume "(c, idxs) \<in> set (call_sites_by_caller g)"
    with ok have get: "omap_get (call_sites_by_caller g) c = Some idxs"
      using omap_ok_get_iff [of "call_sites_by_caller g" c idxs]
      by (simp add: sites_ok_def site_index_ok_def)
    with ok have "idxs \<noteq> []" by (auto simp: sites_ok_def site_index_ok_def index_ok_def)
    then obtain i where i: "i \<in> set (index_at (call_sites_by_caller g) c)"
      using get by (cases idxs) (auto simp: index_at_def omap_get_or_def)
    with ok obtain cs where cs: "omap_get (call_sites g) i = Some cs" "site_caller cs = c"
      unfolding sites_ok_def site_index_ok_def by blast
    have "is_test h c = is_test g c"
      by (rule callers_keptD [OF ok kept cs(1)]) (simp add: is_test_def cs(2))
    then show "mset (caller_edges h c idxs) = mset (caller_edges g c idxs)"
      by (simp add: caller_edges_def caller_sites_def eqs)
  qed
qed

lemma callers_kept_symbols: "symbols h = symbols g \<Longrightarrow> callers_kept g h"
  by (simp add: callers_kept_def)

text \<open>Operations on files and on edges keep the symbols, so the lemma above applies.\<close>

lemma graph_ok_same_symbols:
  assumes "graph_ok lower g" "arena_ok lower h" "edges_ok h" "symbols h = symbols g"
    "calls_of h = calls_of g" "all_edges h = owned_edges h + derived_edges g"
  shows "graph_ok lower h"
  using assms sites_ok_callers_kept [of g h] callers_kept_symbols [of h g]
  by (simp add: graph_ok_def)

lemma graph_ok_files:
  assumes ok: "graph_ok lower g" and h: "h = g\<lparr>files := m\<rparr>" and arena: "arena_ok lower h"
  shows "graph_ok lower h"
proof (rule graph_ok_same_symbols [OF ok arena])
  show "edges_ok h" using ok h edges_ok_cong [of h g] by (simp add: graph_ok_def put_files)
  show "all_edges h = owned_edges h + derived_edges g"
    using ok h by (simp add: graph_ok_def all_edges_def owned_edges_def)
qed (simp_all add: h calls_of_def)

lemma graph_ok_add_file [chakra_inv]:
  assumes "graph_ok lower g"
  shows "graph_ok lower (snd (add_file_full p src md ds n g))"
    "graph_ok lower (snd (replace_file_source p src g))"
    "graph_ok lower (snd (replace_file_source_and_diagnostics p src ds n g))"
    "graph_ok lower (snd (replace_file_metadata p md g))"
proof -
  have arena: "arena_ok lower g" using assms by (simp add: graph_ok_def)
  have only: "graph_ok lower h" if "\<exists>m. h = g\<lparr>files := m\<rparr>" "arena_ok lower h" for h
    using that graph_ok_files [OF assms] by blast
  have self: "\<exists>m. g = g\<lparr>files := m\<rparr>" by (rule exI [of _ "files g"]) simp
  show "graph_ok lower (snd (add_file_full p src md ds n g))"
    by (rule only [OF _ arena_ok_add_file_full [OF arena]])
      (auto simp: add_file_full_def self split: option.split)
  show "graph_ok lower (snd (replace_file_source p src g))"
    by (rule only [OF _ arena_ok_replace_file(1) [OF arena]])
      (auto simp: replace_file_source_def self split: option.split)
  show "graph_ok lower (snd (replace_file_source_and_diagnostics p src ds n g))"
    by (rule only [OF _ arena_ok_replace_file(2) [OF arena]])
      (auto simp: replace_file_source_and_diagnostics_def self split: option.split)
  show "graph_ok lower (snd (replace_file_metadata p md g))"
    by (rule only [OF _ arena_ok_replace_file(3) [OF arena]])
      (auto simp: replace_file_metadata_def self split: option.split)
qed

subsection \<open>Changes of the symbol arena\<close>

lemma edges_ok_symbols:
  assumes "edges_ok g" "relations_of h = relations_of g"
    "\<And>e. e \<in># all_edges g \<Longrightarrow>
       omap_get (symbols h) (edge_from e) \<noteq> None \<and> omap_get (symbols h) (edge_to e) \<noteq> None"
  shows "edges_ok h"
proof -
  have "outgoing h = outgoing g" "incoming h = incoming g"
    "relationship_edges_by_owner h = relationship_edges_by_owner g" "edge_count h = edge_count g"
    using assms(2) by (simp_all add: relations_of_def)
  with assms(1,3) show ?thesis unfolding edges_ok_def all_edges_def by simp
qed

lemma relations_calls: "relations_of h = relations_of g \<Longrightarrow>
    calls_of h = calls_of g \<and> all_edges h = all_edges g \<and> owned_edges h = owned_edges g"
  by (simp add: relations_of_def calls_of_def all_edges_def owned_edges_def)

lemma graph_ok_new_symbols:
  assumes ok: "graph_ok lower g" and "arena_ok lower h" and rel: "relations_of h = relations_of g"
    and ends: "\<And>e. e \<in># all_edges g \<Longrightarrow>
       omap_get (symbols h) (edge_from e) \<noteq> None \<and> omap_get (symbols h) (edge_to e) \<noteq> None"
    and kept: "callers_kept g h"
  shows "graph_ok lower h"
proof -
  note r = relations_calls [OF rel]
  from ok have parts: "sites_ok g" "edges_ok g" "all_edges g = owned_edges g + derived_edges g"
    by (simp_all add: graph_ok_def)
  note s = sites_ok_callers_kept [OF parts(1) conjunct1 [OF r] kept]
  show ?thesis
    using assms(2) edges_ok_symbols [OF parts(2) rel ends] s parts(3) r by (simp add: graph_ok_def)
qed

lemma edge_endpoints:
  "graph_ok lower g \<Longrightarrow> e \<in># all_edges g \<Longrightarrow>
     omap_get (symbols g) (edge_from e) \<noteq> None \<and> omap_get (symbols g) (edge_to e) \<noteq> None"
  unfolding graph_ok_def edges_ok_def by blast

lemma graph_ok_add_symbol [chakra_inv]:
  assumes ok: "graph_ok lower g"
  shows "graph_ok lower (snd (add_symbol lower key loc sg pv pr g))"
proof (cases "add_symbol lower key loc sg pv pr g")
  case (Pair r g')
  have arena: "arena_ok lower g" using ok by (simp add: graph_ok_def)
  show ?thesis
  proof (cases r)
    case (Inl e)
    with Pair add_symbol_Inl [of lower key loc sg pv pr g e g'] ok show ?thesis by simp
  next
    case (Inr eid)
    with Pair have add: "add_symbol lower key loc sg pv pr g = (Inr eid, g')" by simp
    note res = add_symbol_Inr [OF add]
    have fresh: "omap_get (symbols g) eid = None"
      using fresh_entity_id [OF _ res(3)] arena res(1)
      by (simp add: next_id_for_def arena_ok_def lookups_ok_def)
    have grow: "omap_get (symbols g') x = omap_get (symbols g) x"
      if "omap_get (symbols g) x \<noteq> None" for x
      using that fresh res(4) by auto
    have "graph_ok lower g'"
    proof (rule graph_ok_new_symbols [OF ok])
      show "arena_ok lower g'" "relations_of g' = relations_of g"
        using arena_ok_add_symbol [OF arena, of key loc sg pv pr]
          relations_of_add_symbol [of lower key loc sg pv pr g] Pair by simp_all
      show "omap_get (symbols g') (edge_from e) \<noteq> None \<and> omap_get (symbols g') (edge_to e) \<noteq> None"
        if "e \<in># all_edges g" for e
        using edge_endpoints [OF ok that] grow by auto
      show "callers_kept g g'" unfolding callers_kept_def using grow by auto
    qed
    with Pair show ?thesis by simp
  qed
qed

lemma graph_ok_replace_symbol_payload [chakra_inv]:
  assumes ok: "graph_ok lower g"
  shows "graph_ok lower (snd (replace_symbol_payload eid key loc sg pv pr g))"
proof -
  let ?h = "snd (replace_symbol_payload eid key loc sg pv pr g)"
  have arena: "arena_ok lower g" using ok by (simp add: graph_ok_def)
  have kept: "\<exists>s'. omap_get (symbols ?h) x = Some s' \<and> sym_key s' = sym_key s \<and>
      range_file (sym_location s') = range_file (sym_location s)"
    if "omap_get (symbols g) x = Some s" for x s
  proof -
    have "key_path (sym_key s) = range_file (sym_location s)"
      using arena that unfolding arena_ok_def lookups_ok_def symbols_ok_def by blast
    with that show ?thesis
      by (auto simp: replace_symbol_payload_def Let_def split: option.split)
  qed
  show ?thesis
  proof (rule graph_ok_new_symbols [OF ok arena_ok_replace_symbol_payload [OF arena]])
    show "relations_of ?h = relations_of g"
      by (auto simp: replace_symbol_payload_def relations_of_def Let_def split: option.split)
    show "callers_kept g ?h" unfolding callers_kept_def using kept by blast
    show "omap_get (symbols ?h) (edge_from e) \<noteq> None \<and> omap_get (symbols ?h) (edge_to e) \<noteq> None"
      if "e \<in># all_edges g" for e
      using edge_endpoints [OF ok that] kept by fastforce
  qed
qed

lemma graph_ok_remove_file [chakra_inv]:
  assumes ok: "graph_ok lower g"
  shows "graph_ok lower (snd (remove_file lower p g))"
proof (cases "omap_get (files g) p")
  case None
  with ok show ?thesis by (simp add: remove_file_def)
next
  case (Some f)
  have arena: "arena_ok lower g" and edges: "edges_ok g" and sites: "sites_ok g"
    using ok by (simp_all add: graph_ok_def)
  show ?thesis
  proof (cases "find (still_referenced g) (file_symbols f)")
    case found: (Some eid)
    with ok Some show ?thesis by (simp add: remove_file_def)
  next
    case None
    then have free: "\<forall>eid\<in>set (file_symbols f). \<not> still_referenced g eid"
      by (auto simp: find_None_iff)
    from remove_file_cases [OF arena Some free] obtain g' where g':
      "remove_file lower p g = (Inr True, g')" "relations_of g' = relations_of g"
      "\<And>x. omap_get (symbols g') x =
         (if x \<in> set (file_symbols f) then None else omap_get (symbols g) x)"
      by blast
    have "graph_ok lower g'"
    proof (rule graph_ok_new_symbols [OF ok _ g'(2)])
      show "arena_ok lower g'" using arena_ok_remove_file [OF arena, of p] g'(1) by simp
      fix e assume e: "e \<in># all_edges g"
      then have "edge_from e \<notin> set (file_symbols f)" "edge_to e \<notin> set (file_symbols f)"
        using free edges_ok_at [OF edges, of e] by (force simp: still_referenced_def)+
      then show "omap_get (symbols g') (edge_from e) \<noteq> None \<and> omap_get (symbols g') (edge_to e) \<noteq> None"
        using edge_endpoints [OF ok e] g'(3) by simp
    next
      have "site_caller cs \<notin> set (file_symbols f)" if "omap_get (call_sites g) i = Some cs" for i cs
      proof -
        have "i \<in> set (index_at (call_sites_by_caller g) (site_caller cs))"
          using sites that unfolding sites_ok_def site_index_ok_def by blast
        then have "omap_get (call_sites_by_caller g) (site_caller cs) \<noteq> None"
          by (cases "omap_get (call_sites_by_caller g) (site_caller cs)")
            (auto simp: index_at_def omap_get_or_def)
        with free show ?thesis by (auto simp: still_referenced_def)
      qed
      then show "callers_kept g g'" unfolding callers_kept_def by (simp add: g'(3))
    qed
    with g'(1) show ?thesis by simp
  qed
qed

subsection \<open>Edges\<close>

lemma graph_ok_add_edge_owned_by [chakra_inv]:
  assumes ok: "graph_ok lower g"
  shows "graph_ok lower (snd (add_edge_owned_by p e g))"
proof (cases "omap_get (symbols g) (edge_from e) = None \<or> omap_get (symbols g) (edge_to e) = None")
  case True
  with ok add_edge_raw_unknown [of g e] show ?thesis by (auto simp: add_edge_owned_by_def)
next
  case False
  let ?g = "snd (add_edge_raw e g)" and ?h = "snd (add_edge_owned_by p e g)"
  have edges: "edges_ok g" using ok by (simp add: graph_ok_def)
  have known: "omap_get (symbols g) (edge_from e) \<noteq> None" "omap_get (symbols g) (edge_to e) \<noteq> None"
    using False by simp_all
  note r = edges_ok_add_edge_raw [OF edges known] and f = add_edge_raw_frame [of e g]
  have h: "?h = ?g\<lparr>relationship_edges_by_owner := index_push p e (relationship_edges_by_owner g)\<rparr>"
    using add_edge_raw_known(1) [OF known] f(3)
    by (cases "add_edge_raw e g") (simp add: add_edge_owned_by_def)
  show ?thesis
  proof (rule graph_ok_same_symbols [OF ok _ edges_ok_add_edge_owned_by [OF edges]])
    show "arena_ok lower ?h"
      using ok f(1) arena_ok_cong [of ?h g lower] by (simp add: graph_ok_def h arena_of_def)
    show "symbols ?h = symbols g" by (simp add: h f)
    show "calls_of ?h = calls_of g" using f(2) by (simp add: h calls_of_def)
    have "all_edges ?h = add_mset e (all_edges g)" using r(2) by (simp add: h all_edges_def)
    moreover have "owned_edges ?h = add_mset e (owned_edges g)"
      using edges_okD(3) [OF edges] by (simp add: h owned_edges_def)
    ultimately show "all_edges ?h = owned_edges ?h + derived_edges g"
      using ok by (simp add: graph_ok_def)
  qed
qed

lemma graph_ok_add_edge [chakra_inv]:
  "graph_ok lower g \<Longrightarrow> graph_ok lower (snd (add_edge kind from to pv pr loc g))"
  by (auto simp: add_edge_def chakra_inv split: option.splits)

lemma graph_ok_remove_relationships [chakra_inv]:
  assumes ok: "graph_ok lower g"
  shows "graph_ok lower (snd (remove_relationships_in_file p g))"
proof -
  have edges: "edges_ok g" and bal: "all_edges g = owned_edges g + derived_edges g"
    using ok by (simp_all add: graph_ok_def)
  then have "owned_edges g \<subseteq># all_edges g" by simp
  note r = remove_relationships_ok [OF edges this, of p]
  let ?h = "snd (remove_relationships_in_file p g)"
  show ?thesis
  proof (rule graph_ok_same_symbols [OF ok _ r(2)])
    show "arena_ok lower ?h" using ok r(5) arena_ok_cong [of ?h g lower] by (simp add: graph_ok_def)
    show "symbols ?h = symbols g" using r(5) by (simp add: arena_of_def)
    show "calls_of ?h = calls_of g" by (rule r(6))
    show "all_edges ?h = owned_edges ?h + derived_edges g"
      using bal r(8) unfolding r(3,4) by (metis subset_mset.diff_add_assoc2)
  qed
qed

end
