(* ===== verification/Graph_Site_Updates.thy ===== *)
theory Graph_Site_Updates
  imports Graph_Invariant
begin

section \<open>Adding and removing call sites\<close>

text \<open>
  The two operations that keep edges and call sites in step: \<open>add_call_site\<close> never leaves
  a half-materialized relation on a graph that satisfies the invariant, and
  \<open>remove_call_sites_in_file\<close> always succeeds and takes out exactly the sites of the
  file's declarations and the edges derived from them.
\<close>

subsection \<open>Adding\<close>

definition edges_of where
  "edges_of g = (outgoing g, incoming g, relationship_edges_by_owner g, edge_count g)"

lemma edges_of_edges_ok:
  "edges_of g = edges_of h \<Longrightarrow> symbols g = symbols h \<Longrightarrow>
   edges_ok g = edges_ok h \<and> all_edges g = all_edges h \<and> owned_edges g = owned_edges h"
  by (simp add: edges_of_def edges_ok_def all_edges_def owned_edges_def)

lemma set_candidates_for:
  "set (candidates_for m keys) = (\<Union>k\<in>set keys. set (index_at m k))"
proof -
  have push: "set (fold push_new xs acc) = set acc \<union> set xs" for xs acc :: "'a list"
    by (induction xs arbitrary: acc) (auto simp: push_new_def)
  have "set (fold (\<lambda>k acc. fold push_new (index_at m k) acc) keys acc) =
      set acc \<union> (\<Union>k\<in>set keys. set (index_at m k))" for acc
    by (induction keys arbitrary: acc) (auto simp: push)
  then show ?thesis by (simp add: candidates_for_def)
qed

lemma distinct_candidates_for: "distinct (candidates_for m keys)"
proof -
  have push: "distinct acc \<Longrightarrow> distinct (fold push_new xs acc)" for xs acc :: "'a list"
    by (induction xs arbitrary: acc) (auto simp: push_new_def)
  have "distinct acc \<Longrightarrow> distinct (fold (\<lambda>k acc. fold push_new (index_at m k) acc) keys acc)" for acc
    by (induction keys arbitrary: acc) (simp_all add: push)
  then show ?thesis by (simp add: candidates_for_def)
qed

lemma candidates_for_Nil [simp]: "candidates_for m [] = []"
  by (simp add: candidates_for_def)

text \<open>A resolved call has exactly one declaration under its keys.\<close>

lemma resolve_call_Resolved:
  assumes "resolve_call g lang form kind name qualifier = Resolved t"
  shows "candidates_for (callables g)
    (call_site_lookup_keys (Some lang) form kind name qualifier) = [t]"
  using assms by (auto simp: resolve_call_def Let_def split: if_splits list.splits)

lemma resolve_call_target_known:
  assumes "arena_ok lower g" "resolve_call g lang form kind name qualifier = Resolved t"
  shows "omap_get (symbols g) t \<noteq> None"
proof -
  have "t \<in> set (candidates_for (callables g)
      (call_site_lookup_keys (Some lang) form kind name qualifier))"
    using resolve_call_Resolved [OF assms(2)] by simp
  then obtain k where "t \<in> set (index_at (callables g) k)"
    unfolding set_candidates_for by blast
  moreover have "index_covers callable_lookup_keys (symbols g) (callables g)"
    using assms(1) by (simp add: arena_ok_def lookups_ok_def)
  ultimately obtain s where "omap_get (symbols g) t = Some s"
    unfolding index_covers_def by blast
  then show ?thesis by simp
qed

lemma distinct_site_keys: "distinct (site_keys g cs)"
  by (auto simp: site_keys_def call_site_lookup_keys_def call_site_lookup_key_def split: option.split)

lemma validate_call_site_input_None:
  assumes "validate_call_site_input g i = None"
  obtains s where "omap_get (symbols g) (in_caller i) = Some s"
    "range_file (sym_location s) = range_file (in_location i)"
  using assms by (auto simp: validate_call_site_input_def split: if_splits option.splits)

lemma validate_call_site_input_cong:
  "symbols g = symbols h \<Longrightarrow> validate_call_site_input g i = validate_call_site_input h i"
  by (simp only: validate_call_site_input_def)

text \<open>What \<open>insert_call_site\<close> does to a valid site whose target is known.\<close>

lemma insert_call_site_fields:
  assumes valid: "validate_call_site_input g i = None"
    and target: "\<And>t. res = Resolved t \<Longrightarrow> omap_get (symbols g) t \<noteq> None"
  defines "cs \<equiv> site_of_input i res"
  defines "h \<equiv> snd (insert_call_site cs g)"
  shows "fst (insert_call_site cs g) = Inr ()"
    "call_sites h = omap_insert (next_call_site_id g) cs (call_sites g)"
    "call_sites_by_caller h = index_push (in_caller i) (next_call_site_id g) (call_sites_by_caller g)"
    "next_call_site_id h = sat_add64 (next_call_site_id g) 1"
    "call_sites_by_lookup h = (if is_ambiguous cs
       then fold (\<lambda>k. index_push k (next_call_site_id g)) (site_keys g cs) (call_sites_by_lookup g)
       else call_sites_by_lookup g)"
    "ambiguous_call_sites h = ambiguous_call_sites g + (if is_ambiguous cs then 1 else 0)"
    "unresolved_call_sites h = unresolved_call_sites g + (if is_unresolved cs then 1 else 0)"
    "arena_of h = arena_of g" "edges_of h = edges_of g"
proof -
  have "validate_call_site_input g
      \<lparr>in_caller = site_caller cs, in_form = site_form cs, in_target_kind = site_target_kind cs,
         in_name = site_name cs, in_qualifier = site_qualifier cs,
         in_receiver_type = site_receiver_type cs,
         in_receiver_type_source = site_receiver_type_source cs,
         in_receiver_hint = site_receiver_hint cs, in_location = site_location cs,
         in_provenance = site_provenance cs, in_precision = site_precision cs\<rparr> = None"
    using valid by (cases i) (simp add: cs_def site_of_input_def)
  moreover have "site_resolution cs = res" "site_caller cs = in_caller i"
    by (simp_all add: cs_def site_of_input_def)
  moreover have "(case res of Resolved t \<Rightarrow>
      if omap_get (symbols g) t = None then Some (UnknownEntity t) else None | _ \<Rightarrow> None) = None"
    using target by (cases res) force+
  ultimately show "fst (insert_call_site cs g) = Inr ()"
    "call_sites h = omap_insert (next_call_site_id g) cs (call_sites g)"
    "call_sites_by_caller h = index_push (in_caller i) (next_call_site_id g) (call_sites_by_caller g)"
    "next_call_site_id h = sat_add64 (next_call_site_id g) 1"
    "call_sites_by_lookup h = (if is_ambiguous cs
       then fold (\<lambda>k. index_push k (next_call_site_id g)) (site_keys g cs) (call_sites_by_lookup g)
       else call_sites_by_lookup g)"
    "ambiguous_call_sites h = ambiguous_call_sites g + (if is_ambiguous cs then 1 else 0)"
    "unresolved_call_sites h = unresolved_call_sites g + (if is_unresolved cs then 1 else 0)"
    "arena_of h = arena_of g" "edges_of h = edges_of g"
    unfolding h_def insert_call_site_def
    by (simp_all add: Let_def is_ambiguous_def is_unresolved_def arena_of_def edges_of_def
        split: call_resolution.split)
qed

lemma insert_call_site_ok:
  assumes ok: "sites_ok g" and room: "next_call_site_id g < u64_max"
    and valid: "validate_call_site_input g i = None"
    and target: "\<And>t. res = Resolved t \<Longrightarrow> omap_get (symbols g) t \<noteq> None"
  defines "cs \<equiv> site_of_input i res"
  defines "h \<equiv> snd (insert_call_site cs g)"
  shows "sites_ok h"
    "derived_edges h = derived_edges g +
       mset (new_site_edges (is_test g (in_caller i)) [] (call_sites_from g (in_caller i)) cs)"
proof -
  let ?n = "next_call_site_id g" and ?c = "in_caller i"
  note f = insert_call_site_fields [OF valid target, of res, simplified,
      folded cs_def, folded h_def]
  have caller: "site_caller cs = ?c" by (simp add: cs_def site_of_input_def)
  have syms: "symbols h = symbols g" using f(8) by (simp add: arena_of_def)
  have fresh: "omap_get (call_sites g) ?n = None"
    using ok unfolding sites_ok_def site_callers_ok_def by (metis less_irrefl not_None_eq)
  have keys: "site_keys h = site_keys g" by (rule ext) (simp add: site_keys_def syms)
  have ok': "omap_ok (call_sites g)" "index_ok (call_sites_by_caller g)"
    using ok by (simp_all add: sites_ok_def site_index_ok_def)
  have by_caller: "i' \<in> set (index_at (call_sites_by_caller g) c) \<longleftrightarrow>
      (\<exists>x. omap_get (call_sites g) i' = Some x \<and> site_caller x = c)" for i' c
    using ok unfolding sites_ok_def site_index_ok_def by blast
  have "site_index_ok h"
    using ok ok' fresh by (auto simp: sites_ok_def site_index_ok_def f(2,3) by_caller caller)
  moreover have "site_lookup_ok h"
    using ok fresh distinct_site_keys [of g cs]
    by (auto simp: sites_ok_def site_lookup_ok_def f(2,5) keys index_fold_laws)
  moreover have "site_callers_ok h"
  proof -
    obtain s where "omap_get (symbols g) ?c = Some s"
      "range_file (sym_location s) = range_file (in_location i)"
      using validate_call_site_input_None [OF valid] by blast
    moreover have "site_location cs = in_location i" by (simp add: cs_def site_of_input_def)
    ultimately show ?thesis
      using ok room by (auto simp: sites_ok_def site_callers_ok_def f(2,4) syms caller
          sat_add64_Suc less_Suc_eq)
  qed
  moreover have "site_counts_ok h"
    using ok by (simp add: sites_ok_def site_counts_ok_def f(2,6,7) sites_where_insert [OF ok'(1) fresh])
  ultimately show "sites_ok h" by (simp add: sites_ok_def)
  have test: "is_test h c = is_test g c" for c by (simp add: is_test_def syms)
  have same: "caller_sites h idxs = caller_sites g idxs" if "?n \<notin> set idxs" for idxs
    unfolding caller_sites_def using that
    by (induction idxs) (auto simp: f(2) List.map_filter_simps split: option.split)
  then have old: "caller_edges h c idxs = caller_edges g c idxs" if "?n \<notin> set idxs" for c idxs
    using that by (simp add: caller_edges_def test)
  have mem: "?n \<notin> set (index_at (call_sites_by_caller g) c)" for c
    using fresh by_caller by simp
  let ?old = "index_at (call_sites_by_caller g) ?c"
  have "caller_sites h (?old @ [?n]) = call_sites_from g ?c @ [cs]"
    using same [OF mem [of ?c]] unfolding call_sites_from_caller_sites
    by (simp add: caller_sites_def List.map_filter_def f(2))
  then have new: "caller_edges h ?c (?old @ [?n]) = caller_edges g ?c ?old @
      new_site_edges (is_test g ?c) [] (call_sites_from g ?c) cs"
    by (simp add: caller_edges_def test site_edges_snoc call_sites_from_caller_sites)
  have sum: "omap_sum (caller_edges h) (call_sites_by_caller g) = derived_edges g"
    unfolding derived_edges_def
  proof (rule omap_sum_cong)
    fix c idxs assume "(c, idxs) \<in> set (call_sites_by_caller g)"
    then have "omap_get (call_sites_by_caller g) c = Some idxs"
      using ok'(2) omap_ok_get_iff [of "call_sites_by_caller g" c idxs] by simp
    then have "index_at (call_sites_by_caller g) c = idxs" by (simp add: index_at_def omap_get_or_def)
    with mem [of c] old show "mset (caller_edges h c idxs) = mset (caller_edges g c idxs)" by simp
  qed
  have at: "(case omap_get (call_sites_by_caller g) ?c of None \<Rightarrow> {#}
      | Some w \<Rightarrow> mset (caller_edges h ?c w)) = mset (caller_edges g ?c ?old)"
    using old [OF mem [of ?c], of ?c]
    by (cases "omap_get (call_sites_by_caller g) ?c") (simp_all add: index_at_def omap_get_or_def)
  have "derived_edges h + mset (caller_edges g ?c ?old) =
      derived_edges g + mset (caller_edges h ?c (?old @ [?n]))"
    using omap_sum_insert [OF omap_ok_index [OF ok'(2)], of "caller_edges h" ?c "?old @ [?n]"]
    unfolding at sum by (simp add: derived_edges_def f(3) index_push_def)
  then show "derived_edges h = derived_edges g +
       mset (new_site_edges (is_test g ?c) [] (call_sites_from g ?c) cs)"
    by (simp add: new ac_simps)
qed

lemma materialize_call_ok:
  assumes ok: "graph_ok lower g"
    and known: "omap_get (symbols g) (in_caller i) \<noteq> None" "omap_get (symbols g) t \<noteq> None"
  defines "es \<equiv> new_site_edges (is_test g (in_caller i)) [] (call_sites_from g (in_caller i))
    (site_of_input i (Resolved t))"
  shows "fst (materialize_call i t g) = Inr ()"
    "edges_ok (snd (materialize_call i t g))"
    "all_edges (snd (materialize_call i t g)) = all_edges g + mset es"
    "arena_of (snd (materialize_call i t g)) = arena_of g"
    "calls_of (snd (materialize_call i t g)) = calls_of g"
    "relationship_edges_by_owner (snd (materialize_call i t g)) = relationship_edges_by_owner g"
proof -
  let ?c = "calls_edge (in_caller i) t (in_provenance i) (in_precision i) (in_location i)"
  let ?t = "tests_edge (in_caller i) t (in_provenance i) (in_precision i) (in_location i)"
  let ?g = "snd (add_edge_raw ?c g)"
  have edges: "edges_ok g" using ok by (simp add: graph_ok_def)
  have ends: "omap_get (symbols g) (edge_from e) \<noteq> None" "omap_get (symbols g) (edge_to e) \<noteq> None"
    if "e \<in> {?c, ?t}" for e
    using known that by (auto simp: calls_edge_def tests_edge_def)
  note c = add_edge_raw_known(1) [OF ends, of ?c, simplified]
    edges_ok_add_edge_raw [OF edges ends, of ?c, simplified] and cf = add_edge_raw_frame [of ?c g]
  have ends': "omap_get (symbols ?g) (edge_from ?t) \<noteq> None" "omap_get (symbols ?g) (edge_to ?t) \<noteq> None"
    using ends [of ?t] cf(4) by simp_all
  note tt = add_edge_raw_known(1) [OF ends'] edges_ok_add_edge_raw [OF c(2) ends']
    and tf = add_edge_raw_frame [of ?t ?g]
  have cond: "is_test ?g (in_caller i) = is_test g (in_caller i)"
    "call_sites_from ?g (in_caller i) = call_sites_from g (in_caller i)"
    using cf(2,4) by (simp_all add: is_test_def call_sites_from_def calls_of_def)
  define both where "both \<longleftrightarrow> is_test g (in_caller i) \<and>
    \<not> list_ex (\<lambda>cs. site_resolution cs = Resolved t) (call_sites_from g (in_caller i))"
  have m: "materialize_call i t g = (if both then add_edge_raw ?t ?g else (Inr (), ?g))"
  proof -
    obtain b where raw: "add_edge_raw ?c g = (Inr (), b)" using c(1) by (metis prod.collapse)
    then have b: "?g = b" by simp
    show ?thesis
      unfolding materialize_call_def raw prod.case sum.case both_def snd_conv
      using cond [unfolded b] by simp
  qed
  have es: "es = (if both then [?c, ?t] else [?c])"
    by (simp add: es_def new_site_edges_def site_of_input_def both_def)
  show "fst (materialize_call i t g) = Inr ()" "edges_ok (snd (materialize_call i t g))"
    "all_edges (snd (materialize_call i t g)) = all_edges g + mset es"
    "arena_of (snd (materialize_call i t g)) = arena_of g"
    "calls_of (snd (materialize_call i t g)) = calls_of g"
    "relationship_edges_by_owner (snd (materialize_call i t g)) = relationship_edges_by_owner g"
    using c cf tt tf by (simp_all add: m es)
qed

text \<open>
  \<open>add_call_site\<close> either rejects its input without touching the graph, or succeeds, keeps
  the invariant and adds exactly the site and the edges derived from it.
\<close>

lemma add_call_site_cases:
  assumes ok: "graph_ok lower g" and room: "next_call_site_id g < u64_max"
  shows "case validate_call_site_input g i of
      Some e \<Rightarrow> add_call_site i g = (Inl e, g)
    | None \<Rightarrow>
        \<exists>caller res h. omap_get (symbols g) (in_caller i) = Some caller \<and>
          res = resolve_call g (key_language (sym_key caller)) (in_form i) (in_target_kind i)
            (in_name i) (in_qualifier i) \<and>
          add_call_site i g = (Inr res, h) \<and> graph_ok lower h \<and>
          arena_of h = arena_of g \<and>
          relationship_edges_by_owner h = relationship_edges_by_owner g \<and>
          call_sites h = omap_insert (next_call_site_id g) (site_of_input i res) (call_sites g) \<and>
          next_call_site_id h = next_call_site_id g + 1 \<and>
          all_edges h = all_edges g + mset (new_site_edges (is_test g (in_caller i)) []
            (call_sites_from g (in_caller i)) (site_of_input i res))"
proof (cases "validate_call_site_input g i")
  case (Some e)
  then show ?thesis by (simp add: add_call_site_def)
next
  case None
  obtain caller where caller: "omap_get (symbols g) (in_caller i) = Some caller"
    using validate_call_site_input_None [OF None] by blast
  define res where "res = resolve_call g (key_language (sym_key caller)) (in_form i)
    (in_target_kind i) (in_name i) (in_qualifier i)"
  define cs where "cs = site_of_input i res"
  define new where "new = new_site_edges (is_test g (in_caller i)) []
    (call_sites_from g (in_caller i)) cs"
  have arena: "arena_ok lower g" and sites: "sites_ok g" and edges: "edges_ok g"
    and bal: "all_edges g = owned_edges g + derived_edges g"
    using ok by (simp_all add: graph_ok_def)
  have target: "omap_get (symbols g) t \<noteq> None" if "res = Resolved t" for t
    using resolve_call_target_known [OF arena] that by (simp add: res_def)
  define m where "m = (case res of Resolved t \<Rightarrow> materialize_call i t g | _ \<Rightarrow> (Inr (), g))"
  have m: "fst m = Inr () \<and> edges_ok (snd m) \<and> all_edges (snd m) = all_edges g + mset new \<and>
      arena_of (snd m) = arena_of g \<and> calls_of (snd m) = calls_of g \<and>
      relationship_edges_by_owner (snd m) = relationship_edges_by_owner g"
  proof (cases res)
    case (Resolved t)
    have "omap_get (symbols g) (in_caller i) \<noteq> None" using caller by simp
    from materialize_call_ok [OF ok this target [OF Resolved]] show ?thesis
      by (simp add: m_def Resolved new_def cs_def)
  qed (use edges in \<open>simp_all add: m_def new_def cs_def new_site_edges_def site_of_input_def\<close>)
  let ?g = "snd m"
  have syms: "symbols ?g = symbols g" using m by (simp add: arena_of_def)
  have cf: "call_sites ?g = call_sites g" "call_sites_by_caller ?g = call_sites_by_caller g"
    "next_call_site_id ?g = next_call_site_id g" using m by (simp_all add: calls_of_def)
  have valid: "validate_call_site_input ?g i = None"
    using None validate_call_site_input_cong [OF syms] by simp
  have kept: "callers_kept g ?g" using syms by (rule callers_kept_symbols)
  have gs: "sites_ok ?g" "derived_edges ?g = derived_edges g"
    using sites_ok_callers_kept [OF sites _ kept] m by blast+
  have target': "omap_get (symbols ?g) t \<noteq> None" if "res = Resolved t" for t
    using target [OF that] syms by simp
  define h where "h = snd (insert_call_site cs ?g)"
  have room': "next_call_site_id ?g < u64_max" using room cf by simp
  note f = insert_call_site_fields [OF valid target', of res, simplified, folded cs_def, folded h_def]
  note s = insert_call_site_ok [OF gs(1) room' valid target', of res, simplified, folded cs_def,
      folded h_def]
  have same: "is_test ?g (in_caller i) = is_test g (in_caller i)"
    "call_sites_from ?g (in_caller i) = call_sites_from g (in_caller i)"
    using syms cf by (simp_all add: is_test_def call_sites_from_def)
  have h_syms: "symbols h = symbols ?g" using f(8) by (simp add: arena_of_def)
  have h: "edges_ok h" "all_edges h = all_edges ?g" "owned_edges h = owned_edges ?g"
    using edges_of_edges_ok [OF f(9) h_syms] m by simp_all
  have "add_call_site i g = (Inr res, h)"
    using None caller m f(1)
    by (cases m; cases "insert_call_site cs ?g")
      (simp add: add_call_site_def res_def [symmetric] m_def [symmetric] cs_def h_def)
  moreover have "graph_ok lower h"
    unfolding graph_ok_def
  proof (intro conjI)
    show "arena_ok lower h" using arena m f(8) arena_ok_cong [of h g lower] by simp
    have "owned_edges ?g = owned_edges g" using m by (simp add: owned_edges_def)
    with bal m s(2) gs(2) same show "all_edges h = owned_edges h + derived_edges h"
      by (simp add: h new_def ac_simps)
  qed (use h s in simp_all)
  moreover have "arena_of h = arena_of g" using f(8) m by simp
  moreover have "relationship_edges_by_owner h = relationship_edges_by_owner g"
    using f(9) m by (simp add: edges_of_def)
  moreover have "call_sites h = omap_insert (next_call_site_id g) cs (call_sites g)"
    "next_call_site_id h = next_call_site_id g + 1"
    using f(2,4) room cf by (simp_all add: sat_add64_Suc)
  moreover have "all_edges h = all_edges g + mset new" using h(2) m by simp
  ultimately show ?thesis
    unfolding None option.case cs_def new_def
    using caller res_def by (intro exI [of _ caller] exI [of _ res] exI [of _ h]) simp
qed

lemma graph_ok_add_call_site [chakra_inv]:
  assumes "graph_ok lower g" "next_call_site_id g < u64_max"
  shows "graph_ok lower (snd (add_call_site i g))"
  using add_call_site_cases [OF assms, of i] assms(1) by (auto split: option.splits)

end
