(* ===== verification/Graph_Site_Removal.thy ===== *)
theory Graph_Site_Removal
  imports Graph_Site_Updates
begin

section \<open>Removing the call sites of a file\<close>

text \<open>
  \<open>remove_call_sites_in_file\<close> on a graph that satisfies the invariant: none of its edge
  removals can fail, and what is left is the graph without the sites of the file's
  declarations, their index entries, their share of the counters and their derived edges.
\<close>

subsection \<open>One site\<close>

lemma dematerialize_call_ok:
  assumes ok: "edges_ok t"
    and bal: "all_edges t = R + mset (site_edges test seen (cs # rest))"
    and res: "site_resolution cs = Resolved x"
    and test: "is_test t (site_caller cs) = test"
    and seen: "\<And>y. y \<in> set seen \<longleftrightarrow> (site_caller cs, y) \<in> set gone"
  obtains gone' t' seen' where "dematerialize_call cs x gone t = (Inr gone', t')"
    "edges_ok t'" "arena_of t' = arena_of t" "calls_of t' = calls_of t"
    "relationship_edges_by_owner t' = relationship_edges_by_owner t"
    "all_edges t' = R + mset (site_edges test seen' rest)"
    "\<And>y. y \<in> set seen' \<longleftrightarrow> (site_caller cs, y) \<in> set gone'"
    "gone' = gone \<or> gone' = (site_caller cs, x) # gone"
proof -
  let ?c = "calls_edge (site_caller cs) x (site_provenance cs) (site_precision cs) (site_location cs)"
  let ?t = "tests_edge (site_caller cs) x (site_provenance cs) (site_precision cs) (site_location cs)"
  have "?c \<in># all_edges t" using bal res by simp
  note c = edges_ok_remove_edge_raw [OF ok this] and cf = remove_edge_raw_frame [of ?c t]
  obtain t1 where raw: "remove_edge_raw ?c t = (Inr (), t1)" using c(1) by (metis prod.collapse)
  then have t1: "snd (remove_edge_raw ?c t) = t1" by simp
  note c = c [unfolded t1] and cf = cf [unfolded t1]
  have test1: "is_test t1 (site_caller cs) = test"
    using test cf(4) by (simp add: is_test_def)
  show ?thesis
  proof (cases "test \<and> x \<notin> set seen")
    case True
    then have "all_edges t1 = R + mset (?t # site_edges test (x # seen) rest)"
      using bal res by (simp add: c(3))
    then have "?t \<in># all_edges t1" by simp
    note t = edges_ok_remove_edge_raw [OF c(2) this] and tf = remove_edge_raw_frame [of ?t t1]
    obtain t2 where raw2: "remove_edge_raw ?t t1 = (Inr (), t2)" using t(1) by (metis prod.collapse)
    then have t2: "snd (remove_edge_raw ?t t1) = t2" by simp
    note t = t [unfolded t2] and tf = tf [unfolded t2]
    have "dematerialize_call cs x gone t = (Inr ((site_caller cs, x) # gone), t2)"
      using True seen [of x] by (simp add: dematerialize_call_def raw raw2 test1)
    moreover have "all_edges t2 = R + mset (site_edges test (x # seen) rest)"
      using bal res True by (simp add: t(3) c(3))
    moreover have "arena_of t2 = arena_of t" "calls_of t2 = calls_of t"
      "relationship_edges_by_owner t2 = relationship_edges_by_owner t"
      using tf cf by simp_all
    moreover have "y \<in> set (x # seen) \<longleftrightarrow> (site_caller cs, y) \<in> set ((site_caller cs, x) # gone)" for y
      using seen by auto
    ultimately show ?thesis using t(2) that by blast
  next
    case False
    have "dematerialize_call cs x gone t = (Inr gone, t1)"
      using False seen [of x] by (auto simp: dematerialize_call_def raw test1)
    moreover have "all_edges t1 = R + mset (site_edges test seen rest)"
      using bal res False by (cases test) (auto simp: c(3))
    ultimately show ?thesis using c(2) cf seen that by blast
  qed
qed

lemma forget_call_site_fields:
  "arena_of (forget_call_site i cs t) = arena_of t"
  "edges_of (forget_call_site i cs t) = edges_of t"
  "call_sites_by_caller (forget_call_site i cs t) = call_sites_by_caller t"
  "next_call_site_id (forget_call_site i cs t) = next_call_site_id t"
  "call_sites (forget_call_site i cs t) = omap_delete i (call_sites t)"
  "call_sites_by_lookup (forget_call_site i cs t) =
     (if is_ambiguous cs then fold (\<lambda>k. index_drop k i) (site_keys t cs) (call_sites_by_lookup t)
      else call_sites_by_lookup t)"
  "ambiguous_call_sites (forget_call_site i cs t) =
     ambiguous_call_sites t - (if is_ambiguous cs then 1 else 0)"
  "unresolved_call_sites (forget_call_site i cs t) =
     unresolved_call_sites t - (if is_unresolved cs then 1 else 0)"
  by (simp_all add: forget_call_site_def Let_def arena_of_def edges_of_def is_ambiguous_def
      is_unresolved_def split: call_resolution.split)

subsection \<open>The sites of one caller\<close>

text \<open>
  The state inside the loop over the sites of caller \<open>c\<close>: the sites \<open>pre\<close> are gone, those of
  \<open>ys\<close> and their edges are still there, everything else is as in \<open>g\<close>.
\<close>

definition removing :: "partition \<Rightarrow> entity_id \<Rightarrow> edge multiset \<Rightarrow> removal_state \<Rightarrow> nat list \<Rightarrow>
    nat list \<Rightarrow> removal_state \<Rightarrow> partition \<Rightarrow> bool" where
  "removing g c R st0 pre ys st t \<longleftrightarrow>
     arena_of t = arena_of g \<and> edges_ok t \<and>
     call_sites_by_caller t = call_sites_by_caller g \<and>
     relationship_edges_by_owner t = relationship_edges_by_owner g \<and>
     next_call_site_id t = next_call_site_id g \<and>
     omap_ok (call_sites t) \<and> index_ok (call_sites_by_lookup t) \<and> site_counts_ok t \<and>
     (\<forall>i. omap_get (call_sites t) i = (if i \<in> set pre then None else omap_get (call_sites g) i)) \<and>
     (\<forall>k. index_at (call_sites_by_lookup t) k =
        filter (\<lambda>i. i \<notin> set pre) (index_at (call_sites_by_lookup g) k)) \<and>
     (\<exists>seen. (\<forall>y. y \<in> set seen \<longleftrightarrow> (c, y) \<in> set (snd st)) \<and>
        all_edges t = R + mset (site_edges (is_test g c) seen (caller_sites g ys))) \<and>
     (\<forall>p\<in>set (snd st). fst p \<noteq> c \<longrightarrow> p \<in> set (snd st0)) \<and>
     fst st = min (fst st0 + length pre) u64_max"

lemma remove_call_site_step:
  assumes ok: "sites_ok g" and st: "removing g c R st0 pre (i # ys) st t"
    and idx: "set (i # ys) \<subseteq> set (index_at (call_sites_by_caller g) c)" "i \<notin> set pre"
  obtains st' t' where "remove_call_site i st t = (Inr st', t')"
    "removing g c R st0 (pre @ [i]) ys st' t'"
proof -
  from st obtain seen where
    arena: "arena_of t = arena_of g" and edges: "edges_ok t"
    and keep: "call_sites_by_caller t = call_sites_by_caller g"
      "relationship_edges_by_owner t = relationship_edges_by_owner g"
      "next_call_site_id t = next_call_site_id g"
    and oks: "omap_ok (call_sites t)" "index_ok (call_sites_by_lookup t)" "site_counts_ok t"
    and get: "\<And>j. omap_get (call_sites t) j = (if j \<in> set pre then None else omap_get (call_sites g) j)"
    and lookup: "\<And>k. index_at (call_sites_by_lookup t) k =
        filter (\<lambda>j. j \<notin> set pre) (index_at (call_sites_by_lookup g) k)"
    and seen: "\<And>y. y \<in> set seen \<longleftrightarrow> (c, y) \<in> set (snd st)"
    and bal: "all_edges t = R + mset (site_edges (is_test g c) seen (caller_sites g (i # ys)))"
    and gone: "\<forall>p\<in>set (snd st). fst p \<noteq> c \<longrightarrow> p \<in> set (snd st0)"
    and n: "fst st = min (fst st0 + length pre) u64_max"
    unfolding removing_def by blast
  have syms: "symbols t = symbols g" using arena by (simp add: arena_of_def)
  from idx(1) ok obtain cs where cs: "omap_get (call_sites g) i = Some cs" "site_caller cs = c"
    unfolding sites_ok_def site_index_ok_def by fastforce
  have cs_t: "omap_get (call_sites t) i = Some cs" using get [of i] idx(2) cs by simp
  have sites: "caller_sites g (i # ys) = cs # caller_sites g ys"
    by (simp add: caller_sites_def List.map_filter_simps cs)
  note bal = bal [unfolded sites]
  have test: "is_test t (site_caller cs) = is_test g c" by (simp add: is_test_def syms cs)
  define d where "d = (case site_resolution cs of
      Resolved x \<Rightarrow> dematerialize_call cs x (snd st) t | _ \<Rightarrow> (Inr (snd st), t))"
  have "\<exists>gone' t1 seen'. d = (Inr gone', t1) \<and> edges_ok t1 \<and> arena_of t1 = arena_of t \<and>
      calls_of t1 = calls_of t \<and> relationship_edges_by_owner t1 = relationship_edges_by_owner t \<and>
      all_edges t1 = R + mset (site_edges (is_test g c) seen' (caller_sites g ys)) \<and>
      (\<forall>y. y \<in> set seen' \<longleftrightarrow> (c, y) \<in> set gone') \<and>
      (\<forall>p\<in>set gone'. fst p \<noteq> c \<longrightarrow> p \<in> set (snd st0))"
  proof (cases "site_resolution cs")
    case (Resolved x)
    obtain gone' t1 seen' where d: "dematerialize_call cs x (snd st) t = (Inr gone', t1)"
      "edges_ok t1" "arena_of t1 = arena_of t" "calls_of t1 = calls_of t"
      "relationship_edges_by_owner t1 = relationship_edges_by_owner t"
      "all_edges t1 = R + mset (site_edges (is_test g c) seen' (caller_sites g ys))"
      "\<And>y. y \<in> set seen' \<longleftrightarrow> (site_caller cs, y) \<in> set gone'"
      "gone' = snd st \<or> gone' = (site_caller cs, x) # snd st"
      by (rule dematerialize_call_ok [OF edges bal Resolved test seen [folded cs(2)]]) blast
    have "\<forall>p\<in>set gone'. fst p \<noteq> c \<longrightarrow> p \<in> set (snd st0)" using d(8) gone cs(2) by auto
    with d show ?thesis unfolding d_def Resolved call_resolution.case cs(2) by blast
  next
    case (Ambiguous m)
    with edges bal seen gone show ?thesis unfolding d_def by auto
  next
    case Unresolved
    with edges bal seen gone show ?thesis unfolding d_def by auto
  qed
  then obtain gone' t1 seen' where d: "d = (Inr gone', t1)" "edges_ok t1" "arena_of t1 = arena_of t"
    "calls_of t1 = calls_of t" "relationship_edges_by_owner t1 = relationship_edges_by_owner t"
    "all_edges t1 = R + mset (site_edges (is_test g c) seen' (caller_sites g ys))"
    "\<forall>y. y \<in> set seen' \<longleftrightarrow> (c, y) \<in> set gone'"
    "\<forall>p\<in>set gone'. fst p \<noteq> c \<longrightarrow> p \<in> set (snd st0)"
    by blast
  let ?st = "(sat_add64 (fst st) 1, gone')" and ?t = "forget_call_site i cs t1"
  note f = forget_call_site_fields [of i cs t1]
  have t1: "call_sites t1 = call_sites t" "call_sites_by_caller t1 = call_sites_by_caller t"
    "call_sites_by_lookup t1 = call_sites_by_lookup t" "next_call_site_id t1 = next_call_site_id t"
    "ambiguous_call_sites t1 = ambiguous_call_sites t"
    "unresolved_call_sites t1 = unresolved_call_sites t" "symbols t1 = symbols t"
    using d(3,4) by (simp_all add: calls_of_def arena_of_def)
  have keys: "site_keys t1 cs = site_keys g cs" by (simp add: site_keys_def t1 syms)
  have "remove_call_site i st t = (Inr ?st, ?t)"
    using d(1) by (simp add: remove_call_site_def cs_t d_def)
  moreover have "removing g c R st0 (pre @ [i]) ys ?st ?t"
    unfolding removing_def
  proof (intro conjI allI)
    have "symbols ?t = symbols t1" using f(1) by (simp add: arena_of_def)
    note e = edges_of_edges_ok [OF f(2) this]
    show "arena_of ?t = arena_of g" "edges_ok ?t"
      using f(1) d(2,3) arena e by simp_all
    show "call_sites_by_caller ?t = call_sites_by_caller g"
      "relationship_edges_by_owner ?t = relationship_edges_by_owner g"
      "next_call_site_id ?t = next_call_site_id g"
      using f(2,3,4) d(5) keep t1 by (simp_all add: edges_of_def)
    show "omap_ok (call_sites ?t)" using oks by (simp add: f t1)
    show "index_ok (call_sites_by_lookup ?t)" using oks by (simp add: f t1 index_ok_fold_drop)
    show "site_counts_ok ?t"
      using oks cs_t by (simp add: site_counts_ok_def f t1 sites_where_delete)
    show "omap_get (call_sites ?t) j = (if j \<in> set (pre @ [i]) then None else omap_get (call_sites g) j)" for j
      by (simp add: f t1 get)
    show "\<exists>seen. (\<forall>y. y \<in> set seen \<longleftrightarrow> (c, y) \<in> set (snd ?st)) \<and>
        all_edges ?t = R + mset (site_edges (is_test g c) seen (caller_sites g ys))"
      using d(6,7) e by auto
    show "\<forall>p\<in>set (snd ?st). fst p \<noteq> c \<longrightarrow> p \<in> set (snd st0)" using d(8) by simp
    show "fst ?st = min (fst st0 + length (pre @ [i])) u64_max" by (simp add: n sat_add64_def min_def)
    show "index_at (call_sites_by_lookup ?t) k =
        filter (\<lambda>j. j \<notin> set (pre @ [i])) (index_at (call_sites_by_lookup g) k)" for k
    proof (cases "is_ambiguous cs \<and> k \<in> set (site_keys g cs)")
      case True
      then show ?thesis by (auto simp: f t1 keys index_at_fold_drop lookup intro: filter_cong)
    next
      case False
      moreover have "i \<in> set (index_at (call_sites_by_lookup g) k) \<longleftrightarrow>
          (\<exists>x. omap_get (call_sites g) i = Some x \<and> is_ambiguous x \<and> k \<in> set (site_keys g x))"
        using ok unfolding sites_ok_def site_lookup_ok_def by blast
      ultimately have "i \<notin> set (index_at (call_sites_by_lookup g) k)" using cs(1) by simp
      then have "filter (\<lambda>j. j \<notin> set (pre @ [i])) (index_at (call_sites_by_lookup g) k) =
          index_at (call_sites_by_lookup t) k"
        unfolding lookup by (intro filter_cong) auto
      with False show ?thesis by (auto simp: f t1 keys index_at_fold_drop)
    qed
  qed
  ultimately show ?thesis by (rule that)
qed

lemma remove_call_site_loop:
  assumes ok: "sites_ok g" and "removing g c R st0 pre ys st t"
    and "set ys \<subseteq> set (index_at (call_sites_by_caller g) c)" "distinct (pre @ ys)"
  shows "\<exists>st' t'. op_fold remove_call_site ys st t = (Inr st', t') \<and>
    removing g c R st0 (pre @ ys) [] st' t'"
  using assms(2-)
proof (induction ys arbitrary: pre st t)
  case (Cons i ys)
  obtain st' t' where step: "remove_call_site i st t = (Inr st', t')"
    "removing g c R st0 (pre @ [i]) ys st' t'"
    using remove_call_site_step [OF ok Cons.prems(1,2)] Cons.prems(3) by auto
  have "set ys \<subseteq> set (index_at (call_sites_by_caller g) c)" "distinct ((pre @ [i]) @ ys)"
    using Cons.prems(2,3) by simp_all
  from Cons.IH [OF step(2) this] step(1) show ?case by simp
qed simp

lemma removing_start:
  assumes "graph_ok lower g" "\<forall>y. (c, y) \<notin> set (snd st)" "fst st \<le> u64_max"
  shows "removing g c (all_edges g - mset (caller_edges g c (index_at (call_sites_by_caller g) c))) st []
    (index_at (call_sites_by_caller g) c) st g"
proof -
  let ?idxs = "index_at (call_sites_by_caller g) c"
  have ok: "edges_ok g" "sites_ok g" "all_edges g = owned_edges g + derived_edges g"
    using assms(1) by (simp_all add: graph_ok_def)
  have by_caller: "omap_ok (call_sites_by_caller g)"
    using ok(2) by (simp add: sites_ok_def site_index_ok_def)
  have "mset (caller_edges g c ?idxs) \<subseteq># derived_edges g"
  proof (cases "omap_get (call_sites_by_caller g) c")
    case None
    then show ?thesis by (simp add: index_at_def omap_get_or_def)
  next
    case (Some idxs)
    with omap_sum_delete [OF by_caller, of "caller_edges g" c]
    show ?thesis
      by (simp add: derived_edges_def index_at_def omap_get_or_def)
        (metis mset_subset_eq_add_right)
  qed
  then have "mset (caller_edges g c ?idxs) \<subseteq># all_edges g"
    using ok(3) subset_mset.add_increasing by fastforce
  then have "all_edges g = (all_edges g - mset (caller_edges g c ?idxs)) +
      mset (site_edges (is_test g c) [] (caller_sites g ?idxs))"
    by (simp add: caller_edges_def)
  with assms(2,3) ok show ?thesis
    unfolding removing_def by (intro conjI exI [of _ "[]"])
      (simp_all add: sites_ok_def site_index_ok_def site_lookup_ok_def)
qed

text \<open>After the loop, dropping the caller's entry restores the invariant.\<close>

lemma remove_calls_of_ok:
  assumes ok: "graph_ok lower g" and fresh: "\<forall>y. (c, y) \<notin> set (snd st)" "fst st \<le> u64_max"
  defines "idxs \<equiv> index_at (call_sites_by_caller g) c"
  obtains st' h where "remove_calls_of c st g = (Inr st', h)" "graph_ok lower h"
    "arena_of h = arena_of g" "relationship_edges_by_owner h = relationship_edges_by_owner g"
    "call_sites_by_caller h = omap_delete c (call_sites_by_caller g)"
    "\<And>i. omap_get (call_sites h) i = (if i \<in> set idxs then None else omap_get (call_sites g) i)"
    "\<And>p. p \<in> set (snd st') \<Longrightarrow> fst p \<noteq> c \<Longrightarrow> p \<in> set (snd st)"
    "fst st' = min (fst st + length idxs) u64_max"
    "next_call_site_id h = next_call_site_id g"
proof (cases "omap_get (call_sites_by_caller g) c")
  case None
  then have idxs: "idxs = []" by (simp add: idxs_def index_at_def omap_get_or_def)
  show ?thesis
  proof (rule that [of st g])
    show "remove_calls_of c st g = (Inr st, g)" using None by (simp add: remove_calls_of_def)
    show "call_sites_by_caller g = omap_delete c (call_sites_by_caller g)"
      using None by (simp add: omap_delete_absent)
    show "fst st = min (fst st + length idxs) u64_max" using fresh(2) idxs by simp
  qed (use ok idxs in simp_all)
next
  case (Some found)
  then have is_eq: "found = idxs" by (simp add: idxs_def index_at_def omap_get_or_def)
  have sites: "sites_ok g" and bal: "all_edges g = owned_edges g + derived_edges g"
    using ok by (simp_all add: graph_ok_def)
  define R where "R = all_edges g - mset (caller_edges g c idxs)"
  have dist: "distinct idxs" and by_caller: "index_ok (call_sites_by_caller g)"
    using sites by (simp_all add: idxs_def sites_ok_def site_index_ok_def)
  have mem: "i \<in> set (index_at (call_sites_by_caller g) c') \<longleftrightarrow>
      (\<exists>cs. omap_get (call_sites g) i = Some cs \<and> site_caller cs = c')" for i c'
    using sites unfolding sites_ok_def site_index_ok_def by blast
  obtain st' t where loop: "op_fold remove_call_site idxs st g = (Inr st', t)"
    and t: "removing g c R st idxs [] st' t"
    using remove_call_site_loop [OF sites removing_start [OF ok fresh]] dist
    by (auto simp: idxs_def R_def)
  from t have
    arena: "arena_of t = arena_of g" and edges: "edges_ok t"
    and keep: "call_sites_by_caller t = call_sites_by_caller g"
      "relationship_edges_by_owner t = relationship_edges_by_owner g"
      "next_call_site_id t = next_call_site_id g"
    and oks: "omap_ok (call_sites t)" "index_ok (call_sites_by_lookup t)" "site_counts_ok t"
    and get: "\<And>j. omap_get (call_sites t) j = (if j \<in> set idxs then None else omap_get (call_sites g) j)"
    and lookup: "\<And>k. index_at (call_sites_by_lookup t) k =
        filter (\<lambda>j. j \<notin> set idxs) (index_at (call_sites_by_lookup g) k)"
    and all_t: "all_edges t = R"
    and gone: "\<forall>p\<in>set (snd st'). fst p \<noteq> c \<longrightarrow> p \<in> set (snd st)"
    and n: "fst st' = min (fst st + length idxs) u64_max"
    unfolding removing_def by (auto simp: caller_sites_def List.map_filter_simps)
  define h where "h = t\<lparr>call_sites_by_caller := omap_delete c (call_sites_by_caller t)\<rparr>"
  have run: "remove_calls_of c st g = (Inr st', h)"
    using Some loop is_eq by (simp add: remove_calls_of_def h_def)
  have h: "arena_of h = arena_of g" "symbols h = symbols g" "symbols t = symbols g"
    "call_sites h = call_sites t" "call_sites_by_lookup h = call_sites_by_lookup t"
    "call_sites_by_caller h = omap_delete c (call_sites_by_caller g)"
    "relationship_edges_by_owner h = relationship_edges_by_owner g"
    "next_call_site_id h = next_call_site_id g" "edges_of h = edges_of t"
    using arena keep by (simp_all add: h_def arena_of_def edges_of_def)
  have at: "index_at (call_sites_by_caller h) c' =
      (if c' = c then [] else index_at (call_sites_by_caller g) c')" for c'
    by (simp add: h index_at_def)
  have keys: "site_keys h = site_keys g" by (rule ext) (simp add: site_keys_def h)
  have other: "c' \<noteq> c \<Longrightarrow> i \<in> set (index_at (call_sites_by_caller g) c') \<Longrightarrow> i \<notin> set idxs" for i c'
    by (auto simp: idxs_def mem)
  have "site_index_ok h"
    unfolding site_index_ok_def
  proof (intro conjI allI)
    show "omap_ok (call_sites h)" using oks h by simp
    show "index_ok (call_sites_by_caller h)" using by_caller by (auto simp: h index_ok_def)
    show "distinct (index_at (call_sites_by_caller h) c')" for c'
      using sites by (simp add: at sites_ok_def site_index_ok_def)
    show "i \<in> set (index_at (call_sites_by_caller h) c') \<longleftrightarrow>
        (\<exists>cs. omap_get (call_sites h) i = Some cs \<and> site_caller cs = c')" for i c'
      using mem [of i c'] mem [of i c] other [of c' i]
      by (auto simp: at h get idxs_def)
  qed
  moreover have "site_lookup_ok h"
  proof -
    have "index_ok (call_sites_by_lookup g)"
      "\<And>k. distinct (index_at (call_sites_by_lookup g) k)"
      "\<And>k i. i \<in> set (index_at (call_sites_by_lookup g) k) \<longleftrightarrow>
        (\<exists>cs. omap_get (call_sites g) i = Some cs \<and> is_ambiguous cs \<and> k \<in> set (site_keys g cs))"
      using sites unfolding sites_ok_def site_lookup_ok_def by blast+
    then show ?thesis
      unfolding site_lookup_ok_def by (auto simp: h lookup oks keys get)
  qed
  moreover have "site_callers_ok h"
    using sites unfolding sites_ok_def site_callers_ok_def
    by (auto simp: h get split: if_splits)
  moreover have "site_counts_ok h"
    using oks(3) by (simp add: site_counts_ok_def h_def)
  ultimately have "sites_ok h" by (simp add: sites_ok_def)
  moreover have "edges_ok h" "all_edges h = R" "owned_edges h = owned_edges g"
    using edges_of_edges_ok [of h t] h edges all_t by (simp_all add: owned_edges_def)
  moreover have "arena_ok lower h"
    using ok h(1) arena_ok_cong [of h g lower] by (simp add: graph_ok_def)
  moreover have "R = owned_edges g + derived_edges h"
  proof -
    have "derived_edges h = omap_sum (caller_edges g) (omap_delete c (call_sites_by_caller g))"
      unfolding derived_edges_def h(6)
    proof (rule omap_sum_cong)
      fix c' is' assume "(c', is') \<in> set (omap_delete c (call_sites_by_caller g))"
      then have "c' \<noteq> c" "(c', is') \<in> set (call_sites_by_caller g)" by (auto simp: omap_delete_def)
      then have "omap_get (call_sites_by_caller g) c' = Some is'"
        using by_caller omap_ok_get_iff [of "call_sites_by_caller g" c' is'] by simp
      then have "set is' \<inter> set idxs = {}"
        using other [OF \<open>c' \<noteq> c\<close>] by (auto simp: index_at_def omap_get_or_def)
      then have "caller_sites h is' = caller_sites g is'"
        unfolding caller_sites_def
        by (induction is') (auto simp: h get List.map_filter_simps split: option.split)
      then show "mset (caller_edges h c' is') = mset (caller_edges g c' is')"
        by (simp add: caller_edges_def is_test_def h)
    qed
    moreover have "omap_sum (caller_edges g) (omap_delete c (call_sites_by_caller g)) +
        mset (caller_edges g c idxs) = derived_edges g"
      using omap_sum_delete [of "call_sites_by_caller g" "caller_edges g" c] by_caller Some is_eq
      by (simp add: derived_edges_def)
    ultimately show ?thesis
      unfolding R_def bal by (metis add_diff_cancel_right' add.assoc)
  qed
  ultimately have "graph_ok lower h" by (simp add: graph_ok_def)
  then show ?thesis
    using that [OF run _ h(1,7,6)] get gone n h by simp
qed

subsection \<open>All sites of a file\<close>

lemma omap_length_card: "omap_ok m \<Longrightarrow> length m = card (dom (omap_get m))"
  using distinct_card [of "map fst m"] by (simp add: omap_ok_distinct dom_map_of_conv_image_fst)

lemma remove_calls_of_length:
  assumes "sites_ok g" "omap_ok m"
    and "\<And>i. omap_get m i = (if i \<in> set (index_at (call_sites_by_caller g) c) then None
        else omap_get (call_sites g) i)"
  shows "length (call_sites g) = length m + length (index_at (call_sites_by_caller g) c)"
proof -
  let ?is = "index_at (call_sites_by_caller g) c"
  have idx: "distinct ?is" "set ?is \<subseteq> dom (omap_get (call_sites g))" "omap_ok (call_sites g)"
    using assms(1) unfolding sites_ok_def site_index_ok_def by (simp, blast, simp)
  have "dom (omap_get m) = dom (omap_get (call_sites g)) - set ?is"
    using assms(3) by (auto split: if_splits)
  then have "card (dom (omap_get m)) = card (dom (omap_get (call_sites g))) - card (set ?is)"
    using idx(2) by (simp add: card_Diff_subset)
  moreover have "card (set ?is) \<le> card (dom (omap_get (call_sites g)))"
    using idx(2) by (intro card_mono) (simp_all add: finite_dom_map_of)
  ultimately show ?thesis
    using idx assms(2) by (simp add: omap_length_card distinct_card)
qed

lemma remove_call_sites_in_file_ok:
  assumes ok: "graph_ok lower g" and f: "omap_get (files g) p = Some f"
  obtains n h where "remove_call_sites_in_file p g = (Inr n, h)" "graph_ok lower h"
    "arena_of h = arena_of g" "relationship_edges_by_owner h = relationship_edges_by_owner g"
    "\<And>i. omap_get (call_sites h) i = (case omap_get (call_sites g) i of None \<Rightarrow> None
       | Some cs \<Rightarrow> if site_caller cs \<in> set (file_symbols f) then None else Some cs)"
    "length (call_sites g) = length (call_sites h) + (length (call_sites g) - length (call_sites h))"
    "n = min (length (call_sites g) - length (call_sites h)) u64_max"
    "next_call_site_id h = next_call_site_id g"
proof -
  let ?fs = "file_symbols f"
  define P where "P ys st t \<longleftrightarrow> graph_ok lower t \<and> arena_of t = arena_of g \<and>
      relationship_edges_by_owner t = relationship_edges_by_owner g \<and>
      next_call_site_id t = next_call_site_id g \<and> distinct ys \<and> set ys \<subseteq> set ?fs \<and>
      (\<forall>c\<in>set ys. \<forall>y. (c, y) \<notin> set (snd st)) \<and>
      length (call_sites t) \<le> length (call_sites g) \<and>
      fst st = min (length (call_sites g) - length (call_sites t)) u64_max \<and>
      (\<forall>i. omap_get (call_sites t) i = (case omap_get (call_sites g) i of None \<Rightarrow> None
         | Some cs \<Rightarrow> if site_caller cs \<in> set ?fs - set ys then None else Some cs))"
    for ys and st :: removal_state and t
  have step: "\<exists>st' t'. remove_calls_of c st t = (Inr st', t') \<and> P ys st' t'"
    if P: "P (c # ys) st t" for c ys st t
  proof -
    have pre: "graph_ok lower t" "\<forall>y. (c, y) \<notin> set (snd st)" "fst st \<le> u64_max"
      using P by (simp_all add: P_def)
    obtain st' h where run: "remove_calls_of c st t = (Inr st', h)" and h: "graph_ok lower h"
      "arena_of h = arena_of t" "relationship_edges_by_owner h = relationship_edges_by_owner t"
      and get: "\<And>i. omap_get (call_sites h) i =
        (if i \<in> set (index_at (call_sites_by_caller t) c) then None else omap_get (call_sites t) i)"
      and gone: "\<And>q. q \<in> set (snd st') \<Longrightarrow> fst q \<noteq> c \<Longrightarrow> q \<in> set (snd st)"
      and n: "fst st' = min (fst st + length (index_at (call_sites_by_caller t) c)) u64_max"
      and next_id: "next_call_site_id h = next_call_site_id t"
      by (rule remove_calls_of_ok [OF pre]) blast
    have sites: "sites_ok t" using pre(1) by (simp add: graph_ok_def)
    have "omap_ok (call_sites h)" using h(1) by (simp add: graph_ok_def sites_ok_def site_index_ok_def)
    note len = remove_calls_of_length [OF sites this get]
    have mem: "i \<in> set (index_at (call_sites_by_caller t) c) \<longleftrightarrow>
        (\<exists>cs. omap_get (call_sites t) i = Some cs \<and> site_caller cs = c)" for i
      using sites unfolding sites_ok_def site_index_ok_def by blast
    have old: "omap_get (call_sites t) i = (case omap_get (call_sites g) i of None \<Rightarrow> None
         | Some cs \<Rightarrow> if site_caller cs \<in> set ?fs - set (c # ys) then None else Some cs)" for i
      using P unfolding P_def by blast
    have new: "omap_get (call_sites h) i = (case omap_get (call_sites g) i of None \<Rightarrow> None
         | Some cs \<Rightarrow> if site_caller cs \<in> set ?fs - set ys then None else Some cs)" for i
    proof -
      have "c \<notin> set ys" "c \<in> set ?fs" using P by (simp_all add: P_def)
      show ?thesis
      proof (cases "omap_get (call_sites g) i")
        case None
        then have "omap_get (call_sites t) i = None" by (simp only: old option.case)
        then show ?thesis by (simp only: get None option.case if_cancel)
      next
        case (Some cs)
        have t: "omap_get (call_sites t) i = (if site_caller cs \<in> set ?fs - set (c # ys) then None else Some cs)"
          by (simp only: old Some option.case)
        show ?thesis
        proof (cases "site_caller cs = c")
          case True
          then have "omap_get (call_sites t) i = Some cs" using t by simp
          then have "i \<in> set (index_at (call_sites_by_caller t) c)" using mem True by blast
          then show ?thesis
            using Some True \<open>c \<notin> set ys\<close> \<open>c \<in> set ?fs\<close> by (simp add: get)
        next
          case False
          then have "i \<notin> set (index_at (call_sites_by_caller t) c)"
            using t unfolding mem by (metis option.discI option.inject)
          then show ?thesis using Some False t by (simp add: get)
        qed
      qed
    qed
    have "\<forall>c'\<in>set ys. \<forall>y. (c', y) \<notin> set (snd st')"
    proof (intro ballI allI notI)
      fix c' y assume "c' \<in> set ys" "(c', y) \<in> set (snd st')"
      moreover have "c' \<noteq> c" using P \<open>c' \<in> set ys\<close> by (auto simp: P_def)
      ultimately show False using gone [of "(c', y)"] P by (auto simp: P_def)
    qed
    moreover have "fst st' = min (length (call_sites g) - length (call_sites h)) u64_max"
      "length (call_sites h) \<le> length (call_sites g)"
      using n len P by (auto simp: P_def min_def)
    ultimately have "P ys st' h"
      using P h next_id new by (simp add: P_def)
    with run show ?thesis by blast
  qed
  have fs: "distinct ?fs"
    using ok f unfolding graph_ok_def arena_ok_def files_ok_def file_symbols_at_def
    by (metis option.simps(5))
  have "P ?fs (0, []) g"
    using ok fs by (simp add: P_def split: option.split)
  from op_fold_succeeds [of P remove_calls_of, OF step this]
  obtain st h where "op_fold remove_calls_of ?fs (0, []) g = (Inr st, h)" "P [] st h" by blast
  moreover from this(2) have "omap_get (call_sites h) i = (case omap_get (call_sites g) i of
      None \<Rightarrow> None | Some cs \<Rightarrow> if site_caller cs \<in> set ?fs then None else Some cs)" for i
    unfolding P_def by (simp only: list.set Diff_empty)
  ultimately show ?thesis
    using f by (intro that [of "fst st" h]) (simp_all add: remove_call_sites_in_file_def P_def)
qed

lemma graph_ok_remove_call_sites [chakra_inv]:
  assumes "graph_ok lower g"
  shows "graph_ok lower (snd (remove_call_sites_in_file p g))"
proof (cases "omap_get (files g) p")
  case None
  with assms show ?thesis by (simp add: remove_call_sites_in_file_def)
next
  case (Some f)
  from remove_call_sites_in_file_ok [OF assms Some] show ?thesis by (metis snd_conv)
qed

end
