(* ===== verification/Graph_Runs.thy ===== *)
theory Graph_Runs
  imports Graph_Site_Removal
begin

section \<open>Sequences of graph operations\<close>

text \<open>
  A private graph revision is built by a sequence of the public operations of
  \<open>SymbolGraph\<close>, in any order and with any arguments, failures included. Every state on the
  way satisfies \<open>graph_ok\<close>; the lookups a query uses are then exact.
\<close>

subsection \<open>Steps\<close>

datatype graph_event =
    EvAddFile repo_path string source_metadata "syntax_diagnostic list" nat
  | EvAddSymbol symbol_key source_range "string option" provenance precision
  | EvAddEdge edge_kind entity_id entity_id provenance precision "source_range option"
  | EvAddOwnedEdge repo_path edge
  | EvAddCall call_site_input
  | EvRemoveRelationships repo_path
  | EvRemoveCalls repo_path
  | EvRemoveFile repo_path
  | EvReplaceSource repo_path string
  | EvReplaceSourceAndDiagnostics repo_path string "syntax_diagnostic list" nat
  | EvReplaceMetadata repo_path source_metadata
  | EvReplacePayload entity_id symbol_key source_range "string option" provenance precision
  | EvSetTruncated nat

definition set_truncated_call_sites :: "nat \<Rightarrow> unit graph_op" where
  "set_truncated_call_sites n g = (Inr (), g\<lparr>truncated_call_sites := n\<rparr>)"

fun graph_step :: "(string \<Rightarrow> string) \<Rightarrow> graph_event \<Rightarrow> partition \<Rightarrow> partition" where
  "graph_step lower (EvAddFile p src md ds n) g = snd (add_file_full p src md ds n g)"
| "graph_step lower (EvAddSymbol key loc sg pv pr) g = snd (add_symbol lower key loc sg pv pr g)"
| "graph_step lower (EvAddEdge k i j pv pr loc) g = snd (add_edge k i j pv pr loc g)"
| "graph_step lower (EvAddOwnedEdge p e) g = snd (add_edge_owned_by p e g)"
| "graph_step lower (EvAddCall i) g = snd (add_call_site i g)"
| "graph_step lower (EvRemoveRelationships p) g = snd (remove_relationships_in_file p g)"
| "graph_step lower (EvRemoveCalls p) g = snd (remove_call_sites_in_file p g)"
| "graph_step lower (EvRemoveFile p) g = snd (remove_file lower p g)"
| "graph_step lower (EvReplaceSource p src) g = snd (replace_file_source p src g)"
| "graph_step lower (EvReplaceSourceAndDiagnostics p src ds n) g =
     snd (replace_file_source_and_diagnostics p src ds n g)"
| "graph_step lower (EvReplaceMetadata p md) g = snd (replace_file_metadata p md g)"
| "graph_step lower (EvReplacePayload i key loc sg pv pr) g =
     snd (replace_symbol_payload i key loc sg pv pr g)"
| "graph_step lower (EvSetTruncated n) g = snd (set_truncated_call_sites n g)"

definition graph_run :: "(string \<Rightarrow> string) \<Rightarrow> graph_event list \<Rightarrow> partition \<Rightarrow> partition" where
  "graph_run lower evs g = fold (graph_step lower) evs g"

lemma graph_ok_set_truncated [chakra_inv]:
  assumes "graph_ok lower g"
  shows "graph_ok lower (snd (set_truncated_call_sites n g))"
proof -
  let ?h = "g\<lparr>truncated_call_sites := n\<rparr>"
  have "arena_ok lower ?h"
    using assms arena_ok_cong [of ?h g lower] by (simp add: graph_ok_def arena_of_def)
  moreover have "edges_ok ?h" "all_edges ?h = all_edges g" "owned_edges ?h = owned_edges g"
    using assms edges_of_edges_ok [of ?h g] by (simp_all add: graph_ok_def edges_of_def)
  moreover have "site_keys ?h = site_keys g" by (rule ext) (simp add: site_keys_def)
  then have "sites_ok ?h"
    using assms by (simp add: graph_ok_def sites_ok_def site_index_ok_def site_lookup_ok_def
        site_callers_ok_def site_counts_ok_def)
  moreover have "caller_edges ?h = caller_edges g"
    by (intro ext) (simp add: caller_edges_def caller_sites_def is_test_def)
  then have "derived_edges ?h = derived_edges g" by (simp add: derived_edges_def)
  ultimately show ?thesis using assms by (simp add: set_truncated_call_sites_def graph_ok_def)
qed

lemma graph_ok_step [chakra_inv]:
  assumes "graph_ok lower g" "next_call_site_id g < u64_max"
  shows "graph_ok lower (graph_step lower ev g)"
  using assms by (cases ev) (simp_all add: chakra_inv)

lemma next_call_site_id_step:
  assumes ok: "graph_ok lower g" and room: "next_call_site_id g < u64_max"
  shows "next_call_site_id (graph_step lower ev g) \<le> next_call_site_id g + 1"
proof (cases ev)
  case (EvAddCall i)
  with add_call_site_cases [OF ok room, of i] show ?thesis by (auto split: option.splits)
next
  case (EvRemoveCalls p)
  show ?thesis
  proof (cases "omap_get (files g) p")
    case None
    with EvRemoveCalls show ?thesis by (simp add: remove_call_sites_in_file_def)
  next
    case (Some f)
    obtain n h where "remove_call_sites_in_file p g = (Inr n, h)"
      "next_call_site_id h = next_call_site_id g"
      by (rule remove_call_sites_in_file_ok [OF ok Some]) blast
    with EvRemoveCalls show ?thesis by simp
  qed
next
  case (EvRemoveRelationships p)
  have "edges_ok g" "owned_edges g \<subseteq># all_edges g" using ok by (simp_all add: graph_ok_def)
  from remove_relationships_ok(6) [OF this, of p] EvRemoveRelationships
  show ?thesis by (simp add: calls_of_def)
next
  case (EvRemoveFile p)
  have "next_call_site_id (snd (op_each (remove_declaration lower) ids g)) = next_call_site_id g" for ids
    by (rule op_each_inv [where I = "\<lambda>t. next_call_site_id t = next_call_site_id g"])
      (use relations_of_remove_declaration(1) in \<open>auto simp: relations_of_def\<close>)
  then show ?thesis
    using EvRemoveFile by (auto simp: remove_file_def split: option.split sum.split prod.split)
      (metis snd_conv le_SucI order_refl)+
next
  case (EvAddSymbol key loc sg pv pr)
  with relations_of_add_symbol [of lower key loc sg pv pr g] show ?thesis
    by (simp add: relations_of_def)
next
  case (EvAddOwnedEdge p e)
  with add_edge_raw_frame(2) [of e g] show ?thesis
    by (cases "add_edge_raw e g"; cases "fst (add_edge_raw e g)")
      (auto simp: add_edge_owned_by_def calls_of_def)
next
  case (EvAddEdge k i j pv pr loc)
  have "next_call_site_id (snd (add_edge_owned_by p e g)) = next_call_site_id g" for p e
    using add_edge_raw_frame(2) [of e g]
    by (cases "add_edge_raw e g"; cases "fst (add_edge_raw e g)")
      (auto simp: add_edge_owned_by_def calls_of_def)
  with EvAddEdge show ?thesis by (auto simp: add_edge_def split: option.split)
qed (auto simp: add_file_full_def replace_file_source_def replace_file_source_and_diagnostics_def
  replace_file_metadata_def replace_symbol_payload_def set_truncated_call_sites_def Let_def
  split: option.split)

lemma graph_run_ok:
  assumes "graph_ok lower g" "next_call_site_id g + length evs \<le> u64_max"
  shows "graph_ok lower (graph_run lower evs g)"
  using assms
proof (induction evs arbitrary: g)
  case (Cons ev evs)
  then have room: "next_call_site_id g < u64_max" by simp
  from next_call_site_id_step [OF Cons.prems(1) room, of ev] Cons.prems(2)
  have "next_call_site_id (graph_step lower ev g) + length evs \<le> u64_max" by simp
  from Cons.IH [OF graph_ok_step [OF Cons.prems(1) room] this]
  show ?case by (simp add: graph_run_def)
qed (simp add: graph_run_def)

lemma graph_run_new_ok:
  "length evs \<le> u64_max \<Longrightarrow> graph_ok lower (graph_run lower evs partition_new)"
  by (rule graph_run_ok [OF graph_ok_new]) (simp add: partition_new_def)

subsection \<open>Lookups\<close>

definition resolve_name :: "partition \<Rightarrow> string \<Rightarrow> entity_id list" where
  "resolve_name g name = sort (index_at (symbols_by_exact_name g) name)"

definition folded_name_candidates :: "partition \<Rightarrow> string \<Rightarrow> entity_id list" where
  "folded_name_candidates g name = index_at (symbols_by_folded_name g) name"

definition symbols_in_file :: "partition \<Rightarrow> repo_path \<Rightarrow> symbol list" where
  "symbols_in_file g p =
     (case omap_get (files g) p of
        None \<Rightarrow> []
      | Some f \<Rightarrow> List.map_filter (omap_get (symbols g)) (file_symbols f))"

definition outgoing_edges :: "partition \<Rightarrow> entity_id \<Rightarrow> edge list" where
  "outgoing_edges g i = index_at (outgoing g) i"

definition incoming_edges :: "partition \<Rightarrow> entity_id \<Rightarrow> edge list" where
  "incoming_edges g i = index_at (incoming g) i"

lemma name_pair_iff: "n \<in> set (name_pair a b) \<longleftrightarrow> n = a \<or> n = b"
  by (auto simp: name_pair_def)

lemma exact_lookup:
  assumes "graph_ok lower g"
  shows "distinct (resolve_name g name)" "sorted (resolve_name g name)"
    "i \<in> set (resolve_name g name) \<longleftrightarrow> (\<exists>s. omap_get (symbols g) i = Some s \<and>
       (symbol_name s = name \<or> qualified_name (sym_key s) = name))"
proof -
  have "index_covers exact_names (symbols g) (symbols_by_exact_name g)"
    using assms by (simp add: graph_ok_def arena_ok_def lookups_ok_def)
  then have "distinct (index_at (symbols_by_exact_name g) name)"
    "i \<in> set (index_at (symbols_by_exact_name g) name) \<longleftrightarrow>
      (\<exists>s. omap_get (symbols g) i = Some s \<and> name \<in> set (exact_names s))"
    unfolding index_covers_def by blast+
  then show "distinct (resolve_name g name)" "sorted (resolve_name g name)"
    "i \<in> set (resolve_name g name) \<longleftrightarrow> (\<exists>s. omap_get (symbols g) i = Some s \<and>
       (symbol_name s = name \<or> qualified_name (sym_key s) = name))"
    by (auto simp: resolve_name_def exact_names_def name_pair_iff)
qed

lemma folded_lookup:
  assumes "graph_ok lower g"
  shows "i \<in> set (folded_name_candidates g name) \<longleftrightarrow> (\<exists>s. omap_get (symbols g) i = Some s \<and>
       (lower (symbol_name s) = name \<or> lower (qualified_name (sym_key s)) = name))"
proof -
  have "index_covers (folded_names lower) (symbols g) (symbols_by_folded_name g)"
    using assms by (simp add: graph_ok_def arena_ok_def lookups_ok_def)
  then have "i \<in> set (index_at (symbols_by_folded_name g) name) \<longleftrightarrow>
      (\<exists>s. omap_get (symbols g) i = Some s \<and> name \<in> set (folded_names lower s))"
    unfolding index_covers_def by blast
  then show ?thesis
    by (auto simp: folded_name_candidates_def folded_names_def name_pair_iff)
qed

lemma in_map_filter: "y \<in> set (List.map_filter f xs) \<longleftrightarrow> (\<exists>x\<in>set xs. f x = Some y)"
  by (induction xs) (auto simp: List.map_filter_simps split: option.split)

lemma file_lookup:
  assumes "graph_ok lower g"
  shows "s \<in> set (symbols_in_file g p) \<longleftrightarrow>
    (\<exists>i. omap_get (symbols g) i = Some s \<and> range_file (sym_location s) = p)"
proof -
  have fs: "i \<in> set (file_symbols_at g p) \<longleftrightarrow>
      (\<exists>s. omap_get (symbols g) i = Some s \<and> range_file (sym_location s) = p)" for i
    using assms unfolding graph_ok_def arena_ok_def files_ok_def by blast
  have "symbols_in_file g p = List.map_filter (omap_get (symbols g)) (file_symbols_at g p)"
    by (simp add: symbols_in_file_def file_symbols_at_def List.map_filter_simps split: option.split)
  then have "s \<in> set (symbols_in_file g p) \<longleftrightarrow>
      (\<exists>i\<in>set (file_symbols_at g p). omap_get (symbols g) i = Some s)"
    by (simp add: in_map_filter)
  with fs show ?thesis by auto
qed

lemma callable_lookup:
  assumes "graph_ok lower g"
  shows "i \<in> set (index_at (callables g) k) \<longleftrightarrow>
    (\<exists>s. omap_get (symbols g) i = Some s \<and> k \<in> set (callable_lookup_keys s))"
proof -
  have "index_covers callable_lookup_keys (symbols g) (callables g)"
    using assms by (simp add: graph_ok_def arena_ok_def lookups_ok_def)
  then show ?thesis unfolding index_covers_def by blast
qed

lemma edges_mirrored:
  assumes "graph_ok lower g"
  shows "count (mset (outgoing_edges g (edge_from e))) e = count (mset (incoming_edges g (edge_to e))) e"
    "count (all_edges g) e = count (mset (outgoing_edges g (edge_from e))) e"
proof -
  have ok: "edges_ok g" using assms by (simp add: graph_ok_def)
  note d = edges_okD [OF ok]
  have out: "count (index_mset m) e = count (mset (index_at m (key e))) e"
    if "omap_ok m" "\<And>i x. x \<in> set (index_at m i) \<Longrightarrow> key x = i" for m :: "(entity_id, edge list) omap" and key
  proof -
    have "count (index_mset (omap_delete (key e) m)) e = 0"
      using that by (auto simp: count_eq_zero_iff in_index_mset split: if_splits)
    with index_mset_delete [OF that(1), of "key e"] show ?thesis
      by (metis add_0 count_union)
  qed
  show "count (all_edges g) e = count (mset (outgoing_edges g (edge_from e))) e"
    unfolding all_edges_def outgoing_edges_def by (rule out) (use d(1,6) in auto)
  moreover have "count (index_mset (incoming g)) e = count (mset (incoming_edges g (edge_to e))) e"
    unfolding incoming_edges_def by (rule out) (use d(2,7) in auto)
  ultimately show "count (mset (outgoing_edges g (edge_from e))) e =
      count (mset (incoming_edges g (edge_to e))) e"
    using d(4) by simp
qed

text \<open>
  The definitions that evaluate a run on a concrete input, in the simplifier.
\<close>

lemmas graph_eval =
  graph_run_def add_symbol_def Let_def partition_new_def entity_id_slot_count_def
  entity_id_counter_limit_def entity_id_slot_shift_def entity_id_of_def index_symbol_def
  exact_names_def folded_names_def name_pair_def symbol_name_def last_segment_def
  callable_lookup_keys_def callable_qualifiers_def push_new_def index_push_def index_at_def
  omap_get_or_def file_for_symbol_def sat_add64_def u64_max_def
  path_fallback_metadata_def add_call_site_def validate_call_site_input_def trim_is_empty_def
  resolve_call_def call_site_lookup_keys_def call_site_lookup_key_def candidates_for_def
  materialize_call_def calls_edge_def tests_edge_def call_relation_tier_def test_relation_tier_def
  add_edge_raw_def is_test_def call_sites_from_def insert_call_site_def site_of_input_def
  site_keys_def less_repo_path_def less_eq_repo_path_def less_char_def less_eq_char_def
  wide_space_def

end
