(* ===== verification/Graph_Properties.thy ===== *)
theory Graph_Properties
  imports Graph_Runs
begin

section \<open>What the graph promises its queries\<close>

text \<open>
  Properties of the states reached by any sequence of operations on a fresh graph, and of
  single operations on a state that satisfies \<open>graph_ok\<close>. The sample declarations below are
  the concrete inputs of the witnesses: a function \<open>m::f\<close> in \<open>a.rs\<close> and a test \<open>t\<close> in
  \<open>b.rs\<close> that calls it.
\<close>

abbreviation sample_range :: "string \<Rightarrow> source_range" where
  "sample_range p \<equiv>
     \<lparr>range_file = RepoPath p, range_start = TextPosition 1 1, range_end = TextPosition 1 9\<rparr>"

abbreviation sample_key :: "string \<Rightarrow> symbol_kind \<Rightarrow> string \<Rightarrow> symbol_key" where
  "sample_key n k p \<equiv>
     \<lparr>key_language = LangRust, qualified_name = n, container = None, key_kind = k,
      key_path = RepoPath p\<rparr>"

abbreviation sample_symbol :: "string \<Rightarrow> symbol_kind \<Rightarrow> string \<Rightarrow> graph_event" where
  "sample_symbol n k p \<equiv> EvAddSymbol (sample_key n k p) (sample_range p) None TreeSitter Syntax"

abbreviation sample_call :: "entity_id \<Rightarrow> string \<Rightarrow> string \<Rightarrow> call_site_input" where
  "sample_call c n p \<equiv>
     \<lparr>in_caller = c, in_form = FormFunction, in_target_kind = TargetFunction, in_name = n,
      in_qualifier = None, in_receiver_type = None, in_receiver_type_source = None,
      in_receiver_hint = None, in_location = sample_range p, in_provenance = TreeSitter,
      in_precision = Syntax\<rparr>"

abbreviation sample_symbols :: "graph_event list" where
  "sample_symbols \<equiv>
     [sample_symbol ''m::f'' KindFunction ''a.rs'', sample_symbol ''t'' KindTest ''b.rs'']"

abbreviation sample_events :: "graph_event list" where
  "sample_events \<equiv> sample_symbols @ [EvAddCall (sample_call 1 ''f'' ''b.rs'')]"

subsection \<open>Lookups and edges of every reachable graph\<close>

text \<open>
  C4: Whatever operations built the graph, lookups are exact: a name resolves, without
  duplicates and in id order, to precisely the symbols with that simple or qualified name;
  the case-folded index to those whose folded name matches; the callable index lists under a
  lookup key, without duplicates, precisely the declarations that a call with that key may
  mean; a file lists precisely the symbols located in it.
\<close>

theorem graph_lookups_exact:
  assumes "length evs \<le> u64_max"
  shows "let g = graph_run lower evs partition_new
    in distinct (resolve_name g name) \<and> sorted (resolve_name g name) \<and>
       set (resolve_name g name) = {i. \<exists>s. omap_get (symbols g) i = Some s \<and>
          (symbol_name s = name \<or> qualified_name (sym_key s) = name)} \<and>
       set (folded_name_candidates g name) = {i. \<exists>s. omap_get (symbols g) i = Some s \<and>
          (lower (symbol_name s) = name \<or> lower (qualified_name (sym_key s)) = name)} \<and>
       distinct (index_at (callables g) k) \<and>
       set (index_at (callables g) k) = {i. \<exists>s. omap_get (symbols g) i = Some s \<and>
          k \<in> set (callable_lookup_keys s)} \<and>
       set (symbols_in_file g p) = {s. \<exists>i. omap_get (symbols g) i = Some s \<and>
          range_file (sym_location s) = p}"
proof -
  let ?g = "graph_run lower evs partition_new"
  have ok: "graph_ok lower ?g" using assms by (rule graph_run_new_ok)
  then have "index_covers callable_lookup_keys (symbols ?g) (callables ?g)"
    by (simp add: graph_ok_def arena_ok_def lookups_ok_def)
  then have "distinct (index_at (callables ?g) k)" unfolding index_covers_def by blast
  then show ?thesis
    unfolding Let_def using exact_lookup [OF ok, where name = name] callable_lookup [OF ok, where k = k]
      folded_lookup [OF ok, where name = name] file_lookup [OF ok, where p = p] by blast
qed

theorem graph_lookups_exact_witness:
  "set (resolve_name (graph_run (\<lambda>s. s) sample_symbols partition_new) ''f'') = {0}"
proof -
  let ?g = "graph_run (\<lambda>s. s) sample_symbols partition_new"
  let ?f = "\<lparr>sym_id = 0, sym_key = sample_key ''m::f'' KindFunction ''a.rs'',
    sym_location = sample_range ''a.rs'', signature = None, sym_provenance = TreeSitter,
    sym_precision = Syntax\<rparr>"
  let ?t = "\<lparr>sym_id = 1, sym_key = sample_key ''t'' KindTest ''b.rs'',
    sym_location = sample_range ''b.rs'', signature = None, sym_provenance = TreeSitter,
    sym_precision = Syntax\<rparr>"
  have syms: "symbols ?g = [(0, ?f), (1, ?t)]" by (simp add: graph_eval)
  have "set (resolve_name ?g ''f'') = {i. \<exists>s. omap_get (symbols ?g) i = Some s \<and>
      (symbol_name s = ''f'' \<or> qualified_name (sym_key s) = ''f'')}"
    using graph_lookups_exact [of sample_symbols "\<lambda>s. s" "''f''"] by (simp add: Let_def u64_max_def)
  also have "\<dots> = {0}"
    unfolding syms by (auto simp: symbol_name_def last_segment_def split: if_splits)
  finally show ?thesis .
qed

text \<open>
  C5: Whatever operations built the graph, its edges are consistent: both adjacency indexes
  hold every edge equally often, \<open>edge_count\<close> is the number of edges, endpoints exist, and
  the edges are exactly the file-owned relationships plus those derived from resolved calls.
\<close>

theorem graph_edges_consistent:
  assumes "length evs \<le> u64_max"
  shows "let g = graph_run lower evs partition_new
    in edge_count g = size (all_edges g) \<and>
       all_edges g = owned_edges g + derived_edges g \<and>
       (\<forall>e. count (mset (outgoing_edges g (edge_from e))) e = count (all_edges g) e \<and>
          count (mset (incoming_edges g (edge_to e))) e = count (all_edges g) e) \<and>
       (\<forall>e. e \<in># all_edges g \<longrightarrow>
          omap_get (symbols g) (edge_from e) \<noteq> None \<and> omap_get (symbols g) (edge_to e) \<noteq> None)"
proof -
  let ?g = "graph_run lower evs partition_new"
  have ok: "graph_ok lower ?g" using assms by (rule graph_run_new_ok)
  then have "edges_ok ?g" "all_edges ?g = owned_edges ?g + derived_edges ?g"
    by (simp_all add: graph_ok_def)
  with edges_okD(5) [of ?g] edges_mirrored [OF ok] edge_endpoints [OF ok] show ?thesis
    unfolding Let_def by (intro conjI allI impI) (simp_all del: not_None_eq)
qed

theorem graph_edges_consistent_witness:
  "size (derived_edges (graph_run (\<lambda>s. s) sample_events partition_new)) = 2"
proof -
  let ?g = "graph_run (\<lambda>s. s) sample_events partition_new"
  have "edge_count ?g = size (all_edges ?g)" "all_edges ?g = owned_edges ?g + derived_edges ?g"
    using graph_edges_consistent [of sample_events "\<lambda>s. s"] by (simp_all add: Let_def u64_max_def)
  moreover have "edge_count ?g = 2" "relationship_edges_by_owner ?g = []"
    by (simp_all add: graph_eval)
  ultimately show ?thesis by (simp add: owned_edges_def)
qed

text \<open>
  C6: A new symbol gets an id that is not in use, tagged with the slot of its language, is
  found under that id with its exact payload, and no other symbol changes; a refused symbol
  (wrong location file, id space exhausted) leaves the graph as it was.
\<close>

theorem add_symbol_exact:
  assumes "graph_ok lower g"
  shows "case add_symbol lower key loc sg pv pr g of
      (Inl err, g') \<Rightarrow> g' = g \<and>
        (key_path key \<noteq> range_file loc \<or>
         next_entity_ids g ! language_entity_slot (key_language key) = entity_id_counter_limit)
    | (Inr i, g') \<Rightarrow>
        omap_get (symbols g) i = None \<and>
        drop_bit 60 i = word_of_nat (language_entity_slot (key_language key)) \<and>
        omap_get (symbols g') i = Some \<lparr>sym_id = i, sym_key = key, sym_location = loc,
          signature = sg, sym_provenance = pv, sym_precision = pr\<rparr> \<and>
        (\<forall>x. x \<noteq> i \<longrightarrow> omap_get (symbols g') x = omap_get (symbols g) x) \<and>
        graph_ok lower g'"
proof (cases "add_symbol lower key loc sg pv pr g")
  case (Pair r g')
  have ids: "ids_ok g" using assms by (simp add: graph_ok_def arena_ok_def lookups_ok_def)
  show ?thesis
  proof (cases r)
    case (Inl err)
    have "next_entity_ids g ! language_entity_slot (key_language key) \<le> entity_id_counter_limit"
      using ids by (simp add: ids_ok_def)
    with Pair Inl show ?thesis
      by (auto simp: add_symbol_def Let_def split: if_splits)
  next
    case (Inr i)
    with Pair have add: "add_symbol lower key loc sg pv pr g = (Inr i, g')" by simp
    note res = add_symbol_Inr [OF add]
    have "omap_get (symbols g) i = None"
      using fresh_entity_id [OF ids res(3)] res(1) by (simp add: next_id_for_def)
    moreover have "drop_bit 60 i = word_of_nat (language_entity_slot (key_language key))"
      using res(3) unfolding res(1) next_id_for_def by (intro entity_id_of_slot) simp_all
    moreover have "graph_ok lower g'"
      using graph_ok_add_symbol [OF assms, of key loc sg pv pr] add by simp
    ultimately show ?thesis using Pair Inr res(4) by simp
  qed
qed

theorem add_symbol_exact_witness:
  "omap_get (symbols (snd (add_symbol (\<lambda>s. s) (sample_key ''m::f'' KindFunction ''a.rs'')
     (sample_range ''a.rs'') None TreeSitter Syntax partition_new))) 0 \<noteq> None"
  using add_symbol_exact [OF graph_ok_new [of "\<lambda>s. s"], of "sample_key ''m::f'' KindFunction ''a.rs''"
      "sample_range ''a.rs''" None TreeSitter Syntax]
  by (simp add: graph_eval)

text \<open>
  C7: Removing a file either reports an unknown file, or refuses (unchanged) while one of
  its declarations has an edge or a call site, or drops exactly the symbols located in that
  file and the file itself, keeping every other symbol, file, edge and call site.
\<close>

theorem remove_file_exact:
  assumes "graph_ok lower g"
  shows "case remove_file lower p g of
      (Inl err, g') \<Rightarrow> g' = g \<and>
        (\<exists>i s. err = EntityStillReferenced i \<and> omap_get (symbols g) i = Some s \<and>
           range_file (sym_location s) = p \<and> still_referenced g i)
    | (Inr False, g') \<Rightarrow> g' = g \<and> omap_get (files g) p = None
    | (Inr True, g') \<Rightarrow>
        (\<forall>x. omap_get (symbols g') x = (case omap_get (symbols g) x of None \<Rightarrow> None
           | Some s \<Rightarrow> if range_file (sym_location s) = p then None else Some s)) \<and>
        (\<forall>q. omap_get (files g') q = (if q = p then None else omap_get (files g) q)) \<and>
        relations_of g' = relations_of g \<and> graph_ok lower g'"
proof (cases "omap_get (files g) p")
  case None
  then show ?thesis by (simp add: remove_file_def)
next
  case (Some f)
  have arena: "arena_ok lower g" using assms by (simp add: graph_ok_def)
  have fs: "x \<in> set (file_symbols f) \<longleftrightarrow>
      (\<exists>s. omap_get (symbols g) x = Some s \<and> range_file (sym_location s) = p)" for x
  proof -
    have "x \<in> set (file_symbols_at g p) \<longleftrightarrow>
        (\<exists>s. omap_get (symbols g) x = Some s \<and> range_file (sym_location s) = p)"
      using arena unfolding arena_ok_def files_ok_def by blast
    then show ?thesis using Some by (simp add: file_symbols_at_def)
  qed
  show ?thesis
  proof (cases "find (still_referenced g) (file_symbols f)")
    case found: (Some i)
    then have "i \<in> set (file_symbols f)" "still_referenced g i"
      by (metis find_Some_iff nth_mem)+
    with fs found Some show ?thesis by (auto simp: remove_file_def)
  next
    case None
    then have "\<forall>eid\<in>set (file_symbols f). \<not> still_referenced g eid"
      by (auto simp: find_None_iff)
    then obtain g' where g': "remove_file lower p g = (Inr True, g')"
      "relations_of g' = relations_of g" "files g' = omap_delete p (files g)"
      "\<And>x. omap_get (symbols g') x =
         (if x \<in> set (file_symbols f) then None else omap_get (symbols g) x)"
      using remove_file_cases [OF arena Some] by metis
    have "graph_ok lower g'" using graph_ok_remove_file [OF assms, of p] g'(1) by simp
    then show ?thesis using g' fs by (auto split: option.split)
  qed
qed

theorem remove_file_exact_witness:
  "fst (remove_file (\<lambda>s. s) (RepoPath ''a.rs'') (graph_run (\<lambda>s. s) sample_events partition_new))
     = Inl (EntityStillReferenced 0)"
proof -
  let ?g = "graph_run (\<lambda>s. s) sample_events partition_new"
  have "graph_ok (\<lambda>s. s) ?g" by (rule graph_run_new_ok) (simp add: u64_max_def)
  from remove_file_exact [OF this, of "RepoPath ''a.rs''"]
  show ?thesis by (simp add: graph_eval remove_file_def still_referenced_def)
qed

subsection \<open>Call sites\<close>

text \<open>The declarations a call may refer to: those filed under one of its lookup keys.\<close>

definition call_matches ::
    "partition \<Rightarrow> language \<Rightarrow> call_form \<Rightarrow> call_target_kind \<Rightarrow> string \<Rightarrow> string option \<Rightarrow>
     entity_id set" where
  "call_matches g lang form kind name qualifier =
     {i. \<exists>s. omap_get (symbols g) i = Some s \<and>
        (\<exists>k\<in>set (call_site_lookup_keys (Some lang) form kind name qualifier).
           k \<in> set (callable_lookup_keys s))}"

lemma call_matches_candidates:
  assumes "graph_ok lower g"
  shows "call_matches g lang form kind name qualifier =
    set (candidates_for (callables g) (call_site_lookup_keys (Some lang) form kind name qualifier))"
  unfolding call_matches_def set_candidates_for
  by (rule set_eqI) (simp only: mem_Collect_eq UN_iff callable_lookup [OF assms], blast)

text \<open>
  C8: A call resolves to a declaration exactly when that is the only one its lookup keys
  admit; it is ambiguous with the exact number of candidates when there are several, and
  unresolved when there is none.
\<close>

theorem resolve_call_exact:
  assumes "graph_ok lower g"
  shows "case resolve_call g lang form kind name qualifier of
      Unresolved \<Rightarrow> call_matches g lang form kind name qualifier = {}
    | Resolved t \<Rightarrow> call_matches g lang form kind name qualifier = {t}
    | Ambiguous n \<Rightarrow> 2 \<le> n \<and> card (call_matches g lang form kind name qualifier) = n"
proof -
  let ?keys = "call_site_lookup_keys (Some lang) form kind name qualifier"
  let ?ids = "candidates_for (callables g) ?keys"
  note m = call_matches_candidates [OF assms, of lang form kind name qualifier]
  have "card (set ?ids) = length ?ids" by (simp add: distinct_candidates_for distinct_card)
  moreover have "?keys = [] \<Longrightarrow> ?ids = []" by (simp add: candidates_for_def)
  ultimately show ?thesis
    unfolding m by (auto simp: resolve_call_def Let_def split: list.split)
qed

theorem resolve_call_exact_witness:
  "call_matches (graph_run (\<lambda>s. s) sample_symbols partition_new)
     LangRust FormFunction TargetFunction ''f'' None = {0}"
proof -
  let ?g = "graph_run (\<lambda>s. s) sample_symbols partition_new"
  have "graph_ok (\<lambda>s. s) ?g" by (rule graph_run_new_ok) (simp add: u64_max_def)
  note r = resolve_call_exact [OF this, of LangRust FormFunction TargetFunction "''f''" None]
  have "resolve_call ?g LangRust FormFunction TargetFunction ''f'' None = Resolved 0"
    by (simp add: graph_eval)
  with r show ?thesis by simp
qed

text \<open>
  C9: \<open>add_call_site\<close> rejects an invalid input without a trace. A valid one always succeeds:
  it records the site under the next index with the current resolution, adds its \<open>CALLS\<close>
  edge (and a \<open>TESTS\<close> edge for the first call of a test to that target) and nothing else.
\<close>

theorem add_call_site_exact:
  assumes "graph_ok lower g" "next_call_site_id g < u64_max"
  shows "case validate_call_site_input g i of
      Some e \<Rightarrow> add_call_site i g = (Inl e, g)
    | None \<Rightarrow>
        (\<exists>caller h. omap_get (symbols g) (in_caller i) = Some caller \<and>
          (let res = resolve_call g (key_language (sym_key caller)) (in_form i) (in_target_kind i)
                 (in_name i) (in_qualifier i)
           in add_call_site i g = (Inr res, h) \<and>
              call_sites h = omap_insert (next_call_site_id g) (site_of_input i res) (call_sites g) \<and>
              all_edges h = all_edges g + mset (new_site_edges (is_test g (in_caller i)) []
                (call_sites_from g (in_caller i)) (site_of_input i res))) \<and>
          arena_of h = arena_of g \<and> owned_edges h = owned_edges g \<and> graph_ok lower h)"
proof (cases "validate_call_site_input g i")
  case None
  with add_call_site_cases [OF assms, of i] show ?thesis
    by (auto simp: owned_edges_def Let_def)
qed (use add_call_site_cases [OF assms, of i] in simp)

theorem add_call_site_exact_witness:
  "\<exists>h. add_call_site (sample_call 1 ''f'' ''b.rs'')
     (graph_run (\<lambda>s. s) sample_symbols partition_new) = (Inr (Resolved 0), h) \<and> size (all_edges h) = 2"
proof -
  let ?g = "graph_run (\<lambda>s. s) sample_symbols partition_new"
  have ok: "graph_ok (\<lambda>s. s) ?g" by (rule graph_run_new_ok) (simp add: u64_max_def)
  have g: "outgoing ?g = []" "next_call_site_id ?g = 0" "call_sites ?g = []"
    "call_sites_by_caller ?g = []" by (simp_all add: graph_eval)
  have "validate_call_site_input ?g (sample_call 1 ''f'' ''b.rs'') = None"
    "resolve_call ?g LangRust FormFunction TargetFunction ''f'' None = Resolved 0"
    "is_test ?g 1"
    "\<And>c. omap_get (symbols ?g) 1 = Some c \<Longrightarrow> key_language (sym_key c) = LangRust"
    by (simp_all add: graph_eval)
  with add_call_site_exact [OF ok, of "sample_call 1 ''f'' ''b.rs''"] g show ?thesis
    by (auto simp: Let_def u64_max_def all_edges_def new_site_edges_def site_of_input_def
        call_sites_from_def List.map_filter_simps)
qed

text \<open>
  C10: \<open>remove_call_sites_in_file\<close> never fails: it removes exactly the call sites whose
  caller is declared in the file, returns how many there were (up to saturation), leaves
  symbols, files and owned relationships alone, and exactly the remaining sites' edges are
  left beside the owned ones.
\<close>

theorem remove_call_sites_exact:
  assumes "graph_ok lower g" "omap_get (files g) p \<noteq> None"
  shows "\<exists>h. remove_call_sites_in_file p g =
      (Inr (min (length (call_sites g) - length (call_sites h)) u64_max), h) \<and>
    (\<forall>i. omap_get (call_sites h) i = (case omap_get (call_sites g) i of None \<Rightarrow> None
       | Some cs \<Rightarrow> if site_caller cs \<in> set (file_symbols_at g p) then None else Some cs)) \<and>
    arena_of h = arena_of g \<and> owned_edges h = owned_edges g \<and>
    all_edges h = owned_edges g + derived_edges h \<and> graph_ok lower h"
proof -
  from assms(2) obtain f where f: "omap_get (files g) p = Some f" by blast
  then have at: "file_symbols_at g p = file_symbols f" by (simp add: file_symbols_at_def)
  obtain n h where h: "remove_call_sites_in_file p g = (Inr n, h)" "graph_ok lower h"
    "arena_of h = arena_of g" "relationship_edges_by_owner h = relationship_edges_by_owner g"
    "\<And>i. omap_get (call_sites h) i = (case omap_get (call_sites g) i of None \<Rightarrow> None
       | Some cs \<Rightarrow> if site_caller cs \<in> set (file_symbols f) then None else Some cs)"
    "n = min (length (call_sites g) - length (call_sites h)) u64_max"
    by (rule remove_call_sites_in_file_ok [OF assms(1) f]) blast
  have "owned_edges h = owned_edges g" using h(4) by (simp add: owned_edges_def)
  moreover have "all_edges h = owned_edges h + derived_edges h" using h(2) by (simp add: graph_ok_def)
  ultimately show ?thesis
    using h(1-3,6) unfolding at by (intro exI [of _ h] conjI allI h(5)) simp_all
qed

theorem remove_call_sites_exact_witness:
  "\<exists>h. snd (remove_call_sites_in_file (RepoPath ''b.rs'')
      (graph_run (\<lambda>s. s) sample_events partition_new)) = h \<and> omap_get (call_sites h) 0 = None"
proof -
  let ?g = "graph_run (\<lambda>s. s) sample_events partition_new"
  have ok: "graph_ok (\<lambda>s. s) ?g" by (rule graph_run_new_ok) (simp add: u64_max_def)
  have "omap_get (files ?g) (RepoPath ''b.rs'') \<noteq> None"
    "1 \<in> set (file_symbols_at ?g (RepoPath ''b.rs''))"
    "\<And>c. omap_get (call_sites ?g) 0 = Some c \<Longrightarrow> site_caller c = 1"
    by (simp_all add: graph_eval file_symbols_at_def)
  moreover then obtain h where "remove_call_sites_in_file (RepoPath ''b.rs'') ?g =
      (Inr (min (length (call_sites ?g) - length (call_sites h)) u64_max), h)"
    "omap_get (call_sites h) 0 = (case omap_get (call_sites ?g) 0 of None \<Rightarrow> None
       | Some cs \<Rightarrow> if site_caller cs \<in> set (file_symbols_at ?g (RepoPath ''b.rs'')) then None
         else Some cs)"
    using remove_call_sites_exact [OF ok, of "RepoPath ''b.rs''"] by blast
  ultimately show ?thesis
    by (intro exI [of _ h]) (cases "omap_get (call_sites ?g) 0", simp_all only: option.case snd_conv if_True)
qed

text \<open>
  C12: \<open>remove_relationships_in_file\<close> on a consistent graph never fails: it takes out exactly
  the relationships owned by the file, leaves those of other files, call sites, symbols and
  derived edges alone, and reports their number.
\<close>

theorem remove_relationships_exact:
  assumes "graph_ok lower g"
  shows "\<exists>h. remove_relationships_in_file p g =
      (Inr (length (index_at (relationship_edges_by_owner g) p)), h) \<and>
    all_edges h + mset (index_at (relationship_edges_by_owner g) p) = all_edges g \<and>
    (\<forall>q. index_at (relationship_edges_by_owner h) q =
       (if q = p then [] else index_at (relationship_edges_by_owner g) q)) \<and>
    arena_of h = arena_of g \<and> calls_of h = calls_of g \<and> graph_ok lower h"
proof -
  have ok: "edges_ok g" "owned_edges g \<subseteq># all_edges g" using assms by (simp_all add: graph_ok_def)
  note r = remove_relationships_ok [OF ok, of p]
  let ?h = "snd (remove_relationships_in_file p g)"
  have "remove_relationships_in_file p g =
      (Inr (length (index_at (relationship_edges_by_owner g) p)), ?h)"
    using r(1) by (metis prod.collapse)
  moreover have "all_edges ?h + mset (index_at (relationship_edges_by_owner g) p) = all_edges g"
    using r(8) ok(2) unfolding r(3) by (simp add: subset_mset.order_trans)
  moreover have "graph_ok lower ?h" using assms by (rule graph_ok_remove_relationships)
  ultimately show ?thesis using r(5-7) by (intro exI [of _ ?h]) simp
qed

theorem remove_relationships_exact_witness:
  "\<exists>h. remove_relationships_in_file (RepoPath ''a.rs'')
     (graph_run (\<lambda>s. s) sample_events partition_new) = (Inr 0, h)"
proof -
  let ?g = "graph_run (\<lambda>s. s) sample_events partition_new"
  have ok: "graph_ok (\<lambda>s. s) ?g" by (rule graph_run_new_ok) (simp add: u64_max_def)
  have "relationship_edges_by_owner ?g = []" by (simp add: graph_eval)
  with remove_relationships_exact [OF ok, of "RepoPath ''a.rs''"] show ?thesis by auto
qed

text \<open>
  C11: The two bounded queries over ambiguous calls are inverse to each other up to their
  limits: a declaration listed as a candidate of an ambiguous site has the site listed for it,
  or the list of its sites reports truncation; a site listed for a declaration has the
  declaration among its candidates, or the list of candidates reports truncation. Truncation
  is reported exactly when more declarations share a lookup key with the site (more ambiguous
  sites share one with the declaration) than the limit admits. So where neither is truncated
  the two agree (that the languages of caller and declaration agree is part of the keys).
\<close>

theorem call_queries_dual:
  assumes "graph_ok lower g" "omap_get (call_sites g) i = Some cs" "is_ambiguous cs"
    and "omap_get (symbols g) t = Some s"
  shows "(s \<in> set (fst (call_candidates g cs n)) \<longrightarrow>
      snd (call_sites_for_target g t m) \<or> cs \<in> set (fst (call_sites_for_target g t m))) \<and>
    (cs \<in> set (fst (call_sites_for_target g t m)) \<longrightarrow>
      snd (call_candidates g cs n) \<or> s \<in> set (fst (call_candidates g cs n))) \<and>
    (snd (call_candidates g cs n) \<longleftrightarrow>
      n < card {x. \<exists>d. omap_get (symbols g) x = Some d \<and>
        set (site_keys g cs) \<inter> set (callable_lookup_keys d) \<noteq> {}}) \<and>
    (snd (call_sites_for_target g t m) \<longleftrightarrow>
      m < card {j. \<exists>x. omap_get (call_sites g) j = Some x \<and> is_ambiguous x \<and>
        set (site_keys g x) \<inter> set (callable_lookup_keys s) \<noteq> {}})"
proof -
  let ?c = "candidates_for (callables g) (site_keys g cs)"
  let ?i = "candidates_for (call_sites_by_lookup g) (callable_lookup_keys s)"
  have arena: "arena_ok lower g" and sites: "sites_ok g" using assms(1) by (simp_all add: graph_ok_def)
  have sym: "omap_get (symbols g) x = Some s \<longleftrightarrow> x = t" for x
    using arena assms(4) unfolding arena_ok_def lookups_ok_def symbols_ok_def by metis
  have c: "set ?c = {x. \<exists>d. omap_get (symbols g) x = Some d \<and>
        set (site_keys g cs) \<inter> set (callable_lookup_keys d) \<noteq> {}}"
    using callable_lookup [OF assms(1)] unfolding set_candidates_for by blast
  have i: "set ?i = {j. \<exists>x. omap_get (call_sites g) j = Some x \<and> is_ambiguous x \<and>
        set (site_keys g x) \<inter> set (callable_lookup_keys s) \<noteq> {}}"
    using sites unfolding set_candidates_for sites_ok_def site_lookup_ok_def by blast
  have bounded: "snd (call_candidates g cs n) \<longleftrightarrow> n < length ?c"
    "\<not> n < length ?c \<Longrightarrow> set (fst (call_candidates g cs n)) = set (List.map_filter (omap_get (symbols g)) ?c)"
    "set (fst (call_candidates g cs n)) \<subseteq> set (List.map_filter (omap_get (symbols g)) ?c)"
    using assms(3) by (auto simp: is_ambiguous_def call_candidates_def Let_def in_map_filter
        split: call_resolution.splits) (meson in_set_takeD)
  have bounded': "snd (call_sites_for_target g t m) \<longleftrightarrow> m < length ?i"
    "\<not> m < length ?i \<Longrightarrow> set (fst (call_sites_for_target g t m)) = set (List.map_filter (omap_get (call_sites g)) ?i)"
    "set (fst (call_sites_for_target g t m)) \<subseteq> set (List.map_filter (omap_get (call_sites g)) ?i)"
    using assms(4) by (auto simp: call_sites_for_target_def Let_def in_map_filter) (metis in_set_takeD set_sort)
  have lengths: "length ?c = card (set ?c)" "length ?i = card (set ?i)"
    by (simp_all add: distinct_candidates_for distinct_card)
  have same: "cs \<in> set (List.map_filter (omap_get (call_sites g)) ?i) \<longleftrightarrow>
      s \<in> set (List.map_filter (omap_get (symbols g)) ?c)"
    unfolding in_map_filter i c sym using assms(2-4) by auto
  show ?thesis
  proof (intro conjI)
    show "snd (call_candidates g cs n) \<longleftrightarrow> n < card {x. \<exists>d. omap_get (symbols g) x = Some d \<and>
        set (site_keys g cs) \<inter> set (callable_lookup_keys d) \<noteq> {}}"
      using bounded(1) lengths(1) by (simp only: c)
    show "snd (call_sites_for_target g t m) \<longleftrightarrow> m < card {j. \<exists>x. omap_get (call_sites g) j = Some x \<and>
        is_ambiguous x \<and> set (site_keys g x) \<inter> set (callable_lookup_keys s) \<noteq> {}}"
      using bounded'(1) lengths(2) by (simp only: i)
  qed (use bounded bounded' same in blast)+
qed

abbreviation sample_ambiguous :: "graph_event list" where
  "sample_ambiguous \<equiv>
     [sample_symbol ''m::f'' KindFunction ''a.rs'', sample_symbol ''n::f'' KindFunction ''a.rs'',
      EvAddCall (sample_call 1 ''f'' ''a.rs'')]"

theorem call_queries_dual_witness:
  "fst (call_sites_for_target (graph_run (\<lambda>s. s) sample_ambiguous partition_new) 0 5) \<noteq> []"
proof -
  let ?g = "graph_run (\<lambda>s. s) sample_ambiguous partition_new"
  have ok: "graph_ok (\<lambda>s. s) ?g" by (rule graph_run_new_ok) (simp add: u64_max_def)
  obtain cs where cs: "omap_get (call_sites ?g) 0 = Some cs" "is_ambiguous cs"
    "length (candidates_for (callables ?g) (site_keys ?g cs)) = 2" "site_keys ?g cs \<noteq> []"
    "set (candidates_for (callables ?g) (site_keys ?g cs)) = {0, 1}"
    by (simp add: graph_eval is_ambiguous_def)
  obtain s where s: "omap_get (symbols ?g) 0 = Some s"
    "length (candidates_for (call_sites_by_lookup ?g) (callable_lookup_keys s)) = 1"
    by (simp add: graph_eval)
  obtain k where amb: "site_resolution cs = Ambiguous k"
    using cs(2) by (auto simp: is_ambiguous_def split: call_resolution.splits)
  have "s \<in> set (fst (call_candidates ?g cs 5))"
    using cs s by (simp add: call_candidates_def amb Let_def in_map_filter)
  moreover have "\<not> snd (call_sites_for_target ?g 0 5)"
    using s by (simp add: call_sites_for_target_def Let_def)
  ultimately have "cs \<in> set (fst (call_sites_for_target ?g 0 5))"
    using call_queries_dual [OF ok cs(1,2) s(1), of 5 5] by blast
  then show ?thesis by auto
qed

end
