(* ===== verification/Graph_Builder.thy ===== *)
theory Graph_Builder
  imports Graph_Properties
begin

section \<open>Bounded graph construction\<close>

text \<open>
  \<open>BoundedGraphBuilder\<close> (\<open>graph.rs\<close>): a facade that refuses a symbol, edge or call site
  before a limit would be exceeded, and reports what it retained and what it omitted and
  why. Files are always retained.
\<close>

record graph_build_limits =
  max_symbols :: nat
  max_edges :: nat
  max_call_sites :: nat

definition limits_unlimited :: graph_build_limits where
  "limits_unlimited = \<lparr>max_symbols = u64_max, max_edges = u64_max, max_call_sites = u64_max\<rparr>"

record graph_build_report =
  retained_symbols :: nat
  omitted_symbols :: nat
  retained_edges :: nat
  omitted_edges :: nat
  edges_omitted_by_symbol_budget :: nat
  edges_omitted_by_edge_budget :: nat
  edges_omitted_by_call_site_budget :: nat
  retained_call_sites :: nat
  omitted_call_sites :: nat
  call_sites_omitted_by_symbol_budget :: nat
  call_sites_omitted_by_edge_budget :: nat
  call_sites_omitted_by_call_site_budget :: nat

definition report_default :: graph_build_report where
  "report_default = \<lparr>retained_symbols = 0, omitted_symbols = 0, retained_edges = 0,
     omitted_edges = 0, edges_omitted_by_symbol_budget = 0, edges_omitted_by_edge_budget = 0,
     edges_omitted_by_call_site_budget = 0, retained_call_sites = 0, omitted_call_sites = 0,
     call_sites_omitted_by_symbol_budget = 0, call_sites_omitted_by_edge_budget = 0,
     call_sites_omitted_by_call_site_budget = 0\<rparr>"

record builder =
  b_graph :: partition
  b_limits :: graph_build_limits
  b_report :: graph_build_report

type_synonym 'a builder_op = "(builder, graph_error, 'a) op"

definition builder_new :: "graph_build_limits \<Rightarrow> builder" where
  "builder_new limits = \<lparr>b_graph = partition_new, b_limits = limits, b_report = report_default\<rparr>"

definition symbol_count :: "partition \<Rightarrow> nat" where "symbol_count g = length (symbols g)"
definition call_site_count :: "partition \<Rightarrow> nat" where "call_site_count g = length (call_sites g)"

text \<open>Run a graph operation on the graph of the builder.\<close>

definition on_graph :: "'a graph_op \<Rightarrow> 'a builder_op" where
  "on_graph f b = (let (r, g) = f (b_graph b) in (r, b\<lparr>b_graph := g\<rparr>))"

definition builder_add_file :: "repo_path \<Rightarrow> string \<Rightarrow> unit builder_op" where
  "builder_add_file path source = on_graph (add_file path source)"

definition builder_add_file_with_metadata ::
    "repo_path \<Rightarrow> string \<Rightarrow> source_metadata \<Rightarrow> unit builder_op" where
  "builder_add_file_with_metadata path source metadata =
     on_graph (add_file_with_metadata path source metadata)"

definition builder_add_file_full ::
    "repo_path \<Rightarrow> string \<Rightarrow> source_metadata \<Rightarrow> syntax_diagnostic list \<Rightarrow> nat \<Rightarrow> unit builder_op" where
  "builder_add_file_full path source metadata diagnostics diag_total =
     on_graph (add_file_full path source metadata diagnostics diag_total)"

definition omit_edges_for_symbol_budget :: "nat \<Rightarrow> builder \<Rightarrow> builder" where
  "omit_edges_for_symbol_budget n b = b\<lparr>b_report := (b_report b)
     \<lparr>omitted_edges := sat_add64 (omitted_edges (b_report b)) n,
      edges_omitted_by_symbol_budget := sat_add64 (edges_omitted_by_symbol_budget (b_report b)) n\<rparr>\<rparr>"

definition omit_edges_for_edge_budget :: "nat \<Rightarrow> builder \<Rightarrow> builder" where
  "omit_edges_for_edge_budget n b = b\<lparr>b_report := (b_report b)
     \<lparr>omitted_edges := sat_add64 (omitted_edges (b_report b)) n,
      edges_omitted_by_edge_budget := sat_add64 (edges_omitted_by_edge_budget (b_report b)) n\<rparr>\<rparr>"

definition omit_edges_for_call_site_budget :: "nat \<Rightarrow> builder \<Rightarrow> builder" where
  "omit_edges_for_call_site_budget n b = b\<lparr>b_report := (b_report b)
     \<lparr>omitted_edges := sat_add64 (omitted_edges (b_report b)) n,
      edges_omitted_by_call_site_budget :=
        sat_add64 (edges_omitted_by_call_site_budget (b_report b)) n\<rparr>\<rparr>"

definition omit_call_sites_for_symbol_budget :: "nat \<Rightarrow> builder \<Rightarrow> builder" where
  "omit_call_sites_for_symbol_budget n b = b\<lparr>b_report := (b_report b)
     \<lparr>omitted_call_sites := sat_add64 (omitted_call_sites (b_report b)) n,
      call_sites_omitted_by_symbol_budget :=
        sat_add64 (call_sites_omitted_by_symbol_budget (b_report b)) n\<rparr>\<rparr>"

definition omit_call_sites_for_edge_budget :: "nat \<Rightarrow> builder \<Rightarrow> builder" where
  "omit_call_sites_for_edge_budget n b = b\<lparr>b_report := (b_report b)
     \<lparr>omitted_call_sites := sat_add64 (omitted_call_sites (b_report b)) n,
      call_sites_omitted_by_edge_budget :=
        sat_add64 (call_sites_omitted_by_edge_budget (b_report b)) n\<rparr>\<rparr>"

definition omit_call_sites_for_call_site_budget :: "nat \<Rightarrow> builder \<Rightarrow> builder" where
  "omit_call_sites_for_call_site_budget n b = b\<lparr>b_report := (b_report b)
     \<lparr>omitted_call_sites := sat_add64 (omitted_call_sites (b_report b)) n,
      call_sites_omitted_by_call_site_budget :=
        sat_add64 (call_sites_omitted_by_call_site_budget (b_report b)) n\<rparr>\<rparr>"

definition builder_add_symbol ::
    "(string \<Rightarrow> string) \<Rightarrow> symbol_key \<Rightarrow> source_range \<Rightarrow> string option \<Rightarrow> provenance \<Rightarrow> precision \<Rightarrow>
     entity_id option builder_op" where
  "builder_add_symbol lower key loc sg pv pr b =
     (if max_symbols (b_limits b) \<le> symbol_count (b_graph b)
      then (Inr None, b\<lparr>b_report := (b_report b)
        \<lparr>omitted_symbols := sat_add64 (omitted_symbols (b_report b)) 1\<rparr>\<rparr>)
      else case on_graph (add_symbol lower key loc sg pv pr) b of
        (Inl e, b') \<Rightarrow> (Inl e, b')
      | (Inr i, b') \<Rightarrow> (Inr (Some i), b'))"

text \<open>The common shape of the two edge operations: \<open>Ok(false)\<close> when the budget is used up.\<close>

definition builder_try_edge :: "unit graph_op \<Rightarrow> bool builder_op" where
  "builder_try_edge f b =
     (if max_edges (b_limits b) \<le> edge_count (b_graph b)
      then (Inr False, omit_edges_for_edge_budget 1 b)
      else case on_graph f b of
        (Inl e, b') \<Rightarrow> (Inl e, b')
      | (Inr _, b') \<Rightarrow> (Inr True, b'))"

definition builder_add_edge ::
    "edge_kind \<Rightarrow> entity_id \<Rightarrow> entity_id \<Rightarrow> provenance \<Rightarrow> precision \<Rightarrow> source_range option \<Rightarrow>
     bool builder_op" where
  "builder_add_edge kind from to pv pr loc = builder_try_edge (add_edge kind from to pv pr loc)"

definition builder_add_edge_owned_by :: "repo_path \<Rightarrow> edge \<Rightarrow> bool builder_op" where
  "builder_add_edge_owned_by owner e = builder_try_edge (add_edge_owned_by owner e)"

definition builder_add_call_site :: "call_site_input \<Rightarrow> bool builder_op" where
  "builder_add_call_site i b =
     (case call_site_edge_cost (b_graph b) i of
        Inl e \<Rightarrow> (Inl e, b)
      | Inr required \<Rightarrow>
          if max_call_sites (b_limits b) \<le> call_site_count (b_graph b)
          then (Inr False, omit_edges_for_call_site_budget required
                  (omit_call_sites_for_call_site_budget 1 b))
          else if max_edges (b_limits b) < sat_add64 (edge_count (b_graph b)) required
          then (Inr False, omit_edges_for_edge_budget required
                  (omit_call_sites_for_edge_budget 1 b))
          else case on_graph (add_call_site i) b of
            (Inl e, b') \<Rightarrow> (Inl e, b')
          | (Inr _, b') \<Rightarrow> (Inr True, b'))"

definition builder_finish :: "builder \<Rightarrow> partition \<times> graph_build_report" where
  "builder_finish b =
     (b_graph b, (b_report b)
        \<lparr>retained_symbols := symbol_count (b_graph b),
         retained_edges := edge_count (b_graph b),
         retained_call_sites := call_site_count (b_graph b)\<rparr>)"

subsection \<open>Runs of the builder\<close>

datatype build_event =
    BuildFile repo_path string source_metadata "syntax_diagnostic list" nat
  | BuildSymbol symbol_key source_range "string option" provenance precision
  | BuildEdge edge_kind entity_id entity_id provenance precision "source_range option"
  | BuildOwnedEdge repo_path edge
  | BuildCall call_site_input
  | BuildOmitEdges nat
  | BuildOmitCalls nat

fun build_step :: "(string \<Rightarrow> string) \<Rightarrow> build_event \<Rightarrow> builder \<Rightarrow> builder" where
  "build_step lower (BuildFile p src md ds n) b = snd (builder_add_file_full p src md ds n b)"
| "build_step lower (BuildSymbol key loc sg pv pr) b =
     snd (builder_add_symbol lower key loc sg pv pr b)"
| "build_step lower (BuildEdge k i j pv pr loc) b = snd (builder_add_edge k i j pv pr loc b)"
| "build_step lower (BuildOwnedEdge p e) b = snd (builder_add_edge_owned_by p e b)"
| "build_step lower (BuildCall i) b = snd (builder_add_call_site i b)"
| "build_step lower (BuildOmitEdges n) b = omit_edges_for_symbol_budget n b"
| "build_step lower (BuildOmitCalls n) b = omit_call_sites_for_symbol_budget n b"

definition build_run :: "(string \<Rightarrow> string) \<Rightarrow> build_event list \<Rightarrow> builder \<Rightarrow> builder" where
  "build_run lower evs b = fold (build_step lower) evs b"

definition builder_ok :: "(string \<Rightarrow> string) \<Rightarrow> builder \<Rightarrow> bool" where
  "builder_ok lower b \<longleftrightarrow>
     graph_ok lower (b_graph b) \<and>
     symbol_count (b_graph b) \<le> max_symbols (b_limits b) \<and>
     edge_count (b_graph b) \<le> max_edges (b_limits b) \<and>
     call_site_count (b_graph b) \<le> max_call_sites (b_limits b)"

text \<open>
  The causes account for every omission: a total is the sum of its causes while nothing has
  saturated.
\<close>

definition report_ok :: "graph_build_report \<Rightarrow> bool" where
  "report_ok r \<longleftrightarrow>
     (omitted_edges r < u64_max \<longrightarrow> omitted_edges r = edges_omitted_by_symbol_budget r +
        edges_omitted_by_edge_budget r + edges_omitted_by_call_site_budget r) \<and>
     (omitted_call_sites r < u64_max \<longrightarrow> omitted_call_sites r =
        call_sites_omitted_by_symbol_budget r + call_sites_omitted_by_edge_budget r +
        call_sites_omitted_by_call_site_budget r)"

lemma graph_counts_add_file_full:
  "symbol_count (snd (add_file_full p src md ds n g)) = symbol_count g"
  "edge_count (snd (add_file_full p src md ds n g)) = edge_count g"
  "call_site_count (snd (add_file_full p src md ds n g)) = call_site_count g"
  by (simp_all add: add_file_full_def symbol_count_def call_site_count_def split: option.split)

lemma graph_counts_add_symbol:
  assumes "graph_ok lower g"
  shows "symbol_count (snd (add_symbol lower key loc sg pv pr g)) \<le> symbol_count g + 1"
    "edge_count (snd (add_symbol lower key loc sg pv pr g)) = edge_count g"
    "call_site_count (snd (add_symbol lower key loc sg pv pr g)) = call_site_count g"
proof -
  have rel: "relations_of (snd (add_symbol lower key loc sg pv pr g)) = relations_of g"
    by (rule relations_of_add_symbol)
  then show "edge_count (snd (add_symbol lower key loc sg pv pr g)) = edge_count g"
    "call_site_count (snd (add_symbol lower key loc sg pv pr g)) = call_site_count g"
    by (simp_all add: relations_of_def call_site_count_def)
  have "omap_ok (symbols g)"
    using assms by (simp add: graph_ok_def arena_ok_def lookups_ok_def symbols_ok_def)
  then show "symbol_count (snd (add_symbol lower key loc sg pv pr g)) \<le> symbol_count g + 1"
    by (simp add: add_symbol_def Let_def symbol_count_def length_omap_insert)
qed

lemma graph_counts_edge_raw:
  "symbol_count (snd (add_edge_raw e g)) = symbol_count g"
  "call_site_count (snd (add_edge_raw e g)) = call_site_count g"
  "edge_count (snd (add_edge_raw e g)) \<le> edge_count g + 1"
  using add_edge_raw_frame [of e g]
  by (simp_all add: symbol_count_def call_site_count_def calls_of_def)
    (simp add: add_edge_raw_def Let_def split: option.split)

lemma graph_counts_owned_edge:
  "symbol_count (snd (add_edge_owned_by p e g)) = symbol_count g"
  "call_site_count (snd (add_edge_owned_by p e g)) = call_site_count g"
  "edge_count (snd (add_edge_owned_by p e g)) \<le> edge_count g + 1"
  using graph_counts_edge_raw [of e g]
  by (cases "add_edge_raw e g"; cases "fst (add_edge_raw e g)";
      simp add: add_edge_owned_by_def symbol_count_def call_site_count_def)+

lemma graph_counts_edge:
  "symbol_count (snd (add_edge k i j pv pr loc g)) = symbol_count g"
  "call_site_count (snd (add_edge k i j pv pr loc g)) = call_site_count g"
  "edge_count (snd (add_edge k i j pv pr loc g)) \<le> edge_count g + 1"
  by (simp_all add: add_edge_def graph_counts_owned_edge graph_counts_owned_edge(3) [simplified]
      split: option.split)

text \<open>A call site costs no more edges than announced.\<close>

lemma graph_counts_call_site:
  assumes ok: "graph_ok lower g" and room: "next_call_site_id g < u64_max"
    and cost: "call_site_edge_cost g i = Inr required"
  shows "symbol_count (snd (add_call_site i g)) = symbol_count g"
    "call_site_count (snd (add_call_site i g)) = call_site_count g + 1"
    "edge_count (snd (add_call_site i g)) \<le> edge_count g + required"
    "fst (add_call_site i g) \<noteq> Inl e"
proof -
  have valid: "validate_call_site_input g i = None"
    using cost by (simp add: call_site_edge_cost_def split: option.splits)
  obtain caller res h where h: "omap_get (symbols g) (in_caller i) = Some caller"
    "res = resolve_call g (key_language (sym_key caller)) (in_form i) (in_target_kind i)
       (in_name i) (in_qualifier i)"
    "add_call_site i g = (Inr res, h)" "graph_ok lower h" "arena_of h = arena_of g"
    "call_sites h = omap_insert (next_call_site_id g) (site_of_input i res) (call_sites g)"
    "all_edges h = all_edges g + mset (new_site_edges (is_test g (in_caller i)) []
       (call_sites_from g (in_caller i)) (site_of_input i res))"
    using add_call_site_cases [OF ok room, of i] valid by auto
  have counts: "edge_count g = size (all_edges g)" "edge_count h = size (all_edges h)"
    using edges_okD(5) ok h(4) by (auto simp: graph_ok_def)
  have "length (new_site_edges (is_test g (in_caller i)) [] (call_sites_from g (in_caller i))
      (site_of_input i res)) \<le> required"
    using cost valid h(1) h(2) [symmetric]
    by (cases res) (auto simp: call_site_edge_cost_def new_site_edges_def site_of_input_def is_test_def
        split: if_splits)
  then show "edge_count (snd (add_call_site i g)) \<le> edge_count g + required"
    using h(3,7) counts by simp
  show "symbol_count (snd (add_call_site i g)) = symbol_count g"
    using h(3,5) by (simp add: symbol_count_def arena_of_def)
  have "omap_get (call_sites g) (next_call_site_id g) = None"
    using ok unfolding graph_ok_def sites_ok_def site_callers_ok_def
    by (metis less_irrefl not_None_eq)
  moreover have "omap_ok (call_sites g)" using ok by (simp add: graph_ok_def sites_ok_def site_index_ok_def)
  ultimately show "call_site_count (snd (add_call_site i g)) = call_site_count g + 1"
    using h(3,6) by (simp add: call_site_count_def length_omap_insert)
  show "fst (add_call_site i g) \<noteq> Inl e" using h(3) by simp
qed

lemma on_graph_simps [simp]:
  "snd (on_graph f b) = b\<lparr>b_graph := snd (f (b_graph b))\<rparr>"
  "fst (on_graph f b) = fst (f (b_graph b))"
  by (simp_all add: on_graph_def split: prod.split)

lemma snd_builder_cases:
  "snd (case p of (Inl e, b') \<Rightarrow> (Inl e, b') | (Inr x, b') \<Rightarrow> (Inr (k x), b')) = snd p"
  by (simp split: prod.split sum.split)

lemma builder_ok_new: "builder_ok lower (builder_new limits)"
  using graph_ok_new [of lower]
  by (simp add: builder_ok_def builder_new_def symbol_count_def call_site_count_def partition_new_def)

lemma builder_ok_step:
  assumes ok: "builder_ok lower b" and room: "next_call_site_id (b_graph b) < u64_max"
    and edges: "max_edges (b_limits b) < u64_max"
  shows "builder_ok lower (build_step lower ev b) \<and> b_limits (build_step lower ev b) = b_limits b"
proof -
  have g: "graph_ok lower (b_graph b)" using ok by (simp add: builder_ok_def)
  have edge: "builder_ok lower (snd (builder_try_edge f b)) \<and>
      b_limits (snd (builder_try_edge f b)) = b_limits b"
    if "graph_ok lower (snd (f (b_graph b)))" "symbol_count (snd (f (b_graph b))) = symbol_count (b_graph b)"
      "call_site_count (snd (f (b_graph b))) = call_site_count (b_graph b)"
      "edge_count (snd (f (b_graph b))) \<le> edge_count (b_graph b) + 1" for f
    using that ok by (auto simp: builder_try_edge_def snd_builder_cases builder_ok_def
        omit_edges_for_edge_budget_def)
  show ?thesis
  proof (cases ev)
    case (BuildFile p src md ds n)
    with ok graph_ok_add_file(1) [OF g] show ?thesis
      by (simp add: builder_add_file_full_def builder_ok_def graph_counts_add_file_full)
  next
    case (BuildSymbol key loc sg pv pr)
    with ok graph_ok_add_symbol [OF g, of key loc sg pv pr]
      graph_counts_add_symbol [OF g, of key loc sg pv pr] show ?thesis
      by (auto simp: builder_add_symbol_def snd_builder_cases builder_ok_def)
  next
    case (BuildEdge k i j pv pr loc)
    with edge [of "add_edge k i j pv pr loc", OF graph_ok_add_edge [OF g] graph_counts_edge] show ?thesis
      by (simp add: builder_add_edge_def)
  next
    case (BuildOwnedEdge p e)
    with edge [of "add_edge_owned_by p e", OF graph_ok_add_edge_owned_by [OF g]
        graph_counts_owned_edge] show ?thesis
      by (simp add: builder_add_edge_owned_by_def)
  next
    case (BuildCall i)
    show ?thesis
    proof (cases "call_site_edge_cost (b_graph b) i")
      case (Inl e)
      with BuildCall ok show ?thesis by (simp add: builder_add_call_site_def)
    next
      case (Inr required)
      note c = graph_counts_call_site [OF g room Inr] graph_ok_add_call_site [OF g room, of i]
      with BuildCall ok Inr edges show ?thesis
        by (auto simp: builder_add_call_site_def snd_builder_cases builder_ok_def
            omit_edges_for_edge_budget_def omit_call_sites_for_edge_budget_def
            omit_edges_for_call_site_budget_def omit_call_sites_for_call_site_budget_def
            sat_add64_le_iff not_less)
    qed
  qed (use ok in \<open>simp_all add: builder_ok_def omit_edges_for_symbol_budget_def
      omit_call_sites_for_symbol_budget_def\<close>)
qed

lemma report_ok_step: "report_ok (b_report b) \<Longrightarrow> report_ok (b_report (build_step lower ev b))"
proof -
  have tried: "report_ok (b_report b) \<Longrightarrow> report_ok (b_report (snd (builder_try_edge f b)))" for f
    by (auto simp: builder_try_edge_def snd_builder_cases report_ok_def omit_edges_for_edge_budget_def
        dest!: sat_add64_below)
      (auto simp: sat_add64_def)
  show "report_ok (b_report b) \<Longrightarrow> report_ok (b_report (build_step lower ev b))"
  proof (cases ev)
    case (BuildSymbol key loc sg pv pr)
    then show "report_ok (b_report b) \<Longrightarrow> ?thesis"
      by (simp add: builder_add_symbol_def snd_builder_cases report_ok_def)
  next
    case (BuildCall i)
    then show "report_ok (b_report b) \<Longrightarrow> ?thesis"
      by (cases "call_site_edge_cost (b_graph b) i")
        (auto simp: builder_add_call_site_def snd_builder_cases report_ok_def
          omit_edges_for_edge_budget_def omit_call_sites_for_edge_budget_def
          omit_edges_for_call_site_budget_def omit_call_sites_for_call_site_budget_def sat_add64_def)
  qed (use tried in \<open>auto simp: builder_add_file_full_def builder_add_edge_def
      builder_add_edge_owned_by_def report_ok_def omit_edges_for_symbol_budget_def
      omit_call_sites_for_symbol_budget_def sat_add64_def\<close>)
qed

fun graph_events_of :: "build_event \<Rightarrow> graph_event list" where
  "graph_events_of (BuildFile p src md ds n) = [EvAddFile p src md ds n]"
| "graph_events_of (BuildSymbol key loc sg pv pr) = [EvAddSymbol key loc sg pv pr]"
| "graph_events_of (BuildEdge k i j pv pr loc) = [EvAddEdge k i j pv pr loc]"
| "graph_events_of (BuildOwnedEdge p e) = [EvAddOwnedEdge p e]"
| "graph_events_of (BuildCall i) = [EvAddCall i]"
| "graph_events_of (BuildOmitEdges n) = []"
| "graph_events_of (BuildOmitCalls n) = []"

text \<open>
  The announced edge cost of a repeated test call is one too large, so a budget that calls
  are offered to needs one edge more than the finished graph has.
\<close>

fun offers_call :: "build_event \<Rightarrow> bool" where
  "offers_call (BuildCall _) = True"
| "offers_call _ = False"

definition spare_edge :: "build_event list \<Rightarrow> nat" where
  "spare_edge evs = (if list_ex offers_call evs then 1 else 0)"

lemma spare_edge_Cons: "spare_edge evs \<le> spare_edge (ev # evs)" "spare_edge [ev] \<le> spare_edge (ev # evs)"
  by (simp_all add: spare_edge_def)

text \<open>
  Every step either performs the graph operation or refuses it and leaves the graph alone.
\<close>

lemma build_step_graph:
  "b_graph (build_step lower ev b) = b_graph b \<or>
   b_graph (build_step lower ev b) = graph_run lower (graph_events_of ev) (b_graph b)"
proof -
  have tried: "b_graph (snd (builder_try_edge f b)) = b_graph b \<or>
      b_graph (snd (builder_try_edge f b)) = snd (f (b_graph b))" for f
    by (simp add: builder_try_edge_def snd_builder_cases omit_edges_for_edge_budget_def)
  show ?thesis
  proof (cases ev)
    case (BuildCall i)
    then show ?thesis
      by (cases "call_site_edge_cost (b_graph b) i")
        (auto simp: builder_add_call_site_def snd_builder_cases graph_run_def
          omit_edges_for_edge_budget_def omit_call_sites_for_edge_budget_def
          omit_edges_for_call_site_budget_def omit_call_sites_for_call_site_budget_def)
  qed (use tried in \<open>auto simp: builder_add_file_full_def builder_add_edge_def graph_run_def
      builder_add_edge_owned_by_def builder_add_symbol_def snd_builder_cases
      omit_edges_for_symbol_budget_def omit_call_sites_for_symbol_budget_def\<close>)
qed

lemma build_step_next:
  assumes "graph_ok lower (b_graph b)" "next_call_site_id (b_graph b) < u64_max"
  shows "next_call_site_id (b_graph (build_step lower ev b)) \<le> next_call_site_id (b_graph b) + 1"
proof -
  have "next_call_site_id (graph_run lower (graph_events_of ev) (b_graph b)) \<le>
      next_call_site_id (b_graph b) + 1"
  proof -
    have "graph_events_of ev = [] \<or> (\<exists>e. graph_events_of ev = [e])" by (cases ev) simp_all
    with next_call_site_id_step [OF assms] show ?thesis by (auto simp: graph_run_def)
  qed
  with build_step_graph [of lower ev b] show ?thesis by auto
qed

lemma build_run_ok:
  assumes "builder_ok lower b" "max_edges (b_limits b) < u64_max" "report_ok (b_report b)"
    "next_call_site_id (b_graph b) + length evs \<le> u64_max"
  shows "builder_ok lower (build_run lower evs b) \<and> b_limits (build_run lower evs b) = b_limits b \<and>
    report_ok (b_report (build_run lower evs b))"
  using assms
proof (induction evs arbitrary: b)
  case (Cons ev evs)
  let ?b = "build_step lower ev b"
  have room: "next_call_site_id (b_graph b) < u64_max" using Cons.prems(4) by simp
  have g: "graph_ok lower (b_graph b)" using Cons.prems(1) by (simp add: builder_ok_def)
  note s = builder_ok_step [OF Cons.prems(1) room Cons.prems(2), of ev]
  have "next_call_site_id (b_graph ?b) + length evs \<le> u64_max"
    using build_step_next [OF g room, of ev] Cons.prems(4) by simp
  with Cons.IH [of ?b] s Cons.prems(2) report_ok_step [OF Cons.prems(3)] show ?case
    by (simp add: build_run_def)
qed (simp add: build_run_def)

lemma build_run_new_ok:
  assumes "max_edges limits < u64_max" "length evs \<le> u64_max"
  shows "builder_ok lower (build_run lower evs (builder_new limits))"
    "b_limits (build_run lower evs (builder_new limits)) = limits"
    "report_ok (b_report (build_run lower evs (builder_new limits)))"
  using build_run_ok [OF builder_ok_new, of limits evs lower] assms
  by (simp_all add: builder_new_def report_ok_def report_default_def partition_new_def)

subsection \<open>A large enough budget changes nothing\<close>

definition counts_le :: "partition \<Rightarrow> partition \<Rightarrow> bool" where
  "counts_le g h \<longleftrightarrow> symbol_count g \<le> symbol_count h \<and> edge_count g \<le> edge_count h \<and>
     call_site_count g \<le> call_site_count h"

lemma counts_le_refl: "counts_le g g" by (simp add: counts_le_def)

lemma counts_le_trans: "counts_le g h \<Longrightarrow> counts_le h k \<Longrightarrow> counts_le g k"
  by (auto simp: counts_le_def)

lemma add_symbol_count:
  assumes "graph_ok lower g"
  shows "symbol_count (snd (add_symbol lower key loc sg pv pr g)) =
    (case fst (add_symbol lower key loc sg pv pr g) of Inl _ \<Rightarrow> symbol_count g
     | Inr _ \<Rightarrow> symbol_count g + 1)"
proof (cases "add_symbol lower key loc sg pv pr g")
  case (Pair r g')
  show ?thesis
  proof (cases r)
    case (Inl e)
    with Pair add_symbol_Inl [of lower key loc sg pv pr g e g'] show ?thesis by simp
  next
    case (Inr i)
    with Pair have add: "add_symbol lower key loc sg pv pr g = (Inr i, g')" by simp
    note res = add_symbol_Inr [OF add]
    have "ids_ok g" "omap_ok (symbols g)"
      using assms by (simp_all add: graph_ok_def arena_ok_def lookups_ok_def symbols_ok_def)
    moreover from this have "omap_get (symbols g) i = None"
      using fresh_entity_id [OF _ res(3)] res(1) by (simp add: next_id_for_def)
    ultimately show ?thesis using add res(4) by (simp add: symbol_count_def length_omap_insert)
  qed
qed

lemma add_edge_raw_count:
  "edge_count (snd (add_edge_raw e g)) =
     (case fst (add_edge_raw e g) of Inl _ \<Rightarrow> edge_count g | Inr _ \<Rightarrow> edge_count g + 1)"
  "fst (add_edge_raw e g) = Inl x \<Longrightarrow> snd (add_edge_raw e g) = g"
  by (auto simp: add_edge_raw_def Let_def split: option.splits)

lemma add_edge_owned_count:
  "edge_count (snd (add_edge_owned_by p e g)) =
     (case fst (add_edge_owned_by p e g) of Inl _ \<Rightarrow> edge_count g | Inr _ \<Rightarrow> edge_count g + 1)"
  "fst (add_edge_owned_by p e g) = Inl x \<Longrightarrow> snd (add_edge_owned_by p e g) = g"
  using add_edge_raw_count [of e g]
  by (auto simp: add_edge_owned_by_def split: prod.splits sum.splits)

lemma add_edge_count:
  "edge_count (snd (add_edge k i j pv pr loc g)) =
     (case fst (add_edge k i j pv pr loc g) of Inl _ \<Rightarrow> edge_count g | Inr _ \<Rightarrow> edge_count g + 1)"
  "fst (add_edge k i j pv pr loc g) = Inl x \<Longrightarrow> snd (add_edge k i j pv pr loc g) = g"
  using add_edge_owned_count by (auto simp: add_edge_def split: option.splits sum.splits)

lemma add_call_site_count:
  assumes ok: "graph_ok lower g" and room: "next_call_site_id g < u64_max"
  shows "counts_le g (snd (add_call_site i g))"
    "call_site_edge_cost g i = Inr required \<Longrightarrow>
       edge_count g + required \<le> edge_count (snd (add_call_site i g)) + 1"
    "call_site_edge_cost g i = Inl e \<Longrightarrow> snd (add_call_site i g) = g"
proof -
  show "call_site_edge_cost g i = Inl e \<Longrightarrow> snd (add_call_site i g) = g"
    by (auto simp: call_site_edge_cost_def add_call_site_def split: option.splits)
  have invalid: "snd (add_call_site i g) = g" if "validate_call_site_input g i = Some e" for e
    using that by (simp add: add_call_site_def)
  {
    assume valid: "validate_call_site_input g i = None"
    obtain caller res h where h: "omap_get (symbols g) (in_caller i) = Some caller"
      "res = resolve_call g (key_language (sym_key caller)) (in_form i) (in_target_kind i)
         (in_name i) (in_qualifier i)"
      "add_call_site i g = (Inr res, h)" "graph_ok lower h"
      "all_edges h = all_edges g + mset (new_site_edges (is_test g (in_caller i)) []
         (call_sites_from g (in_caller i)) (site_of_input i res))"
      using add_call_site_cases [OF ok room, of i] valid by auto
    have counts: "edge_count g = size (all_edges g)" "edge_count h = size (all_edges h)"
      using edges_okD(5) ok h(4) by (auto simp: graph_ok_def)
    have "call_site_edge_cost g i = Inr required \<Longrightarrow>
        required \<le> length (new_site_edges (is_test g (in_caller i)) []
         (call_sites_from g (in_caller i)) (site_of_input i res)) + 1" for required
      using valid h(1) h(2) [symmetric]
      by (cases res) (auto simp: call_site_edge_cost_def new_site_edges_def site_of_input_def)
    with h(3,5) counts have cost: "call_site_edge_cost g i = Inr required \<Longrightarrow>
       edge_count g + required \<le> edge_count (snd (add_call_site i g)) + 1" for required
      by (metis (no_types, lifting) add.assoc add_left_mono size_mset size_union snd_conv)
    obtain required where "call_site_edge_cost g i = Inr required"
      using valid h(1) by (simp add: call_site_edge_cost_def)
    note c = graph_counts_call_site(1,2) [OF ok room this]
    have "counts_le g (snd (add_call_site i g))"
      using c h(3,5) counts by (simp add: counts_le_def)
    note this cost
  }
  with invalid show "counts_le g (snd (add_call_site i g))"
    "call_site_edge_cost g i = Inr required \<Longrightarrow>
       edge_count g + required \<le> edge_count (snd (add_call_site i g)) + 1"
    by (cases "validate_call_site_input g i"; auto simp: counts_le_refl call_site_edge_cost_def)+
qed

lemma on_graph_result:
  "b_graph (snd (case on_graph f b of (Inl e, b') \<Rightarrow> (Inl e, b') | (Inr x, b') \<Rightarrow> (Inr (k x), b'))) =
     snd (f (b_graph b))"
  by (simp add: snd_builder_cases)

lemma build_step_faithful:
  fixes lower ev b
  defines "g \<equiv> b_graph b"
  defines "h \<equiv> graph_run lower (graph_events_of ev) g"
  assumes ok: "graph_ok lower g" and room: "next_call_site_id g < u64_max"
    and fits: "symbol_count h \<le> max_symbols (b_limits b)"
      "edge_count h + spare_edge [ev] \<le> max_edges (b_limits b)"
      "call_site_count h \<le> max_call_sites (b_limits b)"
  shows "b_graph (build_step lower ev b) = h" "counts_le g h"
proof -
  have tried: "b_graph (snd (builder_try_edge f b)) = snd (f g)"
    if "edge_count (snd (f g)) \<le> max_edges (b_limits b)"
      "edge_count (snd (f g)) = (case fst (f g) of Inl _ \<Rightarrow> edge_count g | Inr _ \<Rightarrow> edge_count g + 1)"
      "\<And>x. fst (f g) = Inl x \<Longrightarrow> snd (f g) = g" for f
    using that by (auto simp: builder_try_edge_def snd_builder_cases g_def
        omit_edges_for_edge_budget_def split: sum.splits)
  have "b_graph (build_step lower ev b) = h \<and> counts_le g h"
  proof (cases ev)
    case (BuildFile p src md ds n)
    then show ?thesis
      by (simp add: builder_add_file_full_def h_def g_def graph_run_def counts_le_def
          graph_counts_add_file_full)
  next
    case (BuildSymbol key loc sg pv pr)
    then have h: "h = snd (add_symbol lower key loc sg pv pr g)" by (simp add: h_def graph_run_def)
    note c = add_symbol_count [OF ok, of key loc sg pv pr]
    show ?thesis
    proof (cases "fst (add_symbol lower key loc sg pv pr g)")
      case (Inl e)
      then have "h = g" using add_symbol_Inl h by (metis prod.collapse)
      with BuildSymbol h show ?thesis
        by (simp add: builder_add_symbol_def snd_builder_cases g_def counts_le_refl)
    next
      case (Inr i)
      with c fits(1) h have "\<not> max_symbols (b_limits b) \<le> symbol_count g" by simp
      with BuildSymbol h graph_counts_add_symbol(2,3) [OF ok, of key loc sg pv pr] c Inr show ?thesis
        by (simp add: builder_add_symbol_def snd_builder_cases g_def counts_le_def)
    qed
  next
    case (BuildEdge k i j pv pr loc)
    then have h: "h = snd (add_edge k i j pv pr loc g)" by (simp add: h_def graph_run_def)
    from BuildEdge h fits(2) tried [of "add_edge k i j pv pr loc"] add_edge_count [of k i j pv pr loc g]
      graph_counts_edge [of k i j pv pr loc g] show ?thesis
      by (auto simp: builder_add_edge_def counts_le_def split: sum.splits)
  next
    case (BuildOwnedEdge p e)
    then have h: "h = snd (add_edge_owned_by p e g)" by (simp add: h_def graph_run_def)
    from BuildOwnedEdge h fits(2) tried [of "add_edge_owned_by p e"] add_edge_owned_count [of p e g]
      graph_counts_owned_edge [of p e g] show ?thesis
      by (auto simp: builder_add_edge_owned_by_def counts_le_def split: sum.splits)
  next
    case (BuildCall i)
    then have h: "h = snd (add_call_site i g)" by (simp add: h_def graph_run_def)
    note c = add_call_site_count [OF ok room]
    show ?thesis
    proof (cases "call_site_edge_cost g i")
      case (Inl e)
      with c(3) h BuildCall show ?thesis
        by (simp add: builder_add_call_site_def g_def counts_le_refl)
    next
      case (Inr required)
      have "call_site_count h = call_site_count g + 1"
        using graph_counts_call_site(2) [OF ok room Inr] h by simp
      then have sites: "\<not> max_call_sites (b_limits b) \<le> call_site_count g" using fits(3) by simp
      have "edge_count g + required \<le> max_edges (b_limits b)"
        using c(2) [OF Inr] fits(2) h BuildCall by (simp add: spare_edge_def)
      then have "\<not> max_edges (b_limits b) < sat_add64 (edge_count g) required"
        by (simp add: sat_add64_def)
      with sites Inr BuildCall h c(1) [of i] show ?thesis
        by (simp add: builder_add_call_site_def g_def snd_builder_cases)
    qed
  qed (simp_all add: h_def g_def graph_run_def counts_le_refl omit_edges_for_symbol_budget_def
      omit_call_sites_for_symbol_budget_def)
  then show "b_graph (build_step lower ev b) = h" "counts_le g h" by blast+
qed

lemma b_limits_step: "b_limits (build_step lower ev b) = b_limits b"
proof -
  have tried: "b_limits (snd (builder_try_edge f b)) = b_limits b" for f
    by (simp add: builder_try_edge_def snd_builder_cases omit_edges_for_edge_budget_def)
  show ?thesis
  proof (cases ev)
    case (BuildCall i)
    then show ?thesis
      by (cases "call_site_edge_cost (b_graph b) i")
        (auto simp: builder_add_call_site_def snd_builder_cases
          omit_edges_for_edge_budget_def omit_call_sites_for_edge_budget_def
          omit_edges_for_call_site_budget_def omit_call_sites_for_call_site_budget_def)
  qed (use tried in \<open>auto simp: builder_add_file_full_def builder_add_edge_def
      builder_add_edge_owned_by_def builder_add_symbol_def snd_builder_cases
      omit_edges_for_symbol_budget_def omit_call_sites_for_symbol_budget_def\<close>)
qed

text \<open>Without refusals the graph only grows.\<close>

lemma counts_le_step:
  assumes "graph_ok lower g" "next_call_site_id g < u64_max"
  shows "counts_le g (graph_run lower (graph_events_of ev) g)"
proof -
  let ?h = "graph_run lower (graph_events_of ev) g"
  show ?thesis
  proof (cases ev)
    case (BuildSymbol key loc sg pv pr)
    with add_symbol_count [OF assms(1), of key loc sg pv pr]
      graph_counts_add_symbol(2,3) [OF assms(1), of key loc sg pv pr] show ?thesis
      by (auto simp: graph_run_def counts_le_def split: sum.splits)
  next
    case (BuildEdge k i j pv pr loc)
    with add_edge_count(1) [of k i j pv pr loc g] graph_counts_edge [of k i j pv pr loc g]
    show ?thesis by (auto simp: graph_run_def counts_le_def split: sum.splits)
  next
    case (BuildOwnedEdge p e)
    with add_edge_owned_count(1) [of p e g] graph_counts_owned_edge [of p e g]
    show ?thesis by (auto simp: graph_run_def counts_le_def split: sum.splits)
  next
    case (BuildCall i)
    with add_call_site_count(1) [OF assms, of i] show ?thesis by (simp add: graph_run_def)
  qed (simp_all add: graph_run_def counts_le_def graph_counts_add_file_full)
qed

lemma build_run_faithful:
  fixes lower evs b
  defines "h \<equiv> graph_run lower (concat (map graph_events_of evs)) (b_graph b)"
  assumes "graph_ok lower (b_graph b)" "next_call_site_id (b_graph b) + length evs \<le> u64_max"
    "symbol_count h \<le> max_symbols (b_limits b)"
    "edge_count h + spare_edge evs \<le> max_edges (b_limits b)"
    "call_site_count h \<le> max_call_sites (b_limits b)"
  shows "b_graph (build_run lower evs b) = h \<and> counts_le (b_graph b) h"
  using assms(2-) unfolding h_def
proof (induction evs arbitrary: b)
  case Nil
  then show ?case by (simp add: build_run_def graph_run_def counts_le_refl)
next
  case (Cons ev evs)
  let ?g = "b_graph b" and ?g1 = "graph_run lower (graph_events_of ev) (b_graph b)"
  let ?b1 = "(build_step lower ev b)\<lparr>b_graph := ?g1\<rparr>"
  have room: "next_call_site_id ?g < u64_max" using Cons.prems(2) by simp
  have split: "graph_run lower (concat (map graph_events_of (ev # evs))) ?g =
      graph_run lower (concat (map graph_events_of evs)) ?g1"
    by (simp add: graph_run_def)
  have len: "length (graph_events_of ev) \<le> 1" by (cases ev) simp_all
  have ok1: "graph_ok lower ?g1"
    using len room by (intro graph_run_ok [OF Cons.prems(1)]) simp
  have next1: "next_call_site_id ?g1 \<le> next_call_site_id ?g + 1"
  proof -
    have "graph_events_of ev = [] \<or> (\<exists>e. graph_events_of ev = [e])" by (cases ev) simp_all
    with next_call_site_id_step [OF Cons.prems(1) room] show ?thesis by (auto simp: graph_run_def)
  qed
  have "b_graph (build_run lower evs ?b1) = graph_run lower (concat (map graph_events_of evs)) ?g1 \<and>
      counts_le ?g1 (graph_run lower (concat (map graph_events_of evs)) ?g1)"
    using Cons.IH [of ?b1] ok1 next1 Cons.prems(2-) split spare_edge_Cons(1) [of evs ev]
    by (simp add: b_limits_step)
  moreover have "counts_le ?g ?g1" using Cons.prems(1) room by (rule counts_le_step)
  ultimately have le: "counts_le ?g1 (graph_run lower (concat (map graph_events_of evs)) ?g1)"
    and IH: "b_graph (build_run lower evs ?b1) = graph_run lower (concat (map graph_events_of evs)) ?g1"
    by simp_all
  have "b_graph (build_step lower ev b) = ?g1"
    using le Cons.prems(3-) split spare_edge_Cons(2) [of ev evs]
    by (intro build_step_faithful(1) [OF Cons.prems(1) room]) (auto simp: counts_le_def)
  then have "build_step lower ev b = ?b1" by (cases "build_step lower ev b") simp
  then have "build_run lower (ev # evs) b = build_run lower evs ?b1"
    unfolding build_run_def by (metis fold_simps(2))
  with IH le counts_le_step [OF Cons.prems(1) room, of ev] show ?case
    using counts_le_trans unfolding split by metis
qed

subsection \<open>Properties\<close>

text \<open>
  C12: A bounded build never exceeds a budget: whatever is offered to the builder, the
  finished graph is consistent and holds at most the allowed symbols, edges and call sites,
  the report's retained numbers are those of the graph, and each omission total is the sum
  of its causes (until a counter saturates).
\<close>

theorem bounded_build_within_limits:
  assumes "max_edges limits < u64_max" "length evs \<le> u64_max"
  shows "case builder_finish (build_run lower evs (builder_new limits)) of (g, r) \<Rightarrow>
    graph_ok lower g \<and>
    symbol_count g \<le> max_symbols limits \<and> edge_count g \<le> max_edges limits \<and>
    call_site_count g \<le> max_call_sites limits \<and>
    retained_symbols r = symbol_count g \<and> retained_edges r = size (all_edges g) \<and>
    retained_call_sites r = call_site_count g \<and> report_ok r"
proof -
  note b = build_run_new_ok [OF assms, of lower]
  from b(1) have "edge_count (b_graph (build_run lower evs (builder_new limits))) =
      size (all_edges (b_graph (build_run lower evs (builder_new limits))))"
    using edges_okD(5) by (auto simp: builder_ok_def graph_ok_def)
  with b show ?thesis
    by (simp add: builder_finish_def builder_ok_def report_ok_def)
qed

theorem bounded_build_within_limits_witness:
  "symbol_count (fst (builder_finish (build_run (\<lambda>s. s)
     [BuildSymbol (sample_key ''f'' KindFunction ''a.rs'') (sample_range ''a.rs'') None TreeSitter Syntax,
      BuildSymbol (sample_key ''g'' KindFunction ''a.rs'') (sample_range ''a.rs'') None TreeSitter Syntax]
     (builder_new \<lparr>max_symbols = 1, max_edges = 0, max_call_sites = 0\<rparr>)))) \<le> 1"
  using bounded_build_within_limits [of "\<lparr>max_symbols = 1, max_edges = 0, max_call_sites = 0\<rparr>"
      "[BuildSymbol (sample_key ''f'' KindFunction ''a.rs'') (sample_range ''a.rs'') None TreeSitter Syntax,
      BuildSymbol (sample_key ''g'' KindFunction ''a.rs'') (sample_range ''a.rs'') None TreeSitter Syntax]"
      "\<lambda>s. s"]
  by (simp add: u64_max_def split: prod.splits)

text \<open>
  C13: Budgets cut nothing that fits: if the unbounded graph of the same inputs has no more
  symbols and call sites than allowed and no more edges (one edge less when calls are among the
  inputs, since a repeated call of a test is announced one edge too dear and refused at the
  limit), the bounded builder produces exactly that graph. The unlimited budget is included.
\<close>

theorem bounded_build_faithful:
  assumes "length evs \<le> u64_max"
    and "h = graph_run lower (concat (map graph_events_of evs)) partition_new"
    and "symbol_count h \<le> max_symbols limits"
      "edge_count h + (if list_ex offers_call evs then 1 else 0) \<le> max_edges limits"
      "call_site_count h \<le> max_call_sites limits"
  shows "fst (builder_finish (build_run lower evs (builder_new limits))) = h"
  using build_run_faithful [of lower "builder_new limits" evs] assms graph_ok_new [of lower]
  unfolding spare_edge_def by (simp add: builder_new_def builder_finish_def partition_new_def)

abbreviation sample_build :: "build_event list" where
  "sample_build \<equiv>
     [BuildSymbol (sample_key ''m::f'' KindFunction ''a.rs'') (sample_range ''a.rs'') None TreeSitter Syntax,
      BuildSymbol (sample_key ''t'' KindTest ''b.rs'') (sample_range ''b.rs'') None TreeSitter Syntax,
      BuildCall (sample_call 1 ''f'' ''b.rs'')]"

theorem bounded_build_faithful_witness:
  "edge_count (b_graph (build_run (\<lambda>s. s) sample_build
     (builder_new \<lparr>max_symbols = 2, max_edges = 3, max_call_sites = 1\<rparr>))) = 2"
proof -
  let ?h = "graph_run (\<lambda>s. s) (concat (map graph_events_of sample_build)) partition_new"
  have h: "symbol_count ?h = 2" "edge_count ?h = 2" "call_site_count ?h = 1"
    by (simp_all add: graph_eval symbol_count_def call_site_count_def)
  have "fst (builder_finish (build_run (\<lambda>s. s) sample_build
      (builder_new \<lparr>max_symbols = 2, max_edges = 3, max_call_sites = 1\<rparr>))) = ?h"
  proof (rule bounded_build_faithful [OF _ refl])
    show "length sample_build \<le> u64_max" by (simp add: u64_max_def)
  qed (unfold h, simp_all)
  then show ?thesis using h(2) by (simp add: builder_finish_def)
qed

text \<open>
  The edge cost announced for a call site is never too small, and it is one too large
  exactly when the caller is a test that already has a resolved call to the same target
  (whose \<open>TESTS\<close> edge is not added again).
\<close>

theorem call_site_cost_exact:
  assumes "graph_ok lower g" "next_call_site_id g < u64_max"
    and "call_site_edge_cost g i = Inr required" "add_call_site i g = (Inr res, h)"
  shows "edge_count h +
      (if is_test g (in_caller i) \<and> (\<exists>t. res = Resolved t \<and>
           (\<exists>cs\<in>set (call_sites_from g (in_caller i)). site_resolution cs = Resolved t))
       then 1 else 0) = edge_count g + required"
proof -
  have valid: "validate_call_site_input g i = None"
    using assms(3) by (simp add: call_site_edge_cost_def split: option.splits)
  obtain caller where h: "omap_get (symbols g) (in_caller i) = Some caller"
    "res = resolve_call g (key_language (sym_key caller)) (in_form i) (in_target_kind i)
       (in_name i) (in_qualifier i)" "graph_ok lower h"
    "all_edges h = all_edges g + mset (new_site_edges (is_test g (in_caller i)) []
       (call_sites_from g (in_caller i)) (site_of_input i res))"
    using add_call_site_cases [OF assms(1,2), of i] valid assms(4) by auto
  have counts: "edge_count g = size (all_edges g)" "edge_count h = size (all_edges h)"
    using edges_okD(5) assms(1) h(3) by (auto simp: graph_ok_def)
  show ?thesis
    using assms(3) valid h(1) h(2) [symmetric] unfolding counts h(4)
    by (cases res) (auto simp: call_site_edge_cost_def new_site_edges_def site_of_input_def
        is_test_def list_ex_iff)
qed

theorem call_site_cost_exact_witness:
  "edge_count (snd (add_call_site (sample_call 1 ''f'' ''b.rs'')
     (graph_run (\<lambda>s. s) sample_events partition_new))) = 3"
proof -
  let ?g = "graph_run (\<lambda>s. s) sample_events partition_new" and ?i = "sample_call 1 ''f'' ''b.rs''"
  have ok: "graph_ok (\<lambda>s. s) ?g" by (rule graph_run_new_ok) (simp add: u64_max_def)
  have g: "next_call_site_id ?g < u64_max" "call_site_edge_cost ?g ?i = Inr 2" "edge_count ?g = 2"
    "is_test ?g 1" "\<exists>cs\<in>set (call_sites_from ?g 1). site_resolution cs = Resolved 0"
    "fst (add_call_site ?i ?g) = Inr (Resolved 0)"
    by (simp_all add: graph_eval call_site_edge_cost_def)
  then have "add_call_site ?i ?g = (Inr (Resolved 0), snd (add_call_site ?i ?g))"
    by (metis prod.collapse)
  from call_site_cost_exact [OF ok g(1,2) this] g(3-5) show ?thesis by simp
qed

end
