(* ===== verification/Graph_Composite.thy ===== *)
theory Graph_Composite
  imports Graph_Builder
begin

section \<open>Composed workspace graphs\<close>

text \<open>
  A workspace graph is a shallow view over disjoint language partitions (\<open>parts\<close> of
  \<open>SymbolGraph\<close>, \<open>graph.rs\<close>): \<open>merge\<close>, the queries that dispatch over the parts, the source
  layers, the streaming merge of file summaries, and the bounded name search.
\<close>

subsection \<open>Composition\<close>

datatype workspace_graph =
    Owned "(repo_path, source_layer) omap" partition
  | Composite "(repo_path, source_layer) omap" "workspace_graph list"

fun source_layers :: "workspace_graph \<Rightarrow> (repo_path, source_layer) omap" where
  "source_layers (Owned ls _) = ls"
| "source_layers (Composite ls _) = ls"

fun with_source_layers ::
    "(repo_path, source_layer) omap \<Rightarrow> workspace_graph \<Rightarrow> workspace_graph" where
  "with_source_layers ls (Owned _ g) = Owned ls g"
| "with_source_layers ls (Composite _ ps) = Composite ls ps"

text \<open>\<open>ensure_owned\<close>: a composed graph rejects every mutation.\<close>

definition on_owned :: "'a graph_op \<Rightarrow> workspace_graph \<Rightarrow> (graph_error + 'a) \<times> workspace_graph" where
  "on_owned f w =
     (case w of
        Composite ls ps \<Rightarrow> (Inl CompositeMutation, Composite ls ps)
      | Owned ls g \<Rightarrow> (let (r, g') = f g in (r, Owned ls g')))"

definition owned_languages :: "partition \<Rightarrow> language list" where
  "owned_languages g =
     map snd (filter (\<lambda>(slot, l). symbol_counts g ! slot \<noteq> 0) (enumerate 0 entity_slot_languages))"

fun languages :: "workspace_graph \<Rightarrow> language list" where
  "languages (Owned _ g) = owned_languages g"
| "languages (Composite _ ps) = fold push_new (concat (map languages ps)) []"

fun claim_languages :: "language list \<Rightarrow> language list \<Rightarrow> language + language list" where
  "claim_languages [] seen = Inr seen"
| "claim_languages (l # ls) seen = (if l \<in> set seen then Inl l else claim_languages ls (l # seen))"

fun merge_loop ::
    "workspace_graph list \<Rightarrow> language list \<Rightarrow> workspace_graph list \<Rightarrow>
     graph_error + workspace_graph list" where
  "merge_loop [] seen parts = Inr parts"
| "merge_loop (g # gs) seen parts =
     (case claim_languages (languages g) seen of
        Inl l \<Rightarrow> Inl (OverlappingLanguageGraph l)
      | Inr seen' \<Rightarrow>
          merge_loop gs seen' (parts @ (case g of Composite _ nested \<Rightarrow> nested | Owned _ _ \<Rightarrow> [g])))"

definition merge :: "workspace_graph list \<Rightarrow> graph_error + workspace_graph" where
  "merge gs = (case merge_loop gs [] [] of Inl e \<Rightarrow> Inl e | Inr parts \<Rightarrow> Inr (Composite [] parts))"

subsection \<open>Queries\<close>

fun first_some :: "'a option list \<Rightarrow> 'a option" where
  "first_some [] = None"
| "first_some (None # xs) = first_some xs"
| "first_some (Some x # xs) = Some x"

fun ws_symbol :: "workspace_graph \<Rightarrow> entity_id \<Rightarrow> symbol option" where
  "ws_symbol (Owned _ g) i = omap_get (symbols g) i"
| "ws_symbol (Composite _ ps) i = first_some (map (\<lambda>p. ws_symbol p i) ps)"

fun ws_symbol_count :: "workspace_graph \<Rightarrow> nat" where
  "ws_symbol_count (Owned _ g) = symbol_count g"
| "ws_symbol_count (Composite _ ps) = sum_list (map ws_symbol_count ps)"

fun ws_edge_count :: "workspace_graph \<Rightarrow> nat" where
  "ws_edge_count (Owned _ g) = edge_count g"
| "ws_edge_count (Composite _ ps) = sum_list (map ws_edge_count ps)"

fun ws_call_site_count :: "workspace_graph \<Rightarrow> nat" where
  "ws_call_site_count (Owned _ g) = call_site_count g"
| "ws_call_site_count (Composite _ ps) = sum_list (map ws_call_site_count ps)"

fun ws_adjacency_entries_copied :: "workspace_graph \<Rightarrow> nat" where
  "ws_adjacency_entries_copied (Owned _ g) = adjacency_entries_copied g"
| "ws_adjacency_entries_copied (Composite _ ps) = sum_list (map ws_adjacency_entries_copied ps)"

fun ws_ambiguous_call_site_count :: "workspace_graph \<Rightarrow> nat" where
  "ws_ambiguous_call_site_count (Owned _ g) = ambiguous_call_sites g"
| "ws_ambiguous_call_site_count (Composite _ ps) = sum_list (map ws_ambiguous_call_site_count ps)"

fun ws_unresolved_call_site_count :: "workspace_graph \<Rightarrow> nat" where
  "ws_unresolved_call_site_count (Owned _ g) = unresolved_call_sites g"
| "ws_unresolved_call_site_count (Composite _ ps) = sum_list (map ws_unresolved_call_site_count ps)"

fun ws_truncated_call_sites :: "workspace_graph \<Rightarrow> nat" where
  "ws_truncated_call_sites (Owned _ g) = truncated_call_sites g"
| "ws_truncated_call_sites (Composite _ ps) = sum_list (map ws_truncated_call_sites ps)"

fun ws_file_count :: "workspace_graph \<Rightarrow> nat" where
  "ws_file_count (Owned _ g) = length (files g)"
| "ws_file_count (Composite _ ps) = sum_list (map ws_file_count ps)"

fun ws_outgoing_edges :: "workspace_graph \<Rightarrow> entity_id \<Rightarrow> edge list" where
  "ws_outgoing_edges (Owned _ g) i = outgoing_edges g i"
| "ws_outgoing_edges (Composite _ ps) i =
     (case first_some (map (\<lambda>p. if ws_symbol p i \<noteq> None then Some (ws_outgoing_edges p i) else None) ps)
      of None \<Rightarrow> [] | Some es \<Rightarrow> es)"

fun ws_incoming_edges :: "workspace_graph \<Rightarrow> entity_id \<Rightarrow> edge list" where
  "ws_incoming_edges (Owned _ g) i = incoming_edges g i"
| "ws_incoming_edges (Composite _ ps) i =
     (case first_some (map (\<lambda>p. if ws_symbol p i \<noteq> None then Some (ws_incoming_edges p i) else None) ps)
      of None \<Rightarrow> [] | Some es \<Rightarrow> es)"

fun ws_call_sites_from :: "workspace_graph \<Rightarrow> entity_id \<Rightarrow> call_site list" where
  "ws_call_sites_from (Owned _ g) i = call_sites_from g i"
| "ws_call_sites_from (Composite _ ps) i =
     (case first_some (map (\<lambda>p. if ws_symbol p i \<noteq> None then Some (ws_call_sites_from p i) else None) ps)
      of None \<Rightarrow> [] | Some es \<Rightarrow> es)"

text \<open>The queries over ambiguous calls dispatch on the part that knows the caller or target.\<close>

fun ws_call_candidates :: "workspace_graph \<Rightarrow> call_site \<Rightarrow> nat \<Rightarrow> symbol list \<times> bool" where
  "ws_call_candidates (Owned _ g) cs limit = call_candidates g cs limit"
| "ws_call_candidates (Composite _ ps) cs limit =
     (case first_some (map (\<lambda>p. if ws_symbol p (site_caller cs) \<noteq> None
                              then Some (ws_call_candidates p cs limit) else None) ps)
      of None \<Rightarrow> ([], False) | Some r \<Rightarrow> r)"

fun ws_call_sites_for_target ::
    "workspace_graph \<Rightarrow> entity_id \<Rightarrow> nat \<Rightarrow> call_site list \<times> bool" where
  "ws_call_sites_for_target (Owned _ g) target limit = call_sites_for_target g target limit"
| "ws_call_sites_for_target (Composite _ ps) target limit =
     (case first_some (map (\<lambda>p. if ws_symbol p target \<noteq> None
                              then Some (ws_call_sites_for_target p target limit) else None) ps)
      of None \<Rightarrow> ([], False) | Some r \<Rightarrow> r)"

definition ws_call_site_for_edge :: "workspace_graph \<Rightarrow> edge \<Rightarrow> call_site option" where
  "ws_call_site_for_edge w e =
     (if edge_kind e \<in> {Calls, Tests}
      then find (\<lambda>cs. site_resolution cs = Resolved (edge_to e) \<and>
                   edge_location e = Some (site_location cs)) (ws_call_sites_from w (edge_from e))
      else None)"

fun ws_exact_name_candidates :: "workspace_graph \<Rightarrow> string \<Rightarrow> entity_id list" where
  "ws_exact_name_candidates (Owned _ g) name = index_at (symbols_by_exact_name g) name"
| "ws_exact_name_candidates (Composite _ ps) name =
     concat (map (\<lambda>p. ws_exact_name_candidates p name) ps)"

definition ws_resolve_name :: "workspace_graph \<Rightarrow> string \<Rightarrow> entity_id list" where
  "ws_resolve_name w name = sort (ws_exact_name_candidates w name)"

fun ws_symbols :: "workspace_graph \<Rightarrow> symbol list" where
  "ws_symbols (Owned _ g) = map snd (symbols g)"
| "ws_symbols (Composite _ ps) = concat (map ws_symbols ps)"

fun ws_symbols_in_file :: "workspace_graph \<Rightarrow> repo_path \<Rightarrow> symbol list" where
  "ws_symbols_in_file (Owned _ g) p = symbols_in_file g p"
| "ws_symbols_in_file (Composite _ ps) p = concat (map (\<lambda>q. ws_symbols_in_file q p) ps)"

fun ws_file_source :: "workspace_graph \<Rightarrow> repo_path \<Rightarrow> string option" where
  "ws_file_source (Owned _ g) p =
     (case omap_get (files g) p of None \<Rightarrow> None | Some f \<Rightarrow> file_source f)"
| "ws_file_source (Composite _ ps) p = first_some (map (\<lambda>q. ws_file_source q p) ps)"

fun ws_file_metadata :: "workspace_graph \<Rightarrow> repo_path \<Rightarrow> source_metadata option" where
  "ws_file_metadata (Owned _ g) p = map_option file_metadata (omap_get (files g) p)"
| "ws_file_metadata (Composite _ ps) p = first_some (map (\<lambda>q. ws_file_metadata q p) ps)"

fun ws_file_diagnostic_count :: "workspace_graph \<Rightarrow> repo_path \<Rightarrow> nat option" where
  "ws_file_diagnostic_count (Owned _ g) p = map_option file_diagnostic_count (omap_get (files g) p)"
| "ws_file_diagnostic_count (Composite _ ps) p =
     first_some (map (\<lambda>q. ws_file_diagnostic_count q p) ps)"

text \<open>Own layer entry first, then the first part that has the file's source.\<close>

fun file_source_layer :: "workspace_graph \<Rightarrow> repo_path \<Rightarrow> source_layer" where
  "file_source_layer (Owned ls g) p = omap_get_or CommitSnapshot ls p"
| "file_source_layer (Composite ls ps) p =
     (case omap_get ls p of
        Some l \<Rightarrow> l
      | None \<Rightarrow>
          (case first_some (map (\<lambda>q. if ws_file_source q p \<noteq> None
                  then Some (file_source_layer q p) else None) ps) of
             None \<Rightarrow> CommitSnapshot | Some l \<Rightarrow> l))"

fun source_files :: "workspace_graph \<Rightarrow> (repo_path \<times> string) list" where
  "source_files (Owned _ g) =
     sort_key fst (List.map_filter (\<lambda>(p, f). map_option (Pair p) (file_source f)) (files g))"
| "source_files (Composite _ ps) = sort_key fst (concat (map source_files ps))"

subsection \<open>File summaries\<close>

record file_summary =
  summary_path :: repo_path
  summary_symbol_count :: nat
  summary_provenance :: provenance
  summary_precision :: precision
  summary_metadata :: source_metadata

definition owned_summaries :: "partition \<Rightarrow> file_summary list" where
  "owned_summaries g =
     map (\<lambda>(p, f). \<lparr>summary_path = p, summary_symbol_count = length (file_symbols f),
        summary_provenance = file_provenance f, summary_precision = file_precision f,
        summary_metadata = file_metadata f\<rparr>) (files g)"

fun file_summaries :: "workspace_graph \<Rightarrow> file_summary list" where
  "file_summaries (Owned _ g) = sort_key summary_path (owned_summaries g)"
| "file_summaries (Composite _ ps) = sort_key summary_path (concat (map file_summaries ps))"

text \<open>
  The streaming variant: repeatedly take the smallest head among the parts' iterators, the
  first part on a tie.
\<close>

definition heads :: "'a list list \<Rightarrow> (nat \<times> 'a) list" where
  "heads xss = map (\<lambda>(i, xs). (i, hd xs)) (filter (\<lambda>(i, xs). xs \<noteq> []) (enumerate 0 xss))"

definition best_head :: "('a \<Rightarrow> 'k::linorder) \<Rightarrow> 'a list list \<Rightarrow> (nat \<times> 'a) option" where
  "best_head key xss = min_by_key (\<lambda>(i, x). key x) (heads xss)"

lemma in_heads: "(i, x) \<in> set (heads xss) \<longleftrightarrow> i < length xss \<and> xss ! i \<noteq> [] \<and> x = hd (xss ! i)"
proof -
  have "(i, xs) \<in> set (enumerate 0 xss) \<longleftrightarrow> i < length xss \<and> xs = xss ! i" for xs
    by (auto simp: in_set_enumerate_eq)
  then show ?thesis by (auto simp: heads_def image_iff)
qed

lemma best_head_in:
  "best_head key xss = Some (i, x) \<Longrightarrow> i < length xss \<and> xss ! i \<noteq> [] \<and> x = hd (xss ! i)"
  unfolding best_head_def by (drule min_by_key_in) (simp add: in_heads)

lemma sum_length_update:
  "i < length xss \<Longrightarrow> xss ! i = x # t \<Longrightarrow>
   sum_list (map length (xss[i := t])) < sum_list (map length xss)"
  by (induction xss arbitrary: i) (auto split: nat.splits simp: nth_Cons)

function kmerge :: "('a \<Rightarrow> 'k::linorder) \<Rightarrow> 'a list list \<Rightarrow> 'a list" where
  "kmerge key xss =
     (case best_head key xss of
        None \<Rightarrow> []
      | Some (i, x) \<Rightarrow> x # kmerge key (xss[i := tl (xss ! i)]))"
  by pat_completeness auto
termination
proof (relation "measure (\<lambda>(key, xss). sum_list (map length xss))")
  fix key :: "'a \<Rightarrow> 'k::linorder" and xss p i and x :: 'a
  assume "best_head key xss = Some p" "(i, x) = p"
  then have "i < length xss" "xss ! i = x # tl (xss ! i)"
    using best_head_in [of key xss i x] by auto
  then show "((key, xss[i := tl (xss ! i)]), key, xss) \<in>
      measure (\<lambda>(key, xss). sum_list (map length xss))"
    by (simp add: sum_length_update)
qed simp

declare kmerge.simps [simp del]

fun file_summaries_iter :: "workspace_graph \<Rightarrow> file_summary list" where
  "file_summaries_iter (Owned _ g) = owned_summaries g"
| "file_summaries_iter (Composite _ ps) = kmerge summary_path (map file_summaries_iter ps)"

subsection \<open>Bounded name search\<close>

fun contains_str :: "string \<Rightarrow> string \<Rightarrow> bool" where
  "contains_str needle [] = (needle = [])"
| "contains_str needle (c # s) = (starts_with needle (c # s) \<or> contains_str needle s)"

text \<open>The loop of \<open>search_names_where\<close>; the first omitted match ends it.\<close>

fun search_loop ::
    "(symbol \<Rightarrow> bool) \<Rightarrow> nat \<Rightarrow> symbol list \<Rightarrow> entity_id list \<Rightarrow> entity_id list \<times> bool" where
  "search_loop P limit [] matches = (matches, False)"
| "search_loop P limit (s # ss) matches =
     (if P s
      then if length matches = limit then (matches, True)
           else search_loop P limit ss (matches @ [sym_id s])
      else search_loop P limit ss matches)"

definition name_matches ::
    "(string \<Rightarrow> string) \<Rightarrow> string \<Rightarrow> (symbol \<Rightarrow> source_metadata \<Rightarrow> bool) \<Rightarrow> workspace_graph \<Rightarrow>
     symbol \<Rightarrow> bool" where
  "name_matches lower needle pred w s =
     (case ws_file_metadata w (key_path (sym_key s)) of
        None \<Rightarrow> False
      | Some md \<Rightarrow> contains_str (lower needle) (lower (qualified_name (sym_key s))) \<and> pred s md)"

definition search_names_where ::
    "(string \<Rightarrow> string) \<Rightarrow> string \<Rightarrow> nat \<Rightarrow> (symbol \<Rightarrow> source_metadata \<Rightarrow> bool) \<Rightarrow> workspace_graph \<Rightarrow>
     entity_id list \<times> bool" where
  "search_names_where lower needle limit pred w =
     search_loop (name_matches lower needle pred w) limit (ws_symbols w) []"

end
