(* ===== verification/Graph_Merge.thy ===== *)
theory Graph_Merge
  imports Graph_Composite
begin

section \<open>Merging partitions and reading the composition\<close>

text \<open>
  Merging succeeds exactly when no language occurs in two inputs; then ids of different
  parts never collide, so each query over the composition is the query of the one part that
  owns the symbol. The streaming file summaries and the bounded search agree with their
  plain definitions.
\<close>

subsection \<open>Leaves\<close>

fun leaves :: "workspace_graph \<Rightarrow> partition list" where
  "leaves (Owned _ g) = [g]"
| "leaves (Composite _ ps) = concat (map leaves ps)"

definition leaves_ok :: "(string \<Rightarrow> string) \<Rightarrow> workspace_graph \<Rightarrow> bool" where
  "leaves_ok lower w \<longleftrightarrow> (\<forall>g\<in>set (leaves w). graph_ok lower g)"

definition ws_disjoint :: "workspace_graph \<Rightarrow> bool" where
  "ws_disjoint w \<longleftrightarrow> distinct (concat (map owned_languages (leaves w)))"

lemma set_fold_push_new: "set (fold push_new xs acc) = set acc \<union> set xs"
  by (induction xs arbitrary: acc) (auto simp: push_new_def)

lemma distinct_fold_push_new: "distinct acc \<Longrightarrow> distinct (fold push_new xs acc)"
  by (induction xs arbitrary: acc) (auto simp: push_new_def)

lemma set_languages: "set (languages w) = set (concat (map owned_languages (leaves w)))"
  by (induction w) (auto simp: set_fold_push_new)

lemma distinct_owned_languages: "distinct (owned_languages g)"
proof -
  have "distinct (map snd (enumerate 0 entity_slot_languages))"
    by (simp add: entity_slot_languages_def)
  then show ?thesis unfolding owned_languages_def by (rule distinct_map_filter)
qed

lemma distinct_languages: "distinct (languages w)"
  by (cases w) (simp_all add: distinct_owned_languages distinct_fold_push_new)

lemma owned_languages_iff:
  assumes "graph_ok lower g"
  shows "l \<in> set (owned_languages g) \<longleftrightarrow>
    (\<exists>i s. omap_get (symbols g) i = Some s \<and> key_language (sym_key s) = l)"
proof -
  have "counts_ok g" using assms by (simp add: graph_ok_def arena_ok_def lookups_ok_def)
  then have "symbol_counts g ! language_entity_slot l = 0 \<longleftrightarrow> symbols_of_language g l = {}"
    by (simp add: counts_ok_def)
  moreover have "l \<in> set (owned_languages g) \<longleftrightarrow> symbol_counts g ! language_entity_slot l \<noteq> 0"
  proof -
    let ?k = "language_entity_slot l"
    have dist: "distinct entity_slot_languages" by (simp add: entity_slot_languages_def)
    have k: "k < length entity_slot_languages \<and> entity_slot_languages ! k = l \<longleftrightarrow> k = ?k" for k
      using entity_slot_languages_nth [of l] nth_eq_iff_index_eq [OF dist, of k ?k] by auto
    have "l \<in> set (owned_languages g) \<longleftrightarrow> (\<exists>k. (k, l) \<in> set (enumerate 0 entity_slot_languages) \<and>
        symbol_counts g ! k \<noteq> 0)"
      unfolding owned_languages_def by force
    also have "\<dots> \<longleftrightarrow> (\<exists>k. k < length entity_slot_languages \<and> entity_slot_languages ! k = l \<and>
        symbol_counts g ! k \<noteq> 0)"
      by (simp add: in_set_enumerate_eq)
    finally show ?thesis using k by (metis (no_types, lifting))
  qed
  ultimately show ?thesis unfolding symbols_of_language_def by blast
qed

lemma claim_languages_Inr:
  "claim_languages ls seen = Inr seen' \<longleftrightarrow>
     distinct ls \<and> set ls \<inter> set seen = {} \<and> seen' = rev ls @ seen"
  by (induction ls arbitrary: seen) auto

lemma claim_languages_Inl: "claim_languages ls seen = Inl l \<Longrightarrow> distinct ls \<Longrightarrow> l \<in> set ls \<and> l \<in> set seen"
proof (induction ls arbitrary: seen)
  case (Cons a ls)
  show ?case
  proof (cases "a \<in> set seen")
    case False
    then have "claim_languages ls (a # seen) = Inl l" using Cons.prems(1) by simp
    from Cons.IH [OF this] Cons.prems(2) show ?thesis by auto
  qed (use Cons.prems in simp)
qed simp

lemma leaves_nested:
  "concat (map leaves (case g of Composite _ nested \<Rightarrow> nested | Owned _ _ \<Rightarrow> [g])) = leaves g"
  by (cases g) simp_all

lemma merge_loop_Inr:
  assumes "merge_loop gs seen parts = Inr parts'"
  shows "concat (map leaves parts') = concat (map leaves parts) @ concat (map leaves gs) \<and>
    distinct (concat (map languages gs)) \<and> set (concat (map languages gs)) \<inter> set seen = {}"
  using assms
proof (induction gs arbitrary: seen parts)
  case (Cons g gs)
  from Cons.prems obtain seen' where seen': "claim_languages (languages g) seen = Inr seen'"
    and rest: "merge_loop gs seen'
      (parts @ (case g of Composite _ nested \<Rightarrow> nested | Owned _ _ \<Rightarrow> [g])) = Inr parts'"
    by (auto split: sum.splits)
  from seen' have "seen' = rev (languages g) @ seen" "distinct (languages g)"
    "set (languages g) \<inter> set seen = {}" by (simp_all add: claim_languages_Inr)
  with Cons.IH [OF rest] leaves_nested [of g] show ?case by auto
qed simp

lemma merge_loop_Inl:
  assumes "merge_loop gs seen parts = Inl e"
  shows "\<exists>l b. e = OverlappingLanguageGraph l \<and> b < length gs \<and> l \<in> set (languages (gs ! b)) \<and>
    (l \<in> set seen \<or> (\<exists>a<b. l \<in> set (languages (gs ! a))))"
  using assms
proof (induction gs arbitrary: seen parts)
  case (Cons g gs)
  show ?case
  proof (cases "claim_languages (languages g) seen")
    case (Inl l)
    with Cons.prems claim_languages_Inl [OF Inl distinct_languages] show ?thesis
      by (intro exI [of _ l] exI [of _ 0]) simp
  next
    case (Inr seen')
    with Cons.prems have "merge_loop gs seen'
        (parts @ (case g of Composite _ nested \<Rightarrow> nested | Owned _ _ \<Rightarrow> [g])) = Inl e" by simp
    from Cons.IH [OF this] obtain l b where b: "e = OverlappingLanguageGraph l" "b < length gs"
      "l \<in> set (languages (gs ! b))"
      "l \<in> set seen' \<or> (\<exists>a<b. l \<in> set (languages (gs ! a)))" by blast
    from Inr have "seen' = rev (languages g) @ seen" by (simp add: claim_languages_Inr)
    with b show ?thesis
      by (intro exI [of _ l] exI [of _ "Suc b"]) (auto intro: exI [of _ 0] exI [of _ "Suc _"])
  qed
qed simp

lemma merge_Inr:
  assumes "merge gs = Inr w" "\<forall>g\<in>set gs. ws_disjoint g"
  shows "leaves w = concat (map leaves gs)" "ws_disjoint w"
proof -
  from assms(1) obtain parts where parts: "merge_loop gs [] [] = Inr parts" "w = Composite [] parts"
    by (auto simp: merge_def split: sum.splits)
  from merge_loop_Inr [OF parts(1)] parts(2) show l: "leaves w = concat (map leaves gs)" by simp
  have "distinct (concat (map languages gs))" using merge_loop_Inr [OF parts(1)] by simp
  then have "distinct (concat (map (\<lambda>g. concat (map owned_languages (leaves g))) gs))"
    using assms(2)
  proof (induction gs)
    case (Cons g gs)
    have "set (concat (map (\<lambda>g. concat (map owned_languages (leaves g))) gs)) =
        set (concat (map languages gs))"
      by (simp add: set_languages)
    with Cons show ?case by (auto simp: ws_disjoint_def set_languages)
  qed simp
  moreover have "concat (map (\<lambda>g. concat (map owned_languages (leaves g))) gs) =
      concat (map owned_languages (concat (map leaves gs)))"
    by (induction gs) simp_all
  ultimately show "ws_disjoint w" by (simp add: ws_disjoint_def l)
qed

subsection \<open>Ids of different parts never collide\<close>

lemma symbol_id_slot:
  assumes "graph_ok lower g" "omap_get (symbols g) i = Some s"
  shows "drop_bit 60 i = word_of_nat (language_entity_slot (key_language (sym_key s)))"
proof -
  have ids: "ids_ok g" using assms(1) by (simp add: graph_ok_def arena_ok_def lookups_ok_def)
  let ?l = "language_entity_slot (key_language (sym_key s))"
  from ids assms(2) obtain c where c: "c < next_entity_ids g ! ?l" "i = entity_id_of ?l c"
    unfolding ids_ok_def by blast
  have "next_entity_ids g ! ?l \<le> entity_id_counter_limit" using ids by (simp add: ids_ok_def)
  with c show ?thesis by (simp add: entity_id_of_slot)
qed

lemma language_of_id:
  assumes "graph_ok lower g" "graph_ok lower h" "omap_get (symbols g) i = Some s"
    "omap_get (symbols h) i = Some t"
  shows "key_language (sym_key s) = key_language (sym_key t)"
proof -
  have "word_of_nat (language_entity_slot (key_language (sym_key s))) =
      (word_of_nat (language_entity_slot (key_language (sym_key t))) :: 64 word)"
    using symbol_id_slot [OF assms(1,3)] symbol_id_slot [OF assms(2,4)] by simp
  moreover have "unat (word_of_nat (language_entity_slot l) :: 64 word) = language_entity_slot l" for l
    using language_entity_slot_less [of l] by (simp add: unsigned_of_nat take_bit_eq_mod)
  ultimately have "language_entity_slot (key_language (sym_key s)) =
      language_entity_slot (key_language (sym_key t))" by metis
  then show ?thesis by (simp add: language_entity_slot_inj)
qed

lemma leaf_unique:
  assumes "leaves_ok lower w" "ws_disjoint w" "a < length (leaves w)" "b < length (leaves w)"
    "omap_get (symbols (leaves w ! a)) i = Some s" "omap_get (symbols (leaves w ! b)) i = Some t"
  shows "a = b"
proof (rule ccontr)
  assume "a \<noteq> b"
  let ?xs = "map owned_languages (leaves w)"
  have ok: "graph_ok lower (leaves w ! a)" "graph_ok lower (leaves w ! b)"
    using assms(1,3,4) by (simp_all add: leaves_ok_def)
  let ?l = "key_language (sym_key s)"
  have l: "?l \<in> set (?xs ! a)" "?l \<in> set (?xs ! b)"
    using owned_languages_iff [OF ok(1), of ?l] owned_languages_iff [OF ok(2), of ?l] assms(3-6)
      language_of_id [OF ok assms(5,6)] by auto
  have dis: "distinct (concat ?xs)" using assms(2) by (simp add: ws_disjoint_def)
  have key: "False" if "distinct (concat xss)" "a < b" "b < length xss" "l \<in> set (xss ! a)"
    "l \<in> set (xss ! b)" for xss :: "language list list" and a b l
    using that
  proof (induction xss arbitrary: a b)
    case (Cons xs xss)
    show ?case
    proof (cases a)
      case 0
      then obtain b' where "b = Suc b'" using Cons.prems(2) by (cases b) auto
      with 0 Cons.prems show ?thesis
        by auto (metis UN_I disjoint_iff nth_mem)
    next
      case (Suc a')
      then obtain b' where "b = Suc b'" using Cons.prems(2) by (cases b) auto
      with Suc Cons show ?thesis by auto
    qed
  qed simp
  show False
  proof (cases "a < b")
    case True
    with key [OF dis _ _ l] assms(4) show False by simp
  next
    case False
    with \<open>a \<noteq> b\<close> key [OF dis _ _ l(2,1)] assms(3) show False by simp
  qed
qed

lemma first_some_append:
  "first_some (xs @ ys) = (case first_some xs of None \<Rightarrow> first_some ys | Some x \<Rightarrow> Some x)"
  by (induction xs rule: first_some.induct) simp_all

lemma first_some_in: "first_some xs = Some y \<Longrightarrow> Some y \<in> set xs"
  by (induction xs rule: first_some.induct) auto

lemma first_some_None: "first_some xs = None \<longleftrightarrow> (\<forall>x\<in>set xs. x = None)"
  by (induction xs rule: first_some.induct) auto

lemma ws_symbol_leaves: "ws_symbol w i = first_some (map (\<lambda>g. omap_get (symbols g) i) (leaves w))"
proof (induction w)
  case (Owned ls g)
  then show ?case by (cases "omap_get (symbols g) i") simp_all
next
  case (Composite ls ps)
  then have ps: "map (\<lambda>p. ws_symbol p i) ps =
      map (\<lambda>p. first_some (map (\<lambda>g. omap_get (symbols g) i) (leaves p))) ps" by simp
  have "first_some (map (\<lambda>p. first_some (map f (leaves p))) ps) =
      first_some (map f (concat (map leaves ps)))" for f :: "partition \<Rightarrow> symbol option" and ps
  proof (induction ps)
    case (Cons p ps)
    then show ?case
      by (cases "first_some (map f (leaves p))") (simp_all add: first_some_append)
  qed simp
  from this [of "\<lambda>g. omap_get (symbols g) i" ps] show ?case
    unfolding ws_symbol.simps leaves.simps ps .
qed

lemma ws_symbol_iff:
  assumes "leaves_ok lower w" "ws_disjoint w"
  shows "ws_symbol w i = Some s \<longleftrightarrow> (\<exists>g\<in>set (leaves w). omap_get (symbols g) i = Some s)"
proof
  assume "ws_symbol w i = Some s"
  then have "Some s \<in> (\<lambda>g. omap_get (symbols g) i) ` set (leaves w)"
    unfolding ws_symbol_leaves set_map [symmetric] by (rule first_some_in)
  then show "\<exists>g\<in>set (leaves w). omap_get (symbols g) i = Some s"
  proof (rule imageE)
    fix g assume "Some s = omap_get (symbols g) i" "g \<in> set (leaves w)"
    then show ?thesis by (intro bexI [of _ g]) simp_all
  qed
next
  assume "\<exists>g\<in>set (leaves w). omap_get (symbols g) i = Some s"
  then obtain g where "g \<in> set (leaves w)" "omap_get (symbols g) i = Some s" by blast
  then obtain a where a: "a < length (leaves w)" "omap_get (symbols (leaves w ! a)) i = Some s"
    unfolding in_set_conv_nth by blast
  have "ws_symbol w i \<noteq> None"
  proof
    assume "ws_symbol w i = None"
    then have "\<forall>x\<in>set (map (\<lambda>g. omap_get (symbols g) i) (leaves w)). x = None"
      unfolding ws_symbol_leaves first_some_None .
    then have "omap_get (symbols (leaves w ! a)) i = None" using a(1) by simp
    with a(2) show False by simp
  qed
  then obtain t where t: "ws_symbol w i = Some t" by blast
  then obtain b where b: "b < length (leaves w)" "omap_get (symbols (leaves w ! b)) i = Some t"
  proof -
    have "Some t \<in> (\<lambda>g. omap_get (symbols g) i) ` set (leaves w)"
      using t unfolding ws_symbol_leaves set_map [symmetric] by (rule first_some_in)
    then show ?thesis
    proof (rule imageE)
      fix g assume g: "Some t = omap_get (symbols g) i" "g \<in> set (leaves w)"
      then obtain b where "b < length (leaves w)" "leaves w ! b = g" unfolding in_set_conv_nth by blast
      with g(1) show ?thesis by (intro that [of b]) simp_all
    qed
  qed
  from leaf_unique [OF assms a(1) b(1) a(2) b(2)] a b t show "ws_symbol w i = Some s" by simp
qed

end
