(* ===== verification/Graph_Dispatch.thy ===== *)
theory Graph_Dispatch
  imports Graph_Merge
begin

section \<open>Queries over a composition\<close>

text \<open>
  Two interfaces of a composed graph: a query that is answered by the part owning the
  symbol (\<open>part_query\<close>) and a count that is summed over the parts (\<open>part_total\<close>). Both are
  interpreted on every query of the program of that shape.
\<close>

subsection \<open>The interfaces\<close>

locale part_query =
  fixes q :: "partition \<Rightarrow> 'k \<Rightarrow> 'a"
    and Q :: "workspace_graph \<Rightarrow> 'k \<Rightarrow> 'a"
    and subject :: "'k \<Rightarrow> entity_id"
    and missing :: 'a
  assumes owned: "Q (Owned ls g) k = q g k"
    and composite: "Q (Composite ls ps) k =
      (case first_some (map (\<lambda>p. if ws_symbol p (subject k) \<noteq> None then Some (Q p k) else None) ps)
       of None \<Rightarrow> missing | Some x \<Rightarrow> x)"
    and absent: "graph_ok lower g \<Longrightarrow> omap_get (symbols g) (subject k) = None \<Longrightarrow> q g k = missing"
begin

lemma some_owner:
  assumes "ws_symbol w (subject k) \<noteq> None"
    and "\<And>h. h \<in> set (leaves w) \<Longrightarrow> omap_get (symbols h) (subject k) \<noteq> None \<Longrightarrow> q h k = v"
  shows "Q w k = v"
  using assms
proof (induction w)
  case (Owned ls g)
  then show ?case by (simp add: owned)
next
  case (Composite ls ps)
  let ?f = "\<lambda>p. if ws_symbol p (subject k) \<noteq> None then Some (Q p k) else None"
  have "first_some (map ?f ps) \<noteq> None"
  proof
    assume "first_some (map ?f ps) = None"
    then have "\<forall>p\<in>set ps. ws_symbol p (subject k) = None"
      unfolding first_some_None by fastforce
    then have "ws_symbol (Composite ls ps) (subject k) = None" by (simp add: first_some_None)
    with Composite.prems(1) show False by simp
  qed
  then obtain y where y: "first_some (map ?f ps) = Some y" by blast
  then have "Some y \<in> ?f ` set ps" unfolding set_map [symmetric] by (rule first_some_in)
  then obtain p where p: "p \<in> set ps" "ws_symbol p (subject k) \<noteq> None" "y = Q p k"
    by (auto split: if_splits)
  have "Q p k = v"
  proof (rule Composite.IH [OF p(1,2)])
    fix h assume "h \<in> set (leaves p)" "omap_get (symbols h) (subject k) \<noteq> None"
    with p(1) show "q h k = v" by (intro Composite.prems(2)) auto
  qed
  with y p(3) show ?case by (simp add: composite)
qed

lemma dispatch:
  assumes "leaves_ok lower w" "ws_disjoint w" "g \<in> set (leaves w)"
    "omap_get (symbols g) (subject k) \<noteq> None"
  shows "Q w k = q g k"
proof (rule some_owner)
  from assms(4) obtain s where s: "omap_get (symbols g) (subject k) = Some s" by blast
  with assms(3) have "ws_symbol w (subject k) = Some s"
    using ws_symbol_iff [OF assms(1,2)] by blast
  then show "ws_symbol w (subject k) \<noteq> None" by simp
  fix h assume h: "h \<in> set (leaves w)" "omap_get (symbols h) (subject k) \<noteq> None"
  then obtain t where t: "omap_get (symbols h) (subject k) = Some t" by blast
  from assms(3) h(1) obtain a b where ab: "a < length (leaves w)" "leaves w ! a = g"
    "b < length (leaves w)" "leaves w ! b = h" unfolding in_set_conv_nth by blast
  with leaf_unique [OF assms(1,2) ab(1,3), of "subject k" s t] s t show "q h k = q g k" by simp
qed

lemma nowhere:
  assumes "leaves_ok lower w" "ws_symbol w (subject k) = None"
  shows "Q w k = missing"
  using assms
proof (induction w)
  case (Owned ls g)
  then show ?case by (simp add: owned absent leaves_ok_def)
next
  case (Composite ls ps)
  then have none: "\<forall>p\<in>set ps. ws_symbol p (subject k) = None" by (simp add: first_some_None)
  then have "first_some (map (\<lambda>p. if ws_symbol p (subject k) \<noteq> None then Some (Q p k) else None) ps) = None"
    by (simp add: first_some_None)
  then show ?case by (simp add: composite)
qed

lemma kept_by_merge:
  assumes "leaves_ok lower w" "ws_disjoint w" "leaves_ok lower v" "ws_disjoint v"
    "set (leaves v) \<subseteq> set (leaves w)" "ws_symbol v (subject k) \<noteq> None"
  shows "Q w k = Q v k"
proof -
  from assms(6) obtain s where "ws_symbol v (subject k) = Some s" by blast
  then obtain g where g: "g \<in> set (leaves v)" "omap_get (symbols g) (subject k) = Some s"
    using ws_symbol_iff [OF assms(3,4)] by blast
  then have "Q v k = q g k" "Q w k = q g k"
    using dispatch [OF assms(3,4) g(1)] dispatch [OF assms(1,2), of g] assms(5) by auto
  then show ?thesis by simp
qed

end

locale part_total =
  fixes c :: "partition \<Rightarrow> nat"
    and C :: "workspace_graph \<Rightarrow> nat"
  assumes owned: "C (Owned ls g) = c g"
    and composite: "C (Composite ls ps) = sum_list (map C ps)"
begin

lemma total_leaves: "C w = sum_list (map c (leaves w))"
proof (induction w)
  case (Composite ls ps)
  then have "map C ps = map (\<lambda>p. sum_list (map c (leaves p))) ps" by simp
  moreover have "sum_list (map (\<lambda>p. sum_list (map c (leaves p))) ps) =
      sum_list (map c (concat (map leaves ps)))" for ps
    by (induction ps) simp_all
  ultimately show ?case by (simp only: composite leaves.simps)
qed (simp add: owned)

lemma total_merged:
  assumes "leaves w = concat (map leaves gs)"
  shows "C w = sum_list (map C gs)"
proof -
  have "sum_list (map c (concat (map leaves gs))) = sum_list (map C gs)"
    by (induction gs) (simp_all add: total_leaves)
  with assms show ?thesis by (simp add: total_leaves)
qed

end

subsection \<open>The program's queries\<close>

lemma no_edges_of_unknown:
  assumes "graph_ok lower g" "omap_get (symbols g) i = None"
  shows "outgoing_edges g i = []" "incoming_edges g i = []"
proof -
  have ok: "edges_ok g" using assms(1) by (simp add: graph_ok_def)
  have "e \<notin> set (index_at (outgoing g) i)" for e
  proof
    assume e: "e \<in> set (index_at (outgoing g) i)"
    then have "edge_from e = i" by (rule edges_okD(6) [OF ok])
    with e have "e \<in># all_edges g" using edges_ok_at(1) [OF ok] by simp
    from edges_okD(8) [OF ok this] \<open>edge_from e = i\<close> assms(2) show False by simp
  qed
  then have "set (index_at (outgoing g) i) = {}" by - (rule equals0I, blast)
  then show "outgoing_edges g i = []" by (simp add: outgoing_edges_def)
  have "e \<notin> set (index_at (incoming g) i)" for e
  proof
    assume e: "e \<in> set (index_at (incoming g) i)"
    then have "edge_to e = i" by (rule edges_okD(7) [OF ok])
    with e have "e \<in># all_edges g" using edges_ok_at(2) [OF ok] by simp
    from edges_okD(8) [OF ok this] \<open>edge_to e = i\<close> assms(2) show False by simp
  qed
  then have "set (index_at (incoming g) i) = {}" by - (rule equals0I, blast)
  then show "incoming_edges g i = []" by (simp add: incoming_edges_def)
qed

lemma no_sites_of_unknown:
  assumes "graph_ok lower g" "omap_get (symbols g) i = None"
  shows "call_sites_from g i = []"
proof -
  have ok: "site_index_ok g" "site_callers_ok g" using assms(1) by (simp_all add: graph_ok_def sites_ok_def)
  have "k \<notin> set (index_at (call_sites_by_caller g) i)" for k
  proof
    assume "k \<in> set (index_at (call_sites_by_caller g) i)"
    then obtain cs where "omap_get (call_sites g) k = Some cs" "site_caller cs = i"
      using ok(1) unfolding site_index_ok_def by blast
    then show False using ok(2) assms(2) unfolding site_callers_ok_def by fastforce
  qed
  then have "set (index_at (call_sites_by_caller g) i) = {}" by - (rule equals0I, blast)
  then show ?thesis by (simp add: call_sites_from_def)
qed

interpretation outgoing: part_query outgoing_edges ws_outgoing_edges "\<lambda>i. i" "[]"
  by unfold_locales (simp_all add: no_edges_of_unknown)

interpretation incoming: part_query incoming_edges ws_incoming_edges "\<lambda>i. i" "[]"
  by unfold_locales (simp_all add: no_edges_of_unknown)

interpretation sites_from: part_query call_sites_from ws_call_sites_from "\<lambda>i. i" "[]"
  by unfold_locales (simp_all add: no_sites_of_unknown)

interpretation candidates: part_query "\<lambda>g (cs, limit). call_candidates g cs limit"
  "\<lambda>w (cs, limit). ws_call_candidates w cs limit" "\<lambda>(cs, limit). site_caller cs" "([], False)"
  by unfold_locales (auto simp: call_candidates_def site_keys_def call_site_lookup_keys_def
      split: call_resolution.splits)

interpretation targets: part_query "\<lambda>g (i, limit). call_sites_for_target g i limit"
  "\<lambda>w (i, limit). ws_call_sites_for_target w i limit" fst "([], False)"
  by unfold_locales (auto simp: call_sites_for_target_def)

interpretation symbol_total: part_total symbol_count ws_symbol_count by unfold_locales simp_all
interpretation edge_total: part_total edge_count ws_edge_count by unfold_locales simp_all
interpretation site_total: part_total call_site_count ws_call_site_count by unfold_locales simp_all
interpretation copied_total: part_total adjacency_entries_copied ws_adjacency_entries_copied
  by unfold_locales simp_all
interpretation ambiguous_total: part_total ambiguous_call_sites ws_ambiguous_call_site_count
  by unfold_locales simp_all
interpretation unresolved_total: part_total unresolved_call_sites ws_unresolved_call_site_count
  by unfold_locales simp_all
interpretation truncated_total: part_total truncated_call_sites ws_truncated_call_sites
  by unfold_locales simp_all
interpretation file_total: part_total "\<lambda>g. length (files g)" ws_file_count
  by unfold_locales simp_all

subsection \<open>Name lookups\<close>

lemma exact_candidates_leaves:
  "ws_exact_name_candidates w name =
     concat (map (\<lambda>g. index_at (symbols_by_exact_name g) name) (leaves w))"
proof (induction w)
  case (Composite ls ps)
  then have IH: "map (\<lambda>p. ws_exact_name_candidates p name) ps =
      map (\<lambda>p. concat (map (\<lambda>g. index_at (symbols_by_exact_name g) name) (leaves p))) ps" by simp
  have flat: "concat (map (\<lambda>p. concat (map f (leaves p))) ps) = concat (map f (concat (map leaves ps)))"
    for f :: "partition \<Rightarrow> entity_id list" and ps by (induction ps) simp_all
  show ?case by (simp only: ws_exact_name_candidates.simps leaves.simps IH flat)
qed simp

lemma resolve_name_leaves:
  assumes "leaves w = concat (map leaves gs)"
  shows "ws_resolve_name w name = sort (concat (map (\<lambda>g. ws_resolve_name g name) gs))"
proof -
  have "concat (map f (concat (map leaves gs))) = concat (map (\<lambda>g. concat (map f (leaves g))) gs)"
    for f :: "partition \<Rightarrow> entity_id list" by (induction gs) simp_all
  then have "ws_exact_name_candidates w name = concat (map (\<lambda>g. ws_exact_name_candidates g name) gs)"
    by (simp add: exact_candidates_leaves assms)
  moreover have "mset (concat (map (\<lambda>g. sort (f g)) gs)) = mset (concat (map f gs))"
    for f :: "workspace_graph \<Rightarrow> entity_id list" by (induction gs) simp_all
  ultimately show ?thesis
    unfolding ws_resolve_name_def by (intro properties_for_sort) simp_all
qed

end
