(* ===== verification/Graph_Streams.thy ===== *)
theory Graph_Streams
  imports Graph_Dispatch
begin

section \<open>Streaming views and bounded search\<close>

text \<open>
  The k-way merge that streams file summaries agrees with sorting them; the bounded name
  search returns the first matches and an exact truncation flag; and the properties of
  composed graphs, each with a witness on two one-language graphs.
\<close>

subsection \<open>The k-way merge\<close>

lemma min_by_key_split:
  assumes "min_by_key k xs = Some e"
  shows "\<exists>us vs. xs = us @ e # vs \<and> (\<forall>u\<in>set us. k e < k u) \<and> (\<forall>v\<in>set vs. k e \<le> k v)"
  using assms
proof (induction xs arbitrary: e rule: rev_induct)
  case (snoc x xs)
  show ?case
  proof (cases "min_by_key k xs")
    case None
    with snoc.prems have "xs = []" "e = x" by (simp_all add: min_by_key_def select_by_snoc)
    then show ?thesis by (intro exI [of _ "[]"]) simp
  next
    case (Some b)
    show ?thesis
    proof (cases "k x < k b")
      case True
      with Some snoc.prems have "e = x" by (simp add: min_by_key_def select_by_snoc)
      with True min_by_key_le [OF Some] show ?thesis by (intro exI [of _ xs] exI [of _ "[]"]) force
    next
      case False
      with Some snoc.prems have "e = b" by (simp add: min_by_key_def select_by_snoc)
      with snoc.IH [OF Some] obtain us vs where "xs = us @ e # vs" "\<forall>u\<in>set us. k e < k u"
        "\<forall>v\<in>set vs. k e \<le> k v" by blast
      with False \<open>e = b\<close> show ?thesis by (intro exI [of _ us] exI [of _ "vs @ [x]"]) auto
    qed
  qed
qed (simp add: min_by_key_def)

lemma sort_key_take_least:
  assumes "\<forall>u\<in>set us. k x < k u" "\<forall>v\<in>set vs. k x \<le> k v"
  shows "sort_key k (us @ x # vs) = x # sort_key k (us @ vs)"
  using assms by (induction us) (auto simp: insort_is_Cons)

lemma kmerge_Cons_position:
  assumes "\<forall>xs\<in>set xss. sorted (map k xs)" "i < length xss" "xss ! i = x # t"
    "\<And>j. j < i \<Longrightarrow> xss ! j \<noteq> [] \<Longrightarrow> k x < k (hd (xss ! j))"
    "\<And>j. j < length xss \<Longrightarrow> xss ! j \<noteq> [] \<Longrightarrow> k x \<le> k (hd (xss ! j))"
  shows "sort_key k (concat xss) = x # sort_key k (concat (xss[i := t]))"
proof -
  have split: "xss = take i xss @ (x # t) # drop (Suc i) xss"
    using assms(2,3) by (metis id_take_nth_drop)
  have upd: "xss[i := t] = take i xss @ t # drop (Suc i) xss"
    using assms(2) by (simp add: upd_conv_take_nth_drop)
  have head: "k (hd xs) \<le> k y" if "xs \<in> set xss" "y \<in> set xs" for xs y
    using assms(1) that by (cases xs) force+
  have before: "\<forall>y\<in>set (concat (take i xss)). k x < k y"
  proof
    fix y assume "y \<in> set (concat (take i xss))"
    then obtain xs where xs: "xs \<in> set (take i xss)" "y \<in> set xs" by auto
    then obtain j where j: "j < length (take i xss)" "take i xss ! j = xs"
      unfolding in_set_conv_nth by blast
    moreover from this xs(2) have "xss ! j \<noteq> []" by auto
    ultimately have "k x < k (hd xs)" using assms(4) [of j] by simp
    moreover have "xs \<in> set xss" using xs(1) by (rule in_set_takeD)
    ultimately show "k x < k y" using head xs(2) by (metis less_le_trans)
  qed
  have after: "\<forall>y\<in>set (t @ concat (drop (Suc i) xss)). k x \<le> k y"
  proof
    fix y assume "y \<in> set (t @ concat (drop (Suc i) xss))"
    then consider "y \<in> set t" | xs where "xs \<in> set (drop (Suc i) xss)" "y \<in> set xs" by auto
    then show "k x \<le> k y"
    proof cases
      case 1
      moreover have "x # t \<in> set xss" using assms(2,3) by (metis nth_mem)
      ultimately show ?thesis using head [of "x # t" y] by simp
    next
      case 2
      then have xs: "xs \<in> set xss" "xs \<noteq> []" by (auto dest: in_set_dropD)
      then obtain j where "j < length xss" "xss ! j = xs" unfolding in_set_conv_nth by blast
      with xs assms(5) [of j] have "k x \<le> k (hd xs)" by simp
      from this head [OF xs(1) 2(2)] show ?thesis by (rule order_trans)
    qed
  qed
  have "sort_key k (concat xss) =
      sort_key k (concat (take i xss) @ x # (t @ concat (drop (Suc i) xss)))"
    by (subst split) simp
  also have "\<dots> = x # sort_key k (concat (xss[i := t]))"
    unfolding upd using sort_key_take_least [OF before after] by simp
  finally show ?thesis .
qed

lemma best_head_first:
  assumes "best_head k xss = Some (i, x)"
  shows "\<And>j. j < i \<Longrightarrow> xss ! j \<noteq> [] \<Longrightarrow> k x < k (hd (xss ! j))"
    "\<And>j. j < length xss \<Longrightarrow> xss ! j \<noteq> [] \<Longrightarrow> k x \<le> k (hd (xss ! j))"
proof -
  note min = assms [unfolded best_head_def]
  have len: "i < length xss" using best_head_in [OF assms] by simp
  show le: "k x \<le> k (hd (xss ! j))" if "j < length xss" "xss ! j \<noteq> []" for j
    using min_by_key_le [OF min, of "(j, hd (xss ! j))"] that by (simp add: in_heads)
  fix j assume j: "j < i" "xss ! j \<noteq> []"
  obtain us vs where uv: "heads xss = us @ (i, x) # vs" "\<forall>u\<in>set us. k x < k (snd u)"
    using min_by_key_split [OF min] by (auto simp: case_prod_beta)
  have sorted: "sorted_wrt (\<lambda>a b. fst a < fst b) (heads xss)"
  proof -
    have "sorted_wrt (\<lambda>a b. fst a < fst b) (enumerate 0 xss)"
      by (simp add: sorted_wrt_iff_nth_less nth_enumerate_eq)
    then show ?thesis unfolding heads_def
      by (auto simp: sorted_wrt_map case_prod_beta intro: sorted_wrt_filter)
  qed
  have "(j, hd (xss ! j)) \<in> set (heads xss)" using j len by (simp add: in_heads)
  moreover have "(j, hd (xss ! j)) \<notin> set ((i, x) # vs)"
    using sorted j(1) unfolding uv(1) by (auto simp: sorted_wrt_append)
  ultimately have "(j, hd (xss ! j)) \<in> set us" unfolding uv(1) by auto
  with uv(2) show "k x < k (hd (xss ! j))" by auto
qed

lemma best_head_None: "best_head k xss = None \<longleftrightarrow> concat xss = []"
proof -
  have "heads xss = [] \<longleftrightarrow> (\<forall>i<length xss. xss ! i = [])"
  proof
    assume "heads xss = []"
    with in_heads [of _ _ xss] show "\<forall>i<length xss. xss ! i = []" by auto
  next
    assume all: "\<forall>i<length xss. xss ! i = []"
    have "p \<notin> set (heads xss)" for p
      using in_heads [of "fst p" "snd p" xss] all by auto
    then show "heads xss = []" by (meson last_in_set)
  qed
  then have "heads xss = [] \<longleftrightarrow> (\<forall>xs\<in>set xss. xs = [])" by (simp add: all_set_conv_all_nth)
  then show ?thesis by (simp add: best_head_def)
qed

lemma kmerge_sort_key:
  assumes "\<forall>xs\<in>set xss. sorted (map k xs)"
  shows "kmerge k xss = sort_key k (concat xss)"
  using assms
proof (induction "sum_list (map length xss)" arbitrary: xss rule: less_induct)
  case less
  show ?case
  proof (cases "best_head k xss")
    case None
    moreover from this have "concat xss = []" by (simp only: best_head_None)
    ultimately show ?thesis by (simp add: kmerge.simps [of k xss] del: concat_eq_Nil_conv)
  next
    case (Some p)
    obtain i x where p: "p = (i, x)" by (cases p)
    note best = Some [unfolded p]
    obtain t where i: "i < length xss" "xss ! i = x # t"
      using best_head_in [OF best] by (cases "xss ! i") auto
    have "\<forall>xs\<in>set (xss[i := t]). sorted (map k xs)"
    proof
      fix xs assume "xs \<in> set (xss[i := t])"
      then have "xs = t \<or> xs \<in> set xss" using set_update_subset_insert by fastforce
      moreover have "sorted (map k (x # t))" using less.prems i nth_mem by metis
      ultimately show "sorted (map k xs)" using less.prems by auto
    qed
    with less.hyps [OF sum_length_update [OF i]]
    have "kmerge k (xss[i := t]) = sort_key k (concat (xss[i := t]))" .
    with kmerge_Cons_position [OF less.prems i best_head_first [OF best]] best i show ?thesis
      by (simp add: kmerge.simps [of k xss])
  qed
qed

lemma sorted_owned_summaries: "graph_ok lower g \<Longrightarrow> sorted (map summary_path (owned_summaries g))"
proof -
  assume "graph_ok lower g"
  then have "sorted_wrt (<) (map fst (files g))"
    by (simp add: graph_ok_def arena_ok_def files_ok_def omap_ok_def)
  moreover have "map summary_path (owned_summaries g) = map fst (files g)"
    by (simp add: owned_summaries_def case_prod_beta comp_def)
  ultimately show "sorted (map summary_path (owned_summaries g))"
    by (simp add: strict_sorted_imp_sorted)
qed

lemma file_summaries_iter_eq:
  assumes "leaves_ok lower w"
  shows "file_summaries_iter w = file_summaries w"
  using assms
proof (induction w)
  case (Owned ls g)
  then have "sorted (map summary_path (owned_summaries g))"
    by (simp add: leaves_ok_def sorted_owned_summaries)
  then show ?case by (simp add: sorted_sort_id sort_key_id_if_sorted)
next
  case (Composite ls ps)
  have "leaves_ok lower p" if "p \<in> set ps" for p
    using Composite.prems that by (auto simp: leaves_ok_def)
  then have IH: "map file_summaries_iter ps = map file_summaries ps" using Composite.IH by simp
  have "\<forall>xs\<in>set (map file_summaries ps). sorted (map summary_path xs)"
  proof -
    have "sorted (map summary_path (file_summaries p))" for p by (cases p) simp_all
    then show ?thesis by auto
  qed
  then have "kmerge summary_path (map file_summaries ps) =
      sort_key summary_path (concat (map file_summaries ps))" by (rule kmerge_sort_key)
  then show ?case by (simp only: file_summaries_iter.simps file_summaries.simps IH)
qed

subsection \<open>Bounded search\<close>

lemma search_loop_eq:
  assumes "length acc \<le> limit"
  shows "search_loop P limit ss acc =
    (acc @ take (limit - length acc) (map sym_id (filter P ss)),
     limit - length acc < length (filter P ss))"
  using assms
proof (induction ss arbitrary: acc)
  case (Cons s ss)
  show ?case
  proof (cases "P s \<and> length acc < limit")
    case True
    then have "search_loop P limit (s # ss) acc = search_loop P limit ss (acc @ [sym_id s])" by simp
    also have "\<dots> = (acc @ sym_id s # take (limit - Suc (length acc)) (map sym_id (filter P ss)),
        limit - Suc (length acc) < length (filter P ss))"
      using Cons.IH [of "acc @ [sym_id s]"] True by simp
    finally show ?thesis using True by (auto simp: take_Cons' Suc_diff_Suc)
  next
    case False
    with Cons show ?thesis by auto
  qed
qed simp

end
