(* ===== verification/Composite_Properties.thy ===== *)
theory Composite_Properties
  imports Graph_Streams
begin

section \<open>Properties of composed graphs\<close>

text \<open>
  What merging promises, and that the streaming and bounded views of a composed graph agree
  with their plain definitions. The witnesses merge a Rust graph with one function and a
  PHP graph with one function.
\<close>

definition sample_rust :: partition where
  "sample_rust = graph_run (\<lambda>s. s) [sample_symbol ''m::f'' KindFunction ''a.rs''] partition_new"

definition sample_php :: partition where
  "sample_php = graph_run (\<lambda>s. s)
     [EvAddSymbol \<lparr>key_language = LangPhp, qualified_name = ''g'', container = None,
        key_kind = KindFunction, key_path = RepoPath ''b.php''\<rparr> (sample_range ''b.php'') None
        TreeSitter Syntax] partition_new"

lemma sample_leaves_ok:
  "leaves_ok (\<lambda>s. s) (Owned [] sample_rust)" "leaves_ok (\<lambda>s. s) (Owned [] sample_php)"
  by (simp_all add: leaves_ok_def graph_run_new_ok u64_max_def sample_rust_def sample_php_def)

lemma sample_languages:
  "languages (Owned [] sample_rust) = [LangRust]" "languages (Owned [] sample_php) = [LangPhp]"
  by (simp_all add: graph_eval owned_languages_def entity_slot_languages_def sample_rust_def sample_php_def)

lemma sample_merge:
  "merge [Owned [] sample_rust, Owned [] sample_php] =
     Inr (Composite [] [Owned [] sample_rust, Owned [] sample_php])"
  by (simp add: merge_def sample_languages del: languages.simps)

lemma language_of_graph:
  assumes "leaves_ok lower w"
  shows "l \<in> set (languages w) \<longleftrightarrow> (\<exists>i s. ws_symbol w i = Some s \<and> key_language (sym_key s) = l)"
proof
  assume "l \<in> set (languages w)"
  then obtain g where g: "g \<in> set (leaves w)" "l \<in> set (owned_languages g)"
    by (auto simp: set_languages)
  have ok: "graph_ok lower g" using assms g(1) by (simp add: leaves_ok_def)
  obtain i s where s: "omap_get (symbols g) i = Some s" "key_language (sym_key s) = l"
    using owned_languages_iff [OF ok] g(2) by blast
  have "ws_symbol w i \<noteq> None"
    unfolding ws_symbol_leaves first_some_None using g(1) s(1) by force
  then obtain t where t: "ws_symbol w i = Some t" by blast
  then obtain h where h: "h \<in> set (leaves w)" "omap_get (symbols h) i = Some t"
  proof -
    have "Some t \<in> (\<lambda>g. omap_get (symbols g) i) ` set (leaves w)"
      using t unfolding ws_symbol_leaves set_map [symmetric] by (rule first_some_in)
    then show ?thesis by (rule imageE) (simp add: that)
  qed
  have "graph_ok lower h" using assms h(1) by (simp add: leaves_ok_def)
  from language_of_id [OF this ok h(2) s(1)] s(2) t
  show "\<exists>i s. ws_symbol w i = Some s \<and> key_language (sym_key s) = l" by blast
next
  assume "\<exists>i s. ws_symbol w i = Some s \<and> key_language (sym_key s) = l"
  then obtain i s where s: "ws_symbol w i = Some s" "key_language (sym_key s) = l" by blast
  have "Some s \<in> (\<lambda>g. omap_get (symbols g) i) ` set (leaves w)"
    using s(1) unfolding ws_symbol_leaves set_map [symmetric] by (rule first_some_in)
  then obtain g where g: "g \<in> set (leaves w)" "omap_get (symbols g) i = Some s"
    by (rule imageE) simp
  have "graph_ok lower g" using assms g(1) by (simp add: leaves_ok_def)
  from owned_languages_iff [OF this] g s(2) have "l \<in> set (owned_languages g)" by blast
  with g(1) show "l \<in> set (languages w)" by (auto simp: set_languages)
qed

lemma distinct_concat_nth:
  "distinct (concat xss) \<Longrightarrow> a < b \<Longrightarrow> b < length xss \<Longrightarrow> x \<in> set (xss ! a) \<Longrightarrow> x \<in> set (xss ! b) \<Longrightarrow> False"
proof (induction xss arbitrary: a b)
  case (Cons xs xss)
  then obtain b' where b: "b = Suc b'" by (cases b) auto
  show ?case
  proof (cases a)
    case 0
    have "xss ! b' \<in> set xss" using Cons.prems(3) b by simp
    with 0 b Cons.prems(1,4,5) show ?thesis by auto
  next
    case (Suc a')
    with b Cons show ?thesis by auto
  qed
qed simp

text \<open>
  C14: \<open>merge\<close> fails exactly when two inputs hold symbols of one language: an error names a
  language of which two different inputs have a symbol, and after a success no two inputs
  share a language.
\<close>

theorem merge_rejects_overlap:
  assumes "\<forall>g\<in>set gs. leaves_ok lower g"
  shows "case merge gs of
      Inl e \<Rightarrow> \<exists>a b i j s t. a < b \<and> b < length gs \<and> ws_symbol (gs ! a) i = Some s \<and>
        ws_symbol (gs ! b) j = Some t \<and> key_language (sym_key s) = key_language (sym_key t) \<and>
        e = OverlappingLanguageGraph (key_language (sym_key s))
    | Inr w \<Rightarrow> \<forall>a b i j s t. a < b \<and> b < length gs \<and> ws_symbol (gs ! a) i = Some s \<and>
        ws_symbol (gs ! b) j = Some t \<longrightarrow> key_language (sym_key s) \<noteq> key_language (sym_key t)"
proof (cases "merge_loop gs [] []")
  case (Inl e)
  from merge_loop_Inl [OF this] obtain l a b where ab: "e = OverlappingLanguageGraph l"
    "b < length gs" "l \<in> set (languages (gs ! b))" "a < b" "l \<in> set (languages (gs ! a))" by auto
  then have ok: "leaves_ok lower (gs ! a)" "leaves_ok lower (gs ! b)" using assms by simp_all
  from ab language_of_graph [OF ok(1)] language_of_graph [OF ok(2)]
  obtain i s j t where "ws_symbol (gs ! a) i = Some s" "key_language (sym_key s) = l"
    "ws_symbol (gs ! b) j = Some t" "key_language (sym_key t) = l" by metis
  with ab have "a < b \<and> b < length gs \<and> ws_symbol (gs ! a) i = Some s \<and>
        ws_symbol (gs ! b) j = Some t \<and> key_language (sym_key s) = key_language (sym_key t) \<and>
        e = OverlappingLanguageGraph (key_language (sym_key s))" by simp
  then have overlap: "\<exists>a b i j s t. a < b \<and> b < length gs \<and> ws_symbol (gs ! a) i = Some s \<and>
        ws_symbol (gs ! b) j = Some t \<and> key_language (sym_key s) = key_language (sym_key t) \<and>
        e = OverlappingLanguageGraph (key_language (sym_key s))" by blast
  have m: "merge gs = Inl e" by (simp add: merge_def Inl)
  show ?thesis unfolding m sum.case by (rule overlap)
next
  case (Inr parts)
  have dis: "distinct (concat (map languages gs))" using merge_loop_Inr [OF Inr] by simp
  have other: "key_language (sym_key s) \<noteq> key_language (sym_key t)"
    if *: "a < b" "b < length gs" "ws_symbol (gs ! a) i = Some s" "ws_symbol (gs ! b) j = Some t"
    for a b i j s t
  proof
    assume eq: "key_language (sym_key s) = key_language (sym_key t)"
    have ok: "leaves_ok lower (gs ! a)" "leaves_ok lower (gs ! b)" using assms * by simp_all
    have "key_language (sym_key s) \<in> set (languages (gs ! a))"
      "key_language (sym_key s) \<in> set (languages (gs ! b))"
      unfolding language_of_graph [OF ok(1)] language_of_graph [OF ok(2)]
      by (intro exI conjI, rule *(3), rule refl, intro exI conjI, rule *(4), rule eq [symmetric])
    with distinct_concat_nth [OF dis *(1)] *(1,2) show False by simp
  qed
  have m: "merge gs = Inr (Composite [] parts)" by (simp add: merge_def Inr)
  show ?thesis unfolding m sum.case by (intro allI impI, elim conjE) (rule other)
qed

theorem merge_rejects_overlap_witness:
  "\<exists>i s. ws_symbol (Owned [] sample_rust) i = Some s \<and>
     merge [Owned [] sample_rust, Owned [] sample_rust] =
       Inl (OverlappingLanguageGraph (key_language (sym_key s)))"
proof -
  let ?gs = "[Owned [] sample_rust, Owned [] sample_rust]"
  have m: "merge ?gs = Inl (OverlappingLanguageGraph LangRust)"
    by (simp add: merge_def sample_languages del: languages.simps)
  have ok: "\<forall>g\<in>set ?gs. leaves_ok (\<lambda>s. s) g" using sample_leaves_ok by simp
  from merge_rejects_overlap [OF ok] obtain a b i s where "a < b" "b < length ?gs"
    "ws_symbol (?gs ! a) i = Some s" "OverlappingLanguageGraph LangRust =
       OverlappingLanguageGraph (key_language (sym_key s))" unfolding m by auto
  moreover from this have "a = 0" by simp
  ultimately have "ws_symbol (Owned [] sample_rust) i = Some s" "LangRust = key_language (sym_key s)"
    by (simp_all del: ws_symbol.simps)
  with m show ?thesis by metis
qed

text \<open>
  C15: A successful merge changes no answer: a symbol is found in the composition exactly
  when one input has it, its edges, call sites and ambiguous-call queries are those of that
  input, name lookups are the sorted union, and every count is the sum over the inputs. The
  result can itself be merged further.
\<close>

theorem merge_preserves_queries:
  assumes "merge gs = Inr w" "\<forall>g\<in>set gs. leaves_ok lower g \<and> ws_disjoint g"
  shows "leaves_ok lower w \<and> ws_disjoint w \<and>
    (\<forall>i s. ws_symbol w i = Some s \<longleftrightarrow> (\<exists>g\<in>set gs. ws_symbol g i = Some s)) \<and>
    (\<forall>g\<in>set gs. \<forall>i. ws_symbol g i \<noteq> None \<longrightarrow>
       ws_outgoing_edges w i = ws_outgoing_edges g i \<and>
       ws_incoming_edges w i = ws_incoming_edges g i \<and>
       ws_call_sites_from w i = ws_call_sites_from g i \<and>
       (\<forall>limit. ws_call_sites_for_target w i limit = ws_call_sites_for_target g i limit) \<and>
       (\<forall>cs limit. site_caller cs = i \<longrightarrow> ws_call_candidates w cs limit = ws_call_candidates g cs limit)) \<and>
    (\<forall>name. ws_resolve_name w name = sort (concat (map (\<lambda>g. ws_resolve_name g name) gs))) \<and>
    ws_symbol_count w = sum_list (map ws_symbol_count gs) \<and>
    ws_edge_count w = sum_list (map ws_edge_count gs) \<and>
    ws_call_site_count w = sum_list (map ws_call_site_count gs) \<and>
    ws_file_count w = sum_list (map ws_file_count gs)"
proof -
  have l: "leaves w = concat (map leaves gs)" and dis: "ws_disjoint w"
    using merge_Inr [OF assms(1)] assms(2) by blast+
  have ok: "leaves_ok lower w" using assms(2) by (auto simp: leaves_ok_def l)
  have sub: "set (leaves g) \<subseteq> set (leaves w)" if "g \<in> set gs" for g using that by (auto simp: l)
  have sym: "ws_symbol w i = Some s \<longleftrightarrow> (\<exists>g\<in>set gs. ws_symbol g i = Some s)" for i s
  proof -
    have "ws_symbol w i = Some s \<longleftrightarrow> (\<exists>g\<in>set gs. \<exists>h\<in>set (leaves g). omap_get (symbols h) i = Some s)"
      unfolding ws_symbol_iff [OF ok dis] l by simp
    also have "\<dots> \<longleftrightarrow> (\<exists>g\<in>set gs. ws_symbol g i = Some s)"
      using ws_symbol_iff assms(2) by (intro bex_cong) (simp, metis)
    finally show ?thesis .
  qed
  have queries: "ws_outgoing_edges w i = ws_outgoing_edges g i \<and>
       ws_incoming_edges w i = ws_incoming_edges g i \<and>
       ws_call_sites_from w i = ws_call_sites_from g i \<and>
       (\<forall>limit. ws_call_sites_for_target w i limit = ws_call_sites_for_target g i limit) \<and>
       (\<forall>cs limit. site_caller cs = i \<longrightarrow> ws_call_candidates w cs limit = ws_call_candidates g cs limit)"
    if "g \<in> set gs" "ws_symbol g i \<noteq> None" for g i
  proof -
    have g: "leaves_ok lower g" "ws_disjoint g" using assms(2) that(1) by simp_all
    note same = ok dis g sub [OF that(1)]
    show ?thesis
      using outgoing.kept_by_merge [OF same] incoming.kept_by_merge [OF same]
        sites_from.kept_by_merge [OF same] that(2)
        targets.kept_by_merge [OF same, of "(i, _)"] candidates.kept_by_merge [OF same, of "(_, _)"]
      by simp
  qed
  have names: "ws_resolve_name w name = sort (concat (map (\<lambda>g. ws_resolve_name g name) gs))" for name
    by (rule resolve_name_leaves [OF l])
  show ?thesis
    using ok dis sym queries names symbol_total.total_merged [OF l] edge_total.total_merged [OF l]
      site_total.total_merged [OF l] file_total.total_merged [OF l] by blast
qed

theorem merge_preserves_queries_witness:
  "\<exists>w. merge [Owned [] sample_rust, Owned [] sample_php] = Inr w \<and> ws_symbol_count w = 2 \<and>
     ws_symbol w 0 = ws_symbol (Owned [] sample_rust) 0"
proof -
  let ?gs = "[Owned [] sample_rust, Owned [] sample_php]"
  let ?w = "Composite [] ?gs"
  have "\<forall>g\<in>set ?gs. leaves_ok (\<lambda>s. s) g \<and> ws_disjoint g"
    using sample_leaves_ok distinct_owned_languages by (simp add: ws_disjoint_def)
  note p = merge_preserves_queries [OF sample_merge this]
  have "ws_symbol_count ?w = sum_list (map ws_symbol_count ?gs)" using p by blast
  also have "\<dots> = 2" by (simp add: graph_eval symbol_count_def sample_rust_def sample_php_def)
  finally have count: "ws_symbol_count ?w = 2" .
  obtain s where s: "ws_symbol (Owned [] sample_rust) 0 = Some s" by (simp add: graph_eval sample_rust_def)
  moreover have "Owned [] sample_rust \<in> set ?gs" by simp
  ultimately have "ws_symbol ?w 0 = Some s" using p by blast
  with s count sample_merge show ?thesis by metis
qed

lemma contains_str_iff: "contains_str needle s \<longleftrightarrow> (\<exists>pre post. s = pre @ needle @ post)"
proof (induction s)
  case (Cons c s)
  have "starts_with needle (c # s) \<longleftrightarrow> (\<exists>post. c # s = needle @ post)"
    by (metis append_eq_conv_conj starts_with_def)
  moreover have "(\<exists>pre post. c # s = pre @ needle @ post) \<longleftrightarrow>
      (\<exists>post. c # s = needle @ post) \<or> (\<exists>pre post. s = pre @ needle @ post)"
    by (metis append_Cons append_Nil list.inject neq_Nil_conv)
  ultimately show ?case using Cons.IH by simp
qed simp

lemma distinct_concat_disjoint:
  assumes "\<And>a. a < length xss \<Longrightarrow> distinct (xss ! a)"
    and "\<And>a b x. a < length xss \<Longrightarrow> b < length xss \<Longrightarrow> x \<in> set (xss ! a) \<Longrightarrow> x \<in> set (xss ! b) \<Longrightarrow> a = b"
  shows "distinct (concat xss)"
  using assms
proof (induction xss)
  case (Cons xs xss)
  have "distinct (concat xss)"
  proof (rule Cons.IH)
    show "distinct (xss ! a)" if "a < length xss" for a using Cons.prems(1) [of "Suc a"] that by simp
    show "a = b" if "a < length xss" "b < length xss" "x \<in> set (xss ! a)" "x \<in> set (xss ! b)" for a b x
      using Cons.prems(2) [of "Suc a" "Suc b" x] that by simp
  qed
  moreover have "set xs \<inter> set (concat xss) = {}"
  proof (rule equals0I)
    fix x assume "x \<in> set xs \<inter> set (concat xss)"
    then obtain ys where "x \<in> set xs" "ys \<in> set xss" "x \<in> set ys" by auto
    then obtain b where "b < length xss" "xss ! b = ys" unfolding in_set_conv_nth by blast
    with Cons.prems(2) [of 0 "Suc b" x] \<open>x \<in> set xs\<close> \<open>x \<in> set ys\<close> show False by simp
  qed
  ultimately show ?case using Cons.prems(1) [of 0] by simp
qed simp

lemma ws_symbols_leaves: "ws_symbols w = concat (map (\<lambda>g. map snd (symbols g)) (leaves w))"
proof (induction w)
  case (Composite ls ps)
  then have IH: "map ws_symbols ps =
      map (\<lambda>p. concat (map (\<lambda>g. map snd (symbols g)) (leaves p))) ps" by simp
  have flat: "concat (map (\<lambda>p. concat (map f (leaves p))) ps) = concat (map f (concat (map leaves ps)))"
    for f :: "partition \<Rightarrow> symbol list" and ps by (induction ps) simp_all
  show ?case by (simp only: ws_symbols.simps leaves.simps IH flat)
qed simp

lemma leaf_symbols:
  assumes "graph_ok lower g"
  shows "map sym_id (map snd (symbols g)) = map fst (symbols g)" "distinct (map fst (symbols g))"
    "s \<in> set (map snd (symbols g)) \<longleftrightarrow> omap_get (symbols g) (sym_id s) = Some s"
proof -
  have ok: "symbols_ok g" using assms by (simp add: graph_ok_def arena_ok_def ids_ok_def lookups_ok_def)
  then have o: "omap_ok (symbols g)"
    and key: "\<And>i s. omap_get (symbols g) i = Some s \<Longrightarrow> sym_id s = i"
    by (simp_all add: symbols_ok_def)
  then show dis: "distinct (map fst (symbols g))" by (simp add: omap_ok_def strict_sorted_iff)
  have pair: "sym_id s = i" if "(i, s) \<in> set (symbols g)" for i s
    using key map_of_is_SomeI [OF dis that] by blast
  then show "map sym_id (map snd (symbols g)) = map fst (symbols g)" by (auto simp: case_prod_beta)
  show "s \<in> set (map snd (symbols g)) \<longleftrightarrow> omap_get (symbols g) (sym_id s) = Some s"
  proof
    assume "s \<in> set (map snd (symbols g))"
    then obtain i where i: "(i, s) \<in> set (symbols g)" by auto
    then have "omap_get (symbols g) i = Some s" by (rule map_of_is_SomeI [OF dis])
    with pair [OF i] show "omap_get (symbols g) (sym_id s) = Some s" by simp
  next
    assume "omap_get (symbols g) (sym_id s) = Some s"
    then show "s \<in> set (map snd (symbols g))" by (force dest: map_of_SomeD)
  qed
qed

lemma ws_symbols_exact:
  assumes "leaves_ok lower w" "ws_disjoint w"
  shows "distinct (map sym_id (ws_symbols w))"
    "s \<in> set (ws_symbols w) \<longleftrightarrow> ws_symbol w (sym_id s) = Some s"
proof -
  have ok: "graph_ok lower g" if "g \<in> set (leaves w)" for g using assms(1) that by (simp add: leaves_ok_def)
  have ids: "map sym_id (ws_symbols w) = concat (map (\<lambda>g. map fst (symbols g)) (leaves w))"
    unfolding ws_symbols_leaves map_concat map_map comp_def
    by (intro arg_cong [where f = concat] map_cong refl)
      (use leaf_symbols(1) [OF ok] in simp)
  show "distinct (map sym_id (ws_symbols w))"
    unfolding ids
  proof (rule distinct_concat_disjoint)
    fix a assume "a < length (map (\<lambda>g. map fst (symbols g)) (leaves w))"
    then show "distinct (map (\<lambda>g. map fst (symbols g)) (leaves w) ! a)"
      using leaf_symbols(2) [OF ok] by simp
  next
    fix a b x
    assume ab: "a < length (map (\<lambda>g. map fst (symbols g)) (leaves w))"
      "b < length (map (\<lambda>g. map fst (symbols g)) (leaves w))"
      and "x \<in> set (map (\<lambda>g. map fst (symbols g)) (leaves w) ! a)"
      "x \<in> set (map (\<lambda>g. map fst (symbols g)) (leaves w) ! b)"
    then have "x \<in> fst ` set (symbols (leaves w ! a))" "x \<in> fst ` set (symbols (leaves w ! b))" by simp_all
    then have "omap_get (symbols (leaves w ! a)) x \<noteq> None" "omap_get (symbols (leaves w ! b)) x \<noteq> None"
      by (simp_all add: map_of_eq_None_iff)
    then obtain s t where "omap_get (symbols (leaves w ! a)) x = Some s"
      "omap_get (symbols (leaves w ! b)) x = Some t" by blast
    with leaf_unique [OF assms] ab show "a = b" by (simp only: length_map)
  qed
  show "s \<in> set (ws_symbols w) \<longleftrightarrow> ws_symbol w (sym_id s) = Some s"
    unfolding ws_symbols_leaves ws_symbol_iff [OF assms] set_concat set_map
    using leaf_symbols(3) [OF ok] by simp
qed

text \<open>
  The streaming file summaries of a composition, a k-way merge over the parts, are the
  same list as the collected and sorted ones: ordered by path, one per file of each part.
\<close>

theorem file_summaries_streamed:
  assumes "leaves_ok lower w"
  shows "file_summaries_iter w = file_summaries w \<and>
    sorted (map summary_path (file_summaries_iter w)) \<and>
    mset (file_summaries_iter w) = (\<Sum>g\<in>#mset (leaves w). mset (owned_summaries g)) \<and>
    length (file_summaries_iter w) = ws_file_count w"
proof -
  have m: "mset (file_summaries v) = (\<Sum>g\<in>#mset (leaves v). mset (owned_summaries g))" for v
  proof (induction v)
    case (Composite ls ps)
    then have "(\<Sum>p\<in>#mset ps. mset (file_summaries p)) =
        (\<Sum>p\<in>#mset ps. \<Sum>g\<in>#mset (leaves p). mset (owned_summaries g))"
      by (intro arg_cong [where f = sum_mset] image_mset_cong) simp
    moreover have "mset (concat (map file_summaries ps)) = (\<Sum>p\<in>#mset ps. mset (file_summaries p))"
      by (induction ps) simp_all
    moreover have "(\<Sum>g\<in>#mset (concat (map leaves ps)). mset (owned_summaries g)) =
        (\<Sum>p\<in>#mset ps. \<Sum>g\<in>#mset (leaves p). mset (owned_summaries g))"
      by (induction ps) simp_all
    ultimately show ?case by simp
  qed simp
  have count: "size (\<Sum>g\<in>#mset gs. mset (owned_summaries g)) = sum_list (map (\<lambda>g. length (files g)) gs)"
    for gs by (induction gs) (simp_all add: owned_summaries_def)
  have "length (file_summaries w) = size (\<Sum>g\<in>#mset (leaves w). mset (owned_summaries g))"
    by (simp flip: m)
  also have "\<dots> = sum_list (map (\<lambda>g. length (files g)) (leaves w))"
    by (rule count)
  finally have "length (file_summaries w) = ws_file_count w" by (simp add: file_total.total_leaves)
  moreover have "sorted (map summary_path (file_summaries w))" by (cases w) simp_all
  ultimately show ?thesis using m file_summaries_iter_eq [OF assms] by simp
qed

theorem file_summaries_streamed_witness:
  "length (file_summaries_iter (Composite [] [Owned [] sample_php, Owned [] sample_rust])) = 2"
proof -
  have "leaves_ok (\<lambda>s. s) (Composite [] [Owned [] sample_php, Owned [] sample_rust])"
    using sample_leaves_ok by (simp add: leaves_ok_def)
  from file_summaries_streamed [OF this]
  have "length (file_summaries_iter (Composite [] [Owned [] sample_php, Owned [] sample_rust])) =
      ws_file_count (Composite [] [Owned [] sample_php, Owned [] sample_rust])" by blast
  also have "\<dots> = 2" by (simp add: sample_rust_def sample_php_def graph_eval)
  finally show ?thesis .
qed

text \<open>
  C16: The bounded name search returns the first \<open>limit\<close> of all matches, in the order in
  which the symbols of the graph are iterated, and its flag says exactly whether matches were
  left out. The matches are the symbols whose file is known and accepted by the predicate and
  whose folded qualified name contains the folded needle; no match is returned twice, and every
  id returned is that of a stored symbol.
\<close>

theorem bounded_search_exact:
  assumes "leaves_ok lower w" "ws_disjoint w"
  shows "let matches = map sym_id (filter (\<lambda>s. \<exists>md pre post.
        ws_file_metadata w (key_path (sym_key s)) = Some md \<and> pred s md \<and>
        lower (qualified_name (sym_key s)) = pre @ lower needle @ post) (ws_symbols w))
    in search_names_where lower needle limit pred w =
        (take limit matches, limit < length matches) \<and> distinct matches \<and>
      set matches = {i. \<exists>s md pre post. ws_symbol w i = Some s \<and>
        ws_file_metadata w (key_path (sym_key s)) = Some md \<and> pred s md \<and>
        lower (qualified_name (sym_key s)) = pre @ lower needle @ post}"
proof -
  let ?P = "name_matches lower needle pred w"
  let ?m = "map sym_id (filter ?P (ws_symbols w))"
  have P: "?P s \<longleftrightarrow> (\<exists>md pre post. ws_file_metadata w (key_path (sym_key s)) = Some md \<and> pred s md \<and>
      lower (qualified_name (sym_key s)) = pre @ lower needle @ post)" for s
    by (cases "ws_file_metadata w (key_path (sym_key s))") (auto simp: name_matches_def contains_str_iff)
  have "search_names_where lower needle limit pred w = (take limit ?m, limit < length ?m)"
    by (simp add: search_names_where_def search_loop_eq)
  moreover have "distinct ?m" using ws_symbols_exact(1) [OF assms] by (rule distinct_map_filter)
  moreover have "set ?m = {i. \<exists>s. ws_symbol w i = Some s \<and> ?P s}"
  proof -
    have "sym_id s = i" if "ws_symbol w i = Some s" for i s
    proof -
      from that obtain g where "g \<in> set (leaves w)" "omap_get (symbols g) i = Some s"
        using ws_symbol_iff [OF assms] by blast
      moreover from this assms(1) have "symbols_ok g"
        by (simp add: leaves_ok_def graph_ok_def arena_ok_def ids_ok_def lookups_ok_def)
      ultimately show ?thesis by (simp add: symbols_ok_def)
    qed
    then show ?thesis using ws_symbols_exact(2) [OF assms] by auto
  qed
  moreover have "{i. \<exists>s. ws_symbol w i = Some s \<and> ?P s} = {i. \<exists>s md pre post. ws_symbol w i = Some s \<and>
      ws_file_metadata w (key_path (sym_key s)) = Some md \<and> pred s md \<and>
      lower (qualified_name (sym_key s)) = pre @ lower needle @ post}"
    unfolding P by blast
  ultimately show ?thesis unfolding Let_def P [symmetric] by simp
qed

theorem bounded_search_exact_witness:
  "search_names_where (\<lambda>s. s) ''f'' 0 (\<lambda>_ _. True) (Owned [] sample_rust) = ([], True)"
proof -
  let ?w = "Owned [] sample_rust"
  have dis: "ws_disjoint ?w" by (simp add: ws_disjoint_def distinct_owned_languages)
  obtain s where s: "s \<in> set (ws_symbols ?w)" "\<exists>md. ws_file_metadata ?w (key_path (sym_key s)) = Some md"
    "qualified_name (sym_key s) = [] @ ''f'' @ [] \<or> qualified_name (sym_key s) = ''m::'' @ ''f'' @ []"
    by (force simp: sample_rust_def graph_eval)
  then have "filter (\<lambda>s. \<exists>md pre post. ws_file_metadata ?w (key_path (sym_key s)) = Some md \<and> True \<and>
        qualified_name (sym_key s) = pre @ ''f'' @ post) (ws_symbols ?w) \<noteq> []"
    unfolding filter_empty_conv by blast
  then show ?thesis
    using bounded_search_exact [OF sample_leaves_ok(1) dis, of "\<lambda>_ _. True" "''f''" 0]
    by (simp add: Let_def)
qed

end
