(* ===== verification/Operation_Context.thy ===== *)
theory Operation_Context
  imports Chakra_Prelude
begin

section \<open>Cooperative cancellation and deadlines\<close>

text \<open>
  \<open>chakra-domain/src/operation.rs\<close>. A cancellation token is shared by its clones, so a
  context names its flag; what a context observes depends on the world at the moment of the
  call: which flags are set and the monotonic clock. Long-running code polls its context;
  the world seen by the \<open>n\<close>-th poll is \<open>worlds n\<close>, and the number of polls made so far is
  the state of the operation.
\<close>

datatype op_abort = Cancelled | DeadlineExceeded

record op_world =
  world_cancelled :: "nat \<Rightarrow> bool"
  world_now :: nat

record op_context =
  ctx_token :: nat
  ctx_deadline :: "nat option"

definition context_unbounded :: "nat \<Rightarrow> op_context" where
  "context_unbounded token = \<lparr>ctx_token = token, ctx_deadline = None\<rparr>"

definition context_from_cancellation :: "nat \<Rightarrow> op_context" where
  "context_from_cancellation token = \<lparr>ctx_token = token, ctx_deadline = None\<rparr>"

text \<open>\<open>Instant::checked_add\<close>: \<open>None\<close> beyond the last representable instant.\<close>

definition instant_checked_add :: "nat \<Rightarrow> nat \<Rightarrow> nat \<Rightarrow> nat option" where
  "instant_checked_add horizon now timeout = (if now + timeout \<le> horizon then Some (now + timeout) else None)"

definition context_with_timeout :: "nat \<Rightarrow> nat \<Rightarrow> nat \<Rightarrow> op_world \<Rightarrow> op_context" where
  "context_with_timeout horizon token timeout w =
     \<lparr>ctx_token = token, ctx_deadline = instant_checked_add horizon (world_now w) timeout\<rparr>"

definition context_bounded_by :: "nat \<Rightarrow> op_context \<Rightarrow> nat \<Rightarrow> op_world \<Rightarrow> op_context" where
  "context_bounded_by horizon c timeout w =
     (let local = instant_checked_add horizon (world_now w) timeout
      in \<lparr>ctx_token = ctx_token c,
          ctx_deadline =
            (case (ctx_deadline c, local) of
               (Some caller, Some l) \<Rightarrow> Some (min caller l)
             | (Some caller, None) \<Rightarrow> Some caller
             | (None, l) \<Rightarrow> l)\<rparr>)"

definition context_cancel :: "op_context \<Rightarrow> op_world \<Rightarrow> op_world" where
  "context_cancel c w = w\<lparr>world_cancelled := (world_cancelled w)(ctx_token c := True)\<rparr>"

definition context_check :: "op_context \<Rightarrow> op_world \<Rightarrow> op_abort + unit" where
  "context_check c w =
     (if world_cancelled w (ctx_token c) then Inl Cancelled
      else (case ctx_deadline c of
              None \<Rightarrow> Inr ()
            | Some d \<Rightarrow> if d \<le> world_now w then Inl DeadlineExceeded else Inr ()))"

definition poll_timeout :: "op_context \<Rightarrow> nat \<Rightarrow> op_world \<Rightarrow> op_abort + nat" where
  "poll_timeout c cap w =
     (case context_check c w of
        Inl a \<Rightarrow> Inl a
      | Inr _ \<Rightarrow>
          (case ctx_deadline c of
             None \<Rightarrow> Inr cap
           | Some d \<Rightarrow> if world_now w \<le> d then Inr (min (d - world_now w) cap) else Inr cap))"

text \<open>One poll of a running operation.\<close>

type_synonym 'a polled = "(nat, op_abort, 'a) op"

definition poll :: "(nat \<Rightarrow> op_world) \<Rightarrow> op_context \<Rightarrow> unit polled" where
  "poll worlds c n = (context_check c (worlds n), n + 1)"

subsection \<open>Laws\<close>

definition later_world :: "op_world \<Rightarrow> op_world \<Rightarrow> bool" where
  "later_world w v \<longleftrightarrow> (\<forall>t. world_cancelled w t \<longrightarrow> world_cancelled v t) \<and> world_now w \<le> world_now v"

lemma check_sticky:
  assumes "later_world w v" "context_check c w = Inl a"
  shows "\<exists>b. context_check c v = Inl b"
  using assms by (auto simp: later_world_def context_check_def split: option.splits if_splits)

lemma bounded_by_stricter:
  assumes "context_check c w = Inl a"
  shows "\<exists>b. context_check (context_bounded_by horizon c timeout v) w = Inl b"
  using assms by (auto simp: context_check_def context_bounded_by_def Let_def split: option.splits if_splits)

lemma poll_timeout_bounded: "poll_timeout c cap w = Inr t \<Longrightarrow> t \<le> cap"
  by (auto simp: poll_timeout_def split: sum.splits option.splits if_splits)

lemma poll_count [simp]: "snd (poll worlds c n) = n + 1"
  by (simp add: poll_def)

text \<open>No poll of the operation aborts.\<close>

definition never_aborts :: "(nat \<Rightarrow> op_world) \<Rightarrow> op_context \<Rightarrow> bool" where
  "never_aborts worlds c \<longleftrightarrow> (\<forall>n. context_check c (worlds n) = Inr ())"

definition abort_seen :: "(nat \<Rightarrow> op_world) \<Rightarrow> op_context \<Rightarrow> nat \<Rightarrow> nat \<Rightarrow> op_abort \<Rightarrow> bool" where
  "abort_seen worlds c n m a \<longleftrightarrow> (\<exists>k. n \<le> k \<and> k < m \<and> context_check c (worlds k) = Inl a)"

text \<open>
  What a polling computation owes its caller: it makes polls only, and its result is either
  the value the computation without polls has, or the abort that a poll reported.
\<close>

definition polls_for :: "(nat \<Rightarrow> op_world) \<Rightarrow> op_context \<Rightarrow> 'a polled \<Rightarrow> 'a \<Rightarrow> bool" where
  "polls_for worlds c f v \<longleftrightarrow>
     (\<forall>n. n \<le> snd (f n) \<and>
        (case fst (f n) of Inr x \<Rightarrow> x = v | Inl a \<Rightarrow> abort_seen worlds c n (snd (f n)) a))"

lemma polls_for_poll: "polls_for worlds c (poll worlds c) ()"
  by (auto simp: polls_for_def poll_def abort_seen_def split: sum.split)

lemma polls_for_return: "polls_for worlds c (\<lambda>n. (Inr v, n)) v"
  by (simp add: polls_for_def)

lemma polls_for_bind:
  assumes "polls_for worlds c f v" "polls_for worlds c (g v) u"
  shows "polls_for worlds c (op_bind f g) u"
  unfolding polls_for_def
proof
  fix n
  obtain r m where f: "f n = (r, m)" by (cases "f n")
  have f_ok: "n \<le> m" "case r of Inr x \<Rightarrow> x = v | Inl a \<Rightarrow> abort_seen worlds c n m a"
    using assms(1) f unfolding polls_for_def by (metis fst_conv snd_conv)+
  show "n \<le> snd (op_bind f g n) \<and>
      (case fst (op_bind f g n) of Inr x \<Rightarrow> x = u | Inl a \<Rightarrow> abort_seen worlds c n (snd (op_bind f g n)) a)"
  proof (cases r)
    case (Inl a)
    with f f_ok show ?thesis by (simp add: op_bind_def)
  next
    case (Inr x)
    with f_ok have "x = v" by simp
    obtain r' m' where g: "g v m = (r', m')" by (cases "g v m")
    have g_ok: "m \<le> m'" "case r' of Inr x \<Rightarrow> x = u | Inl a \<Rightarrow> abort_seen worlds c m m' a"
      using assms(2) g unfolding polls_for_def by (metis fst_conv snd_conv)+
    have "abort_seen worlds c n m' a" if "abort_seen worlds c m m' a" for a
      using that f_ok(1) unfolding abort_seen_def by (meson order_trans)
    with g_ok f_ok(1) f Inr \<open>x = v\<close> g show ?thesis by (auto simp: op_bind_def split: sum.splits)
  qed
qed

lemma polls_for_result:
  assumes "polls_for worlds c f v" "never_aborts worlds c"
  shows "fst (f n) = Inr v"
proof (cases "fst (f n)")
  case (Inl a)
  then have "abort_seen worlds c n (snd (f n)) a" using assms(1) unfolding polls_for_def by (metis sum.case(1))
  then obtain k where "context_check c (worlds k) = Inl a" unfolding abort_seen_def by blast
  moreover have "context_check c (worlds k) = Inr ()" using assms(2) by (simp add: never_aborts_def)
  ultimately show ?thesis by simp
next
  case (Inr x)
  then show ?thesis using assms(1) unfolding polls_for_def by (metis sum.case(2))
qed

lemma polls_for_fold:
  assumes "\<And>x b. x \<in> set xs \<Longrightarrow> polls_for worlds c (f x b) (g x b)"
  shows "polls_for worlds c (op_fold f xs b) (fold g xs b)"
  using assms
proof (induction xs arbitrary: b)
  case Nil
  have "op_fold f [] b = (\<lambda>n. (Inr b, n))" by (rule ext) simp
  then show ?case by (simp add: polls_for_return)
next
  case (Cons x xs)
  have "op_fold f (x # xs) b = op_bind (f x b) (\<lambda>b'. op_fold f xs b')"
    by (rule ext) (simp add: op_bind_def)
  moreover have "polls_for worlds c (op_bind (f x b) (\<lambda>b'. op_fold f xs b')) (fold g xs (g x b))"
    by (rule polls_for_bind) (use Cons in auto)
  ultimately show ?case by simp
qed

lemma polls_for_if:
  "(b \<Longrightarrow> polls_for worlds c f v) \<Longrightarrow> (\<not> b \<Longrightarrow> polls_for worlds c g v) \<Longrightarrow>
   polls_for worlds c (if b then f else g) v"
  by simp

end
