(* ===== verification/Graph_Cancellation.thy ===== *)
theory Graph_Cancellation
  imports Composite_Properties Operation_Context
begin

section \<open>Cancellable traversals of a composed graph\<close>

text \<open>
  The \<open>_with_context\<close> variants of the graph queries (\<open>graph.rs\<close>) poll the operation before
  each part and every \<open>CANCELLATION_POLL_ITEMS\<close> files or symbols. They give the same answer
  as the variants without a context, or the abort that one of their polls reported.
\<close>

definition cancellation_poll_items :: nat where "cancellation_poll_items = 256"

definition poll_at :: "(nat \<Rightarrow> op_world) \<Rightarrow> op_context \<Rightarrow> nat \<Rightarrow> unit polled" where
  "poll_at worlds c index =
     (if index mod cancellation_poll_items = 0 then poll worlds c else (\<lambda>n. (Inr (), n)))"

text \<open>One loop over the files of an owned partition, collecting what \<open>item\<close> contributes.\<close>

definition collect_owned ::
    "(nat \<Rightarrow> op_world) \<Rightarrow> op_context \<Rightarrow> (repo_path \<times> indexed_file \<Rightarrow> 'b list) \<Rightarrow> ('b \<Rightarrow> repo_path) \<Rightarrow>
     partition \<Rightarrow> 'b list polled" where
  "collect_owned worlds c item key g =
     op_bind
       (op_fold (\<lambda>(index, entry) acc. op_bind (poll_at worlds c index) (\<lambda>_ n. (Inr (acc @ item entry), n)))
          (enumerate 0 (files g)) [])
       (\<lambda>items. op_bind (poll worlds c) (\<lambda>_ n. (Inr (sort_key key items), n)))"

fun collect_with_context ::
    "(nat \<Rightarrow> op_world) \<Rightarrow> op_context \<Rightarrow> (repo_path \<times> indexed_file \<Rightarrow> 'b list) \<Rightarrow> ('b \<Rightarrow> repo_path) \<Rightarrow>
     workspace_graph \<Rightarrow> 'b list polled"
and collect_parts ::
    "(nat \<Rightarrow> op_world) \<Rightarrow> op_context \<Rightarrow> (repo_path \<times> indexed_file \<Rightarrow> 'b list) \<Rightarrow> ('b \<Rightarrow> repo_path) \<Rightarrow>
     workspace_graph list \<Rightarrow> 'b list \<Rightarrow> 'b list polled" where
  "collect_with_context worlds c item key (Owned _ g) = collect_owned worlds c item key g"
| "collect_with_context worlds c item key (Composite _ ps) =
     op_bind (collect_parts worlds c item key ps []) (\<lambda>items n. (Inr (sort_key key items), n))"
| "collect_parts worlds c item key [] acc = (\<lambda>n. (Inr acc, n))"
| "collect_parts worlds c item key (p # ps) acc =
     op_bind (poll worlds c) (\<lambda>_.
       op_bind (collect_with_context worlds c item key p) (\<lambda>items.
         collect_parts worlds c item key ps (acc @ items)))"

definition file_source_item :: "repo_path \<times> indexed_file \<Rightarrow> (repo_path \<times> string) list" where
  "file_source_item entry = (case file_source (snd entry) of None \<Rightarrow> [] | Some s \<Rightarrow> [(fst entry, s)])"

definition file_summary_item :: "repo_path \<times> indexed_file \<Rightarrow> file_summary list" where
  "file_summary_item entry =
     [\<lparr>summary_path = fst entry, summary_symbol_count = length (file_symbols (snd entry)),
       summary_provenance = file_provenance (snd entry), summary_precision = file_precision (snd entry),
       summary_metadata = file_metadata (snd entry)\<rparr>]"

definition source_files_with_context ::
    "(nat \<Rightarrow> op_world) \<Rightarrow> op_context \<Rightarrow> workspace_graph \<Rightarrow> (repo_path \<times> string) list polled" where
  "source_files_with_context worlds c = collect_with_context worlds c file_source_item fst"

definition snapshot_documents_with_context ::
    "(nat \<Rightarrow> op_world) \<Rightarrow> op_context \<Rightarrow> workspace_graph \<Rightarrow> (repo_path \<times> string) list polled" where
  "snapshot_documents_with_context worlds c = collect_with_context worlds c file_source_item fst"

definition file_summaries_with_context ::
    "(nat \<Rightarrow> op_world) \<Rightarrow> op_context \<Rightarrow> workspace_graph \<Rightarrow> file_summary list polled" where
  "file_summaries_with_context worlds c = collect_with_context worlds c file_summary_item summary_path"

fun search_loop_with_context ::
    "(nat \<Rightarrow> op_world) \<Rightarrow> op_context \<Rightarrow> (symbol \<Rightarrow> bool) \<Rightarrow> nat \<Rightarrow> nat \<Rightarrow> symbol list \<Rightarrow> entity_id list \<Rightarrow>
     (entity_id list \<times> bool) polled" where
  "search_loop_with_context worlds c P limit index [] matches = (\<lambda>n. (Inr (matches, False), n))"
| "search_loop_with_context worlds c P limit index (s # ss) matches =
     op_bind (poll_at worlds c index) (\<lambda>_.
       if P s
       then if length matches = limit then (\<lambda>n. (Inr (matches, True), n))
            else search_loop_with_context worlds c P limit (index + 1) ss (matches @ [sym_id s])
       else search_loop_with_context worlds c P limit (index + 1) ss matches)"

definition search_names_where_with_context ::
    "(nat \<Rightarrow> op_world) \<Rightarrow> op_context \<Rightarrow> (string \<Rightarrow> string) \<Rightarrow> string \<Rightarrow> nat \<Rightarrow>
     (symbol \<Rightarrow> source_metadata \<Rightarrow> bool) \<Rightarrow> workspace_graph \<Rightarrow> (entity_id list \<times> bool) polled" where
  "search_names_where_with_context worlds c lower needle limit pred w =
     search_loop_with_context worlds c (name_matches lower needle pred w) limit 0 (ws_symbols w) []"

definition resolve_name_with_context ::
    "(nat \<Rightarrow> op_world) \<Rightarrow> op_context \<Rightarrow> workspace_graph \<Rightarrow> string \<Rightarrow> entity_id list polled" where
  "resolve_name_with_context worlds c w name =
     op_bind (poll worlds c) (\<lambda>_.
       let matches = ws_resolve_name w name in op_bind (poll worlds c) (\<lambda>_ n. (Inr matches, n)))"

subsection \<open>Same answers\<close>

lemma polls_for_poll_at: "polls_for worlds c (poll_at worlds c i) ()"
  by (simp add: poll_at_def polls_for_poll polls_for_return)

lemma polls_for_then:
  "polls_for worlds c f () \<Longrightarrow> polls_for worlds c g u \<Longrightarrow> polls_for worlds c (op_bind f (\<lambda>_. g)) u"
  by (rule polls_for_bind)

lemma fold_collect: "fold (\<lambda>(i, x) acc. acc @ f x) (enumerate k xs) acc = acc @ concat (map f xs)"
  by (induction xs arbitrary: k acc) simp_all

lemma collect_owned_polls:
  "polls_for worlds c (collect_owned worlds c item key g) (sort_key key (concat (map item (files g))))"
proof -
  have "polls_for worlds c
     (op_fold (\<lambda>(index, entry) acc. op_bind (poll_at worlds c index) (\<lambda>_ n. (Inr (acc @ item entry), n)))
        (enumerate 0 (files g)) [])
     (fold (\<lambda>(i, x) acc. acc @ item x) (enumerate 0 (files g)) [])"
    by (rule polls_for_fold)
      (auto intro: polls_for_then polls_for_poll_at polls_for_return split: prod.split)
  then show ?thesis
    unfolding collect_owned_def fold_collect append_Nil
    by (rule polls_for_bind) (intro polls_for_then polls_for_poll polls_for_return)
qed

fun collected :: "(repo_path \<times> indexed_file \<Rightarrow> 'b list) \<Rightarrow> ('b \<Rightarrow> repo_path) \<Rightarrow> workspace_graph \<Rightarrow> 'b list" where
  "collected item key (Owned _ g) = sort_key key (concat (map item (files g)))"
| "collected item key (Composite _ ps) = sort_key key (concat (map (collected item key) ps))"

lemma collect_polls:
  "polls_for worlds c (collect_with_context worlds c item key w) (collected item key w)"
  "polls_for worlds c (collect_parts worlds c item key ps acc) (acc @ concat (map (collected item key) ps))"
proof (induction worlds c item key w and worlds c item key ps acc
    rule: collect_with_context_collect_parts.induct)
  case (2 worlds c item key ls ps)
  then show ?case
    by (auto intro!: polls_for_bind [where v = "concat (map (collected item key) ps)"] polls_for_return)
next
  case (4 worlds c item key p ps acc)
  then show ?case
    by (auto intro!: polls_for_then polls_for_poll polls_for_bind [where v = "collected item key p"])
qed (simp_all add: collect_owned_polls polls_for_return)

lemma collected_sources: "collected file_source_item fst w = source_files w"
proof (induction w)
  case (Owned ls g)
  have "concat (map file_source_item fs) = List.map_filter (\<lambda>(p, f). map_option (Pair p) (file_source f)) fs"
    for fs by (induction fs)
      (auto simp: file_source_item_def List.map_filter_simps case_prod_beta split: option.split)
  then show ?case by simp
qed (simp cong: map_cong)

lemma collected_summaries: "collected file_summary_item summary_path w = file_summaries w"
proof (induction w)
  case (Owned ls g)
  have "concat (map file_summary_item (files g)) = owned_summaries g"
    by (induction "files g") (auto simp: owned_summaries_def file_summary_item_def case_prod_beta
        concat_map_singleton)
  then show ?case by simp
qed (simp cong: map_cong)

lemma search_loop_polls:
  "polls_for worlds c (search_loop_with_context worlds c P limit index ss acc) (search_loop P limit ss acc)"
proof (induction ss arbitrary: index acc)
  case (Cons s ss)
  show ?case
    unfolding search_loop_with_context.simps search_loop.simps
    by (intro polls_for_then polls_for_poll_at)
      (cases "P s"; cases "length acc = limit"; simp add: polls_for_return Cons.IH del: search_loop.simps)
qed (simp add: polls_for_return)

text \<open>
  C20: Passing an operation context changes no answer. Each cancellable query returns what
  the query without a context returns, unless one of its own polls reported cancellation or
  the deadline, and then it returns exactly that reason; if no poll aborts, it returns the
  answer.
\<close>

theorem cancellation_transparent:
  "polls_for worlds c (source_files_with_context worlds c w) (source_files w) \<and>
   polls_for worlds c (snapshot_documents_with_context worlds c w) (source_files w) \<and>
   polls_for worlds c (file_summaries_with_context worlds c w) (file_summaries w) \<and>
   polls_for worlds c (resolve_name_with_context worlds c w name) (ws_resolve_name w name) \<and>
   polls_for worlds c (search_names_where_with_context worlds c lower needle limit pred w)
     (search_names_where lower needle limit pred w)"
proof (intro conjI)
  show "polls_for worlds c (source_files_with_context worlds c w) (source_files w)"
    "polls_for worlds c (snapshot_documents_with_context worlds c w) (source_files w)"
    unfolding source_files_with_context_def snapshot_documents_with_context_def
      collected_sources [symmetric] by (rule collect_polls)+
  show "polls_for worlds c (file_summaries_with_context worlds c w) (file_summaries w)"
    unfolding file_summaries_with_context_def collected_summaries [symmetric] by (rule collect_polls)
  show "polls_for worlds c (resolve_name_with_context worlds c w name) (ws_resolve_name w name)"
    unfolding resolve_name_with_context_def Let_def
    by (intro polls_for_then polls_for_poll polls_for_return)
  show "polls_for worlds c (search_names_where_with_context worlds c lower needle limit pred w)
     (search_names_where lower needle limit pred w)"
    unfolding search_names_where_with_context_def search_names_where_def by (rule search_loop_polls)
qed

end
