(* ===== verification/Provider_Delta.thy ===== *)
theory Provider_Delta
  imports Graph_Cancellation
begin

section \<open>Provider workspaces and their deltas\<close>

text \<open>
  \<open>chakra-engine/src/precise.rs\<close>: the immutable documents and build inputs a precise provider
  is synchronised with, and the ordered merge that computes the difference of two revisions.
  A shared allocation (\<open>Arc\<close>) is a value together with its address, so \<open>Arc::ptr_eq\<close> compares
  addresses; \<open>addr\<close> gives the address of a document captured in a graph allocation.
\<close>

type_synonym 'a arc = "nat \<times> 'a"

abbreviation ptr_eq :: "'a arc \<Rightarrow> 'a arc \<Rightarrow> bool" where
  "ptr_eq a b \<equiv> fst a = fst b"

subsection \<open>Data\<close>

record provider_document =
  doc_path :: repo_path
  doc_source :: "string arc"
  doc_language :: language

record input_identity =
  id_len :: nat
  id_modified :: "nat option"
  id_created :: "nat option"
  id_device :: nat
  id_inode :: nat
  id_mode :: nat
  id_modified_seconds :: int
  id_modified_nanoseconds :: int
  id_changed_seconds :: int
  id_changed_nanoseconds :: int

record provider_input =
  input_path :: repo_path
  input_languages :: "language list"
  input_ident :: input_identity

text \<open>\<open>from_metadata\<close> with the identity already read from the metadata.\<close>

definition provider_input_new :: "repo_path \<Rightarrow> language list \<Rightarrow> input_identity \<Rightarrow> provider_input option" where
  "provider_input_new p langs ident =
     (let ls = remdups_adj (sort langs)
      in if ls = [] then None
         else Some \<lparr>input_path = p, input_languages = ls, input_ident = ident\<rparr>)"

datatype provider_documents =
    SnapshotDocuments "workspace_graph arc"
  | OwnedDocuments "(repo_path, provider_document) omap arc"

record provider_workspace =
  pw_root :: string
  pw_revision :: revision
  pw_documents :: provider_documents
  pw_inputs :: "(repo_path, provider_input) omap arc"

record workspace_delta =
  d_created :: "provider_document list"
  d_changed :: "provider_document list"
  d_deleted :: "repo_path list"
  d_documents_examined :: nat
  d_source_body_comparisons :: nat
  d_inputs_created :: "repo_path list"
  d_inputs_changed :: "repo_path list"
  d_inputs_deleted :: "repo_path list"
  d_inputs_examined :: nat

definition delta_default :: workspace_delta where
  "delta_default = \<lparr>d_created = [], d_changed = [], d_deleted = [], d_documents_examined = 0,
     d_source_body_comparisons = 0, d_inputs_created = [], d_inputs_changed = [],
     d_inputs_deleted = [], d_inputs_examined = 0\<rparr>"

definition inputs_for :: "provider_workspace \<Rightarrow> language \<Rightarrow> provider_input list" where
  "inputs_for w l = filter (\<lambda>i. l \<in> set (input_languages i)) (map snd (snd (pw_inputs w)))"

definition workspace_from_documents ::
    "string \<Rightarrow> revision \<Rightarrow> nat \<Rightarrow> nat \<Rightarrow> provider_document list \<Rightarrow> provider_workspace" where
  "workspace_from_documents root r doc_addr input_addr docs =
     \<lparr>pw_root = root, pw_revision = r,
      pw_documents = OwnedDocuments (doc_addr, omap_of_list (map (\<lambda>d. (doc_path d, d)) docs)),
      pw_inputs = (input_addr, [])\<rparr>"

definition workspace_from_documents_and_inputs ::
    "string \<Rightarrow> revision \<Rightarrow> nat \<Rightarrow> nat \<Rightarrow> provider_document list \<Rightarrow> provider_input list \<Rightarrow> provider_workspace" where
  "workspace_from_documents_and_inputs root r doc_addr input_addr docs inputs =
     (workspace_from_documents root r doc_addr input_addr docs)
       \<lparr>pw_inputs := (input_addr, omap_of_list (map (\<lambda>i. (input_path i, i)) inputs))\<rparr>"

subsection \<open>Languages of paths\<close>

text \<open>\<open>Path::extension\<close> of the last component.\<close>

definition path_extension :: "string \<Rightarrow> string option" where
  "path_extension s =
     (let name = last (split_on CHR ''/'' s); parts = split_on CHR ''.'' name
      in if name = ''..'' then None
         else (case parts of [] \<Rightarrow> None | [_] \<Rightarrow> None | [before, after] \<Rightarrow> if before = [] then None else Some after
               | _ \<Rightarrow> Some (last parts)))"

definition language_from_path :: "string \<Rightarrow> language option" where
  "language_from_path s =
     (if ends_with ''.tf'' s \<or> ends_with ''.tfvars'' s \<or> ends_with ''.hcl'' s then Some LangHcl
      else (case path_extension s of
        None \<Rightarrow> None
      | Some e \<Rightarrow>
          if e = ''rs'' then Some LangRust
          else if e = ''php'' then Some LangPhp
          else if e \<in> {''ts'', ''tsx'', ''mts'', ''cts''} then Some LangTypeScript
          else if e \<in> {''py'', ''pyi''} then Some LangPython
          else if e \<in> {''js'', ''jsx'', ''mjs'', ''cjs''} then Some LangJavaScript
          else if e = ''java'' then Some LangJava
          else if e = ''cs'' then Some LangCSharp
          else if e \<in> {''sh'', ''bash'', ''zsh'', ''ksh''} then Some LangShell
          else if e = ''go'' then Some LangGo
          else if e \<in> {''kt'', ''kts''} then Some LangKotlin
          else if e \<in> {''c'', ''h'', ''cc'', ''cpp'', ''cxx'', ''hh'', ''hpp'', ''hxx'', ''ipp'', ''tpp'', ''inc''}
            then Some LangCpp
          else None))"

subsection \<open>Catalogs\<close>

definition document_of ::
    "(nat \<Rightarrow> repo_path \<times> string \<Rightarrow> nat) \<Rightarrow> nat \<Rightarrow> repo_path \<times> string \<Rightarrow> provider_document option" where
  "document_of addr graph f =
     map_option (\<lambda>l. \<lparr>doc_path = fst f, doc_source = (addr graph f, snd f), doc_language = l\<rparr>)
       (language_from_path (path_str (fst f)))"

definition document_catalog ::
    "(nat \<Rightarrow> repo_path \<times> string \<Rightarrow> nat) \<Rightarrow> (nat \<Rightarrow> op_world) \<Rightarrow> op_context \<Rightarrow> provider_workspace \<Rightarrow>
     provider_document list polled" where
  "document_catalog addr worlds c w =
     (case pw_documents w of
        SnapshotDocuments g \<Rightarrow>
          op_bind (snapshot_documents_with_context worlds c (snd g))
            (\<lambda>fs n. (Inr (List.map_filter (document_of addr (fst g)) fs), n))
      | OwnedDocuments docs \<Rightarrow>
          op_bind
            (op_fold (\<lambda>(index, d) acc.
                op_bind (poll_at worlds c index) (\<lambda>_ n. (Inr (acc @ [d]), n)))
              (enumerate 0 (map snd (snd docs))) [])
            (\<lambda>catalog. op_bind (poll worlds c) (\<lambda>_ n. (Inr catalog, n))))"

definition shares_document_catalog_with :: "provider_workspace \<Rightarrow> provider_workspace \<Rightarrow> bool" where
  "shares_document_catalog_with w v =
     (case (pw_documents w, pw_documents v) of
        (SnapshotDocuments a, SnapshotDocuments b) \<Rightarrow> ptr_eq a b
      | (OwnedDocuments a, OwnedDocuments b) \<Rightarrow> ptr_eq a b
      | _ \<Rightarrow> False)"

definition document_stats_matching ::
    "(nat \<Rightarrow> repo_path \<times> string \<Rightarrow> nat) \<Rightarrow> (nat \<Rightarrow> op_world) \<Rightarrow> op_context \<Rightarrow> (language \<Rightarrow> repo_path \<Rightarrow> bool) \<Rightarrow>
     provider_workspace \<Rightarrow> (nat \<times> nat) polled" where
  "document_stats_matching addr worlds c want w =
     op_bind (document_catalog addr worlds c w) (\<lambda>docs n.
       (Inr (fold (\<lambda>d (k, bytes). (sat_add64 k 1, sat_add64 bytes (length (snd (doc_source d)))))
               (filter (\<lambda>d. want (doc_language d) (doc_path d)) docs) (0, 0)), n))"

subsection \<open>The ordered merge\<close>

fun merge_documents ::
    "(nat \<Rightarrow> op_world) \<Rightarrow> op_context \<Rightarrow> provider_document list \<Rightarrow> provider_document list \<Rightarrow>
     workspace_delta \<Rightarrow> workspace_delta polled" where
  "merge_documents worlds c (now # ns) (before # bs) d =
     op_bind (poll worlds c) (\<lambda>_.
       if doc_path now < doc_path before
       then merge_documents worlds c ns (before # bs) (d\<lparr>d_created := d_created d @ [now]\<rparr>)
       else if doc_path before < doc_path now
       then merge_documents worlds c (now # ns) bs (d\<lparr>d_deleted := d_deleted d @ [doc_path before]\<rparr>)
       else
         let d1 = d\<lparr>d_documents_examined := sat_add64 (d_documents_examined d) 1\<rparr>;
             d2 = (if ptr_eq (doc_source now) (doc_source before) then d1
                   else
                     let d2 = d1\<lparr>d_source_body_comparisons := sat_add64 (d_source_body_comparisons d1) 1\<rparr>
                     in if snd (doc_source now) \<noteq> snd (doc_source before)
                        then d2\<lparr>d_changed := d_changed d2 @ [now]\<rparr> else d2)
         in merge_documents worlds c ns bs d2)"
| "merge_documents worlds c (now # ns) [] d =
     op_bind (poll worlds c) (\<lambda>_ n. (Inr (d\<lparr>d_created := d_created d @ now # ns\<rparr>), n))"
| "merge_documents worlds c [] (before # bs) d =
     op_bind (poll worlds c) (\<lambda>_ n.
       (Inr (d\<lparr>d_deleted := d_deleted d @ map doc_path (before # bs)\<rparr>), n))"
| "merge_documents worlds c [] [] d = op_bind (poll worlds c) (\<lambda>_ n. (Inr d, n))"

text \<open>\<open>unix\<close> is the build's \<open>cfg!(unix)\<close>: elsewhere an identity is never trusted.\<close>

fun merge_inputs ::
    "bool \<Rightarrow> (nat \<Rightarrow> op_world) \<Rightarrow> op_context \<Rightarrow> provider_input list \<Rightarrow> provider_input list \<Rightarrow>
     workspace_delta \<Rightarrow> workspace_delta polled" where
  "merge_inputs unix worlds c (now # ns) (before # bs) d =
     op_bind (poll worlds c) (\<lambda>_.
       if input_path now < input_path before
       then merge_inputs unix worlds c ns (before # bs) (d\<lparr>d_inputs_created := d_inputs_created d @ [input_path now]\<rparr>)
       else if input_path before < input_path now
       then merge_inputs unix worlds c (now # ns) bs (d\<lparr>d_inputs_deleted := d_inputs_deleted d @ [input_path before]\<rparr>)
       else
         let d1 = d\<lparr>d_inputs_examined := sat_add64 (d_inputs_examined d) 1\<rparr>
         in merge_inputs unix worlds c ns bs
              (if \<not> unix \<or> input_ident now \<noteq> input_ident before \<or>
                  input_languages now \<noteq> input_languages before
               then d1\<lparr>d_inputs_changed := d_inputs_changed d1 @ [input_path now]\<rparr> else d1))"
| "merge_inputs unix worlds c (now # ns) [] d =
     op_bind (poll worlds c) (\<lambda>_ n. (Inr (d\<lparr>d_inputs_created := d_inputs_created d @ map input_path (now # ns)\<rparr>), n))"
| "merge_inputs unix worlds c [] (before # bs) d =
     op_bind (poll worlds c) (\<lambda>_ n.
       (Inr (d\<lparr>d_inputs_deleted := d_inputs_deleted d @ map input_path (before # bs)\<rparr>), n))"
| "merge_inputs unix worlds c [] [] d = op_bind (poll worlds c) (\<lambda>_ n. (Inr d, n))"

definition selected_documents :: "(language \<Rightarrow> repo_path \<Rightarrow> bool) \<Rightarrow> provider_document list \<Rightarrow> provider_document list" where
  "selected_documents want docs = filter (\<lambda>d. want (doc_language d) (doc_path d)) docs"

definition selected_inputs :: "(language \<Rightarrow> repo_path \<Rightarrow> bool) \<Rightarrow> provider_workspace \<Rightarrow> provider_input list" where
  "selected_inputs want w =
     filter (\<lambda>i. list_ex (\<lambda>l. want l (input_path i)) (input_languages i)) (map snd (snd (pw_inputs w)))"

definition documents_delta ::
    "(nat \<Rightarrow> repo_path \<times> string \<Rightarrow> nat) \<Rightarrow> (nat \<Rightarrow> op_world) \<Rightarrow> op_context \<Rightarrow>
     (language \<Rightarrow> repo_path \<Rightarrow> bool) \<Rightarrow> provider_workspace \<Rightarrow> provider_workspace \<Rightarrow> workspace_delta polled" where
  "documents_delta addr worlds c want w previous =
     op_bind (document_catalog addr worlds c w) (\<lambda>current.
       op_bind (document_catalog addr worlds c previous) (\<lambda>before.
         op_bind (merge_documents worlds c (selected_documents want current)
                    (selected_documents want before) delta_default)
           (\<lambda>d n. (Inr (d\<lparr>d_documents_examined :=
              sat_add64 (sat_add64 (d_documents_examined d) (length (d_created d))) (length (d_deleted d))\<rparr>), n))))"

definition delta_since_matching_documents_and_inputs ::
    "(nat \<Rightarrow> repo_path \<times> string \<Rightarrow> nat) \<Rightarrow> bool \<Rightarrow> (nat \<Rightarrow> op_world) \<Rightarrow> op_context \<Rightarrow>
     (language \<Rightarrow> repo_path \<Rightarrow> bool) \<Rightarrow> (language \<Rightarrow> repo_path \<Rightarrow> bool) \<Rightarrow>
     provider_workspace \<Rightarrow> provider_workspace \<Rightarrow> workspace_delta polled" where
  "delta_since_matching_documents_and_inputs addr unix worlds c want want_input w previous =
     (if shares_document_catalog_with w previous \<and> ptr_eq (pw_inputs w) (pw_inputs previous)
      then op_bind (poll worlds c) (\<lambda>_ n. (Inr delta_default, n))
      else
        op_bind
          (if shares_document_catalog_with w previous then (\<lambda>n. (Inr delta_default, n))
           else documents_delta addr worlds c want w previous)
          (\<lambda>d. op_bind
             (merge_inputs unix worlds c (selected_inputs want_input w)
                (selected_inputs want_input previous) d)
             (\<lambda>d. op_bind (poll worlds c) (\<lambda>_ n.
                (Inr (d\<lparr>d_inputs_examined :=
                   sat_add64 (sat_add64 (d_inputs_examined d) (length (d_inputs_created d)))
                     (length (d_inputs_deleted d))\<rparr>), n)))))"

definition delta_since_matching_documents ::
    "(nat \<Rightarrow> repo_path \<times> string \<Rightarrow> nat) \<Rightarrow> bool \<Rightarrow> (nat \<Rightarrow> op_world) \<Rightarrow> op_context \<Rightarrow>
     (language \<Rightarrow> repo_path \<Rightarrow> bool) \<Rightarrow> provider_workspace \<Rightarrow> provider_workspace \<Rightarrow> workspace_delta polled" where
  "delta_since_matching_documents addr unix worlds c want =
     delta_since_matching_documents_and_inputs addr unix worlds c want want"

definition delta_since_matching ::
    "(nat \<Rightarrow> repo_path \<times> string \<Rightarrow> nat) \<Rightarrow> bool \<Rightarrow> (nat \<Rightarrow> op_world) \<Rightarrow> op_context \<Rightarrow>
     (language \<Rightarrow> bool) \<Rightarrow> provider_workspace \<Rightarrow> provider_workspace \<Rightarrow> workspace_delta polled" where
  "delta_since_matching addr unix worlds c want =
     delta_since_matching_documents addr unix worlds c (\<lambda>l _. want l)"

definition delta_since ::
    "(nat \<Rightarrow> repo_path \<times> string \<Rightarrow> nat) \<Rightarrow> bool \<Rightarrow> (nat \<Rightarrow> op_world) \<Rightarrow> op_context \<Rightarrow>
     language \<Rightarrow> provider_workspace \<Rightarrow> provider_workspace \<Rightarrow> workspace_delta polled" where
  "delta_since addr unix worlds c l = delta_since_matching addr unix worlds c (\<lambda>l'. l' = l)"

end
