(* ===== verification/Delta_Properties.thy ===== *)
theory Delta_Properties
  imports Provider_Delta
begin

section \<open>Provider deltas are exact\<close>

text \<open>
  The ordered merge over two catalogs sorted by path finds precisely the created, changed
  and deleted documents and inputs, whatever allocations the two revisions share, and
  replaying the delta on the previous documents gives the current ones.
\<close>

subsection \<open>Differences of sorted lists\<close>

abbreviation sorted_on :: "('a \<Rightarrow> 'k::linorder) \<Rightarrow> 'a list \<Rightarrow> bool" where
  "sorted_on key \<equiv> sorted_wrt (\<lambda>a b. key a < key b)"

definition only_in :: "('a \<Rightarrow> 'k) \<Rightarrow> 'a list \<Rightarrow> 'a list \<Rightarrow> 'a list" where
  "only_in key xs ys = filter (\<lambda>x. key x \<notin> key ` set ys) xs"

definition differing :: "('a \<Rightarrow> 'k) \<Rightarrow> ('a \<Rightarrow> 'a \<Rightarrow> bool) \<Rightarrow> 'a list \<Rightarrow> 'a list \<Rightarrow> 'a list" where
  "differing key differs xs ys = filter (\<lambda>x. \<exists>y\<in>set ys. key y = key x \<and> differs x y) xs"

lemma diff_Nil [simp]:
  "only_in key [] ys = []" "only_in key xs [] = xs" "differing key D [] ys = []" "differing key D xs [] = []"
  by (simp_all add: only_in_def differing_def)

lemma diff_first_smaller:
  assumes "sorted_on key (x # xs)" "sorted_on key (y # ys)" "key x < key y"
  shows "only_in key (x # xs) (y # ys) = x # only_in key xs (y # ys)"
    "only_in key (y # ys) (x # xs) = only_in key (y # ys) xs"
    "differing key D (x # xs) (y # ys) = differing key D xs (y # ys)"
    "differing key D (y # ys) (x # xs) = differing key D (y # ys) xs"
proof -
  have new: "key z \<noteq> key x" if "z \<in> set (y # ys)" for z using assms that by force
  then have "key x \<notin> key ` set (y # ys)" by (metis imageE)
  then show "only_in key (x # xs) (y # ys) = x # only_in key xs (y # ys)" by (simp add: only_in_def)
  show "only_in key (y # ys) (x # xs) = only_in key (y # ys) xs"
    unfolding only_in_def by (rule filter_cong [OF refl]) (use new in auto)
  have "\<not> (\<exists>z\<in>set (y # ys). key z = key x \<and> D x z)" using new by blast
  then show "differing key D (x # xs) (y # ys) = differing key D xs (y # ys)"
    unfolding differing_def by (simp only: filter.simps if_False)
  show "differing key D (y # ys) (x # xs) = differing key D (y # ys) xs"
    unfolding differing_def by (rule filter_cong [OF refl]) (use new in force)
qed

lemma diff_same_key:
  assumes "sorted_on key (x # xs)" "sorted_on key (y # ys)" "key x = key y"
  shows "only_in key (x # xs) (y # ys) = only_in key xs ys"
    "differing key D (x # xs) (y # ys) = (if D x y then [x] else []) @ differing key D xs ys"
proof -
  have xs: "key z \<noteq> key y" if "z \<in> set xs" for z using assms that by force
  have ys: "key z \<noteq> key x" if "z \<in> set ys" for z using assms that by force
  show "only_in key (x # xs) (y # ys) = only_in key xs ys"
    unfolding only_in_def using assms(3) xs by (auto intro!: filter_cong)
  have "filter (\<lambda>z. \<exists>v\<in>set (y # ys). key v = key z \<and> D z v) xs =
      filter (\<lambda>z. \<exists>v\<in>set ys. key v = key z \<and> D z v) xs"
    by (rule filter_cong [OF refl]) (use xs in force)
  moreover have "(\<exists>v\<in>set (y # ys). key v = key x \<and> D x v) \<longleftrightarrow> D x y" using ys assms(3) by auto
  ultimately show "differing key D (x # xs) (y # ys) = (if D x y then [x] else []) @ differing key D xs ys"
    unfolding differing_def by simp
qed

subsection \<open>The two merges\<close>

definition text_differs :: "provider_document \<Rightarrow> provider_document \<Rightarrow> bool" where
  "text_differs n b \<longleftrightarrow> snd (doc_source n) \<noteq> snd (doc_source b)"

definition input_differs :: "bool \<Rightarrow> provider_input \<Rightarrow> provider_input \<Rightarrow> bool" where
  "input_differs unix n b \<longleftrightarrow>
     \<not> unix \<or> input_ident n \<noteq> input_ident b \<or> input_languages n \<noteq> input_languages b"

text \<open>An address holds one immutable text.\<close>

definition sources_sound :: "provider_document list \<Rightarrow> provider_document list \<Rightarrow> bool" where
  "sources_sound ns bs \<longleftrightarrow>
     (\<forall>n\<in>set ns. \<forall>b\<in>set bs. ptr_eq (doc_source n) (doc_source b) \<longrightarrow> \<not> text_differs n b)"

definition doc_fields :: "workspace_delta \<Rightarrow> provider_document list \<times> provider_document list \<times> repo_path list" where
  "doc_fields d = (d_created d, d_changed d, d_deleted d)"

definition input_fields :: "workspace_delta \<Rightarrow> repo_path list \<times> repo_path list \<times> repo_path list" where
  "input_fields d = (d_inputs_created d, d_inputs_changed d, d_inputs_deleted d)"

lemmas delta_fields = doc_fields_def input_fields_def

lemma merge_documents_polls:
  assumes "sorted_on doc_path ns" "sorted_on doc_path bs" "sources_sound ns bs"
  shows "\<exists>d'. polls_for worlds c (merge_documents worlds c ns bs d) d' \<and>
    doc_fields d' = (d_created d @ only_in doc_path ns bs,
      d_changed d @ differing doc_path text_differs ns bs,
      d_deleted d @ map doc_path (only_in doc_path bs ns)) \<and>
    input_fields d' = input_fields d"
  using assms
proof (induction worlds c ns bs d rule: merge_documents.induct)
  case (1 worlds c now ns before bs d)
  have sorted: "sorted_on doc_path ns" "sorted_on doc_path bs" using "1.prems"(1,2) by simp_all
  consider (created) "doc_path now < doc_path before" | (deleted) "doc_path before < doc_path now"
    | (both) "doc_path now = doc_path before" by (meson linorder_cases)
  then show ?case
  proof cases
    case created
    have "sources_sound ns (before # bs)" using "1.prems"(3) by (simp add: sources_sound_def)
    from "1.IH"(1) [OF created sorted(1) "1.prems"(2) this] show ?thesis
      unfolding diff_first_smaller [OF "1.prems"(1,2) created] merge_documents.simps
      using created by (auto simp: delta_fields intro: polls_for_then polls_for_poll)
  next
    case deleted
    have "sources_sound (now # ns) bs" using "1.prems"(3) by (simp add: sources_sound_def)
    from "1.IH"(2) [OF _ deleted "1.prems"(1) sorted(2) this] deleted show ?thesis
      unfolding diff_first_smaller [OF "1.prems"(2,1) deleted] merge_documents.simps
      by (auto simp: delta_fields intro: polls_for_then polls_for_poll)
  next
    case both
    let ?d1 = "d\<lparr>d_documents_examined := sat_add64 (d_documents_examined d) 1\<rparr>"
    let ?d2 = "?d1\<lparr>d_source_body_comparisons := sat_add64 (d_source_body_comparisons ?d1) 1\<rparr>"
    let ?d3 = "if ptr_eq (doc_source now) (doc_source before) then ?d1
        else if snd (doc_source now) \<noteq> snd (doc_source before)
        then ?d2\<lparr>d_changed := d_changed ?d2 @ [now]\<rparr> else ?d2"
    have "ptr_eq (doc_source now) (doc_source before) \<Longrightarrow> \<not> text_differs now before"
      using "1.prems"(3) by (simp add: sources_sound_def)
    then have d3: "d_created ?d3 = d_created d" "d_deleted ?d3 = d_deleted d"
      "d_changed ?d3 = d_changed d @ (if text_differs now before then [now] else [])"
      "input_fields ?d3 = input_fields d"
      by (auto simp: input_fields_def text_differs_def)
    have step: "merge_documents worlds c (now # ns) (before # bs) d =
        op_bind (poll worlds c) (\<lambda>_. merge_documents worlds c ns bs ?d3)"
      using both by (simp add: Let_def)
    have "sources_sound ns bs" using "1.prems"(3) by (simp add: sources_sound_def)
    from "1.IH"(3) [OF _ _ refl _ sorted this, of ?d3] both obtain d' where d':
      "polls_for worlds c (merge_documents worlds c ns bs ?d3) d'"
      "doc_fields d' = (d_created ?d3 @ only_in doc_path ns bs,
         d_changed ?d3 @ differing doc_path text_differs ns bs,
         d_deleted ?d3 @ map doc_path (only_in doc_path bs ns))"
      "input_fields d' = input_fields ?d3" by (auto simp: Let_def)
    have "polls_for worlds c (merge_documents worlds c (now # ns) (before # bs) d) d'"
      unfolding step by (rule polls_for_then [OF polls_for_poll d'(1)])
    then show ?thesis using d'(2,3)
      unfolding d3 diff_same_key [OF "1.prems"(1,2) both] diff_same_key [OF "1.prems"(2,1) both [symmetric]]
      by (intro exI [of _ d']) simp
  qed
next
  case (2 worlds c now ns d)
  have "polls_for worlds c (merge_documents worlds c (now # ns) [] d) (d\<lparr>d_created := d_created d @ now # ns\<rparr>)"
    by (simp add: polls_for_then polls_for_poll polls_for_return)
  then show ?case by - (rule exI, rule conjI, assumption, simp add: delta_fields)
next
  case (3 worlds c before bs d)
  have "polls_for worlds c (merge_documents worlds c [] (before # bs) d)
      (d\<lparr>d_deleted := d_deleted d @ map doc_path (before # bs)\<rparr>)"
    by (simp add: polls_for_then polls_for_poll polls_for_return)
  then show ?case by - (rule exI, rule conjI, assumption, simp add: delta_fields)
next
  case (4 worlds c d)
  have "polls_for worlds c (merge_documents worlds c [] [] d) d"
    by (simp add: polls_for_then polls_for_poll polls_for_return)
  then show ?case by - (rule exI, rule conjI, assumption, simp add: delta_fields)
qed

lemma merge_inputs_polls:
  assumes "sorted_on input_path ns" "sorted_on input_path bs"
  shows "\<exists>d'. polls_for worlds c (merge_inputs unix worlds c ns bs d) d' \<and>
    input_fields d' = (d_inputs_created d @ map input_path (only_in input_path ns bs),
      d_inputs_changed d @ map input_path (differing input_path (input_differs unix) ns bs),
      d_inputs_deleted d @ map input_path (only_in input_path bs ns)) \<and>
    doc_fields d' = doc_fields d"
  using assms
proof (induction unix worlds c ns bs d rule: merge_inputs.induct)
  case (1 unix worlds c now ns before bs d)
  have sorted: "sorted_on input_path ns" "sorted_on input_path bs" using "1.prems" by simp_all
  consider (created) "input_path now < input_path before" | (deleted) "input_path before < input_path now"
    | (both) "input_path now = input_path before" by (meson linorder_cases)
  then show ?case
  proof cases
    case created
    from "1.IH"(1) [OF created sorted(1) "1.prems"(2)] show ?thesis
      unfolding diff_first_smaller [OF "1.prems" created] merge_inputs.simps
      using created by (auto simp: delta_fields intro: polls_for_then polls_for_poll)
  next
    case deleted
    from "1.IH"(2) [OF _ deleted "1.prems"(1) sorted(2)] deleted show ?thesis
      unfolding diff_first_smaller [OF "1.prems"(2,1) deleted] merge_inputs.simps
      by (auto simp: delta_fields intro: polls_for_then polls_for_poll)
  next
    case both
    let ?d1 = "d\<lparr>d_inputs_examined := sat_add64 (d_inputs_examined d) 1\<rparr>"
    let ?d2 = "if input_differs unix now before
        then ?d1\<lparr>d_inputs_changed := d_inputs_changed ?d1 @ [input_path now]\<rparr> else ?d1"
    have step: "merge_inputs unix worlds c (now # ns) (before # bs) d =
        op_bind (poll worlds c) (\<lambda>_. merge_inputs unix worlds c ns bs ?d2)"
      using both by (simp add: Let_def input_differs_def)
    have P: "(\<not> unix \<or> input_ident now \<noteq> input_ident before \<or> input_languages now \<noteq> input_languages before) =
        input_differs unix now before" by (simp add: input_differs_def)
    have "\<not> input_path now < input_path before" "\<not> input_path before < input_path now" using both by simp_all
    from "1.IH"(3) [OF this refl sorted, unfolded P] obtain d' where d':
      "polls_for worlds c (merge_inputs unix worlds c ns bs ?d2) d'"
      "input_fields d' = (d_inputs_created ?d2 @ map input_path (only_in input_path ns bs),
         d_inputs_changed ?d2 @ map input_path (differing input_path (input_differs unix) ns bs),
         d_inputs_deleted ?d2 @ map input_path (only_in input_path bs ns))"
      "doc_fields d' = doc_fields ?d2" by blast
    have d2: "d_inputs_created ?d2 = d_inputs_created d" "d_inputs_deleted ?d2 = d_inputs_deleted d"
      "d_inputs_changed ?d2 = d_inputs_changed d @
         map input_path (if input_differs unix now before then [now] else [])"
      "doc_fields ?d2 = doc_fields d" by (simp_all add: doc_fields_def)
    have "polls_for worlds c (merge_inputs unix worlds c (now # ns) (before # bs) d) d'"
      unfolding step by (rule polls_for_then [OF polls_for_poll d'(1)])
    then show ?thesis using d'(2,3)
      unfolding d2 diff_same_key [OF "1.prems" both] diff_same_key [OF "1.prems"(2,1) both [symmetric]]
      by (intro exI [of _ d']) simp
  qed
next
  case (2 unix worlds c now ns d)
  have "polls_for worlds c (merge_inputs unix worlds c (now # ns) [] d)
      (d\<lparr>d_inputs_created := d_inputs_created d @ map input_path (now # ns)\<rparr>)"
    by (simp add: polls_for_then polls_for_poll polls_for_return)
  then show ?case by - (rule exI, rule conjI, assumption, simp add: delta_fields)
next
  case (3 unix worlds c before bs d)
  have "polls_for worlds c (merge_inputs unix worlds c [] (before # bs) d)
      (d\<lparr>d_inputs_deleted := d_inputs_deleted d @ map input_path (before # bs)\<rparr>)"
    by (simp add: polls_for_then polls_for_poll polls_for_return)
  then show ?case by - (rule exI, rule conjI, assumption, simp add: delta_fields)
next
  case (4 unix worlds c d)
  have "polls_for worlds c (merge_inputs unix worlds c [] [] d) d"
    by (simp add: polls_for_then polls_for_poll polls_for_return)
  then show ?case by - (rule exI, rule conjI, assumption, simp add: delta_fields)
qed

subsection \<open>Whole workspaces\<close>

definition catalog :: "(nat \<Rightarrow> repo_path \<times> string \<Rightarrow> nat) \<Rightarrow> provider_workspace \<Rightarrow> provider_document list" where
  "catalog addr w =
     (case pw_documents w of
        SnapshotDocuments g \<Rightarrow> List.map_filter (document_of addr (fst g)) (source_files (snd g))
      | OwnedDocuments docs \<Rightarrow> map snd (snd docs))"

abbreviation inputs_of :: "provider_workspace \<Rightarrow> provider_input list" where
  "inputs_of w \<equiv> map snd (snd (pw_inputs w))"

text \<open>Both catalogs are in path order without repetition.\<close>

definition workspace_ok :: "(nat \<Rightarrow> repo_path \<times> string \<Rightarrow> nat) \<Rightarrow> provider_workspace \<Rightarrow> bool" where
  "workspace_ok addr w \<longleftrightarrow> sorted_on doc_path (catalog addr w) \<and> sorted_on input_path (inputs_of w)"

text \<open>Equal addresses hold equal values: the memory model behind \<open>Arc::ptr_eq\<close>.\<close>

definition memory_sound ::
    "(nat \<Rightarrow> repo_path \<times> string \<Rightarrow> nat) \<Rightarrow> provider_workspace \<Rightarrow> provider_workspace \<Rightarrow> bool" where
  "memory_sound addr w v \<longleftrightarrow>
     (shares_document_catalog_with w v \<longrightarrow> pw_documents w = pw_documents v) \<and>
     (ptr_eq (pw_inputs w) (pw_inputs v) \<longrightarrow> pw_inputs w = pw_inputs v) \<and>
     sources_sound (catalog addr w) (catalog addr v)"

lemma document_catalog_polls: "polls_for worlds c (document_catalog addr worlds c w) (catalog addr w)"
proof (cases "pw_documents w")
  case (SnapshotDocuments g)
  have "polls_for worlds c (snapshot_documents_with_context worlds c (snd g)) (source_files (snd g))"
    unfolding snapshot_documents_with_context_def collected_sources [symmetric] by (rule collect_polls)
  then show ?thesis unfolding document_catalog_def catalog_def SnapshotDocuments provider_documents.case
    by (rule polls_for_bind) (rule polls_for_return)
next
  case (OwnedDocuments docs)
  have "polls_for worlds c
     (op_fold (\<lambda>(index, d) acc. op_bind (poll_at worlds c index) (\<lambda>_ n. (Inr (acc @ [d]), n)))
        (enumerate 0 (map snd (snd docs))) [])
     (fold (\<lambda>(i, d) acc. acc @ [d]) (enumerate 0 (map snd (snd docs))) [])"
    by (rule polls_for_fold)
      (auto intro: polls_for_then polls_for_poll_at polls_for_return split: prod.split)
  moreover have "fold (\<lambda>(i, d) acc. acc @ [d]) (enumerate 0 (map snd (snd docs))) [] = map snd (snd docs)"
  proof -
    have singletons: "concat (map (\<lambda>d. [d]) xs) = xs" for xs :: "provider_document list"
      by (induction xs) simp_all
    show ?thesis unfolding fold_collect singletons append_Nil ..
  qed
  ultimately show ?thesis unfolding document_catalog_def catalog_def OwnedDocuments provider_documents.case
    by (metis (no_types, lifting) polls_for_bind polls_for_poll polls_for_return polls_for_then)
qed

lemma sorted_on_filter: "sorted_on key xs \<Longrightarrow> sorted_on key (filter P xs)"
  by (rule sorted_wrt_filter)

lemma only_in_self [simp]: "only_in key xs xs = []"
  by (simp add: only_in_def)

lemma sorted_on_inj: "sorted_on key xs \<Longrightarrow> x \<in> set xs \<Longrightarrow> y \<in> set xs \<Longrightarrow> key x = key y \<Longrightarrow> x = y"
  by (induction xs) force+

lemma differing_self: "sorted_on key xs \<Longrightarrow> (\<And>x. \<not> D x x) \<Longrightarrow> differing key D xs xs = []"
  unfolding differing_def using sorted_on_inj by (fastforce simp: filter_empty_conv)

lemma delta_default_fields: "doc_fields delta_default = ([], [], [])" "input_fields delta_default = ([], [], [])"
  by (simp_all add: delta_fields delta_default_def)

lemma documents_delta_polls:
  fixes incl :: "language \<Rightarrow> repo_path \<Rightarrow> bool"
  assumes "workspace_ok addr w" "workspace_ok addr v" "memory_sound addr w v"
  defines "ns \<equiv> selected_documents incl (catalog addr w)"
    and "bs \<equiv> selected_documents incl (catalog addr v)"
  shows "\<exists>d. polls_for worlds c (documents_delta addr worlds c incl w v) d \<and>
    doc_fields d = (only_in doc_path ns bs, differing doc_path text_differs ns bs,
      map doc_path (only_in doc_path bs ns)) \<and> input_fields d = ([], [], [])"
proof -
  have sorted: "sorted_on doc_path ns" "sorted_on doc_path bs"
    using assms(1,2) unfolding ns_def bs_def selected_documents_def workspace_ok_def
    by (auto intro: sorted_on_filter)
  have "sources_sound ns bs"
    using assms(3) unfolding memory_sound_def sources_sound_def ns_def bs_def selected_documents_def by simp
  from merge_documents_polls [OF sorted this, where worlds = worlds and c = c and d = delta_default]
  obtain d where d: "polls_for worlds c (merge_documents worlds c ns bs delta_default) d"
    "doc_fields d = (only_in doc_path ns bs, differing doc_path text_differs ns bs,
      map doc_path (only_in doc_path bs ns))" "input_fields d = ([], [], [])"
    by (auto simp: delta_default_fields) (simp add: delta_default_def)
  let ?d = "d\<lparr>d_documents_examined :=
      sat_add64 (sat_add64 (d_documents_examined d) (length (d_created d))) (length (d_deleted d))\<rparr>"
  have "polls_for worlds c (documents_delta addr worlds c incl w v) ?d"
    unfolding documents_delta_def
    by (rule polls_for_bind [OF document_catalog_polls],
        rule polls_for_bind [OF document_catalog_polls],
        rule polls_for_bind [OF d(1) [unfolded ns_def bs_def]], rule polls_for_return)
  then show ?thesis using d(2,3) by (intro exI [of _ ?d]) (simp add: delta_fields)
qed

lemma delta_since_fields:
  assumes "workspace_ok addr w" "workspace_ok addr v" "memory_sound addr w v"
  shows "\<exists>d. polls_for worlds c
      (delta_since_matching_documents_and_inputs addr unix worlds c want want_input w v) d \<and>
    (let ns = selected_documents want (catalog addr w); bs = selected_documents want (catalog addr v);
         is = selected_inputs want_input w; js = selected_inputs want_input v
     in doc_fields d = (only_in doc_path ns bs, differing doc_path text_differs ns bs,
          map doc_path (only_in doc_path bs ns)) \<and>
        input_fields d = (map input_path (only_in input_path is js),
          (if shares_document_catalog_with w v \<and> ptr_eq (pw_inputs w) (pw_inputs v) then []
           else map input_path (differing input_path (input_differs unix) is js)),
          map input_path (only_in input_path js is)))"
proof -
  let ?ns = "selected_documents want (catalog addr w)"
  let ?bs = "selected_documents want (catalog addr v)"
  let ?is = "selected_inputs want_input w" and ?js = "selected_inputs want_input v"
  let ?shared = "shares_document_catalog_with w v"
  have sorted: "sorted_on doc_path ?ns" "sorted_on input_path ?is" "sorted_on input_path ?js"
    using assms(1,2) unfolding selected_documents_def selected_inputs_def workspace_ok_def
    by (auto intro: sorted_on_filter)
  have same_docs: "doc_fields delta_default = (only_in doc_path ?ns ?bs,
      differing doc_path text_differs ?ns ?bs, map doc_path (only_in doc_path ?bs ?ns))" if ?shared
  proof -
    have "catalog addr w = catalog addr v" using that assms(3) by (simp add: memory_sound_def catalog_def)
    with differing_self [OF sorted(1), of text_differs] show ?thesis
      by (simp add: delta_default_fields text_differs_def)
  qed
  show ?thesis
  proof (cases "?shared \<and> ptr_eq (pw_inputs w) (pw_inputs v)")
    case True
    then have "?is = ?js" using assms(3) by (simp add: memory_sound_def selected_inputs_def)
    with differing_self [OF sorted(2), of "input_differs True"]
    have "input_fields delta_default = (map input_path (only_in input_path ?is ?js), [],
        map input_path (only_in input_path ?js ?is))"
      by (simp add: delta_default_fields input_differs_def)
    moreover have "polls_for worlds c
      (delta_since_matching_documents_and_inputs addr unix worlds c want want_input w v) delta_default"
      unfolding delta_since_matching_documents_and_inputs_def if_P [OF True]
      by (rule polls_for_then [OF polls_for_poll polls_for_return])
    ultimately show ?thesis using same_docs True unfolding Let_def if_P [OF True] by blast
  next
    case False
    let ?first = "if ?shared then (\<lambda>n. (Inr delta_default, n)) else documents_delta addr worlds c want w v"
    have "\<exists>d. polls_for worlds c ?first d \<and> doc_fields d = (only_in doc_path ?ns ?bs,
        differing doc_path text_differs ?ns ?bs, map doc_path (only_in doc_path ?bs ?ns)) \<and>
        input_fields d = ([], [], [])"
    proof (cases ?shared)
      case True
      with same_docs show ?thesis
        by (intro exI [of _ delta_default]) (simp add: polls_for_return delta_default_fields(2))
    next
      case False
      with documents_delta_polls [OF assms] show ?thesis by simp
    qed
    then obtain d1 where d1: "polls_for worlds c ?first d1"
      "doc_fields d1 = (only_in doc_path ?ns ?bs, differing doc_path text_differs ?ns ?bs,
        map doc_path (only_in doc_path ?bs ?ns))" "input_fields d1 = ([], [], [])" by blast
    from merge_inputs_polls [OF sorted(2,3), where unix = unix and worlds = worlds and c = c and d = d1]
    obtain d2 where d2: "polls_for worlds c (merge_inputs unix worlds c ?is ?js d1) d2"
      "input_fields d2 = (map input_path (only_in input_path ?is ?js),
        map input_path (differing input_path (input_differs unix) ?is ?js),
        map input_path (only_in input_path ?js ?is))" "doc_fields d2 = doc_fields d1"
      using d1(3) by (auto simp: input_fields_def)
    let ?d = "d2\<lparr>d_inputs_examined := sat_add64 (sat_add64 (d_inputs_examined d2)
        (length (d_inputs_created d2))) (length (d_inputs_deleted d2))\<rparr>"
    have "polls_for worlds c
      (delta_since_matching_documents_and_inputs addr unix worlds c want want_input w v) ?d"
      unfolding delta_since_matching_documents_and_inputs_def if_not_P [OF False]
      by (rule polls_for_bind [OF d1(1)], rule polls_for_bind [OF d2(1)],
          rule polls_for_then [OF polls_for_poll polls_for_return])
    moreover have "doc_fields ?d = doc_fields d2" "input_fields ?d = input_fields d2"
      by (simp_all add: delta_fields)
    ultimately show ?thesis using d1(2) d2(2,3) unfolding Let_def if_not_P [OF False] by metis
  qed
qed

text \<open>
  C21: The delta between two revisions of a provider workspace is exact, whatever
  allocations they share. It lists, in path order, the selected documents whose path is new,
  those whose text changed, and the paths that are gone; and the build inputs that are new,
  whose identity or languages changed, or that are gone. On a build without trustworthy file
  identities (\<open>unix\<close> is false) every input of both revisions counts as changed, unless the two
  revisions share both their catalog and their inputs. Cancellation aside, the delta always
  succeeds.
\<close>

theorem delta_since_exact:
  assumes "workspace_ok addr w" "workspace_ok addr v" "memory_sound addr w v"
  shows "\<exists>d. polls_for worlds c
      (delta_since_matching_documents_and_inputs addr unix worlds c want want_input w v) d \<and>
    (let ns = selected_documents want (catalog addr w); bs = selected_documents want (catalog addr v);
         is = selected_inputs want_input w; js = selected_inputs want_input v
     in doc_fields d = (only_in doc_path ns bs, differing doc_path text_differs ns bs,
          map doc_path (only_in doc_path bs ns)) \<and>
        input_fields d = (map input_path (only_in input_path is js),
          (if shares_document_catalog_with w v \<and> ptr_eq (pw_inputs w) (pw_inputs v) then []
           else map input_path (differing input_path (input_differs unix) is js)),
          map input_path (only_in input_path js is)))"
  using delta_since_fields [OF assms] .

text \<open>A one-document workspace of a revision, for the witnesses.\<close>

abbreviation sample_workspace :: "nat \<Rightarrow> string \<Rightarrow> provider_workspace" where
  "sample_workspace a text \<equiv> workspace_from_documents ''/repo'' 1 a 0
     [\<lparr>doc_path = RepoPath ''a.rs'', doc_source = (a, text), doc_language = LangRust\<rparr>]"

lemma sample_workspaces:
  "workspace_ok (\<lambda>_ _. 0) (sample_workspace a t)"
  "a \<noteq> b \<Longrightarrow> memory_sound (\<lambda>_ _. 0) (sample_workspace a t) (sample_workspace b u)"
  by (simp_all add: workspace_ok_def memory_sound_def workspace_from_documents_def catalog_def
      omap_of_list_def sources_sound_def shares_document_catalog_with_def)

text \<open>The same with one build input, of unchanged identity and languages.\<close>

abbreviation sample_with_input :: "nat \<Rightarrow> string \<Rightarrow> input_identity \<Rightarrow> provider_workspace" where
  "sample_with_input a text ident \<equiv> (sample_workspace a text)
     \<lparr>pw_inputs := (a, [(RepoPath ''Cargo.toml'', \<lparr>input_path = RepoPath ''Cargo.toml'',
        input_languages = [LangRust], input_ident = ident\<rparr>)])\<rparr>"

lemma sample_with_inputs:
  "workspace_ok (\<lambda>_ _. 0) (sample_with_input a t ident)"
  "a \<noteq> b \<Longrightarrow> memory_sound (\<lambda>_ _. 0) (sample_with_input a t ident) (sample_with_input b u ident)"
  by (simp_all add: workspace_ok_def memory_sound_def workspace_from_documents_def catalog_def
      omap_of_list_def sources_sound_def shares_document_catalog_with_def)

text \<open>Without trustworthy identities the unchanged input counts as changed.\<close>

theorem delta_since_exact_witness:
  "\<forall>ident worlds. \<exists>d. polls_for worlds (context_unbounded 0)
      (delta_since_matching_documents_and_inputs (\<lambda>_ _. 0) False worlds (context_unbounded 0)
         (\<lambda>_ _. True) (\<lambda>_ _. True)
         (sample_with_input 2 ''new'' ident) (sample_with_input 1 ''old'' ident)) d \<and>
    length (d_changed d) = 1 \<and> d_inputs_changed d = [RepoPath ''Cargo.toml'']"
proof (intro allI)
  fix ident worlds
  let ?w = "sample_with_input 2 ''new'' ident" and ?v = "sample_with_input 1 ''old'' ident"
  let ?yes = "\<lambda>(_::language) (_::repo_path). True"
  have "memory_sound (\<lambda>_ _. 0) ?w ?v" by (rule sample_with_inputs) simp
  from delta_since_exact [OF sample_with_inputs(1) sample_with_inputs(1) this,
      where worlds = worlds and c = "context_unbounded 0" and want = ?yes and want_input = ?yes and unix = False]
  obtain d where d: "polls_for worlds (context_unbounded 0) (delta_since_matching_documents_and_inputs
        (\<lambda>_ _. 0) False worlds (context_unbounded 0) ?yes ?yes ?w ?v) d"
    "doc_fields d = (only_in doc_path (selected_documents ?yes (catalog (\<lambda>_ _. 0) ?w))
        (selected_documents ?yes (catalog (\<lambda>_ _. 0) ?v)),
      differing doc_path text_differs (selected_documents ?yes (catalog (\<lambda>_ _. 0) ?w))
        (selected_documents ?yes (catalog (\<lambda>_ _. 0) ?v)),
      map doc_path (only_in doc_path (selected_documents ?yes (catalog (\<lambda>_ _. 0) ?v))
        (selected_documents ?yes (catalog (\<lambda>_ _. 0) ?w))))"
    "d_inputs_changed d = (if shares_document_catalog_with ?w ?v \<and> ptr_eq (pw_inputs ?w) (pw_inputs ?v) then []
      else map input_path (differing input_path (input_differs False) (selected_inputs ?yes ?w)
        (selected_inputs ?yes ?v)))"
    unfolding Let_def input_fields_def by blast
  have "length (d_changed d) = 1" using d(2)
    by (simp add: doc_fields_def selected_documents_def catalog_def workspace_from_documents_def
        omap_of_list_def differing_def text_differs_def)
  moreover have "d_inputs_changed d = [RepoPath ''Cargo.toml'']" using d(3)
    by (simp add: selected_inputs_def differing_def input_differs_def)
  ultimately show "\<exists>d. polls_for worlds (context_unbounded 0) (delta_since_matching_documents_and_inputs
        (\<lambda>_ _. 0) False worlds (context_unbounded 0) ?yes ?yes ?w ?v) d \<and> length (d_changed d) = 1 \<and>
      d_inputs_changed d = [RepoPath ''Cargo.toml'']"
    using d(1) by blast
qed

subsection \<open>Replaying a delta\<close>

definition texts :: "provider_document list \<Rightarrow> repo_path \<Rightarrow> string option" where
  "texts docs = map_of (map (\<lambda>d. (doc_path d, snd (doc_source d))) docs)"

text \<open>What a provider does with a delta: forget the deleted paths, take the new texts.\<close>

definition replay :: "workspace_delta \<Rightarrow> (repo_path \<Rightarrow> string option) \<Rightarrow> repo_path \<Rightarrow> string option" where
  "replay d known p =
     (if p \<in> set (d_deleted d) then None
      else (case texts (d_created d @ d_changed d) p of Some t \<Rightarrow> Some t | None \<Rightarrow> known p))"

lemma texts_None: "texts docs p = None \<longleftrightarrow> p \<notin> doc_path ` set docs"
  unfolding texts_def map_of_eq_None_iff by (simp add: image_image)

lemma texts_Some:
  "sorted_on doc_path docs \<Longrightarrow> texts docs p = Some t \<longleftrightarrow>
     (\<exists>d\<in>set docs. doc_path d = p \<and> snd (doc_source d) = t)"
proof -
  assume sorted: "sorted_on doc_path docs"
  have "distinct (map doc_path docs)" using sorted
    by (induction docs) (auto dest: less_imp_neq)
  then have "distinct (map fst (map (\<lambda>d. (doc_path d, snd (doc_source d))) docs))" by (simp add: comp_def)
  from map_of_eq_Some_iff [OF this, of p t] show ?thesis unfolding texts_def by auto
qed

lemma texts_append: "texts (xs @ ys) p = (case texts xs p of None \<Rightarrow> texts ys p | Some t \<Rightarrow> Some t)"
  by (simp add: texts_def map_add_def split: option.split)

lemma replay_texts:
  assumes "sorted_on doc_path ns" "sorted_on doc_path bs"
    "doc_fields d = (only_in doc_path ns bs, differing doc_path text_differs ns bs,
       map doc_path (only_in doc_path bs ns))"
  shows "replay d (texts bs) = texts ns"
proof
  fix p
  have d: "d_created d = only_in doc_path ns bs" "d_changed d = differing doc_path text_differs ns bs"
    "d_deleted d = map doc_path (only_in doc_path bs ns)" using assms(3) by (simp_all add: doc_fields_def)
  have sub: "sorted_on doc_path (only_in doc_path ns bs)" "sorted_on doc_path (differing doc_path text_differs ns bs)"
    using assms(1) by (simp_all add: only_in_def differing_def sorted_on_filter)
  show "replay d (texts bs) p = texts ns p"
  proof (cases "texts ns p")
    case None
    then have gone: "p \<notin> doc_path ` set ns" by (simp add: texts_None)
    then have "p \<in> set (d_deleted d) \<or> texts bs p = None"
      by (auto simp: d(3) only_in_def texts_None)
    moreover have "texts (d_created d @ d_changed d) p = None"
      unfolding texts_None d using gone by (auto simp: only_in_def differing_def)
    ultimately show ?thesis using None by (auto simp: replay_def)
  next
    case (Some t)
    then obtain n where n: "n \<in> set ns" "doc_path n = p" "snd (doc_source n) = t"
      using texts_Some [OF assms(1)] by blast
    have unique: "m = n" if "m \<in> set ns" "doc_path m = p" for m
      using sorted_on_inj [OF assms(1) that(1) n(1)] that(2) n(2) by simp
    have live: "p \<notin> set (d_deleted d)" using n imageI [of n "set ns" doc_path] by (auto simp: d(3) only_in_def)
    show ?thesis
    proof (cases "texts bs p")
      case None
      then have "n \<in> set (only_in doc_path ns bs)" using n by (simp add: only_in_def texts_None)
      then have "texts (only_in doc_path ns bs) p = Some t" using texts_Some [OF sub(1)] n by blast
      then show ?thesis using live Some by (simp add: replay_def d texts_append)
    next
      case (Some u)
      then obtain b where b: "b \<in> set bs" "doc_path b = p" "snd (doc_source b) = u"
        using texts_Some [OF assms(2)] by blast
      then have "texts (only_in doc_path ns bs) p = None"
        using imageI [of b "set bs" doc_path] by (auto simp: texts_None only_in_def)
      moreover have "texts (differing doc_path text_differs ns bs) p = (if t = u then None else Some t)"
      proof (cases "t = u")
        case True
        have "p \<notin> doc_path ` set (differing doc_path text_differs ns bs)"
        proof
          assume "p \<in> doc_path ` set (differing doc_path text_differs ns bs)"
          then obtain m b' where m: "m \<in> set ns" "doc_path m = p" "b' \<in> set bs" "doc_path b' = p"
            "text_differs m b'" by (auto simp: differing_def)
          have "b' = b" using sorted_on_inj [OF assms(2) m(3) b(1)] m(4) b(2) by simp
          with unique [OF m(1,2)] m(5) n(3) b(3) True show False by (simp add: text_differs_def)
        qed
        with True show ?thesis by (simp add: texts_None)
      next
        case False
        then have "n \<in> set (differing doc_path text_differs ns bs)"
          using n b by (auto simp: differing_def text_differs_def)
        then have "texts (differing doc_path text_differs ns bs) p = Some t"
          using texts_Some [OF sub(2)] n by blast
        with False show ?thesis by simp
      qed
      ultimately show ?thesis using live \<open>texts ns p = Some t\<close> Some by (simp add: replay_def d texts_append)
    qed
  qed
qed

text \<open>
  C22: A provider that replays the delta on the documents it had ends with exactly the
  documents of the current revision, so synchronising by deltas never loses or keeps a stale
  text.
\<close>

theorem delta_replay:
  assumes "workspace_ok addr w" "workspace_ok addr v" "memory_sound addr w v"
    "fst (delta_since_matching_documents_and_inputs addr unix worlds c want want_input w v n) = Inr d"
  shows "replay d (texts (selected_documents want (catalog addr v))) =
    texts (selected_documents want (catalog addr w))"
proof -
  let ?ns = "selected_documents want (catalog addr w)"
  let ?bs = "selected_documents want (catalog addr v)"
  have sorted: "sorted_on doc_path ?ns" "sorted_on doc_path ?bs"
    using assms(1,2) unfolding selected_documents_def workspace_ok_def by (auto intro: sorted_on_filter)
  obtain d' where d': "polls_for worlds c
      (delta_since_matching_documents_and_inputs addr unix worlds c want want_input w v) d'"
    "doc_fields d' = (only_in doc_path ?ns ?bs, differing doc_path text_differs ?ns ?bs,
      map doc_path (only_in doc_path ?bs ?ns))"
    using delta_since_fields [OF assms(1-3)] unfolding Let_def by blast
  then have "case fst (delta_since_matching_documents_and_inputs addr unix worlds c want want_input w v n) of
      Inr x \<Rightarrow> x = d' | Inl a \<Rightarrow> abort_seen worlds c n
        (snd (delta_since_matching_documents_and_inputs addr unix worlds c want want_input w v n)) a"
    unfolding polls_for_def by blast
  then have "d = d'" unfolding assms(4) by simp
  with replay_texts [OF sorted d'(2)] show ?thesis by simp
qed

theorem delta_replay_witness:
  "\<exists>d. replay d (texts (catalog (\<lambda>_ _. 0) (sample_workspace 1 ''old''))) =
     texts (catalog (\<lambda>_ _. 0) (sample_workspace 2 ''new''))"
proof -
  let ?w = "sample_workspace 2 ''new''" and ?v = "sample_workspace 1 ''old''"
  let ?worlds = "\<lambda>_. \<lparr>world_cancelled = (\<lambda>_. False), world_now = 0\<rparr>"
  let ?c = "context_unbounded 0"
  let ?delta = "delta_since_matching_documents_and_inputs (\<lambda>_ _. 0) True ?worlds ?c (\<lambda>_ _. True)
    (\<lambda>_ _. True) ?w ?v"
  have m: "memory_sound (\<lambda>_ _. 0) ?w ?v" by (rule sample_workspaces) simp
  have "never_aborts ?worlds ?c"
    by (simp add: never_aborts_def context_check_def context_unbounded_def)
  moreover obtain d where "polls_for ?worlds ?c ?delta d"
    using delta_since_fields [OF sample_workspaces(1) sample_workspaces(1) m] by blast
  ultimately have "fst (?delta 0) = Inr d" by (intro polls_for_result)
  from delta_replay [OF sample_workspaces(1) sample_workspaces(1) m this]
  show ?thesis by (intro exI [of _ d]) (simp add: selected_documents_def)
qed

end
