(* ===== verification/Project_Model.thy ===== *)
theory Project_Model
  imports Chakra_Symbols
begin

section \<open>The project scope model\<close>

text \<open>
  \<open>chakra-domain/src/project.rs\<close>: project units and their ids, ownership of a path,
  selectors, and the typed difference of two model revisions. A \<open>BTreeSet\<close> is a sorted list
  without duplicates, filled by \<open>insort_insert\<close>; a \<open>BTreeMap\<close> is an ordered map of the
  prelude.
\<close>

subsection \<open>Data\<close>

datatype unit_kind = CargoPackage | ComposerPackage | PathFallback

fun unit_kind_tag :: "unit_kind \<Rightarrow> string" where
  "unit_kind_tag CargoPackage = ''cargo''"
| "unit_kind_tag ComposerPackage = ''composer''"
| "unit_kind_tag PathFallback = ''path''"

type_synonym unit_id = string

definition replace_char :: "char \<Rightarrow> string \<Rightarrow> string \<Rightarrow> string" where
  "replace_char c r s = concat (map (\<lambda>x. if x = c then r else [x]) s)"

definition escape_id_component :: "string \<Rightarrow> string" where
  "escape_id_component s = replace_char CHR '':'' ''%3A'' (replace_char CHR ''%'' ''%25'' s)"

definition unit_id_new :: "unit_kind \<Rightarrow> repo_path option \<Rightarrow> string \<Rightarrow> unit_id" where
  "unit_id_new k root name =
     unit_kind_tag k @ '':'' @
     escape_id_component (case root of None \<Rightarrow> ''.'' | Some p \<Rightarrow> path_str p) @ '':'' @
     escape_id_component name"

record source_root =
  root_dir :: "repo_path option"
  root_role :: source_role

datatype dependency_kind = NormalDependency | DevelopmentDependency | BuildDependency

record dependency =
  dep_name :: string
  dep_kind :: dependency_kind
  dep_target :: "unit_id option"

record project_unit =
  unit_id :: unit_id
  unit_kind :: unit_kind
  unit_name :: string
  unit_root :: "repo_path option"
  unit_manifest :: "repo_path option"
  unit_language :: "language option"
  source_roots :: "source_root list"
  source_roots_omitted :: nat
  dependencies :: "dependency list"
  dependencies_omitted :: nat

datatype workspace_kind = CargoWorkspace

instantiation workspace_kind :: linorder
begin

definition less_eq_workspace_kind :: "workspace_kind \<Rightarrow> workspace_kind \<Rightarrow> bool" where
  "(a :: workspace_kind) \<le> b \<longleftrightarrow> True"

definition less_workspace_kind :: "workspace_kind \<Rightarrow> workspace_kind \<Rightarrow> bool" where
  "(a :: workspace_kind) < b \<longleftrightarrow> False"

instance
proof
  fix x y :: workspace_kind
  show "x = y" by (cases x; cases y) simp
qed (simp_all add: less_eq_workspace_kind_def less_workspace_kind_def)

end

record workspace_group =
  group_kind :: workspace_kind
  group_root :: "repo_path option"
  group_members :: "unit_id list"

datatype issue_kind = ProbeFailed | ProbeOmitted | MalformedContent

fun issue_kind_rank :: "issue_kind \<Rightarrow> nat" where
  "issue_kind_rank ProbeFailed = 0"
| "issue_kind_rank ProbeOmitted = 1"
| "issue_kind_rank MalformedContent = 2"

instantiation issue_kind :: linorder
begin

definition less_eq_issue_kind :: "issue_kind \<Rightarrow> issue_kind \<Rightarrow> bool" where
  "a \<le> b \<longleftrightarrow> issue_kind_rank a \<le> issue_kind_rank b"

definition less_issue_kind :: "issue_kind \<Rightarrow> issue_kind \<Rightarrow> bool" where
  "a < b \<longleftrightarrow> issue_kind_rank a < issue_kind_rank b"

instance
proof
  fix x y :: issue_kind
  show "x \<le> y \<Longrightarrow> y \<le> x \<Longrightarrow> x = y" by (cases x; cases y) (simp_all add: less_eq_issue_kind_def)
qed (auto simp: less_eq_issue_kind_def less_issue_kind_def)

end

record manifest_issue =
  issue_manifest :: repo_path
  issue_kind :: issue_kind

datatype ownership =
    Unassigned
  | OwnedBy unit_id
  | AmbiguousOwners "unit_id list" nat

record scope_selector =
  sel_unit :: "unit_id option"
  sel_package :: "string option"

datatype scope_error = InvalidSelector | UnknownUnit unit_id | UnknownPackage string

datatype unit_change_kind =
    UnitAdded | UnitRemoved | DefinitionChanged | SourceRootsChanged | DependenciesChanged
  | MembershipChanged

fun unit_change_rank :: "unit_change_kind \<Rightarrow> nat" where
  "unit_change_rank UnitAdded = 0"
| "unit_change_rank UnitRemoved = 1"
| "unit_change_rank DefinitionChanged = 2"
| "unit_change_rank SourceRootsChanged = 3"
| "unit_change_rank DependenciesChanged = 4"
| "unit_change_rank MembershipChanged = 5"

instantiation unit_change_kind :: linorder
begin

definition less_eq_unit_change_kind :: "unit_change_kind \<Rightarrow> unit_change_kind \<Rightarrow> bool" where
  "a \<le> b \<longleftrightarrow> unit_change_rank a \<le> unit_change_rank b"

definition less_unit_change_kind :: "unit_change_kind \<Rightarrow> unit_change_kind \<Rightarrow> bool" where
  "a < b \<longleftrightarrow> unit_change_rank a < unit_change_rank b"

instance
proof
  fix x y :: unit_change_kind
  show "x \<le> y \<Longrightarrow> y \<le> x \<Longrightarrow> x = y"
    by (cases x; cases y) (simp_all add: less_eq_unit_change_kind_def)
qed (auto simp: less_eq_unit_change_kind_def less_unit_change_kind_def)

end

record unit_change =
  change_unit :: unit_id
  change_kinds :: "unit_change_kind list"

record change_counts =
  n_added :: nat
  n_removed :: nat
  n_definition_changed :: nat
  n_source_roots_changed :: nat
  n_dependencies_changed :: nat
  n_membership_changed :: nat

record model_impact =
  changes :: "unit_change list"
  changes_omitted :: nat
  dependents :: "unit_id list"
  dependents_omitted :: nat
  manifest_issue_changes :: "repo_path list"
  manifest_issue_changes_omitted :: nat

record project_model =
  workspaces :: "workspace_group list"
  workspaces_omitted :: nat
  units :: "project_unit list"
  units_omitted :: nat
  issues :: "manifest_issue list"
  issues_omitted :: nat

definition max_project_units :: nat where "max_project_units = 256"
definition max_project_issues :: nat where "max_project_issues = 64"
definition max_ambiguity_candidates :: nat where "max_ambiguity_candidates = 16"

subsection \<open>Ownership\<close>

definition path_within :: "repo_path option \<Rightarrow> repo_path \<Rightarrow> bool" where
  "path_within root p =
     (case root of
        None \<Rightarrow> True
      | Some r \<Rightarrow> p = r \<or>
          (case strip_prefix (path_str r) (path_str p) of
             None \<Rightarrow> False | Some suffix \<Rightarrow> starts_with ''/'' suffix))"

definition root_depth :: "repo_path option \<Rightarrow> nat" where
  "root_depth root = (case root of None \<Rightarrow> 0 | Some r \<Rightarrow> length (path_str r))"

definition claim_depth :: "project_unit \<Rightarrow> repo_path \<Rightarrow> nat option" where
  "claim_depth u p =
     (case unit_kind u of
        ComposerPackage \<Rightarrow>
          max_by_key (\<lambda>d. d)
            (map (\<lambda>r. root_depth (root_dir r)) (filter (\<lambda>r. path_within (root_dir r) p) (source_roots u)))
      | _ \<Rightarrow> if path_within (unit_root u) p then Some (root_depth (unit_root u)) else None)"

text \<open>One unit of the loop in \<open>ownership\<close>: the best depth so far and its candidates.\<close>

definition claim_step ::
    "language \<Rightarrow> repo_path \<Rightarrow> project_unit \<Rightarrow> nat option \<times> unit_id list \<Rightarrow> nat option \<times> unit_id list" where
  "claim_step lang p u st =
     (if unit_kind u = PathFallback \<or> unit_language u \<noteq> Some lang then st
      else
        (case claim_depth u p of
           None \<Rightarrow> st
         | Some d \<Rightarrow>
             (case st of
                (None, cands) \<Rightarrow> (Some d, cands @ [unit_id u])
              | (Some cur, cands) \<Rightarrow>
                  if cur < d then (Some d, [unit_id u])
                  else if d = cur then (Some cur, push_new (unit_id u) cands)
                  else (Some cur, cands))))"

definition ownership :: "project_model \<Rightarrow> repo_path \<Rightarrow> language \<Rightarrow> ownership" where
  "ownership m p lang =
     (let candidates = snd (fold (claim_step lang p) (units m) (None, []))
      in case candidates of
           [] \<Rightarrow>
             (case max_by_key (\<lambda>u. root_depth (unit_root u))
                     (filter (\<lambda>u. path_within (unit_root u) p)
                       (filter (\<lambda>u. unit_kind u = PathFallback) (units m))) of
                None \<Rightarrow> Unassigned | Some u \<Rightarrow> OwnedBy (unit_id u))
         | [i] \<Rightarrow> OwnedBy i
         | _ \<Rightarrow>
             (let sorted = sort candidates
              in AmbiguousOwners (take max_ambiguity_candidates sorted)
                   (sat_sub (length sorted) max_ambiguity_candidates)))"

subsection \<open>Selectors\<close>

definition unit_of :: "project_model \<Rightarrow> unit_id \<Rightarrow> project_unit option" where
  "unit_of m i = find (\<lambda>u. unit_id u = i) (units m)"

definition resolve_selector :: "project_model \<Rightarrow> scope_selector \<Rightarrow> scope_error + unit_id list" where
  "resolve_selector m sel =
     (case (sel_unit sel, sel_package sel) of
        (Some i, None) \<Rightarrow> if unit_of m i \<noteq> None then Inr [i] else Inl (UnknownUnit i)
      | (None, Some package) \<Rightarrow>
          (let found = to_set (map unit_id (filter (\<lambda>u. unit_name u = package) (units m)))
           in if found = [] then Inl (UnknownPackage package) else Inr found)
      | _ \<Rightarrow> Inl InvalidSelector)"

subsection \<open>The difference of two revisions\<close>

definition set_entry_insert ::
    "'k::linorder \<Rightarrow> 'v::linorder \<Rightarrow> ('k, 'v list) omap \<Rightarrow> ('k, 'v list) omap" where
  "set_entry_insert k v m = omap_insert k (insort_insert v (omap_get_or [] m k)) m"

definition workspace_membership ::
    "project_model \<Rightarrow> (unit_id, (workspace_kind \<times> repo_path option) list) omap" where
  "workspace_membership m =
     fold (\<lambda>w acc. fold (\<lambda>i. set_entry_insert i (group_kind w, group_root w)) (group_members w) acc)
       (workspaces m) []"

definition issue_kinds_by_manifest :: "project_model \<Rightarrow> (repo_path, issue_kind list) omap" where
  "issue_kinds_by_manifest m =
     fold (\<lambda>i. set_entry_insert (issue_manifest i) (issue_kind i)) (issues m) []"

definition units_by_id :: "project_model \<Rightarrow> (unit_id, project_unit) omap" where
  "units_by_id m = omap_of_list (map (\<lambda>u. (unit_id u, u)) (units m))"

definition current_unit_kinds :: "(unit_id, project_unit) omap \<Rightarrow> unit_id \<Rightarrow> project_unit \<Rightarrow> unit_change_kind list" where
  "current_unit_kinds previous i u =
     (case omap_get previous i of
        None \<Rightarrow> [UnitAdded]
      | Some old \<Rightarrow>
          to_set
            ((if source_roots u \<noteq> source_roots old \<or> source_roots_omitted u \<noteq> source_roots_omitted old
              then [SourceRootsChanged] else []) @
             (if dependencies u \<noteq> dependencies old \<or> dependencies_omitted u \<noteq> dependencies_omitted old
              then [DependenciesChanged] else []) @
             (if unit_manifest u \<noteq> unit_manifest old \<or> unit_language u \<noteq> unit_language old
              then [DefinitionChanged] else [])))"

definition changed_kinds :: "project_model \<Rightarrow> project_model \<Rightarrow> (unit_id, unit_change_kind list) omap" where
  "changed_kinds m previous =
     (let old_units = units_by_id previous;
          new_units = units_by_id m;
          k1 = fold (\<lambda>(i, u) acc.
                 let ks = current_unit_kinds old_units i u
                 in if ks = [] then acc else omap_insert i ks acc) new_units [];
          k2 = fold (\<lambda>i acc. if omap_get new_units i = None then set_entry_insert i UnitRemoved acc else acc)
                 (omap_keys old_units) k1;
          old_membership = workspace_membership previous;
          new_membership = workspace_membership m
      in fold (\<lambda>i acc.
             if omap_get old_membership i = omap_get new_membership i then acc
             else if omap_get old_units i \<noteq> None \<and> omap_get new_units i \<noteq> None
             then set_entry_insert i MembershipChanged acc else acc)
           (to_set (omap_keys old_membership @ omap_keys new_membership)) k2)"

definition dependent_units :: "project_model \<Rightarrow> project_model \<Rightarrow> unit_id list \<Rightarrow> unit_id list" where
  "dependent_units m previous changed =
     to_set (map unit_id (filter
       (\<lambda>u. unit_id u \<notin> set changed \<and>
          list_ex (\<lambda>d. case dep_target d of None \<Rightarrow> False | Some t \<Rightarrow> t \<in> set changed) (dependencies u))
       (units previous @ units m)))"

definition issue_changes :: "project_model \<Rightarrow> project_model \<Rightarrow> repo_path list" where
  "issue_changes m previous =
     (let old = issue_kinds_by_manifest previous; new = issue_kinds_by_manifest m
      in filter (\<lambda>p. omap_get old p \<noteq> omap_get new p) (to_set (omap_keys old @ omap_keys new)))"

definition impact_since :: "project_model \<Rightarrow> project_model \<Rightarrow> model_impact" where
  "impact_since m previous =
     (let kinds = changed_kinds m previous;
          kept = take max_project_units (map (\<lambda>(i, ks). \<lparr>change_unit = i, change_kinds = ks\<rparr>) kinds);
          deps = dependent_units m previous (omap_keys kinds);
          kept_deps = take max_project_units deps;
          changed = issue_changes m previous;
          kept_changed = take max_project_issues changed
      in \<lparr>changes = kept, changes_omitted = sat_sub (length kinds) (length kept),
          dependents = kept_deps, dependents_omitted = sat_sub (length deps) (length kept_deps),
          manifest_issue_changes = kept_changed,
          manifest_issue_changes_omitted = sat_sub (length changed) (length kept_changed)\<rparr>)"

definition impact_is_empty :: "model_impact \<Rightarrow> bool" where
  "impact_is_empty i \<longleftrightarrow>
     changes i = [] \<and> changes_omitted i = 0 \<and> dependents i = [] \<and>
     manifest_issue_changes i = [] \<and> manifest_issue_changes_omitted i = 0"

definition counts_default :: change_counts where
  "counts_default = \<lparr>n_added = 0, n_removed = 0, n_definition_changed = 0,
     n_source_roots_changed = 0, n_dependencies_changed = 0, n_membership_changed = 0\<rparr>"

fun count_kind :: "unit_change_kind \<Rightarrow> change_counts \<Rightarrow> change_counts" where
  "count_kind UnitAdded c = c\<lparr>n_added := n_added c + 1\<rparr>"
| "count_kind UnitRemoved c = c\<lparr>n_removed := n_removed c + 1\<rparr>"
| "count_kind DefinitionChanged c = c\<lparr>n_definition_changed := n_definition_changed c + 1\<rparr>"
| "count_kind SourceRootsChanged c = c\<lparr>n_source_roots_changed := n_source_roots_changed c + 1\<rparr>"
| "count_kind DependenciesChanged c = c\<lparr>n_dependencies_changed := n_dependencies_changed c + 1\<rparr>"
| "count_kind MembershipChanged c = c\<lparr>n_membership_changed := n_membership_changed c + 1\<rparr>"

definition impact_counts :: "model_impact \<Rightarrow> change_counts" where
  "impact_counts i = fold (\<lambda>c. fold count_kind (change_kinds c)) (changes i) counts_default"

end
