(* ===== verification/Project_Properties.thy ===== *)
theory Project_Properties
  imports Project_Model
begin

section \<open>Properties of the project model\<close>

text \<open>
  Unit ids are unambiguous, a root claims exactly the paths below it, ownership goes to the
  deepest claim, and the difference of two revisions reports exactly what changed.
\<close>

subsection \<open>Unit ids\<close>

definition escape_char :: "char \<Rightarrow> string" where
  "escape_char c = (if c = CHR ''%'' then ''%25'' else if c = CHR '':'' then ''%3A'' else [c])"

lemma escape_map: "escape_id_component s = concat (map escape_char s)"
  by (induction s) (simp_all add: escape_id_component_def replace_char_def escape_char_def)

lemma escape_no_colon: "CHR '':'' \<notin> set (escape_id_component s)"
  unfolding escape_map by (induction s) (auto simp: escape_char_def)

lemma escape_inj: "escape_id_component s = escape_id_component t \<Longrightarrow> s = t"
  unfolding escape_map
proof (induction s arbitrary: t)
  case Nil
  then show ?case by (cases t) (auto simp: escape_char_def split: if_splits)
next
  case (Cons c s)
  then obtain d t' where t: "t = d # t'" by (cases t) (auto simp: escape_char_def split: if_splits)
  with Cons.prems have "escape_char c @ concat (map escape_char s) =
      escape_char d @ concat (map escape_char t')" by simp
  then have "c = d \<and> concat (map escape_char s) = concat (map escape_char t')"
    by (cases "c = CHR ''%''"; cases "c = CHR '':''"; cases "d = CHR ''%''"; cases "d = CHR '':''")
      (auto simp: escape_char_def [of c] escape_char_def [of d] escape_char_def [of "CHR '':''"]
         escape_char_def [of "CHR ''%''"])
  with Cons.IH t show ?case by blast
qed

lemma split_at_first:
  "c \<notin> set xs \<Longrightarrow> c \<notin> set ys \<Longrightarrow> xs @ c # us = ys @ c # vs \<Longrightarrow> xs = ys \<and> us = vs"
proof (induction xs arbitrary: ys)
  case Nil
  then show ?case by (cases ys) auto
next
  case (Cons x xs)
  then show ?case by (cases ys) auto
qed

lemma unit_kind_tag_inj: "unit_kind_tag k = unit_kind_tag k' \<Longrightarrow> k = k'"
  by (cases k; cases k') simp_all

lemma unit_kind_tag_no_colon: "CHR '':'' \<notin> set (unit_kind_tag k)"
  by (cases k) simp_all

text \<open>
  C17: Unit ids are unambiguous: two units with valid roots get the same id only when kind,
  root and name are all the same, whatever \<open>:\<close> and \<open>%\<close> the root and name contain.
\<close>

theorem unit_id_unambiguous:
  assumes "unit_id_new k r n = unit_id_new k' r' n'"
    and "\<forall>p\<in>set_option r \<union> set_option r'. repo_path_ok p"
  shows "k = k' \<and> r = r' \<and> n = n'"
proof -
  let ?s = "\<lambda>r. case r of None \<Rightarrow> ''.'' | Some p \<Rightarrow> path_str p"
  from assms(1) have "unit_kind_tag k @ CHR '':'' # (escape_id_component (?s r) @ CHR '':'' # escape_id_component n) =
      unit_kind_tag k' @ CHR '':'' # (escape_id_component (?s r') @ CHR '':'' # escape_id_component n')"
    by (simp add: unit_id_new_def)
  from split_at_first [OF unit_kind_tag_no_colon unit_kind_tag_no_colon this]
  have k: "unit_kind_tag k = unit_kind_tag k'"
    and rest: "escape_id_component (?s r) @ CHR '':'' # escape_id_component n =
      escape_id_component (?s r') @ CHR '':'' # escape_id_component n'" by simp_all
  from split_at_first [OF escape_no_colon escape_no_colon rest]
  have "?s r = ?s r'" "n = n'" using escape_inj by blast+
  moreover have "r = r'" if "?s r = ?s r'"
  proof (cases r; cases r')
    fix p assume "r = None" "r' = Some p"
    with assms(2) that repo_path_okD(5) [of p] show ?thesis by simp
  next
    fix p assume "r = Some p" "r' = None"
    with assms(2) that repo_path_okD(5) [of p] show ?thesis by simp
  next
    fix p q assume "r = Some p" "r' = Some q"
    with that show ?thesis by (simp add: repo_path.expand)
  qed simp
  ultimately show ?thesis using unit_kind_tag_inj [OF k] by blast
qed

theorem unit_id_unambiguous_witness:
  "unit_id_new CargoPackage (Some (RepoPath ''a:b'')) ''c'' \<noteq>
   unit_id_new CargoPackage (Some (RepoPath ''a'')) ''b:c''"
proof
  assume *: "unit_id_new CargoPackage (Some (RepoPath ''a:b'')) ''c'' =
    unit_id_new CargoPackage (Some (RepoPath ''a'')) ''b:c''"
  have "repo_path_ok (RepoPath ''a:b'')" "repo_path_ok (RepoPath ''a'')"
    by (simp_all add: repo_path_ok_def repo_path_new_def starts_with_def ends_with_def dot_component_def)
  with unit_id_unambiguous [OF *] show False by simp
qed

subsection \<open>Ownership\<close>

lemma split_on_append_sep: "split_on c (xs @ c # ys) = split_on c xs @ split_on c ys"
proof (induction xs)
  case (Cons x xs)
  then show ?case using split_on_nonempty [of c xs] by (cases "split_on c xs") auto
qed simp

lemma split_on_inj: "split_on c xs = split_on c ys \<Longrightarrow> xs = ys"
proof (induction xs arbitrary: ys)
  case Nil
  then show ?case using split_on_nonempty [of c "tl ys"]
    by (cases ys) (auto split: if_splits list.splits)
next
  case (Cons x xs)
  then obtain y ys' where ys: "ys = y # ys'"
    using split_on_nonempty [of c xs] by (cases ys) (auto split: if_splits list.splits)
  obtain w ws v vs where wv: "split_on c xs = w # ws" "split_on c ys' = v # vs"
    using split_on_nonempty by (metis neq_Nil_conv)
  have "x = y \<and> split_on c xs = split_on c ys'"
    using Cons.prems wv unfolding ys by (auto split: if_splits)
  with Cons.IH ys show ?case by blast
qed

lemma split_on_append_iff:
  "split_on c ys = split_on c xs @ zs \<and> zs \<noteq> [] \<Longrightarrow> \<exists>us. ys = xs @ c # us"
proof (induction xs arbitrary: ys)
  case Nil
  then have "ys \<noteq> []" by auto
  then obtain y ys' where ys: "ys = y # ys'" by (cases ys) auto
  obtain v vs where "split_on c ys' = v # vs" using split_on_nonempty by (metis neq_Nil_conv)
  with Nil ys show ?case by (auto split: if_splits)
next
  case (Cons x xs)
  have "ys \<noteq> []"
  proof
    assume "ys = []"
    then have "split_on c (x # xs) @ zs = [[]]" using Cons.prems by (metis split_on.simps(1))
    with split_on_nonempty [of c "x # xs"] Cons.prems show False
      by (auto simp only: append_eq_Cons_conv append_is_Nil_conv)
  qed
  then obtain y ys' where ys: "ys = y # ys'" by (cases ys) auto
  obtain w ws v vs where wv: "split_on c xs = w # ws" "split_on c ys' = v # vs"
    using split_on_nonempty by (metis neq_Nil_conv)
  have "x = y \<and> split_on c ys' = split_on c xs @ zs"
    using Cons.prems wv unfolding ys by (auto split: if_splits)
  with Cons.IH [of ys'] Cons.prems ys show ?case by auto
qed

text \<open>
  A unit root claims exactly the paths at or below it: the components of the root are
  the first components of the path; the repository root claims every path. In particular
  \<open>src/a\<close> does not claim \<open>src/ab\<close>.
\<close>

theorem path_within_components:
  "path_within None p \<and>
   (path_within (Some r) p \<longleftrightarrow>
      (\<exists>rest. split_on CHR ''/'' (path_str p) = split_on CHR ''/'' (path_str r) @ rest))"
proof -
  have "path_within (Some r) p \<longleftrightarrow> p = r \<or> (\<exists>us. path_str p = path_str r @ CHR ''/'' # us)"
    by (cases "strip_prefix (path_str r) (path_str p)")
      (auto simp: path_within_def starts_with_iff strip_prefix_Some_iff,
       auto simp: strip_prefix_def starts_with_iff)
  also have "\<dots> \<longleftrightarrow> (\<exists>rest. split_on CHR ''/'' (path_str p) = split_on CHR ''/'' (path_str r) @ rest)"
  proof
    assume "p = r \<or> (\<exists>us. path_str p = path_str r @ CHR ''/'' # us)"
    then show "\<exists>rest. split_on CHR ''/'' (path_str p) = split_on CHR ''/'' (path_str r) @ rest"
      by (auto simp: split_on_append_sep)
  next
    assume "\<exists>rest. split_on CHR ''/'' (path_str p) = split_on CHR ''/'' (path_str r) @ rest"
    then obtain rest where rest: "split_on CHR ''/'' (path_str p) = split_on CHR ''/'' (path_str r) @ rest" ..
    show "p = r \<or> (\<exists>us. path_str p = path_str r @ CHR ''/'' # us)"
    proof (cases "rest = []")
      case True
      with rest have "path_str p = path_str r" by (auto intro: split_on_inj)
      then show ?thesis by (simp add: repo_path.expand)
    next
      case False
      with rest show ?thesis using split_on_append_iff by blast
    qed
  qed
  finally show ?thesis by (simp add: path_within_def)
qed

definition ecosystem_claim :: "language \<Rightarrow> repo_path \<Rightarrow> project_unit \<Rightarrow> nat \<Rightarrow> bool" where
  "ecosystem_claim lang p u d \<longleftrightarrow>
     unit_kind u \<noteq> PathFallback \<and> unit_language u = Some lang \<and> claim_depth u p = Some d"

definition claimants :: "project_unit list \<Rightarrow> language \<Rightarrow> repo_path \<Rightarrow> nat \<Rightarrow> unit_id set" where
  "claimants us lang p d = {unit_id u |u. u \<in> set us \<and> ecosystem_claim lang p u d}"

lemma claim_step_cases:
  "claim_step lang p u st =
     (if \<exists>d. ecosystem_claim lang p u d
      then (let d = the (claim_depth u p)
            in case st of
                 (None, cands) \<Rightarrow> (Some d, cands @ [unit_id u])
               | (Some cur, cands) \<Rightarrow>
                   if cur < d then (Some d, [unit_id u])
                   else if d = cur then (Some cur, push_new (unit_id u) cands)
                   else (Some cur, cands))
      else st)"
  by (cases "claim_depth u p"; cases "unit_kind u = PathFallback"; cases "unit_language u = Some lang")
    (simp_all add: claim_step_def ecosystem_claim_def)

lemma claim_fold:
  "(case fold (claim_step lang p) us (None, []) of
      (None, cands) \<Rightarrow> cands = [] \<and> (\<forall>u\<in>set us. \<forall>d. \<not> ecosystem_claim lang p u d)
    | (Some d, cands) \<Rightarrow> cands \<noteq> [] \<and> distinct cands \<and> set cands = claimants us lang p d \<and>
        (\<forall>u\<in>set us. \<forall>e. ecosystem_claim lang p u e \<longrightarrow> e \<le> d))"
proof (induction us rule: rev_induct)
  case (snoc u us)
  let ?st = "fold (claim_step lang p) us (None, [])"
  have snoc_claimants: "claimants (us @ [u]) lang p d =
      (if ecosystem_claim lang p u d then insert (unit_id u) (claimants us lang p d)
       else claimants us lang p d)" for d
    by (auto simp: claimants_def)
  show ?case
  proof (cases "\<exists>d. ecosystem_claim lang p u d")
    case False
    then have "fold (claim_step lang p) (us @ [u]) (None, []) = ?st" by (simp add: claim_step_cases)
    with snoc.IH False show ?thesis by (auto simp: snoc_claimants split: option.splits)
  next
    case True
    then obtain d where d: "ecosystem_claim lang p u d" by blast
    then have the: "the (claim_depth u p) = d" and uniq: "ecosystem_claim lang p u e \<longleftrightarrow> e = d" for e
      by (auto simp: ecosystem_claim_def)
    show ?thesis
    proof (cases "fst ?st")
      case None
      then obtain c where st: "?st = (None, c)" by (cases ?st) auto
      with snoc.IH have "c = []" "\<forall>v\<in>set us. \<forall>e. \<not> ecosystem_claim lang p v e" by auto
      moreover from this have "claimants us lang p d = {}" by (auto simp: claimants_def)
      moreover from st True \<open>c = []\<close>
      have "fold (claim_step lang p) (us @ [u]) (None, []) = (Some d, [unit_id u])"
        by (simp add: claim_step_cases Let_def the)
      ultimately show ?thesis by (auto simp: snoc_claimants uniq)
    next
      case (Some cur)
      then obtain c where st: "?st = (Some cur, c)" by (cases ?st) auto
      with snoc.IH have c: "c \<noteq> []" "distinct c" "set c = claimants us lang p cur"
        "\<forall>v\<in>set us. \<forall>e. ecosystem_claim lang p v e \<longrightarrow> e \<le> cur" by auto
      have above: "claimants us lang p d = {}" if "cur < d"
        using c(4) that by (force simp: claimants_def)
      from st True have "fold (claim_step lang p) (us @ [u]) (None, []) =
          (if cur < d then (Some d, [unit_id u])
           else if d = cur then (Some cur, push_new (unit_id u) c) else (Some cur, c))"
        by (simp add: claim_step_cases Let_def the)
      moreover have "e \<le> d" if "cur < d" "v \<in> set us" "ecosystem_claim lang p v e" for v e
        using c(4) that by (meson le_less_trans less_imp_le)
      ultimately show ?thesis using c above
        by (cases "cur < d"; cases "d = cur") (auto simp: snoc_claimants uniq push_new_def)
    qed
  qed
qed simp

text \<open>
  C18: Ownership goes to the deepest claim. If some ecosystem unit of the language claims
  the path, the result is the one unit, or for several the sorted candidates (the first
  sixteen, the rest counted), at the greatest claimed depth; if none claims it, the deepest
  path-fallback unit, or nothing.
\<close>

theorem ownership_deepest:
  "case ownership m p lang of
     OwnedBy i \<Rightarrow>
       (\<exists>d. claimants (units m) lang p d = {i} \<and> (\<forall>e>d. claimants (units m) lang p e = {})) \<or>
       (\<forall>d. claimants (units m) lang p d = {}) \<and>
         (\<exists>u\<in>set (units m). unit_id u = i \<and> unit_kind u = PathFallback \<and> path_within (unit_root u) p \<and>
            (\<forall>v\<in>set (units m). unit_kind v = PathFallback \<and> path_within (unit_root v) p \<longrightarrow>
               root_depth (unit_root v) \<le> root_depth (unit_root u)))
   | AmbiguousOwners cands omitted \<Rightarrow>
       (\<exists>d. 2 \<le> card (claimants (units m) lang p d) \<and>
          (\<forall>e>d. claimants (units m) lang p e = {}) \<and>
          cands = take max_ambiguity_candidates (sorted_list_of_set (claimants (units m) lang p d)) \<and>
          length cands + omitted = card (claimants (units m) lang p d))
   | Unassigned \<Rightarrow>
       (\<forall>d. claimants (units m) lang p d = {}) \<and>
       (\<forall>u\<in>set (units m). unit_kind u = PathFallback \<longrightarrow> \<not> path_within (unit_root u) p)"
proof -
  let ?st = "fold (claim_step lang p) (units m) (None, [])"
  let ?fb = "filter (\<lambda>u. path_within (unit_root u) p) (filter (\<lambda>u. unit_kind u = PathFallback) (units m))"
  let ?depth = "\<lambda>u. root_depth (unit_root u)"
  show ?thesis
  proof (cases "fst ?st")
    case None
    then have st: "?st = (None, [])" "\<forall>d. claimants (units m) lang p d = {}"
      using claim_fold [where lang = lang and p = p and us = "units m"] by (cases ?st; auto simp: claimants_def)+
    show ?thesis
    proof (cases "max_by_key ?depth ?fb")
      case None
      then have "ownership m p lang = Unassigned" using st(1)
        by (simp add: ownership_def del: max_by_key_None_iff filter_filter)
      moreover from None have "?fb = []" by simp
      ultimately show ?thesis using st(2) by (auto simp: filter_empty_conv)
    next
      case (Some u)
      then have own: "ownership m p lang = OwnedBy (unit_id u)" using st(1)
        by (simp add: ownership_def del: filter_filter)
      have "u \<in> set ?fb" using Some by (rule max_by_key_in)
      moreover have "\<forall>v\<in>set ?fb. ?depth v \<le> ?depth u" using max_by_key_le [OF Some] by blast
      ultimately show ?thesis unfolding own using st(2) by (auto intro!: bexI [of _ u])
    qed
  next
    case (Some d)
    then obtain cands where st: "?st = (Some d, cands)" by (cases ?st) auto
    then have c: "cands \<noteq> []" "distinct cands" "set cands = claimants (units m) lang p d"
      "\<forall>u\<in>set (units m). \<forall>e. ecosystem_claim lang p u e \<longrightarrow> e \<le> d"
      using claim_fold [where lang = lang and p = p and us = "units m"] by auto
    have top: "\<forall>e>d. claimants (units m) lang p e = {}"
      using c(4) by (auto simp: claimants_def) (use leD in blast)
    show ?thesis
    proof (cases "length cands = 1")
      case True
      then obtain i where i: "cands = [i]" by (auto simp: length_Suc_conv)
      then have own: "ownership m p lang = OwnedBy i" using st by (simp add: ownership_def)
      have "claimants (units m) lang p d = {i}" using c(3) i by simp
      with top show ?thesis unfolding own by auto
    next
      case False
      with c(1) obtain x y zs where xy: "cands = x # y # zs"
        by (metis One_nat_def length_Cons list.size(3) neq_Nil_conv)
      have sorted: "sort cands = sorted_list_of_set (claimants (units m) lang p d)"
        using c(2,3) by (metis sorted_list_of_set_sort_remdups remdups_id_iff_distinct)
      have card: "card (claimants (units m) lang p d) = length cands"
        using c(2,3) by (metis distinct_card)
      have own: "ownership m p lang =
          AmbiguousOwners (take max_ambiguity_candidates (sort cands))
            (length cands - max_ambiguity_candidates)"
        using st xy by (simp add: ownership_def Let_def)
      have "2 \<le> card (claimants (units m) lang p d)" using card xy by simp
      moreover have "length (take max_ambiguity_candidates (sort cands)) +
          (length cands - max_ambiguity_candidates) = card (claimants (units m) lang p d)"
        by (simp add: card)
      ultimately show ?thesis using top unfolding own ownership.case sorted
        by (intro exI [of _ d] conjI) simp_all
    qed
  qed
qed

abbreviation sample_package :: "string \<Rightarrow> string \<Rightarrow> project_unit" where
  "sample_package i dir \<equiv> \<lparr>unit_id = i, unit_kind = CargoPackage, unit_name = i,
     unit_root = Some (RepoPath dir), unit_manifest = None, unit_language = Some LangRust,
     source_roots = [], source_roots_omitted = 0, dependencies = [], dependencies_omitted = 0\<rparr>"

abbreviation sample_model :: "project_unit list \<Rightarrow> project_model" where
  "sample_model us \<equiv> \<lparr>workspaces = [], workspaces_omitted = 0, units = us, units_omitted = 0,
     issues = [], issues_omitted = 0\<rparr>"

theorem ownership_deepest_witness:
  "\<exists>d. claimants [sample_package ''x'' ''src'', sample_package ''y'' ''src/a''] LangRust (RepoPath ''src/a/l.rs'') d =
     {''y''}"
proof -
  let ?m = "sample_model [sample_package ''x'' ''src'', sample_package ''y'' ''src/a'']"
  have "ownership ?m (RepoPath ''src/a/l.rs'') LangRust = OwnedBy ''y''"
    by (simp add: ownership_def claim_step_def claim_depth_def path_within_def root_depth_def
        strip_prefix_def starts_with_def)
  with ownership_deepest [where m = ?m and p = "RepoPath ''src/a/l.rs''" and lang = LangRust] show ?thesis by auto
qed

end
