(* ===== verification/Project_Impact.thy ===== *)
theory Project_Impact
  imports Project_Properties
begin

section \<open>The difference of two model revisions\<close>

text \<open>
  \<open>impact_since\<close> is computed from ordered maps of change kinds; here it is related to what it
  means: which reasons apply to a unit, which units depend on a changed one, and which
  manifests changed their recorded issues.
\<close>

subsection \<open>Maps of sets\<close>

definition set_map_ok :: "('k::linorder, 'v::linorder list) omap \<Rightarrow> bool" where
  "set_map_ok m \<longleftrightarrow> omap_ok m \<and> (\<forall>k v. omap_get m k = Some v \<longrightarrow> v \<noteq> [] \<and> sorted v \<and> distinct v)"

abbreviation set_at :: "('k, 'v list) omap \<Rightarrow> 'k \<Rightarrow> 'v set" where
  "set_at m k \<equiv> set (omap_get_or [] m k)"

lemma set_map_ok_Nil [simp]: "set_map_ok []"
  by (simp add: set_map_ok_def)

lemma insort_insert_not_Nil: "insort_insert x xs \<noteq> []"
  by (metis insertI1 empty_iff list.set(1) set_insort_insert)

lemma set_map_ok_entry:
  assumes "set_map_ok m"
  shows "set_map_ok (set_entry_insert k v m)"
    "set_at (set_entry_insert k v m) x = (if x = k then insert v (set_at m k) else set_at m x)"
proof -
  have "sorted (omap_get_or [] m k)" "distinct (omap_get_or [] m k)"
    using assms by (auto simp: set_map_ok_def omap_get_or_def split: option.split)
  then show "set_map_ok (set_entry_insert k v m)"
    using assms by (auto simp: set_map_ok_def set_entry_insert_def insort_insert_not_Nil
        sorted_insort_insert distinct_insort_insert)
  show "set_at (set_entry_insert k v m) x = (if x = k then insert v (set_at m k) else set_at m x)"
    by (simp add: set_entry_insert_def set_insort_insert)
qed

lemma set_map_ok_fold_pairs:
  assumes "set_map_ok m"
  shows "set_map_ok (fold (\<lambda>(k, v). set_entry_insert k v) kvs m) \<and>
    set_at (fold (\<lambda>(k, v). set_entry_insert k v) kvs m) x = set_at m x \<union> {v. (x, v) \<in> set kvs}"
  using assms
proof (induction kvs arbitrary: m)
  case (Cons kv kvs)
  obtain k v where kv: "kv = (k, v)" by (cases kv)
  with Cons.IH [OF set_map_ok_entry(1) [OF Cons.prems]] set_map_ok_entry(2) [OF Cons.prems]
  show ?case by auto
qed simp

lemma set_map_ok_fold_if:
  assumes "set_map_ok m"
  shows "set_map_ok (fold (\<lambda>k m. if P k then set_entry_insert k v m else m) ks m) \<and>
    set_at (fold (\<lambda>k m. if P k then set_entry_insert k v m else m) ks m) x =
      set_at m x \<union> (if x \<in> set ks \<and> P x then {v} else {})"
  using assms
proof (induction ks arbitrary: m)
  case (Cons k ks)
  show ?case
  proof (cases "P k")
    case True
    with Cons.IH [OF set_map_ok_entry(1) [OF Cons.prems]] set_map_ok_entry(2) [OF Cons.prems]
    show ?thesis by auto
  next
    case False
    with Cons.IH [OF Cons.prems] show ?thesis by auto
  qed
qed simp

lemma set_map_get:
  assumes "set_map_ok m"
  shows "omap_get m k = (if set_at m k = {} then None else Some (sorted_list_of_set (set_at m k)))"
proof (cases "omap_get m k")
  case (Some v)
  with assms have "v \<noteq> []" "sorted v" "distinct v" by (auto simp: set_map_ok_def)
  with Some show ?thesis
    by (simp add: omap_get_or_def sorted_list_of_set.idem_if_sorted_distinct)
qed (simp add: omap_get_or_def)

lemma set_map_get_eq:
  assumes "set_map_ok m" "set_map_ok n"
  shows "omap_get m k = omap_get n k \<longleftrightarrow> set_at m k = set_at n k"
proof
  assume "set_at m k = set_at n k"
  then show "omap_get m k = omap_get n k" by (simp add: set_map_get [OF assms(1)] set_map_get [OF assms(2)])
qed (simp add: omap_get_or_def)

lemma in_omap_keys: "k \<in> set (omap_keys m) \<longleftrightarrow> omap_get m k \<noteq> None"
  by (simp add: omap_keys_def map_of_eq_None_iff)

lemma in_set_map_keys: "set_map_ok m \<Longrightarrow> k \<in> set (omap_keys m) \<longleftrightarrow> set_at m k \<noteq> {}"
  using set_map_get [of m k] by (simp add: in_omap_keys)

subsection \<open>Membership, issues and units\<close>

definition groups_of :: "project_model \<Rightarrow> unit_id \<Rightarrow> (workspace_kind \<times> repo_path option) set" where
  "groups_of m i = {(group_kind w, group_root w) |w. w \<in> set (workspaces m) \<and> i \<in> set (group_members w)}"

definition issues_of :: "project_model \<Rightarrow> repo_path \<Rightarrow> issue_kind set" where
  "issues_of m p = {issue_kind x |x. x \<in> set (issues m) \<and> issue_manifest x = p}"

text \<open>The unit an id denotes: the last one listed, as in a map collected from the list.\<close>

definition denotes :: "project_model \<Rightarrow> unit_id \<Rightarrow> project_unit option" where
  "denotes m i = find (\<lambda>u. unit_id u = i) (rev (units m))"

lemma fold_concat: "fold f (concat xss) s = fold (fold f) xss s"
  by (induction xss arbitrary: s) simp_all

lemma membership_ok:
  "set_map_ok (workspace_membership m)" "set_at (workspace_membership m) i = groups_of m i"
proof -
  let ?pairs = "concat (map (\<lambda>w. map (\<lambda>i. (i, (group_kind w, group_root w))) (group_members w)) (workspaces m))"
  have "workspace_membership m = fold (\<lambda>(k, v). set_entry_insert k v) ?pairs []"
    by (simp add: workspace_membership_def fold_concat fold_map comp_def)
  with set_map_ok_fold_pairs [of "[]" ?pairs i]
  show "set_map_ok (workspace_membership m)" "set_at (workspace_membership m) i = groups_of m i"
    by (auto simp: groups_of_def)
qed

lemma issue_kinds_ok:
  "set_map_ok (issue_kinds_by_manifest m)" "set_at (issue_kinds_by_manifest m) p = issues_of m p"
proof -
  let ?pairs = "map (\<lambda>x. (issue_manifest x, issue_kind x)) (issues m)"
  have "issue_kinds_by_manifest m = fold (\<lambda>(k, v). set_entry_insert k v) ?pairs []"
    by (simp add: issue_kinds_by_manifest_def fold_map comp_def)
  with set_map_ok_fold_pairs [of "[]" ?pairs p]
  show "set_map_ok (issue_kinds_by_manifest m)" "set_at (issue_kinds_by_manifest m) p = issues_of m p"
    by (auto simp: issues_of_def)
qed

lemma units_by_id_get: "omap_get (units_by_id m) i = denotes m i" "omap_ok (units_by_id m)"
proof -
  have "map_of (map (\<lambda>u. (unit_id u, u)) us) i = find (\<lambda>u. unit_id u = i) us" for us
    by (induction us) auto
  from this [of "rev (units m)"] show "omap_get (units_by_id m) i = denotes m i"
    by (simp add: units_by_id_def omap_get_of_list denotes_def rev_map)
qed (simp add: units_by_id_def)

subsection \<open>Change kinds\<close>

text \<open>Which reason applies to which unit.\<close>

fun unit_changed :: "project_model \<Rightarrow> project_model \<Rightarrow> unit_id \<Rightarrow> unit_change_kind \<Rightarrow> bool" where
  "unit_changed m old i UnitAdded \<longleftrightarrow> denotes m i \<noteq> None \<and> denotes old i = None"
| "unit_changed m old i UnitRemoved \<longleftrightarrow> denotes m i = None \<and> denotes old i \<noteq> None"
| "unit_changed m old i SourceRootsChanged \<longleftrightarrow>
     (\<exists>u v. denotes m i = Some u \<and> denotes old i = Some v \<and>
        (source_roots u \<noteq> source_roots v \<or> source_roots_omitted u \<noteq> source_roots_omitted v))"
| "unit_changed m old i DependenciesChanged \<longleftrightarrow>
     (\<exists>u v. denotes m i = Some u \<and> denotes old i = Some v \<and>
        (dependencies u \<noteq> dependencies v \<or> dependencies_omitted u \<noteq> dependencies_omitted v))"
| "unit_changed m old i DefinitionChanged \<longleftrightarrow>
     (\<exists>u v. denotes m i = Some u \<and> denotes old i = Some v \<and>
        (unit_manifest u \<noteq> unit_manifest v \<or> unit_language u \<noteq> unit_language v))"
| "unit_changed m old i MembershipChanged \<longleftrightarrow>
     denotes m i \<noteq> None \<and> denotes old i \<noteq> None \<and> groups_of m i \<noteq> groups_of old i"

lemma fold_insert_kinds:
  assumes "distinct (map fst kvs)" "set_map_ok m" "\<forall>k u. sorted (f k u) \<and> distinct (f k u)"
    "\<forall>k\<in>fst ` set kvs. omap_get m k = None"
  shows "set_map_ok (fold (\<lambda>(k, u) m. if f k u = [] then m else omap_insert k (f k u) m) kvs m) \<and>
    set_at (fold (\<lambda>(k, u) m. if f k u = [] then m else omap_insert k (f k u) m) kvs m) x =
      (case map_of kvs x of None \<Rightarrow> set_at m x | Some u \<Rightarrow> set (f x u))"
  using assms(1,2,4)
proof (induction kvs arbitrary: m)
  case (Cons kv kvs)
  obtain k u where kv: "kv = (k, u)" by (cases kv)
  let ?m = "if f k u = [] then m else omap_insert k (f k u) m"
  have "set_map_ok ?m" using Cons.prems(2) assms(3) by (simp add: set_map_ok_def)
  moreover have "\<forall>j\<in>fst ` set kvs. omap_get ?m j = None" using Cons.prems(1,3) kv by auto
  moreover have "distinct (map fst kvs)" using Cons.prems(1) by simp
  ultimately have IH: "set_map_ok (fold (\<lambda>(k, u) m. if f k u = [] then m else omap_insert k (f k u) m) kvs ?m) \<and>
    set_at (fold (\<lambda>(k, u) m. if f k u = [] then m else omap_insert k (f k u) m) kvs ?m) x =
      (case map_of kvs x of None \<Rightarrow> set_at ?m x | Some u \<Rightarrow> set (f x u))"
    by (intro Cons.IH)
  have "map_of kvs k = None" using Cons.prems(1) kv by (simp add: map_of_eq_None_iff)
  moreover have "omap_get m k = None" using Cons.prems(3) kv by simp
  ultimately show ?case using IH unfolding kv fold_simps case_prod_conv
    by (cases "x = k"; cases "f k u = []"; cases "map_of kvs x") (simp_all add: omap_get_or_def)
qed simp

lemma changed_kinds_ok:
  "set_map_ok (changed_kinds m old)" "set_at (changed_kinds m old) i = {k. unit_changed m old i k}"
proof -
  let ?o = "units_by_id old" and ?n = "units_by_id m"
  let ?k1 = "fold (\<lambda>(i, u) acc. if current_unit_kinds ?o i u = [] then acc
      else omap_insert i (current_unit_kinds ?o i u) acc) ?n []"
  let ?k2 = "fold (\<lambda>i acc. if omap_get ?n i = None then set_entry_insert i UnitRemoved acc else acc)
      (omap_keys ?o) ?k1"
  let ?om = "workspace_membership old" and ?nm = "workspace_membership m"
  let ?P = "\<lambda>i. omap_get ?om i \<noteq> omap_get ?nm i \<and> omap_get ?o i \<noteq> None \<and> omap_get ?n i \<noteq> None"
  have "sorted (current_unit_kinds ?o i u) \<and> distinct (current_unit_kinds ?o i u)" for i u
    by (simp add: current_unit_kinds_def to_set_ok split: option.split)
  then have k1: "set_map_ok ?k1 \<and> set_at ?k1 i =
      (case omap_get ?n i of None \<Rightarrow> {} | Some u \<Rightarrow> set (current_unit_kinds ?o i u))" for i
    using fold_insert_kinds [OF omap_ok_distinct [OF units_by_id_get(2)], of "[]" "current_unit_kinds ?o" m i]
    by (cases "omap_get ?n i") simp_all
  then have k2: "set_map_ok ?k2 \<and> set_at ?k2 i = set_at ?k1 i \<union>
      (if i \<in> set (omap_keys ?o) \<and> omap_get ?n i = None then {UnitRemoved} else {})" for i
    by (intro set_map_ok_fold_if) blast
  have "changed_kinds m old = fold (\<lambda>i acc. if ?P i then set_entry_insert i MembershipChanged acc else acc)
      (to_set (omap_keys ?om @ omap_keys ?nm)) ?k2"
    unfolding changed_kinds_def Let_def
    by (rule fold_cong) auto
  moreover have "set_map_ok (fold (\<lambda>i acc. if ?P i then set_entry_insert i MembershipChanged acc else acc)
      (to_set (omap_keys ?om @ omap_keys ?nm)) ?k2) \<and>
    set_at (fold (\<lambda>i acc. if ?P i then set_entry_insert i MembershipChanged acc else acc)
      (to_set (omap_keys ?om @ omap_keys ?nm)) ?k2) i = set_at ?k2 i \<union>
      (if i \<in> set (to_set (omap_keys ?om @ omap_keys ?nm)) \<and> ?P i then {MembershipChanged} else {})" for i
    using k2 by (intro set_map_ok_fold_if) blast
  ultimately have all: "set_map_ok (changed_kinds m old) \<and> set_at (changed_kinds m old) i = set_at ?k2 i \<union>
      (if i \<in> set (to_set (omap_keys ?om @ omap_keys ?nm)) \<and> ?P i then {MembershipChanged} else {})" for i
    by simp
  then show "set_map_ok (changed_kinds m old)" by blast
  have member: "i \<in> set (to_set (omap_keys ?om @ omap_keys ?nm)) \<and> omap_get ?om i \<noteq> omap_get ?nm i \<longleftrightarrow>
      groups_of m i \<noteq> groups_of old i"
  proof -
    have "omap_get ?om i = omap_get ?nm i \<longleftrightarrow> groups_of old i = groups_of m i"
      unfolding set_map_get_eq [OF membership_ok(1) membership_ok(1)] membership_ok(2) ..
    moreover have "i \<in> set (to_set (omap_keys ?om @ omap_keys ?nm)) \<longleftrightarrow>
        groups_of old i \<noteq> {} \<or> groups_of m i \<noteq> {}"
      by (simp add: to_set_ok in_set_map_keys [OF membership_ok(1)] membership_ok(2))
    ultimately show ?thesis by auto
  qed
  have kinds: "set (current_unit_kinds ?o i u) = {k. k \<noteq> MembershipChanged \<and> unit_changed m old i k}"
    if "denotes m i = Some u" for u
  proof (rule set_eqI)
    fix k
    show "k \<in> set (current_unit_kinds ?o i u) \<longleftrightarrow> k \<in> {k. k \<noteq> MembershipChanged \<and> unit_changed m old i k}"
      using that by (cases k; cases "denotes old i")
        (simp_all add: current_unit_kinds_def units_by_id_get(1) to_set_ok)
  qed
  show "set_at (changed_kinds m old) i = {k. unit_changed m old i k}"
  proof (cases "denotes m i")
    case None
    have "k = UnitRemoved \<and> denotes old i \<noteq> None \<longleftrightarrow> unit_changed m old i k" for k
      using None by (cases k) simp_all
    then show ?thesis
      using all [of i] k1 [of i] k2 [of i] None
      by (auto simp: units_by_id_get(1) in_omap_keys)
  next
    case (Some u)
    have "set_at (changed_kinds m old) i = set (current_unit_kinds ?o i u) \<union>
        (if groups_of m i \<noteq> groups_of old i \<and> denotes old i \<noteq> None then {MembershipChanged} else {})"
      using all [of i] k1 [of i] k2 [of i] Some member by (auto simp: units_by_id_get(1))
    then show ?thesis using Some unfolding kinds [OF Some] by auto
  qed
qed

subsection \<open>The impact record\<close>

lemma strict_list_of_set: "sorted_wrt (<) xs \<Longrightarrow> xs = sorted_list_of_set (set xs)"
  by (simp add: strict_sorted_iff sorted_list_of_set.idem_if_sorted_distinct)

lemma changed_kinds_list:
  "changed_kinds m old =
     map (\<lambda>i. (i, sorted_list_of_set {k. unit_changed m old i k}))
       (sorted_list_of_set {i. \<exists>k. unit_changed m old i k})"
  "omap_keys (changed_kinds m old) = sorted_list_of_set {i. \<exists>k. unit_changed m old i k}"
  "finite {i. \<exists>k. unit_changed m old i k}"
proof -
  let ?m = "changed_kinds m old"
  note ok = changed_kinds_ok [of m old]
  have omap: "omap_ok ?m" using ok(1) by (simp add: set_map_ok_def)
  have keys: "set (omap_keys ?m) = {i. \<exists>k. unit_changed m old i k}"
    using in_set_map_keys [OF ok(1)] by (auto simp: ok(2))
  then show "finite {i. \<exists>k. unit_changed m old i k}" by (metis List.finite_set)
  show list: "omap_keys ?m = sorted_list_of_set {i. \<exists>k. unit_changed m old i k}"
    unfolding keys [symmetric] using omap by (intro strict_list_of_set) (simp add: omap_keys_def omap_ok_def)
  have "sorted_list_of_set {k. unit_changed m old i k} = ks" if "(i, ks) \<in> set ?m" for i ks
  proof -
    have "omap_get ?m i = Some ks" using omap that by (simp add: omap_ok_get_iff)
    with set_map_get [OF ok(1), of i] show ?thesis by (simp add: ok(2) split: if_splits)
  qed
  then have "map (\<lambda>i. (i, sorted_list_of_set {k. unit_changed m old i k})) (map fst ?m) = ?m"
    unfolding map_map by (intro map_idI) auto
  then show "?m = map (\<lambda>i. (i, sorted_list_of_set {k. unit_changed m old i k}))
       (sorted_list_of_set {i. \<exists>k. unit_changed m old i k})"
    unfolding list [symmetric] omap_keys_def by (rule sym)
qed

lemma issue_changes_list:
  "issue_changes m old = sorted_list_of_set {p. issues_of m p \<noteq> issues_of old p}"
proof -
  let ?om = "issue_kinds_by_manifest old" and ?nm = "issue_kinds_by_manifest m"
  have "set (issue_changes m old) = {p. issues_of m p \<noteq> issues_of old p}"
  proof (rule set_eqI)
    fix p
    have "omap_get ?om p = omap_get ?nm p \<longleftrightarrow> issues_of old p = issues_of m p"
      unfolding set_map_get_eq [OF issue_kinds_ok(1) issue_kinds_ok(1)] issue_kinds_ok(2) ..
    moreover have "p \<in> set (to_set (omap_keys ?om @ omap_keys ?nm)) \<longleftrightarrow>
        issues_of old p \<noteq> {} \<or> issues_of m p \<noteq> {}"
      by (simp add: to_set_ok in_set_map_keys [OF issue_kinds_ok(1)] issue_kinds_ok(2))
    ultimately show "p \<in> set (issue_changes m old) \<longleftrightarrow> p \<in> {p. issues_of m p \<noteq> issues_of old p}"
      by (auto simp: issue_changes_def Let_def)
  qed
  moreover have "sorted_wrt (<) (issue_changes m old)"
    by (simp add: issue_changes_def Let_def strict_sorted_iff sorted_wrt_filter to_set_ok)
  ultimately show ?thesis using strict_list_of_set by metis
qed

text \<open>The units that depend on a changed unit, in either revision.\<close>

definition dependents_of :: "project_model \<Rightarrow> project_model \<Rightarrow> unit_id set \<Rightarrow> unit_id set" where
  "dependents_of m old changed =
     {unit_id u |u. u \<in> set (units old) \<union> set (units m) \<and> unit_id u \<notin> changed \<and>
        (\<exists>d t. d \<in> set (dependencies u) \<and> dep_target d = Some t \<and> t \<in> changed)}"

lemma dependent_units_list:
  "dependent_units m old changed = sorted_list_of_set (dependents_of m old (set changed))"
proof -
  have some: "(case x of None \<Rightarrow> False | Some t \<Rightarrow> t \<in> A) \<longleftrightarrow> (\<exists>t. x = Some t \<and> t \<in> A)"
    for x :: "unit_id option" and A by (cases x) simp_all
  let ?P = "\<lambda>u. unit_id u \<notin> set changed \<and>
      list_ex (\<lambda>d. case dep_target d of None \<Rightarrow> False | Some t \<Rightarrow> t \<in> set changed) (dependencies u)"
  have P: "?P u \<longleftrightarrow> unit_id u \<notin> set changed \<and>
      (\<exists>d t. d \<in> set (dependencies u) \<and> dep_target d = Some t \<and> t \<in> set changed)" for u
    unfolding list_ex_iff some by blast
  have "set (map unit_id (filter ?P (units old @ units m))) = dependents_of m old (set changed)"
    unfolding dependents_of_def set_map set_filter set_append P by (simp only: image_Collect)
  then show ?thesis unfolding dependent_units_def to_set_eq by simp
qed

lemma dependents_of_none: "dependents_of m old {} = {}"
  by (simp add: dependents_of_def)

text \<open>
  C19: The difference of two model revisions is exact. It lists, in id order, the units to
  which some reason applies, each with exactly its reasons; the units that depend on a
  changed one without having changed; and the manifests whose recorded issues differ. Each
  list is cut at its bound with the exact number of omitted entries, and the difference is
  empty just when nothing changed, in particular between a model and itself.
\<close>

theorem impact_since_exact:
  "let imp = impact_since m old;
       changed = {i. \<exists>k. unit_changed m old i k};
       deps = dependents_of m old changed;
       mans = {p. issues_of m p \<noteq> issues_of old p}
   in changes imp = take max_project_units
        (map (\<lambda>i. \<lparr>change_unit = i, change_kinds = sorted_list_of_set {k. unit_changed m old i k}\<rparr>)
          (sorted_list_of_set changed)) \<and>
      length (changes imp) + changes_omitted imp = card changed \<and>
      dependents imp = take max_project_units (sorted_list_of_set deps) \<and>
      length (dependents imp) + dependents_omitted imp = card deps \<and>
      manifest_issue_changes imp = take max_project_issues (sorted_list_of_set mans) \<and>
      length (manifest_issue_changes imp) + manifest_issue_changes_omitted imp = card mans \<and>
      (impact_is_empty imp \<longleftrightarrow> changed = {} \<and> mans = {})"
proof -
  let ?changed = "{i. \<exists>k. unit_changed m old i k}"
  let ?deps = "dependents_of m old ?changed"
  let ?mans = "{p. issues_of m p \<noteq> issues_of old p}"
  let ?list = "map (\<lambda>i. \<lparr>change_unit = i, change_kinds = sorted_list_of_set {k. unit_changed m old i k}\<rparr>)
          (sorted_list_of_set ?changed)"
  have fin: "finite ?changed" by (rule changed_kinds_list(3))
  have finm: "finite ?mans"
  proof -
    have "?mans \<subseteq> issue_manifest ` (set (issues m) \<union> set (issues old))"
      by (auto simp: issues_of_def)
    then show ?thesis by (rule finite_subset) simp
  qed
  have deps: "dependent_units m old (omap_keys (changed_kinds m old)) = sorted_list_of_set ?deps"
    unfolding dependent_units_list changed_kinds_list(2) set_sorted_list_of_set [OF fin] ..
  have list: "map (\<lambda>(i, ks). \<lparr>change_unit = i, change_kinds = ks\<rparr>) (changed_kinds m old) = ?list"
    unfolding changed_kinds_list(1) by simp
  have imp: "impact_since m old =
      \<lparr>changes = take max_project_units ?list,
       changes_omitted = length (changed_kinds m old) - length (take max_project_units ?list),
       dependents = take max_project_units (sorted_list_of_set ?deps),
       dependents_omitted = length (sorted_list_of_set ?deps) -
         length (take max_project_units (sorted_list_of_set ?deps)),
       manifest_issue_changes = take max_project_issues (sorted_list_of_set ?mans),
       manifest_issue_changes_omitted = length (sorted_list_of_set ?mans) -
         length (take max_project_issues (sorted_list_of_set ?mans))\<rparr>"
    unfolding impact_since_def Let_def list deps issue_changes_list ..
  have len: "length (changed_kinds m old) = card ?changed"
    by (subst changed_kinds_list(1)) simp
  have none: "take k (sorted_list_of_set A) = [] \<longleftrightarrow> A = {}" if "finite A" "0 < k"
    for A :: "'z::linorder set" and k using that by (simp add: sorted_list_of_set_eq_Nil_iff)
  show ?thesis
    unfolding Let_def imp model_impact.select_convs impact_is_empty_def len
  proof (intro conjI refl)
    show "length (take max_project_units ?list) + (card ?changed - length (take max_project_units ?list)) =
        card ?changed" by simp
    show "length (take max_project_units (sorted_list_of_set ?deps)) +
        (length (sorted_list_of_set ?deps) - length (take max_project_units (sorted_list_of_set ?deps))) =
        card ?deps" by simp
    show "length (take max_project_issues (sorted_list_of_set ?mans)) +
        (length (sorted_list_of_set ?mans) - length (take max_project_issues (sorted_list_of_set ?mans))) =
        card ?mans" by simp
    have "take max_project_units ?list = [] \<longleftrightarrow> ?changed = {}"
      using none [OF fin, of max_project_units] by (simp add: max_project_units_def take_map)
    moreover have "take max_project_issues (sorted_list_of_set ?mans) = [] \<longleftrightarrow> ?mans = {}"
      by (rule none [OF finm]) (simp add: max_project_issues_def)
    ultimately show "(take max_project_units ?list = [] \<and>
        card ?changed - length (take max_project_units ?list) = 0 \<and>
        take max_project_units (sorted_list_of_set ?deps) = [] \<and>
        take max_project_issues (sorted_list_of_set ?mans) = [] \<and>
        length (sorted_list_of_set ?mans) - length (take max_project_issues (sorted_list_of_set ?mans)) = 0) =
        (?changed = {} \<and> ?mans = {})"
      (is "?empty = ?nothing")
    proof (intro iffI)
      assume ?empty
      then have "take max_project_units ?list = []"
        "take max_project_issues (sorted_list_of_set ?mans) = []" by blast+
      with \<open>take max_project_units ?list = [] \<longleftrightarrow> ?changed = {}\<close>
        \<open>take max_project_issues (sorted_list_of_set ?mans) = [] \<longleftrightarrow> ?mans = {}\<close>
      show ?nothing by blast
    next
      assume nothing: ?nothing
      then have e: "?changed = {}" "?mans = {}" by blast+
      show ?empty unfolding e dependents_of_none by simp
    qed
  qed
qed

end
