(* ===== verification/Indexing_Status.thy ===== *)
theory Indexing_Status
  imports Chakra_Symbols
begin

section \<open>Indexing budgets, coverage and status\<close>

text \<open>
  \<open>chakra-domain/src/indexing.rs\<close>: the metadata that travels with a published revision and
  the validation of index budgets. Counters are \<open>u64\<close> values.
\<close>

datatype index_phase =
    PhaseGitInventory
  | PhaseSourceRead
  | PhaseParseExtraction
  | PhaseSymbolCatalog
  | PhaseRelationships
  | PhaseGraphMaterialization
  | PhaseGraphValidation
  | PhaseLanguageComposition
  | PhaseRevisionPublication
  | PhaseLiveReconciliation

datatype index_budget_kind =
    BudgetFiles
  | BudgetSourceFileBytes
  | BudgetWorkspaceSourceBytes
  | BudgetSymbols
  | BudgetEdges
  | BudgetCallSites
  | BudgetStartupWallTime
  | BudgetMemory

datatype index_capability =
    CapFileInventory
  | CapTextSearch
  | CapDeclarations
  | CapRelationships
  | CapCallSites

record index_budgets =
  b_max_files :: nat
  b_max_source_file_bytes :: nat
  b_max_workspace_source_bytes :: nat
  b_max_symbols :: nat
  b_max_edges :: nat
  b_max_call_sites :: nat
  b_startup_target_millis :: nat
  b_memory_target_bytes :: nat
  b_max_workers :: nat

record index_phase_measurement =
  pm_phase :: index_phase
  pm_language :: "language option"
  pm_elapsed_micros :: nat
  pm_cpu_micros :: "nat option"
  pm_cpu_utilization_per_mille :: "nat option"
  pm_work_items :: nat
  pm_bytes :: nat
  pm_effective_workers :: nat
  pm_peak_active_workers :: nat
  pm_peak_queue_depth :: nat
  pm_rss_bytes :: "nat option"
  pm_peak_rss_bytes :: "nat option"

record index_scheduling_metrics =
  sm_configured_max_workers :: nat
  sm_available_parallelism :: nat
  sm_source_memory_reserve_bytes :: nat
  sm_worker_memory_reserve_bytes :: nat
  sm_memory_limited_workers :: nat
  sm_effective_worker_limit :: nat
  sm_peak_active_workers :: nat
  sm_peak_queue_depth :: nat
  sm_parallel_parse_files :: nat
  sm_sequential_parse_files :: nat
  sm_parallel_parse_file_threshold :: nat
  sm_low_resource_mode :: bool

record index_degradation =
  deg_phase :: index_phase
  deg_language :: "language option"
  deg_cause :: index_budget_kind
  deg_affected_capabilities :: "index_capability list"
  deg_limit :: nat
  deg_observed :: nat
  deg_omitted :: nat

record index_capability_coverage =
  cc_capability :: index_capability
  cc_retained :: nat
  cc_omitted :: nat
  cc_complete :: bool

record index_coverage =
  cov_discovered_files :: nat
  cov_indexed_files :: nat
  cov_skipped_files :: nat
  cov_unreadable_files :: nat
  cov_source_bytes :: nat
  cov_parsed_files :: nat
  cov_syntax_error_files :: nat
  cov_extracted_symbols :: nat
  cov_retained_symbols :: nat
  cov_retained_edges :: nat
  cov_omitted_edges :: nat
  cov_extracted_call_sites :: nat
  cov_retained_call_sites :: nat
  cov_omitted_call_sites :: nat

record index_memory_metrics =
  mem_retained_source_bytes :: nat
  mem_retained_parsed_symbols :: nat
  mem_retained_parsed_relationship_edges :: nat
  mem_retained_parsed_call_sites :: nat
  mem_retained_graph_symbols :: nat
  mem_retained_graph_edges :: nat
  mem_retained_graph_call_sites :: nat
  mem_current_rss_bytes :: "nat option"
  mem_observed_phase_peak_rss_bytes :: "nat option"
  mem_provider_cache_bytes :: "nat option"

record index_publication_metrics =
  pub_structurally_incremental :: bool
  pub_reused_files :: nat
  pub_rebuilt_files :: nat
  pub_reused_source_bytes :: nat
  pub_rebuilt_source_bytes :: nat
  pub_copied_source_bytes :: nat
  pub_reused_symbols :: nat
  pub_rebuilt_symbols :: nat
  pub_copied_symbols :: nat
  pub_reused_edges :: nat
  pub_rebuilt_edges :: nat
  pub_copied_edges :: nat
  pub_reused_call_sites :: nat
  pub_rebuilt_call_sites :: nat
  pub_copied_call_sites :: nat

record indexing_status =
  idx_budgets :: index_budgets
  idx_coverage :: index_coverage
  idx_capabilities :: "index_capability_coverage list"
  idx_degradations :: "index_degradation list"
  idx_phases :: "index_phase_measurement list"
  idx_scheduling :: index_scheduling_metrics
  idx_memory :: index_memory_metrics
  idx_publication :: index_publication_metrics

subsection \<open>Defaults and hard limits\<close>

definition default_max_index_files :: nat where "default_max_index_files = 100000"
definition default_max_source_file_bytes :: nat where "default_max_source_file_bytes = 8 * 1024 * 1024"
definition default_max_workspace_source_bytes :: nat where "default_max_workspace_source_bytes = 128 * 1024 * 1024"
definition default_max_index_symbols :: nat where "default_max_index_symbols = 500000"
definition default_max_index_edges :: nat where "default_max_index_edges = 1000000"
definition default_max_index_call_sites :: nat where "default_max_index_call_sites = 1000000"
definition default_startup_target_millis :: nat where "default_startup_target_millis = 120000"
definition default_memory_target_bytes :: nat where "default_memory_target_bytes = 2 * 1024 * 1024 * 1024"
definition default_max_index_workers :: nat where "default_max_index_workers = 8"
definition hard_max_index_files :: nat where "hard_max_index_files = 1000000"
definition hard_max_source_file_bytes :: nat where "hard_max_source_file_bytes = 64 * 1024 * 1024"
definition hard_max_workspace_source_bytes :: nat where "hard_max_workspace_source_bytes = 4 * 1024 * 1024 * 1024"
definition hard_max_index_symbols :: nat where "hard_max_index_symbols = 2000000"
definition hard_max_index_edges :: nat where "hard_max_index_edges = 5000000"
definition hard_max_index_call_sites :: nat where "hard_max_index_call_sites = 5000000"
definition hard_max_startup_target_millis :: nat where "hard_max_startup_target_millis = 600000"
definition hard_max_memory_target_bytes :: nat where "hard_max_memory_target_bytes = 128 * 1024 * 1024 * 1024"
definition hard_max_index_workers :: nat where "hard_max_index_workers = 64"

definition index_budgets_default :: index_budgets where
  "index_budgets_default = \<lparr>
     b_max_files = default_max_index_files,
     b_max_source_file_bytes = default_max_source_file_bytes,
     b_max_workspace_source_bytes = default_max_workspace_source_bytes,
     b_max_symbols = default_max_index_symbols, b_max_edges = default_max_index_edges,
     b_max_call_sites = default_max_index_call_sites,
     b_startup_target_millis = default_startup_target_millis,
     b_memory_target_bytes = default_memory_target_bytes,
     b_max_workers = default_max_index_workers\<rparr>"

definition index_scheduling_metrics_default :: index_scheduling_metrics where
  "index_scheduling_metrics_default = \<lparr>
     sm_configured_max_workers = 0, sm_available_parallelism = 0,
     sm_source_memory_reserve_bytes = 0, sm_worker_memory_reserve_bytes = 0,
     sm_memory_limited_workers = 0, sm_effective_worker_limit = 0, sm_peak_active_workers = 0,
     sm_peak_queue_depth = 0, sm_parallel_parse_files = 0, sm_sequential_parse_files = 0,
     sm_parallel_parse_file_threshold = 0, sm_low_resource_mode = False\<rparr>"

definition index_coverage_default :: index_coverage where
  "index_coverage_default = \<lparr>
     cov_discovered_files = 0, cov_indexed_files = 0, cov_skipped_files = 0,
     cov_unreadable_files = 0, cov_source_bytes = 0, cov_parsed_files = 0,
     cov_syntax_error_files = 0, cov_extracted_symbols = 0, cov_retained_symbols = 0,
     cov_retained_edges = 0, cov_omitted_edges = 0, cov_extracted_call_sites = 0,
     cov_retained_call_sites = 0, cov_omitted_call_sites = 0\<rparr>"

definition index_memory_metrics_default :: index_memory_metrics where
  "index_memory_metrics_default = \<lparr>
     mem_retained_source_bytes = 0, mem_retained_parsed_symbols = 0,
     mem_retained_parsed_relationship_edges = 0, mem_retained_parsed_call_sites = 0,
     mem_retained_graph_symbols = 0, mem_retained_graph_edges = 0,
     mem_retained_graph_call_sites = 0, mem_current_rss_bytes = None,
     mem_observed_phase_peak_rss_bytes = None, mem_provider_cache_bytes = None\<rparr>"

definition index_publication_metrics_default :: index_publication_metrics where
  "index_publication_metrics_default = \<lparr>
     pub_structurally_incremental = False, pub_reused_files = 0, pub_rebuilt_files = 0,
     pub_reused_source_bytes = 0, pub_rebuilt_source_bytes = 0, pub_copied_source_bytes = 0,
     pub_reused_symbols = 0, pub_rebuilt_symbols = 0, pub_copied_symbols = 0,
     pub_reused_edges = 0, pub_rebuilt_edges = 0, pub_copied_edges = 0,
     pub_reused_call_sites = 0, pub_rebuilt_call_sites = 0, pub_copied_call_sites = 0\<rparr>"

definition indexing_status_default :: indexing_status where
  "indexing_status_default = \<lparr>
     idx_budgets = index_budgets_default, idx_coverage = index_coverage_default,
     idx_capabilities = [], idx_degradations = [], idx_phases = [],
     idx_scheduling = index_scheduling_metrics_default,
     idx_memory = index_memory_metrics_default,
     idx_publication = index_publication_metrics_default\<rparr>"

definition indexing_is_degraded :: "indexing_status \<Rightarrow> bool" where
  "indexing_is_degraded st \<longleftrightarrow> idx_degradations st \<noteq> []"

definition query_summary :: "indexing_status \<Rightarrow> indexing_status" where
  "query_summary st = st\<lparr>idx_phases := []\<rparr>"

subsection \<open>Budget validation\<close>

datatype index_budget_error =
    BudgetOutOfRange string nat nat
  | FileExceedsWorkspace

definition validate_limit :: "string \<Rightarrow> nat \<Rightarrow> nat \<Rightarrow> index_budget_error + unit" where
  "validate_limit name v hard_max =
     (if v = 0 \<or> hard_max < v then Inl (BudgetOutOfRange name v hard_max) else Inr ())"

text \<open>The chain of \<open>?\<close> checks: the first failing limit is the result.\<close>

fun first_error :: "(index_budget_error + unit) list \<Rightarrow> index_budget_error option" where
  "first_error [] = None"
| "first_error (Inl e # rs) = Some e"
| "first_error (Inr _ # rs) = first_error rs"

definition budget_limits :: "index_budgets \<Rightarrow> (string \<times> nat \<times> nat) list" where
  "budget_limits b =
     [(''max_files'', b_max_files b, hard_max_index_files),
      (''max_source_file_bytes'', b_max_source_file_bytes b, hard_max_source_file_bytes),
      (''max_workspace_source_bytes'', b_max_workspace_source_bytes b, hard_max_workspace_source_bytes),
      (''max_symbols'', b_max_symbols b, hard_max_index_symbols),
      (''max_edges'', b_max_edges b, hard_max_index_edges),
      (''max_call_sites'', b_max_call_sites b, hard_max_index_call_sites),
      (''startup_target_millis'', b_startup_target_millis b, hard_max_startup_target_millis),
      (''memory_target_bytes'', b_memory_target_bytes b, hard_max_memory_target_bytes),
      (''max_workers'', b_max_workers b, hard_max_index_workers)]"

definition validate_budgets :: "index_budgets \<Rightarrow> index_budget_error + index_budgets" where
  "validate_budgets b =
     (case first_error (map (\<lambda>(n, v, h). validate_limit n v h) (budget_limits b)) of
        Some e \<Rightarrow> Inl e
      | None \<Rightarrow>
          if b_max_workspace_source_bytes b < b_max_source_file_bytes b then Inl FileExceedsWorkspace
          else Inr b)"

end
