(* ===== verification/Query_Envelope.thy ===== *)
theory Query_Envelope
  imports Indexing_Status
begin

section \<open>Workspace identity, composition layers and the query envelope\<close>

text \<open>
  \<open>identity.rs\<close>, \<open>composition.rs\<close> and \<open>envelope.rs\<close> of \<open>chakra-domain\<close>: the metadata every
  query response carries. Canonicalising a path is file-system work, so a workspace
  identity is built from an already canonical root.
\<close>

subsection \<open>Identity\<close>

type_synonym repository_id = string
type_synonym workspace_id = string

record workspace_identity =
  wi_repository :: repository_id
  wi_workspace :: workspace_id
  wi_root :: string

datatype identity_error = EmptyRepositoryKey

definition repository_id_from_stable_key :: "string \<Rightarrow> identity_error + repository_id" where
  "repository_id_from_stable_key key = (if key = [] then Inl EmptyRepositoryKey else Inr key)"

definition identity_for_repository :: "string \<Rightarrow> repository_id \<Rightarrow> workspace_identity" where
  "identity_for_repository canonical repo =
     \<lparr>wi_repository = repo, wi_workspace = repo @ '':worktree:'' @ canonical, wi_root = canonical\<rparr>"

definition identity_for_primary_worktree :: "string \<Rightarrow> identity_error + workspace_identity" where
  "identity_for_primary_worktree canonical =
     (case repository_id_from_stable_key (''standalone-path:'' @ canonical) of
        Inl e \<Rightarrow> Inl e
      | Inr repo \<Rightarrow> Inr (identity_for_repository canonical repo))"

subsection \<open>Composition layers\<close>

datatype commit_snapshot_origin =
    ColdBuild
  | MemoryReuse
  | DiskRestore

datatype commit_snapshot_rejection =
    RejectCacheDisabled
  | RejectNotFound
  | RejectFormatMismatch
  | RejectCompatibilityMismatch
  | RejectCorrupt
  | RejectOversized
  | RejectIoFailure

datatype change_kind = ChangeModified | ChangeAdded | ChangeDeleted | ChangeRenamed

record commit_snapshot_reuse =
  cr_origin :: commit_snapshot_origin
  cr_reused_files :: nat
  cr_reused_source_bytes :: nat
  cr_elapsed_micros :: nat
  cr_artifact_bytes :: "nat option"
  cr_rejection :: "commit_snapshot_rejection option"

record overlay_file_change =
  of_path :: repo_path
  of_previous_path :: "repo_path option"
  of_change :: change_kind

record commit_snapshot_layer =
  cs_commit :: "string option"
  cs_source_files :: nat
  cs_source_bytes :: nat
  cs_reuse :: commit_snapshot_reuse

record worktree_overlay_layer =
  wo_files :: "overlay_file_change list"
  wo_files_truncated :: bool
  wo_files_omitted :: "nat option"

record workspace_graph_layers =
  gl_commit_snapshot :: commit_snapshot_layer
  gl_worktree_overlay :: worktree_overlay_layer

record workspace_enrichment_layer =
  we_workspace_id :: workspace_id
  we_provider_state :: provider_state
  we_revision :: "revision option"

record effective_workspace_layers =
  el_commit_snapshot :: commit_snapshot_layer
  el_worktree_overlay :: worktree_overlay_layer
  el_workspace_enrichment :: workspace_enrichment_layer

definition commit_snapshot_reuse_default :: commit_snapshot_reuse where
  "commit_snapshot_reuse_default = \<lparr>
     cr_origin = ColdBuild, cr_reused_files = 0, cr_reused_source_bytes = 0,
     cr_elapsed_micros = 0, cr_artifact_bytes = None, cr_rejection = None\<rparr>"

definition commit_snapshot_layer_default :: commit_snapshot_layer where
  "commit_snapshot_layer_default = \<lparr>
     cs_commit = None, cs_source_files = 0, cs_source_bytes = 0,
     cs_reuse = commit_snapshot_reuse_default\<rparr>"

definition worktree_overlay_layer_default :: worktree_overlay_layer where
  "worktree_overlay_layer_default = \<lparr>
     wo_files = [], wo_files_truncated = False, wo_files_omitted = None\<rparr>"

definition workspace_graph_layers_default :: workspace_graph_layers where
  "workspace_graph_layers_default = \<lparr>
     gl_commit_snapshot = commit_snapshot_layer_default,
     gl_worktree_overlay = worktree_overlay_layer_default\<rparr>"

definition layers_from_graph_layers ::
    "workspace_graph_layers \<Rightarrow> workspace_id \<Rightarrow> revision \<Rightarrow> provider_state \<Rightarrow> effective_workspace_layers" where
  "layers_from_graph_layers gl wid r ps =
     \<lparr>el_commit_snapshot = gl_commit_snapshot gl, el_worktree_overlay = gl_worktree_overlay gl,
      el_workspace_enrichment =
        \<lparr>we_workspace_id = wid, we_provider_state = ps,
         we_revision = (if ps = ProviderReady then Some r else None)\<rparr>\<rparr>"

subsection \<open>The envelope\<close>

datatype truncation_section =
    StatusSyntaxDiagnostics
  | StatusProviders
  | RepoMapFiles
  | RepoMapOverview
  | RepoMapProjectScope
  | SearchMatches
  | SearchMatchLine
  | SymbolSearchCandidates
  | ContextSource
  | ContextCallers
  | ContextCallees
  | ContextImplementations
  | ContextTests
  | ContextRelatedRelations
  | ContextSyntaxCallCandidates
  | ContextRelatedFiles
  | CallersCallers
  | CallersSyntaxCandidates
  | DiffContextChangedFiles
  | DiffContextChangedSymbols
  | DiffContextRelatedCallers
  | DiffContextRelatedTests
  | DiffContextRelatedRelations
  | DiffContextRelatedCallCandidates

fun truncation_section_rank :: "truncation_section \<Rightarrow> nat" where
  "truncation_section_rank StatusSyntaxDiagnostics = 0"
| "truncation_section_rank StatusProviders = 1"
| "truncation_section_rank RepoMapFiles = 2"
| "truncation_section_rank RepoMapOverview = 3"
| "truncation_section_rank RepoMapProjectScope = 4"
| "truncation_section_rank SearchMatches = 5"
| "truncation_section_rank SearchMatchLine = 6"
| "truncation_section_rank SymbolSearchCandidates = 7"
| "truncation_section_rank ContextSource = 8"
| "truncation_section_rank ContextCallers = 9"
| "truncation_section_rank ContextCallees = 10"
| "truncation_section_rank ContextImplementations = 11"
| "truncation_section_rank ContextTests = 12"
| "truncation_section_rank ContextRelatedRelations = 13"
| "truncation_section_rank ContextSyntaxCallCandidates = 14"
| "truncation_section_rank ContextRelatedFiles = 15"
| "truncation_section_rank CallersCallers = 16"
| "truncation_section_rank CallersSyntaxCandidates = 17"
| "truncation_section_rank DiffContextChangedFiles = 18"
| "truncation_section_rank DiffContextChangedSymbols = 19"
| "truncation_section_rank DiffContextRelatedCallers = 20"
| "truncation_section_rank DiffContextRelatedTests = 21"
| "truncation_section_rank DiffContextRelatedRelations = 22"
| "truncation_section_rank DiffContextRelatedCallCandidates = 23"

datatype truncation_cause =
    ItemLimit
  | SyntaxDiagnosticPerFileLimit
  | ExaminedWorkLimit
  | GraphTraversalLimit
  | IntermediateAllocationLimit
  | WallTimeLimit
  | SourceSnippetLineLimit
  | SourceSnippetCharacterLimit
  | ProviderLimit
  | ResponseByteLimit
  | UnresolvedCandidateFanout
  | DiffInventoryLimit

fun truncation_cause_rank :: "truncation_cause \<Rightarrow> nat" where
  "truncation_cause_rank ItemLimit = 0"
| "truncation_cause_rank SyntaxDiagnosticPerFileLimit = 1"
| "truncation_cause_rank ExaminedWorkLimit = 2"
| "truncation_cause_rank GraphTraversalLimit = 3"
| "truncation_cause_rank IntermediateAllocationLimit = 4"
| "truncation_cause_rank WallTimeLimit = 5"
| "truncation_cause_rank SourceSnippetLineLimit = 6"
| "truncation_cause_rank SourceSnippetCharacterLimit = 7"
| "truncation_cause_rank ProviderLimit = 8"
| "truncation_cause_rank ResponseByteLimit = 9"
| "truncation_cause_rank UnresolvedCandidateFanout = 10"
| "truncation_cause_rank DiffInventoryLimit = 11"

record truncation_detail =
  td_section :: truncation_section
  td_cause :: truncation_cause
  td_limit :: nat
  td_omitted :: "nat option"

record 'a query_envelope =
  env_schema_version :: nat
  env_workspace_id :: workspace_id
  env_revision :: revision
  env_freshness :: freshness
  env_status :: workspace_status
  env_provider_state :: provider_state
  env_layers :: effective_workspace_layers
  env_indexing :: indexing_status
  env_truncated :: bool
  env_truncation :: "truncation_detail list"
  env_data :: "'a"

definition schema_version :: nat where "schema_version = 19"

definition truncation_detail_new ::
    "truncation_section \<Rightarrow> truncation_cause \<Rightarrow> nat \<Rightarrow> nat option \<Rightarrow> truncation_detail" where
  "truncation_detail_new s c limit omitted =
     \<lparr>td_section = s, td_cause = c, td_limit = to_u64 limit, td_omitted = map_option to_u64 omitted\<rparr>"

text \<open>The derived order of \<open>TruncationDetail\<close>, as a key.\<close>

definition detail_key :: "truncation_detail \<Rightarrow> nat \<times> nat \<times> nat \<times> nat option" where
  "detail_key d =
     (truncation_section_rank (td_section d), truncation_cause_rank (td_cause d), td_limit d, td_omitted d)"

definition envelope_new ::
    "workspace_id \<Rightarrow> revision \<Rightarrow> freshness \<Rightarrow> workspace_status \<Rightarrow> provider_state \<Rightarrow>
     truncation_detail list \<Rightarrow> 'a \<Rightarrow> 'a query_envelope" where
  "envelope_new wid r fr st ps truncation d =
     (let tr = remdups_adj (sort_key detail_key truncation) in
      \<lparr>env_schema_version = schema_version, env_workspace_id = wid, env_revision = r,
       env_freshness = fr, env_status = st, env_provider_state = ps,
       env_layers = layers_from_graph_layers workspace_graph_layers_default wid r ps,
       env_indexing = indexing_status_default, env_truncated = (tr \<noteq> []), env_truncation = tr,
       env_data = d\<rparr>)"

definition envelope_with_indexing :: "indexing_status \<Rightarrow> 'a query_envelope \<Rightarrow> 'a query_envelope" where
  "envelope_with_indexing idx env = env\<lparr>env_indexing := idx\<rparr>"

definition envelope_with_layers :: "effective_workspace_layers \<Rightarrow> 'a query_envelope \<Rightarrow> 'a query_envelope" where
  "envelope_with_layers ls env = env\<lparr>env_layers := ls\<rparr>"

end
