(* ===== verification/Workspace_Engine.thy ===== *)
theory Workspace_Engine
  imports Provider_Delta Project_Model Query_Envelope
begin

section \<open>The engine that owns the published revision\<close>

text \<open>
  \<open>chakra-engine/src/engine.rs\<close>: the immutable published snapshot, the private update
  builder and its edits, compare-and-publish, and the installation of providers. An
  allocation (\<open>Arc\<close>) whose identity the code compares is an \<open>arc\<close>: an address with its
  value. Freshness barriers and diff adapters are the types \<open>'b\<close> and \<open>'d\<close>.
\<close>

subsection \<open>Snapshots and update builders\<close>

record workspace_snapshot =
  ws_identity :: workspace_identity
  ws_revision :: revision
  ws_status :: workspace_status
  ws_freshness :: freshness
  ws_provider_state :: provider_state
  ws_indexing :: indexing_status
  ws_graph :: "workspace_graph arc"
  ws_commit_graph :: workspace_graph
  ws_layers :: workspace_graph_layers
  ws_provider_inputs :: "(repo_path, provider_input) omap arc"
  ws_project_model :: project_model

record update_builder =
  ub_base_revision :: revision
  ub_identity :: workspace_identity
  ub_status :: workspace_status
  ub_freshness :: freshness
  ub_provider_state :: provider_state
  ub_indexing :: indexing_status
  ub_graph :: "workspace_graph arc"
  ub_commit_graph :: workspace_graph
  ub_layers :: workspace_graph_layers
  ub_provider_inputs :: "(repo_path, provider_input) omap arc"
  ub_project_model :: project_model

datatype publish_error = Conflict (conflict_base: revision) (conflict_current: revision)

definition provider_inputs_match :: "workspace_snapshot \<Rightarrow> provider_input list \<Rightarrow> bool" where
  "provider_inputs_match s inputs \<longleftrightarrow>
     length (snd (ws_provider_inputs s)) = length inputs \<and>
     map snd (snd (ws_provider_inputs s)) = inputs"

text \<open>
  \<open>Arc::make_mut\<close>: an allocation nobody else holds is changed in place, a shared one is
  copied to the fresh address \<open>a\<close> first.
\<close>

definition graph_mut ::
    "bool \<Rightarrow> nat \<Rightarrow> (workspace_graph \<Rightarrow> workspace_graph) \<Rightarrow> update_builder \<Rightarrow> update_builder" where
  "graph_mut unique a f b =
     b\<lparr>ub_freshness := Stale,
       ub_graph := (if unique then fst (ub_graph b) else a, f (snd (ub_graph b)))\<rparr>"

definition replace_graph :: "nat \<Rightarrow> workspace_graph \<Rightarrow> update_builder \<Rightarrow> update_builder" where
  "replace_graph a g b = b\<lparr>ub_freshness := Stale, ub_graph := (a, g)\<rparr>"

definition set_graph_layers ::
    "workspace_graph \<Rightarrow> workspace_graph_layers \<Rightarrow> update_builder \<Rightarrow> update_builder" where
  "set_graph_layers g ls b = b\<lparr>ub_commit_graph := g, ub_layers := ls\<rparr>"

definition set_layers :: "workspace_graph_layers \<Rightarrow> update_builder \<Rightarrow> update_builder" where
  "set_layers ls b = b\<lparr>ub_layers := ls\<rparr>"

definition set_status :: "workspace_status \<Rightarrow> update_builder \<Rightarrow> update_builder" where
  "set_status s b = b\<lparr>ub_status := s\<rparr>"

definition set_freshness :: "freshness \<Rightarrow> update_builder \<Rightarrow> update_builder" where
  "set_freshness f b = b\<lparr>ub_freshness := f\<rparr>"

definition set_provider_state :: "provider_state \<Rightarrow> update_builder \<Rightarrow> update_builder" where
  "set_provider_state s b = b\<lparr>ub_provider_state := s\<rparr>"

definition set_indexing :: "indexing_status \<Rightarrow> update_builder \<Rightarrow> update_builder" where
  "set_indexing i b = b\<lparr>ub_indexing := i\<rparr>"

definition set_provider_inputs :: "nat \<Rightarrow> provider_input list \<Rightarrow> update_builder \<Rightarrow> update_builder" where
  "set_provider_inputs a inputs b =
     b\<lparr>ub_provider_inputs := (a, omap_of_list (map (\<lambda>i. (input_path i, i)) inputs))\<rparr>"

definition set_project_model :: "project_model \<Rightarrow> update_builder \<Rightarrow> update_builder" where
  "set_project_model m b = b\<lparr>ub_project_model := m\<rparr>"

text \<open>The calls a publisher makes on its private builder, as values.\<close>

datatype builder_edit =
    GraphMut bool nat "workspace_graph \<Rightarrow> workspace_graph"
  | ReplaceGraph nat workspace_graph
  | SetGraphLayers workspace_graph workspace_graph_layers
  | SetLayers workspace_graph_layers
  | SetStatus workspace_status
  | SetFreshness freshness
  | SetProviderState provider_state
  | SetIndexing indexing_status
  | SetProviderInputs nat "provider_input list"
  | SetProjectModel project_model

fun apply_edit :: "builder_edit \<Rightarrow> update_builder \<Rightarrow> update_builder" where
  "apply_edit (GraphMut unique a f) = graph_mut unique a f"
| "apply_edit (ReplaceGraph a g) = replace_graph a g"
| "apply_edit (SetGraphLayers g ls) = set_graph_layers g ls"
| "apply_edit (SetLayers ls) = set_layers ls"
| "apply_edit (SetStatus s) = set_status s"
| "apply_edit (SetFreshness f) = set_freshness f"
| "apply_edit (SetProviderState s) = set_provider_state s"
| "apply_edit (SetIndexing i) = set_indexing i"
| "apply_edit (SetProviderInputs a inputs) = set_provider_inputs a inputs"
| "apply_edit (SetProjectModel m) = set_project_model m"

definition apply_edits :: "builder_edit list \<Rightarrow> update_builder \<Rightarrow> update_builder" where
  "apply_edits es b = fold apply_edit es b"

subsection \<open>Precise providers as the engine sees them\<close>

record precise_provider =
  pp_name :: string
  pp_supports :: "language \<Rightarrow> bool"
  pp_supports_path :: "language \<Rightarrow> repo_path \<Rightarrow> bool"

text \<open>The default \<open>supports_path\<close> of the trait covers every path of a supported language.\<close>

definition supports_path_default :: "(language \<Rightarrow> bool) \<Rightarrow> language \<Rightarrow> repo_path \<Rightarrow> bool" where
  "supports_path_default supports l p = supports l"

datatype install_error =
    NoSupportedLanguages string
  | LanguageConflict language string string

subsection \<open>The engine\<close>

record ('b, 'd) engine =
  en_current :: "workspace_snapshot arc"
  en_freshness_barrier :: "'b option"
  en_precise_providers :: "precise_provider list"
  en_diff_provider :: "'d option"
  en_cold_builds :: "64 word"

definition project_model_default :: project_model where
  "project_model_default = \<lparr>workspaces = [], workspaces_omitted = 0, units = [], units_omitted = 0,
     issues = [], issues_omitted = 0\<rparr>"

definition initial_snapshot :: "workspace_identity \<Rightarrow> nat \<Rightarrow> nat \<Rightarrow> workspace_snapshot" where
  "initial_snapshot identity ga ia = \<lparr>
     ws_identity = identity, ws_revision = revision_initial, ws_status = StatusInitializing,
     ws_freshness = Stale, ws_provider_state = NotConfigured, ws_indexing = indexing_status_default,
     ws_graph = (ga, Owned [] partition_new), ws_commit_graph = Owned [] partition_new,
     ws_layers = workspace_graph_layers_default, ws_provider_inputs = (ia, []),
     ws_project_model = project_model_default\<rparr>"

definition engine_new :: "workspace_identity \<Rightarrow> nat \<Rightarrow> nat \<Rightarrow> nat \<Rightarrow> ('b, 'd) engine" where
  "engine_new identity sa ga ia = \<lparr>
     en_current = (sa, initial_snapshot identity ga ia), en_freshness_barrier = None,
     en_precise_providers = [], en_diff_provider = None, en_cold_builds = 0\<rparr>"

definition snapshot :: "('b, 'd) engine \<Rightarrow> workspace_snapshot arc" where
  "snapshot e = en_current e"

definition begin_update_from :: "workspace_snapshot \<Rightarrow> update_builder" where
  "begin_update_from base = \<lparr>
     ub_base_revision = ws_revision base, ub_identity = ws_identity base,
     ub_status = ws_status base, ub_freshness = ws_freshness base,
     ub_provider_state = ws_provider_state base, ub_indexing = ws_indexing base,
     ub_graph = ws_graph base, ub_commit_graph = ws_commit_graph base,
     ub_layers = ws_layers base, ub_provider_inputs = ws_provider_inputs base,
     ub_project_model = ws_project_model base\<rparr>"

definition begin_update :: "('b, 'd) engine \<Rightarrow> update_builder" where
  "begin_update e = begin_update_from (snd (snapshot e))"

text \<open>
  \<open>publish\<close> in its three shared-memory accesses: the load with the revision check, the
  compare-and-swap of the slot, and the count of a cold build.
\<close>

definition next_snapshot :: "update_builder \<Rightarrow> workspace_snapshot" where
  "next_snapshot b = \<lparr>
     ws_identity = ub_identity b, ws_revision = revision_next (ub_base_revision b),
     ws_status = ub_status b, ws_freshness = ub_freshness b,
     ws_provider_state = ub_provider_state b, ws_indexing = ub_indexing b,
     ws_graph = ub_graph b, ws_commit_graph = ub_commit_graph b, ws_layers = ub_layers b,
     ws_provider_inputs = ub_provider_inputs b, ws_project_model = ub_project_model b\<rparr>"

definition publish_load ::
    "update_builder \<Rightarrow> ('b, 'd) engine \<Rightarrow> publish_error + workspace_snapshot arc" where
  "publish_load b e =
     (let current = en_current e
      in if ws_revision (snd current) \<noteq> ub_base_revision b
         then Inl (Conflict (ub_base_revision b) (ws_revision (snd current)))
         else Inr current)"

definition compare_and_swap ::
    "workspace_snapshot arc \<Rightarrow> workspace_snapshot arc \<Rightarrow> ('b, 'd) engine \<Rightarrow>
     workspace_snapshot arc \<times> ('b, 'd) engine" where
  "compare_and_swap current new e =
     (en_current e, if ptr_eq (en_current e) current then e\<lparr>en_current := new\<rparr> else e)"

definition publish_swap ::
    "update_builder \<Rightarrow> workspace_snapshot arc \<Rightarrow> nat \<Rightarrow> ('b, 'd) engine \<Rightarrow>
     (publish_error + workspace_snapshot arc) \<times> ('b, 'd) engine" where
  "publish_swap b current sa e =
     (let new = (sa, next_snapshot b); (previous, e') = compare_and_swap current new e
      in if \<not> ptr_eq previous current
         then (Inl (Conflict (ub_base_revision b) (ws_revision (snd previous))), e')
         else (Inr new, e'))"

definition is_cold_build :: "bool \<Rightarrow> workspace_snapshot \<Rightarrow> bool" where
  "is_cold_build graph_replaced s \<longleftrightarrow>
     graph_replaced \<and> \<not> pub_structurally_incremental (idx_publication (ws_indexing s)) \<and>
     pub_rebuilt_files (idx_publication (ws_indexing s)) > 0"

definition publish_count ::
    "workspace_snapshot arc \<Rightarrow> workspace_snapshot arc \<Rightarrow> ('b, 'd) engine \<Rightarrow> ('b, 'd) engine" where
  "publish_count current new e =
     (if is_cold_build (\<not> ptr_eq (ws_graph (snd current)) (ws_graph (snd new))) (snd new)
      then e\<lparr>en_cold_builds := en_cold_builds e + 1\<rparr> else e)"

text \<open>The whole call when no other thread runs in between.\<close>

definition publish ::
    "update_builder \<Rightarrow> nat \<Rightarrow> ('b, 'd) engine \<Rightarrow>
     (publish_error + workspace_snapshot arc) \<times> ('b, 'd) engine" where
  "publish b sa e =
     (case publish_load b e of
        Inl err \<Rightarrow> (Inl err, e)
      | Inr current \<Rightarrow>
          (case publish_swap b current sa e of
             (Inl err, e') \<Rightarrow> (Inl err, e')
           | (Inr new, e') \<Rightarrow> (Inr new, publish_count current new e')))"

subsection \<open>Installation and routing\<close>

datatype barrier_already_installed = BarrierAlreadyInstalled
datatype diff_provider_already_installed = DiffProviderAlreadyInstalled

definition install_freshness_barrier ::
    "'b \<Rightarrow> ('b, 'd) engine \<Rightarrow> (barrier_already_installed + unit) \<times> ('b, 'd) engine" where
  "install_freshness_barrier b e =
     (case en_freshness_barrier e of
        Some _ \<Rightarrow> (Inl BarrierAlreadyInstalled, e)
      | None \<Rightarrow> (Inr (), e\<lparr>en_freshness_barrier := Some b\<rparr>))"

definition install_diff_provider ::
    "'d \<Rightarrow> ('b, 'd) engine \<Rightarrow> (diff_provider_already_installed + unit) \<times> ('b, 'd) engine" where
  "install_diff_provider d e =
     (case en_diff_provider e of
        Some _ \<Rightarrow> (Inl DiffProviderAlreadyInstalled, e)
      | None \<Rightarrow> (Inr (), e\<lparr>en_diff_provider := Some d\<rparr>))"

definition supported_languages :: "precise_provider \<Rightarrow> language list" where
  "supported_languages p = filter (pp_supports p) language_all"

fun language_conflict :: "precise_provider \<Rightarrow> precise_provider list \<Rightarrow> language list \<Rightarrow> install_error option" where
  "language_conflict p ps [] = None"
| "language_conflict p ps (l # ls) =
     (case find (\<lambda>q. pp_supports q l) ps of
        Some q \<Rightarrow> Some (LanguageConflict l (pp_name q) (pp_name p))
      | None \<Rightarrow> language_conflict p ps ls)"

definition install_precise_provider ::
    "precise_provider \<Rightarrow> ('b, 'd) engine \<Rightarrow> (install_error + unit) \<times> ('b, 'd) engine" where
  "install_precise_provider p e =
     (if supported_languages p = [] then (Inl (NoSupportedLanguages (pp_name p)), e)
      else (case language_conflict p (en_precise_providers e) (supported_languages p) of
              Some err \<Rightarrow> (Inl err, e)
            | None \<Rightarrow> (Inr (), e\<lparr>en_precise_providers := en_precise_providers e @ [p]\<rparr>)))"

definition precise_provider_for_path ::
    "('b, 'd) engine \<Rightarrow> language \<Rightarrow> repo_path \<Rightarrow> precise_provider option" where
  "precise_provider_for_path e l path = find (\<lambda>p. pp_supports_path p l path) (en_precise_providers e)"

subsection \<open>Reading the engine\<close>

definition workspace_from_snapshot :: "workspace_snapshot \<Rightarrow> provider_workspace" where
  "workspace_from_snapshot s = \<lparr>
     pw_root = wi_root (ws_identity s), pw_revision = ws_revision s,
     pw_documents = SnapshotDocuments (ws_graph s), pw_inputs = ws_provider_inputs s\<rparr>"

definition workspace_from_snapshot_with_context ::
    "(nat \<Rightarrow> op_world) \<Rightarrow> op_context \<Rightarrow> workspace_snapshot \<Rightarrow> provider_workspace polled" where
  "workspace_from_snapshot_with_context worlds c s =
     op_bind (poll worlds c) (\<lambda>_ n. (Inr (workspace_from_snapshot s), n))"

definition engine_provider_workspace :: "('b, 'd) engine \<Rightarrow> provider_workspace" where
  "engine_provider_workspace e = workspace_from_snapshot (snd (snapshot e))"

text \<open>
  A barrier reconciles and publishes through the engine itself; \<open>run\<close> is what the
  installed barrier does. Without a barrier the published freshness stands.
\<close>

definition require_fresh ::
    "('b \<Rightarrow> ('b, 'd) engine \<Rightarrow> (string + unit) \<times> ('b, 'd) engine) \<Rightarrow>
     ('b, 'd) engine \<Rightarrow> (string + unit) \<times> ('b, 'd) engine" where
  "require_fresh run e =
     (case en_freshness_barrier e of None \<Rightarrow> (Inr (), e) | Some b \<Rightarrow> run b e)"

definition op_abort_message :: "op_abort \<Rightarrow> string" where
  "op_abort_message a =
     (case a of Cancelled \<Rightarrow> ''operation was cancelled by its caller''
      | DeadlineExceeded \<Rightarrow> ''operation exceeded its execution deadline'')"

definition require_fresh_with_context ::
    "('b \<Rightarrow> op_context \<Rightarrow> ('b, 'd) engine \<Rightarrow> (string + unit) \<times> ('b, 'd) engine) \<Rightarrow>
     op_context \<Rightarrow> op_world \<Rightarrow> ('b, 'd) engine \<Rightarrow> (string + unit) \<times> ('b, 'd) engine" where
  "require_fresh_with_context run c w e =
     (case en_freshness_barrier e of
        None \<Rightarrow> (case context_check c w of Inl a \<Rightarrow> Inl (op_abort_message a) | Inr _ \<Rightarrow> Inr (), e)
      | Some b \<Rightarrow> run b c e)"

end
