(* ===== verification/Engine_Concurrency.thy ===== *)
theory Engine_Concurrency
  imports Workspace_Engine
begin

section \<open>Concurrent publishers\<close>

text \<open>
  Any number of threads begin, edit and publish updates of one engine
  (\<open>chakra-engine/src/engine.rs\<close>). A step is one access to the shared slot or one call on a
  private builder; the interleaving is free. The world also records what was published, to
  state that the outcome is that of an engine whose publications are atomic.
\<close>

subsection \<open>The world\<close>

text \<open>A thread between its steps; the ghost values are the snapshot and the edits it made.\<close>

datatype publisher =
    Resting
  | Building "workspace_snapshot arc" "builder_edit list" update_builder
  | Loaded "workspace_snapshot arc" "builder_edit list" update_builder "workspace_snapshot arc"
  | Counting "workspace_snapshot arc" "workspace_snapshot arc"
  | Finished "publish_error + workspace_snapshot arc"

record publication =
  p_base :: "workspace_snapshot arc"
  p_edits :: "builder_edit list"
  p_new :: "workspace_snapshot arc"

record ('b, 'd) engine_world =
  w_engine :: "('b, 'd) engine"
  w_threads :: "nat \<Rightarrow> publisher"
  w_next :: nat
  w_first :: "workspace_snapshot arc"
  w_pubs :: "publication list"

definition history :: "('b, 'd) engine_world \<Rightarrow> workspace_snapshot arc list" where
  "history w = w_first w # map p_new (w_pubs w)"

fun builder_of :: "publisher \<Rightarrow> update_builder option" where
  "builder_of (Building base es b) = Some b"
| "builder_of (Loaded base es b cur) = Some b"
| "builder_of Resting = None"
| "builder_of (Counting cur new) = None"
| "builder_of (Finished r) = None"

text \<open>
  The graph and input allocations somebody else holds. A published snapshot counts as held
  (a reader may keep it), so \<open>make_mut\<close> copies whatever was published.
\<close>

definition other_builders :: "('b, 'd) engine_world \<Rightarrow> nat \<Rightarrow> update_builder set" where
  "other_builders w t = {b. \<exists>u. u \<noteq> t \<and> builder_of (w_threads w u) = Some b}"

definition other_graphs :: "('b, 'd) engine_world \<Rightarrow> nat \<Rightarrow> workspace_graph arc set" where
  "other_graphs w t = (\<lambda>s. ws_graph (snd s)) ` set (history w) \<union> ub_graph ` other_builders w t"

text \<open>Where an edit allocates, it gets the next fresh address.\<close>

definition edit_allocates ::
    "('b, 'd) engine_world \<Rightarrow> nat \<Rightarrow> update_builder \<Rightarrow> builder_edit \<Rightarrow> bool" where
  "edit_allocates w t b ed =
     (case ed of
        GraphMut unique a f \<Rightarrow> unique = (fst (ub_graph b) \<notin> fst ` other_graphs w t) \<and> a = w_next w
      | ReplaceGraph a g \<Rightarrow> a = w_next w
      | SetProviderInputs a is \<Rightarrow> a = w_next w
      | _ \<Rightarrow> True)"

definition set_thread :: "nat \<Rightarrow> publisher \<Rightarrow> ('b, 'd) engine_world \<Rightarrow> ('b, 'd) engine_world" where
  "set_thread t p w = w\<lparr>w_threads := (w_threads w)(t := p)\<rparr>"

definition world_new :: "workspace_identity \<Rightarrow> ('b, 'd) engine_world" where
  "world_new identity = \<lparr>
     w_engine = engine_new identity 0 1 2, w_threads = (\<lambda>_. Resting), w_next = 3,
     w_first = (0, initial_snapshot identity 1 2), w_pubs = []\<rparr>"

subsection \<open>Steps\<close>

inductive engine_step :: "('b, 'd) engine_world \<Rightarrow> ('b, 'd) engine_world \<Rightarrow> bool" where
  begin_update_step:
    "w_threads w t = Resting \<or> w_threads w t = Finished r \<Longrightarrow>
     engine_step w (set_thread t (Building (snapshot (w_engine w)) [] (begin_update (w_engine w))) w)"
| edit_step:
    "w_threads w t = Building base es b \<Longrightarrow> edit_allocates w t b ed \<Longrightarrow>
     engine_step w ((set_thread t (Building base (es @ [ed]) (apply_edit ed b)) w)
       \<lparr>w_next := Suc (w_next w)\<rparr>)"
| load_conflict_step:
    "w_threads w t = Building base es b \<Longrightarrow> publish_load b (w_engine w) = Inl err \<Longrightarrow>
     engine_step w (set_thread t (Finished (Inl err)) w)"
| load_step:
    "w_threads w t = Building base es b \<Longrightarrow> publish_load b (w_engine w) = Inr cur \<Longrightarrow>
     engine_step w (set_thread t (Loaded base es b cur) w)"
| swap_conflict_step:
    "w_threads w t = Loaded base es b cur \<Longrightarrow>
     publish_swap b cur (w_next w) (w_engine w) = (Inl err, e') \<Longrightarrow>
     engine_step w ((set_thread t (Finished (Inl err)) w)\<lparr>w_engine := e', w_next := Suc (w_next w)\<rparr>)"
| swap_step:
    "w_threads w t = Loaded base es b cur \<Longrightarrow>
     publish_swap b cur (w_next w) (w_engine w) = (Inr new, e') \<Longrightarrow>
     engine_step w ((set_thread t (Counting cur new) w)
       \<lparr>w_engine := e', w_next := Suc (w_next w),
        w_pubs := w_pubs w @ [\<lparr>p_base = cur, p_edits = es, p_new = new\<rparr>]\<rparr>)"
| count_step:
    "w_threads w t = Counting cur new \<Longrightarrow>
     engine_step w ((set_thread t (Finished (Inr new)) w)
       \<lparr>w_engine := publish_count cur new (w_engine w)\<rparr>)"

inductive engine_reachable :: "('b, 'd) engine_world \<Rightarrow> bool" where
  engine_start: "engine_reachable (world_new identity)"
| engine_next: "engine_reachable w \<Longrightarrow> engine_step w w' \<Longrightarrow> engine_reachable w'"

subsection \<open>The atomic engine\<close>

text \<open>The reference: every update begins from the snapshot before it and is published at once.\<close>

definition publish_edits :: "builder_edit list \<Rightarrow> workspace_snapshot \<Rightarrow> workspace_snapshot" where
  "publish_edits es s = next_snapshot (apply_edits es (begin_update_from s))"

fun linear_history :: "workspace_snapshot \<Rightarrow> builder_edit list list \<Rightarrow> workspace_snapshot list" where
  "linear_history s [] = [s]"
| "linear_history s (es # ess) = s # linear_history (publish_edits es s) ess"

lemma linear_history_nonempty [simp]: "linear_history s ess \<noteq> []"
  by (cases ess) simp_all

lemma length_linear_history [simp]: "length (linear_history s ess) = Suc (length ess)"
  by (induction ess arbitrary: s) simp_all

lemma linear_history_snoc:
  "linear_history s (ess @ [es]) = linear_history s ess @ [publish_edits es (last (linear_history s ess))]"
  by (induction ess arbitrary: s) simp_all

lemma last_linear_history: "last (linear_history s ess) = fold publish_edits ess s"
  by (induction ess arbitrary: s) simp_all

lemma apply_edit_base: "ub_base_revision (apply_edit ed b) = ub_base_revision b"
  by (cases ed) (simp_all add: graph_mut_def replace_graph_def set_graph_layers_def set_layers_def
      set_status_def set_freshness_def set_provider_state_def set_indexing_def
      set_provider_inputs_def set_project_model_def)

lemma apply_edits_Nil [simp]: "apply_edits [] b = b"
  by (simp add: apply_edits_def)

lemma apply_edits_snoc: "apply_edits (es @ [ed]) b = apply_edit ed (apply_edits es b)"
  by (simp add: apply_edits_def)

lemma apply_edits_base: "ub_base_revision (apply_edits es b) = ub_base_revision b"
  by (induction es rule: rev_induct) (simp_all add: apply_edits_snoc apply_edit_base)

lemma begin_base [simp]: "ub_base_revision (begin_update_from s) = ws_revision s"
  by (simp add: begin_update_from_def)

lemma publish_edits_revision: "ws_revision (publish_edits es s) = revision_next (ws_revision s)"
  by (simp add: publish_edits_def next_snapshot_def apply_edits_base)

lemma linear_revisions:
  "i \<le> length ess \<Longrightarrow> ws_revision s < 2 ^ 64 \<Longrightarrow>
   ws_revision (linear_history s ess ! i) = (ws_revision s + i) mod 2 ^ 64"
proof (induction ess arbitrary: s i)
  case (Cons es ess)
  have "ws_revision (publish_edits es s) < 2 ^ 64"
    by (simp add: publish_edits_revision revision_next_def)
  with Cons show ?case
    by (cases i) (simp_all add: publish_edits_revision revision_next_def mod_simps)
qed simp

subsection \<open>The invariant\<close>

definition from_base :: "workspace_snapshot arc list \<Rightarrow> publisher \<Rightarrow> bool" where
  "from_base h p =
     (case p of
        Building base es b \<Rightarrow> base \<in> set h \<and> b = apply_edits es (begin_update_from (snd base))
      | Loaded base es b cur \<Rightarrow> base \<in> set h \<and> b = apply_edits es (begin_update_from (snd base)) \<and>
          cur \<in> set h \<and> ws_revision (snd cur) = ub_base_revision b
      | _ \<Rightarrow> True)"

definition world_inv :: "('b, 'd) engine_world \<Rightarrow> bool" where
  "world_inv w \<longleftrightarrow>
     distinct (map fst (history w)) \<and> (\<forall>s\<in>set (history w). fst s < w_next w) \<and>
     en_current (w_engine w) = last (history w) \<and>
     (\<forall>t. from_base (history w) (w_threads w t))"

definition linear :: "('b, 'd) engine_world \<Rightarrow> bool" where
  "linear w \<longleftrightarrow>
     map snd (history w) = linear_history (snd (w_first w)) (map p_edits (w_pubs w)) \<and>
     map p_base (w_pubs w) = butlast (history w) \<and> ws_revision (snd (w_first w)) = 0"

lemma history_set_thread [simp]: "history (set_thread t p w) = history w"
  by (simp add: history_def set_thread_def)

lemma set_thread_simps [simp]:
  "w_engine (set_thread t p w) = w_engine w" "w_next (set_thread t p w) = w_next w"
  "w_first (set_thread t p w) = w_first w" "w_pubs (set_thread t p w) = w_pubs w"
  "w_threads (set_thread t p w) u = (if u = t then p else w_threads w u)"
  by (simp_all add: set_thread_def)

lemma history_update [simp]:
  "history (w\<lparr>w_next := n\<rparr>) = history w" "history (w\<lparr>w_engine := e\<rparr>) = history w"
  "history (w\<lparr>w_pubs := w_pubs w @ [p]\<rparr>) = history w @ [p_new p]"
  by (simp_all add: history_def)

lemma length_history [simp]: "length (history w) = Suc (length (w_pubs w))"
  by (simp add: history_def)

lemma history_not_Nil [simp]: "history w \<noteq> []" by (simp add: history_def)

lemma from_base_mono: "set h \<subseteq> set h' \<Longrightarrow> from_base h p \<Longrightarrow> from_base h' p"
  by (cases p) (auto simp: from_base_def)

lemma current_in_history: "world_inv w \<Longrightarrow> en_current (w_engine w) \<in> set (history w)"
  by (simp add: world_inv_def)

lemma same_address:
  assumes "world_inv w" "s \<in> set (history w)" "s' \<in> set (history w)" "fst s = fst s'"
  shows "s = s'"
  using assms by (simp add: world_inv_def distinct_map inj_on_def)

text \<open>What one access to the slot does.\<close>

lemma publish_load_Inr:
  "publish_load b e = Inr cur \<longleftrightarrow> cur = en_current e \<and> ws_revision (snd cur) = ub_base_revision b"
  by (auto simp: publish_load_def Let_def)

lemma publish_load_Inl:
  "publish_load b e = Inl err \<longleftrightarrow> ws_revision (snd (en_current e)) \<noteq> ub_base_revision b \<and>
     err = Conflict (ub_base_revision b) (ws_revision (snd (en_current e)))"
  by (auto simp: publish_load_def Let_def)

lemma publish_swap_Inr:
  "publish_swap b cur a e = (Inr new, e') \<longleftrightarrow> fst (en_current e) = fst cur \<and>
     new = (a, next_snapshot b) \<and> e' = e\<lparr>en_current := new\<rparr>"
  by (auto simp: publish_swap_def compare_and_swap_def Let_def)

lemma publish_swap_Inl:
  "publish_swap b cur a e = (Inl err, e') \<longleftrightarrow> fst (en_current e) \<noteq> fst cur \<and> e' = e \<and>
     err = Conflict (ub_base_revision b) (ws_revision (snd (en_current e)))"
  by (auto simp: publish_swap_def compare_and_swap_def Let_def)

lemma publish_count_current [simp]: "en_current (publish_count cur new e) = en_current e"
  by (simp add: publish_count_def)

lemma world_inv_thread:
  assumes "world_inv w" "from_base (history w) p"
  shows "world_inv (set_thread t p w)"
  using assms by (auto simp: world_inv_def)

lemma world_inv_next: "world_inv w \<Longrightarrow> w_next w \<le> n \<Longrightarrow> world_inv (w\<lparr>w_next := n\<rparr>)"
  by (auto simp: world_inv_def)

lemma world_inv_step:
  assumes "engine_step w w'" "world_inv w"
  shows "world_inv w'"
  using assms
proof (cases rule: engine_step.cases)
  case (begin_update_step t r)
  then show ?thesis using assms(2) current_in_history [OF assms(2)]
    by (simp add: world_inv_thread from_base_def snapshot_def begin_update_def)
next
  case (edit_step t base es b ed)
  from assms(2) have "from_base (history w) (w_threads w t)" unfolding world_inv_def by blast
  then have "from_base (history w) (Building base (es @ [ed]) (apply_edit ed b))"
    unfolding edit_step(2) by (simp add: from_base_def apply_edits_snoc)
  then show ?thesis unfolding edit_step(1) using assms(2) by (intro world_inv_next world_inv_thread) simp_all
next
  case (load_conflict_step t base es b err)
  then show ?thesis using assms(2) by (simp add: world_inv_thread from_base_def)
next
  case (load_step t base es b cur)
  from assms(2) have "from_base (history w) (w_threads w t)" unfolding world_inv_def by blast
  then have "from_base (history w) (Loaded base es b cur)"
    using load_step(3) current_in_history [OF assms(2)]
    unfolding load_step(2) by (auto simp: from_base_def publish_load_Inr)
  then show ?thesis unfolding load_step(1) using assms(2) by (intro world_inv_thread)
next
  case (swap_conflict_step t base es b cur err e')
  then have "w' = (set_thread t (Finished (Inl err)) w)\<lparr>w_next := Suc (w_next w)\<rparr>"
    by (simp add: publish_swap_Inl set_thread_def)
  then show ?thesis using assms(2) by (simp add: world_inv_next world_inv_thread from_base_def)
next
  case (swap_step t base es b cur new e')
  have new: "new = (w_next w, next_snapshot b)" "e' = (w_engine w)\<lparr>en_current := new\<rparr>"
    using swap_step(3) by (simp_all add: publish_swap_Inr)
  have h: "history w' = history w @ [new]" unfolding swap_step(1) by (simp add: history_def)
  have "from_base (history w') (w_threads w' u)" for u
  proof (cases "u = t")
    case False
    have "from_base (history w) (w_threads w u)" using assms(2) by (simp add: world_inv_def)
    moreover have "w_threads w' u = w_threads w u" using False unfolding swap_step(1) by simp
    ultimately show ?thesis unfolding h by (auto intro: from_base_mono [rotated])
  qed (simp add: swap_step(1) from_base_def)
  moreover have "distinct (map fst (history w'))" "\<forall>s\<in>set (history w'). fst s < w_next w'"
    "en_current (w_engine w') = last (history w')"
    using assms(2) unfolding h by (auto simp: world_inv_def swap_step(1) new)
  ultimately show ?thesis unfolding world_inv_def by blast
next
  case (count_step t cur new)
  have "world_inv (set_thread t (Finished (Inr new)) w)"
    using assms(2) by (simp add: world_inv_thread from_base_def)
  then show ?thesis unfolding count_step(1) by (simp add: world_inv_def)
qed

lemma world_inv_reachable: "engine_reachable w \<Longrightarrow> world_inv w"
proof (induction rule: engine_reachable.induct)
  case (engine_start identity)
  show ?case by (simp add: world_inv_def world_new_def history_def engine_new_def from_base_def)
qed (rule world_inv_step)


subsection \<open>The history is linear\<close>

lemma linear_revision:
  assumes "linear w" "i \<le> length (w_pubs w)"
  shows "ws_revision (snd (history w ! i)) = i mod 2 ^ 64"
proof -
  have "snd (history w ! i) = map snd (history w) ! i" using assms(2) by simp
  also have "\<dots> = linear_history (snd (w_first w)) (map p_edits (w_pubs w)) ! i"
    using assms(1) unfolding linear_def by argo
  finally show ?thesis using assms by (simp add: linear_def linear_revisions)
qed

lemma same_revision:
  assumes "world_inv w" "linear w" "length (w_pubs w) < 2 ^ 64"
    and "s \<in> set (history w)" "s' \<in> set (history w)" "ws_revision (snd s) = ws_revision (snd s')"
  shows "s = s'"
proof -
  have len: "length (history w) = Suc (length (w_pubs w))" by (simp add: history_def)
  obtain i j where ij: "i \<le> length (w_pubs w)" "s = history w ! i"
      "j \<le> length (w_pubs w)" "s' = history w ! j"
    using assms(4,5) by (metis in_set_conv_nth len less_Suc_eq_le)
  then have "i mod 2 ^ 64 = j mod 2 ^ 64" using linear_revision [OF assms(2)] assms(6) by metis
  then have "i = j" using ij(1,3) assms(3) by simp
  with ij show ?thesis by simp
qed

lemma linear_step:
  assumes "engine_step w w'" "world_inv w" "linear w" "length (w_pubs w') \<le> 2 ^ 64"
  shows "linear w'"
  using assms(1)
proof (cases rule: engine_step.cases)
  case (swap_step t base es b cur new e')
  have short: "length (w_pubs w) < 2 ^ 64" using assms(4) unfolding swap_step(1) by simp
  from assms(2) have "from_base (history w) (w_threads w t)" unfolding world_inv_def by blast
  then have fb: "base \<in> set (history w)" "cur \<in> set (history w)"
      "b = apply_edits es (begin_update_from (snd base))" "ws_revision (snd cur) = ub_base_revision b"
    unfolding swap_step(2) by (simp_all add: from_base_def)
  have "base = cur" by (rule same_revision [OF assms(2,3) short fb(1,2)])
    (simp add: fb(4) fb(3) apply_edits_base)
  moreover have "cur = last (history w)"
    using swap_step(3) same_address [OF assms(2) _ fb(2)] current_in_history [OF assms(2)] assms(2)
    by (metis publish_swap_Inr world_inv_def)
  ultimately have new: "new = (w_next w, publish_edits es (snd (last (history w))))" "cur = last (history w)"
    using swap_step(3) fb(3) by (simp_all add: publish_swap_Inr publish_edits_def)
  have h: "history w' = history w @ [new]" unfolding swap_step(1) by (simp add: history_def)
  have "snd (last (history w)) = last (map snd (history w))" by (simp add: last_map)
  then show ?thesis using assms(3) new unfolding linear_def h
    by (simp add: swap_step(1) linear_history_snoc butlast_append)
qed (use assms(3) in \<open>simp_all add: linear_def\<close>)

lemma pubs_step: "engine_step w w' \<Longrightarrow> length (w_pubs w) \<le> length (w_pubs w')"
  by (erule engine_step.cases) simp_all

lemma linear_reachable: "engine_reachable w \<Longrightarrow> length (w_pubs w) \<le> 2 ^ 64 \<Longrightarrow> linear w"
proof (induction rule: engine_reachable.induct)
  case (engine_start identity)
  show ?case by (simp add: linear_def world_new_def history_def initial_snapshot_def revision_initial_def)
next
  case (engine_next w w')
  then show ?case using linear_step world_inv_reachable pubs_step by (meson le_trans)
qed

text \<open>The slot and the base of a thread, in terms of the recorded history.\<close>

lemma thread_facts:
  assumes "engine_reachable w"
  shows "w_threads w t = Building base es b \<Longrightarrow>
      base \<in> set (history w) \<and> b = apply_edits es (begin_update_from (snd base))"
    and "w_threads w t = Loaded base es b cur \<Longrightarrow>
      base \<in> set (history w) \<and> b = apply_edits es (begin_update_from (snd base)) \<and>
      cur \<in> set (history w) \<and> ws_revision (snd cur) = ws_revision (snd base)"
proof -
  have "from_base (history w) (w_threads w t)"
    using world_inv_reachable [OF assms] unfolding world_inv_def by blast
  then show "w_threads w t = Building base es b \<Longrightarrow>
      base \<in> set (history w) \<and> b = apply_edits es (begin_update_from (snd base))"
    "w_threads w t = Loaded base es b cur \<Longrightarrow>
      base \<in> set (history w) \<and> b = apply_edits es (begin_update_from (snd base)) \<and>
      cur \<in> set (history w) \<and> ws_revision (snd cur) = ws_revision (snd base)"
    by (auto simp: from_base_def apply_edits_base)
qed

lemma current_unique:
  assumes "engine_reachable w" "length (w_pubs w) < 2 ^ 64" "s \<in> set (history w)"
  shows "ws_revision (snd s) \<le> ws_revision (snd (snapshot (w_engine w)))"
    and "ws_revision (snd s) = ws_revision (snd (snapshot (w_engine w))) \<longleftrightarrow> s = snapshot (w_engine w)"
    and "fst s = fst (snapshot (w_engine w)) \<longleftrightarrow> s = snapshot (w_engine w)"
proof -
  note inv = world_inv_reachable [OF assms(1)]
  have lin: "linear w" by (rule linear_reachable [OF assms(1)]) (use assms(2) in simp)
  have cur: "snapshot (w_engine w) = history w ! length (w_pubs w)" "snapshot (w_engine w) \<in> set (history w)"
    using inv by (simp_all add: world_inv_def snapshot_def last_conv_nth)
  obtain i where "i \<le> length (w_pubs w)" "s = history w ! i"
    using assms(3) by (auto simp: in_set_conv_nth less_Suc_eq_le)
  then show "ws_revision (snd s) \<le> ws_revision (snd (snapshot (w_engine w)))"
    using assms(2) by (simp add: cur(1) linear_revision [OF lin])
  show "ws_revision (snd s) = ws_revision (snd (snapshot (w_engine w))) \<longleftrightarrow> s = snapshot (w_engine w)"
    using same_revision [OF inv lin assms(2,3) cur(2)] by blast
  show "fst s = fst (snapshot (w_engine w)) \<longleftrightarrow> s = snapshot (w_engine w)"
    using same_address [OF inv assms(3) cur(2)] by blast
qed

end
