(* ===== verification/Engine_Properties.thy ===== *)
theory Engine_Properties
  imports Engine_Concurrency
begin

section \<open>What the engine promises its publishers and readers\<close>

text \<open>
  The properties of \<open>chakra-engine/src/engine.rs\<close> under concurrent publishers, on the step
  relation of \<open>Engine_Concurrency\<close>, and the routing of precise providers.
\<close>

subsection \<open>A sample run\<close>

text \<open>Two threads begin on the empty workspace; the first publishes a fresh graph.\<close>

definition sample_identity :: workspace_identity where
  "sample_identity = identity_for_repository ''/repo'' ''r''"

definition sample_start :: "(unit, unit) engine_world" where
  "sample_start = world_new sample_identity"

definition sample_begun :: "(unit, unit) engine_world" where
  "sample_begun =
     (let w = sample_start; s = snapshot (w_engine w); b = begin_update (w_engine w)
      in set_thread 0 (Building s [] b) (set_thread 1 (Building s [] b) w))"

definition sample_edited :: "(unit, unit) engine_world" where
  "sample_edited =
     (set_thread 0 (Building (snapshot (w_engine sample_begun)) [SetFreshness Fresh]
        (set_freshness Fresh (begin_update (w_engine sample_begun)))) sample_begun)\<lparr>w_next := 4\<rparr>"

definition sample_loaded :: "(unit, unit) engine_world" where
  "sample_loaded =
     set_thread 0 (Loaded (snapshot (w_engine sample_begun)) [SetFreshness Fresh]
        (set_freshness Fresh (begin_update (w_engine sample_begun)))
        (snapshot (w_engine sample_begun))) sample_edited"

definition sample_new :: "workspace_snapshot arc" where
  "sample_new = (4, next_snapshot (set_freshness Fresh (begin_update (w_engine sample_begun))))"

definition sample_published :: "(unit, unit) engine_world" where
  "sample_published =
     (set_thread 0 (Counting (snapshot (w_engine sample_begun)) sample_new) sample_loaded)
       \<lparr>w_engine := (w_engine sample_begun)\<lparr>en_current := sample_new\<rparr>, w_next := 5,
        w_pubs := [\<lparr>p_base = snapshot (w_engine sample_begun), p_edits = [SetFreshness Fresh],
                    p_new = sample_new\<rparr>]\<rparr>"

lemmas sample_defs = sample_start_def sample_begun_def sample_edited_def sample_loaded_def sample_published_def
  sample_new_def world_new_def engine_new_def snapshot_def Let_def

lemma sample_loaded_reachable: "engine_reachable sample_loaded"
proof -
  have "engine_reachable sample_start" unfolding sample_start_def by (rule engine_start)
  then have "engine_reachable (set_thread 1 (Building (snapshot (w_engine sample_start)) []
      (begin_update (w_engine sample_start))) sample_start)"
    by (rule engine_next [OF _ begin_update_step]) (simp add: sample_start_def world_new_def)
  then have "engine_reachable sample_begun"
    using engine_next [OF _ begin_update_step [where t = 0]] unfolding sample_begun_def Let_def
    by (fastforce simp: sample_start_def world_new_def)
  moreover have "engine_step sample_begun sample_edited"
    using edit_step [of sample_begun 0 "snapshot (w_engine sample_begun)" "[]"
        "begin_update (w_engine sample_begun)" "SetFreshness Fresh"]
    by (simp add: edit_allocates_def sample_edited_def) (simp add: sample_defs)
  moreover have "engine_step sample_edited sample_loaded"
    unfolding sample_loaded_def
    by (rule load_step) (simp_all add: sample_defs publish_load_Inr set_freshness_def
        begin_update_def begin_update_from_def)
  ultimately show ?thesis by (meson engine_next)
qed

lemma sample_swap: "engine_step sample_loaded sample_published"
  using swap_step [of sample_loaded 0 "snapshot (w_engine sample_begun)" "[SetFreshness Fresh]"
    "set_freshness Fresh (begin_update (w_engine sample_begun))" "snapshot (w_engine sample_begun)"
    sample_new "(w_engine sample_begun)\<lparr>en_current := sample_new\<rparr>"]
  by (simp add: publish_swap_Inr sample_published_def) (simp add: sample_defs)

lemma sample_reachable: "engine_reachable sample_published"
  by (rule engine_next [OF sample_loaded_reachable sample_swap])

lemma sample_pubs: "length (w_pubs sample_published) = 1"
  by (simp add: sample_published_def)

subsection \<open>Publication\<close>

text \<open>
  C23: Publications are atomic and none is lost. However threads interleave, the published
  snapshots are those of an engine that runs the successful updates one after another, each
  beginning from the snapshot published before it; the slot holds the last one, and the
  revisions are \<open>0, 1, 2, \<dots>\<close> without gap or repetition.
\<close>

theorem publications_linear:
  assumes "engine_reachable w" "length (w_pubs w) < 2 ^ 64"
  shows "map snd (history w) = linear_history (snd (w_first w)) (map p_edits (w_pubs w)) \<and>
    snapshot (w_engine w) = last (history w) \<and>
    map p_base (w_pubs w) = butlast (history w) \<and>
    map (\<lambda>s. ws_revision (snd s)) (history w) = [0..<Suc (length (w_pubs w))]"
proof (intro conjI)
  have lin: "linear w" by (rule linear_reachable [OF assms(1)]) (use assms(2) in simp)
  then show "map snd (history w) = linear_history (snd (w_first w)) (map p_edits (w_pubs w))"
      "map p_base (w_pubs w) = butlast (history w)"
    by (simp_all add: linear_def)
  show "snapshot (w_engine w) = last (history w)"
    using world_inv_reachable [OF assms(1)] by (simp add: world_inv_def snapshot_def)
  show "map (\<lambda>s. ws_revision (snd s)) (history w) = [0..<Suc (length (w_pubs w))]"
    using linear_revision [OF lin] assms(2) by (intro nth_equalityI) (simp_all del: upt_Suc)
qed

theorem publications_linear_witness:
  "map snd (history sample_published) =
     [snd (w_first sample_published), publish_edits [SetFreshness Fresh] (snd (w_first sample_published))]"
  using publications_linear [OF sample_reachable] sample_pubs
  by (simp add: sample_published_def)


text \<open>
  C24: A publisher loses exactly when somebody published since it began. In every
  interleaving, a thread that ends in a conflict began from a snapshot that has been replaced
  by one of a higher revision, is told both revisions, and leaves the engine as it was; a
  thread that wins began from the snapshot in the slot, and the slot then holds its update.
\<close>

theorem publish_outcome_exact:
  assumes "engine_reachable w" "length (w_pubs w) < 2 ^ 64" "engine_step w w'"
    and "w_threads w t = Building base es b \<or> w_threads w t = Loaded base es b cur"
  shows "(\<forall>err. w_threads w' t = Finished (Inl err) \<longrightarrow>
       base \<noteq> snapshot (w_engine w) \<and>
       ws_revision (snd base) < ws_revision (snd (snapshot (w_engine w))) \<and>
       err = Conflict (ws_revision (snd base)) (ws_revision (snd (snapshot (w_engine w)))) \<and>
       w_engine w' = w_engine w \<and> w_pubs w' = w_pubs w) \<and>
     (\<forall>old new. w_threads w' t = Counting old new \<longrightarrow>
       base = snapshot (w_engine w) \<and> old = base \<and> snd new = publish_edits es (snd base) \<and>
       snapshot (w_engine w') = new)"
  using assms(3)
proof (cases rule: engine_step.cases)
  case (load_conflict_step u base' es' b' err)
  show ?thesis
  proof (cases "u = t")
    case True
    have mine: "base' = base" "es' = es" "b' = b" using assms(4) load_conflict_step(2) unfolding True by auto
    have f: "base \<in> set (history w)" "b = apply_edits es (begin_update_from (snd base))"
      using thread_facts(1) [OF assms(1)] load_conflict_step(2) unfolding mine by blast+
    have err: "ws_revision (snd (snapshot (w_engine w))) \<noteq> ws_revision (snd base)"
        "err = Conflict (ws_revision (snd base)) (ws_revision (snd (snapshot (w_engine w))))"
      using load_conflict_step(3) f(2) by (simp_all add: mine publish_load_Inl snapshot_def apply_edits_base)
    then show ?thesis
      using current_unique(1) [OF assms(1,2) f(1)] by (auto simp: load_conflict_step(1) True)
  qed (use assms(4) in \<open>auto simp: load_conflict_step(1)\<close>)
next
  case (swap_conflict_step u base' es' b' cur' err e')
  show ?thesis
  proof (cases "u = t")
    case True
    have mine: "base' = base" "es' = es" "b' = b" "cur' = cur"
      using assms(4) swap_conflict_step(2) unfolding True by auto
    have f: "base \<in> set (history w)" "b = apply_edits es (begin_update_from (snd base))"
        "cur \<in> set (history w)" "ws_revision (snd cur) = ws_revision (snd base)"
      using thread_facts(2) [OF assms(1)] swap_conflict_step(2) unfolding mine by blast+
    have sw: "fst (snapshot (w_engine w)) \<noteq> fst cur" "e' = w_engine w"
        "err = Conflict (ws_revision (snd base)) (ws_revision (snd (snapshot (w_engine w))))"
      using swap_conflict_step(3) f(2)
      by (simp_all add: mine publish_swap_Inl snapshot_def apply_edits_base)
    then have "ws_revision (snd base) \<noteq> ws_revision (snd (snapshot (w_engine w)))"
      using current_unique(2) [OF assms(1,2) f(3)] f(4) by auto
    then show ?thesis
      using current_unique(1) [OF assms(1,2) f(1)] sw by (auto simp: swap_conflict_step(1) True)
  qed (use assms(4) in \<open>auto simp: swap_conflict_step(1)\<close>)
next
  case (swap_step u base' es' b' cur' new e')
  show ?thesis
  proof (cases "u = t")
    case True
    have mine: "base' = base" "es' = es" "b' = b" "cur' = cur"
      using assms(4) swap_step(2) unfolding True by auto
    have f: "base \<in> set (history w)" "b = apply_edits es (begin_update_from (snd base))"
        "cur \<in> set (history w)" "ws_revision (snd cur) = ws_revision (snd base)"
      using thread_facts(2) [OF assms(1)] swap_step(2) unfolding mine by blast+
    have sw: "fst cur = fst (snapshot (w_engine w))" "snd new = next_snapshot b"
        "e' = (w_engine w)\<lparr>en_current := new\<rparr>"
      using swap_step(3) by (simp_all add: mine publish_swap_Inr snapshot_def)
    have "cur = snapshot (w_engine w)" using current_unique(3) [OF assms(1,2) f(3)] sw(1) by simp
    moreover have "base = snapshot (w_engine w)"
      using current_unique(2) [OF assms(1,2) f(1)] f(4) calculation by simp
    ultimately show ?thesis
      using sw f(2) by (auto simp: swap_step(1) True mine publish_edits_def snapshot_def)
  qed (use assms(4) in \<open>auto simp: swap_step(1)\<close>)
qed (use assms(4) in \<open>auto split: if_splits\<close>)

theorem publish_outcome_exact_witness:
  "w_threads sample_loaded 0 =
     Loaded (snapshot (w_engine sample_begun)) [SetFreshness Fresh]
       (set_freshness Fresh (begin_update (w_engine sample_begun))) (snapshot (w_engine sample_begun)) \<and>
   snapshot (w_engine sample_published) = sample_new"
proof -
  have t: "w_threads sample_loaded 0 =
      Loaded (snapshot (w_engine sample_begun)) [SetFreshness Fresh]
        (set_freshness Fresh (begin_update (w_engine sample_begun))) (snapshot (w_engine sample_begun))"
    by (simp add: sample_loaded_def)
  have "w_threads sample_published 0 = Counting (snapshot (w_engine sample_begun)) sample_new"
    by (simp add: sample_published_def)
  moreover have "length (w_pubs sample_loaded) < 2 ^ 64" by (simp add: sample_defs)
  ultimately have "snapshot (w_engine sample_published) = sample_new"
    using publish_outcome_exact [OF sample_loaded_reachable _ sample_swap disjI2 [OF t]] by blast
  with t show ?thesis by simp
qed

end
