(* ===== verification/Engine_Readers.thy ===== *)
theory Engine_Readers
  imports Engine_Properties
begin

section \<open>What readers of the engine may rely on\<close>

text \<open>
  Freshness claims, allocation identity, the cold-build counter and provider routing of
  \<open>chakra-engine/src/engine.rs\<close>.
\<close>

subsection \<open>Freshness\<close>

text \<open>The reference: what one edit does to the freshness claim of the builder.\<close>

fun freshness_edit :: "builder_edit \<Rightarrow> freshness \<Rightarrow> freshness" where
  "freshness_edit (GraphMut unique a f) _ = Stale"
| "freshness_edit (ReplaceGraph a g) _ = Stale"
| "freshness_edit (SetFreshness f) _ = f"
| "freshness_edit _ f = f"

definition keeps_claim :: "builder_edit \<Rightarrow> bool" where
  "keeps_claim ed \<longleftrightarrow>
     (case ed of GraphMut _ _ _ \<Rightarrow> False | ReplaceGraph _ _ \<Rightarrow> False | SetFreshness _ \<Rightarrow> False | _ \<Rightarrow> True)"

lemma keeps_claim_iff: "keeps_claim e \<longleftrightarrow> (\<forall>u a f. e \<noteq> GraphMut u a f) \<and>
    (\<forall>a g. e \<noteq> ReplaceGraph a g) \<and> (\<forall>f. e \<noteq> SetFreshness f)"
  by (cases e) (simp_all add: keeps_claim_def)

lemma apply_edit_freshness: "ub_freshness (apply_edit ed b) = freshness_edit ed (ub_freshness b)"
  by (cases ed) (simp_all add: graph_mut_def replace_graph_def set_graph_layers_def set_layers_def
      set_status_def set_freshness_def set_provider_state_def set_indexing_def
      set_provider_inputs_def set_project_model_def)

lemma apply_edits_freshness: "ub_freshness (apply_edits es b) = fold freshness_edit es (ub_freshness b)"
  by (induction es rule: rev_induct) (simp_all add: apply_edits_snoc apply_edit_freshness)

lemma publish_edits_freshness: "ws_freshness (publish_edits es s) = fold freshness_edit es (ws_freshness s)"
  by (simp add: publish_edits_def next_snapshot_def apply_edits_freshness begin_update_from_def)

lemma publications_freshness:
  "ws_freshness (fold publish_edits ess s) = fold freshness_edit (concat ess) (ws_freshness s)"
  by (induction ess arbitrary: s) (simp_all add: publish_edits_freshness)

lemma freshness_edit_keeps: "keeps_claim ed \<Longrightarrow> freshness_edit ed f = f"
  by (cases ed) (simp_all add: keeps_claim_def)

lemma freshness_edit_claims: "\<not> keeps_claim ed \<Longrightarrow> freshness_edit ed f = Fresh \<longleftrightarrow> ed = SetFreshness Fresh"
  by (cases ed) (simp_all add: keeps_claim_def)

lemma fresh_iff_claimed:
  "fold freshness_edit es Stale = Fresh \<longleftrightarrow>
     (\<exists>pre post. es = pre @ SetFreshness Fresh # post \<and> (\<forall>e\<in>set post. keeps_claim e))"
  (is "?f es \<longleftrightarrow> ?claimed es")
proof (induction es rule: rev_induct)
  case (snoc ed es)
  show ?case
  proof (cases "keeps_claim ed")
    case True
    have "?claimed (es @ [ed]) \<longleftrightarrow> ?claimed es"
    proof
      assume "?claimed (es @ [ed])"
      then obtain pre post where s: "es @ [ed] = pre @ SetFreshness Fresh # post" "\<forall>e\<in>set post. keeps_claim e"
        by blast
      have "post \<noteq> []" using s(1) True by (auto simp: keeps_claim_def)
      then have "es = pre @ SetFreshness Fresh # butlast post"
        using arg_cong [OF s(1), of butlast] by (simp add: butlast_append)
      then show "?claimed es" using s(2) by (blast dest: in_set_butlastD)
    next
      assume "?claimed es"
      then obtain pre post where "es = pre @ SetFreshness Fresh # post" "\<forall>e\<in>set post. keeps_claim e"
        by blast
      then have "es @ [ed] = pre @ SetFreshness Fresh # (post @ [ed])" "\<forall>e\<in>set (post @ [ed]). keeps_claim e"
        using True by simp_all
      then show "?claimed (es @ [ed])" by blast
    qed
    then show ?thesis using snoc True by (simp add: freshness_edit_keeps)
  next
    case False
    have "?claimed (es @ [ed]) \<longleftrightarrow> ed = SetFreshness Fresh"
    proof
      assume "?claimed (es @ [ed])"
      then obtain pre post where s: "es @ [ed] = pre @ SetFreshness Fresh # post" "\<forall>e\<in>set post. keeps_claim e"
        by blast
      have "post = []" using s False by (cases post rule: rev_cases) auto
      then show "ed = SetFreshness Fresh" using s(1) by simp
    qed fastforce
    then show ?thesis using False by (simp add: freshness_edit_claims)
  qed
qed simp

lemma initial_stale: "engine_reachable w \<Longrightarrow> ws_freshness (snd (w_first w)) = Stale"
proof (induction rule: engine_reachable.induct)
  case (engine_start identity)
  show ?case by (simp add: world_new_def initial_snapshot_def)
next
  case (engine_next w w')
  from engine_next.hyps(2) have "w_first w' = w_first w" by (rule engine_step.cases) simp_all
  with engine_next.IH show ?case by simp
qed

text \<open>
  C25: Fresh means claimed. The published snapshot says \<open>Fresh\<close> exactly when some publisher
  claimed freshness and, in the order of publication, no edit after the claim touched the
  graph (\<open>graph_mut\<close>, \<open>replace_graph\<close>) or set the freshness again. A changed graph is never
  served as fresh on the strength of an older claim. Only those edits take a claim back: the
  code keeps it when layers, status, provider state, coverage, provider inputs or the project
  model are replaced. For the project model this is not what the comment of
  \<open>set_project_model\<close> announces (a replaced model would have to be confirmed again, like a
  graph); the second part of the statement shows it: publishing another model alone leaves a
  fresh snapshot fresh.
\<close>

theorem fresh_was_claimed:
  assumes "engine_reachable w" "length (w_pubs w) < 2 ^ 64"
  shows "(ws_freshness (snd (snapshot (w_engine w))) = Fresh \<longleftrightarrow>
    (\<exists>pre post. concat (map p_edits (w_pubs w)) = pre @ SetFreshness Fresh # post \<and>
       (\<forall>e\<in>set post. (\<forall>u a f. e \<noteq> GraphMut u a f) \<and> (\<forall>a g. e \<noteq> ReplaceGraph a g) \<and>
          (\<forall>f. e \<noteq> SetFreshness f)))) \<and>
    ws_freshness (publish_edits [SetProjectModel m] (snd (snapshot (w_engine w)))) =
      ws_freshness (snd (snapshot (w_engine w)))"
proof -
  have lin: "linear w" by (rule linear_reachable [OF assms(1)]) (use assms(2) in simp)
  have "snd (snapshot (w_engine w)) = last (map snd (history w))"
    using world_inv_reachable [OF assms(1)] by (simp add: world_inv_def snapshot_def last_map)
  also have "\<dots> = fold publish_edits (map p_edits (w_pubs w)) (snd (w_first w))"
    using lin unfolding linear_def by (metis last_linear_history)
  finally have "ws_freshness (snd (snapshot (w_engine w))) = Fresh \<longleftrightarrow>
      (\<exists>pre post. concat (map p_edits (w_pubs w)) = pre @ SetFreshness Fresh # post \<and>
        (\<forall>e\<in>set post. keeps_claim e))"
    by (simp add: publications_freshness initial_stale [OF assms(1)] fresh_iff_claimed)
  then show ?thesis unfolding keeps_claim_iff by (simp add: publish_edits_freshness)
qed

theorem fresh_was_claimed_witness:
  "ws_freshness (snd (snapshot (w_engine sample_published))) = Fresh \<and>
   ws_freshness (publish_edits [SetProjectModel project_model_default] (snd (snapshot (w_engine sample_published)))) = Fresh"
proof -
  have "concat (map p_edits (w_pubs sample_published)) = [] @ SetFreshness Fresh # []"
    by (simp add: sample_published_def)
  then show ?thesis
    using fresh_was_claimed [OF sample_reachable, of project_model_default] sample_pubs by fastforce
qed

subsection \<open>Allocation identity\<close>

definition builder_graphs :: "('b, 'd) engine_world \<Rightarrow> workspace_graph arc set" where
  "builder_graphs w = {ub_graph b | b t. builder_of (w_threads w t) = Some b}"

definition builder_inputs :: "('b, 'd) engine_world \<Rightarrow> (repo_path, provider_input) omap arc set" where
  "builder_inputs w = {ub_provider_inputs b | b t. builder_of (w_threads w t) = Some b}"

definition world_graphs :: "('b, 'd) engine_world \<Rightarrow> workspace_graph arc set" where
  "world_graphs w = (\<lambda>s. ws_graph (snd s)) ` set (history w) \<union> builder_graphs w"

definition world_inputs :: "('b, 'd) engine_world \<Rightarrow> (repo_path, provider_input) omap arc set" where
  "world_inputs w = (\<lambda>s. ws_provider_inputs (snd s)) ` set (history w) \<union> builder_inputs w"

text \<open>Live allocations below the next fresh address, each holding one value.\<close>

definition arcs_sound :: "nat \<Rightarrow> 'a arc set \<Rightarrow> bool" where
  "arcs_sound n A \<longleftrightarrow> (\<forall>x\<in>A. fst x < n) \<and> inj_on fst A"

lemma arcs_sound_subset: "arcs_sound n A \<Longrightarrow> B \<subseteq> A \<Longrightarrow> n \<le> m \<Longrightarrow> arcs_sound m B"
  unfolding arcs_sound_def by (meson inj_on_subset less_le_trans subsetD)

lemma arcs_sound_add:
  assumes "arcs_sound n A" "B \<subseteq> insert x A" "fst x \<notin> fst ` (B - {x})" "fst x \<le> n"
  shows "arcs_sound (Suc n) B"
proof -
  have "B - {x} \<subseteq> A" using assms(2) by blast
  then have "inj_on fst (B - {x})" using assms(1) unfolding arcs_sound_def by (blast intro: inj_on_subset)
  then have "inj_on fst (insert x (B - {x}))"
    unfolding inj_on_insert using assms(3) by simp
  then have "inj_on fst B" by (rule inj_on_subset) auto
  moreover have "\<forall>y\<in>B. fst y < Suc n" using assms(1,2,4) by (auto simp: arcs_sound_def less_Suc_eq)
  ultimately show ?thesis by (simp add: arcs_sound_def)
qed

definition allocations_sound :: "('b, 'd) engine_world \<Rightarrow> bool" where
  "allocations_sound w \<longleftrightarrow>
     arcs_sound (w_next w) (world_graphs w) \<and> arcs_sound (w_next w) (world_inputs w)"

lemma allocations_subset:
  assumes "allocations_sound w" "world_graphs w' \<subseteq> world_graphs w" "world_inputs w' \<subseteq> world_inputs w"
    and "w_next w \<le> w_next w'"
  shows "allocations_sound w'"
  using assms(1) arcs_sound_subset [OF _ assms(2,4)] arcs_sound_subset [OF _ assms(3,4)]
  by (simp add: allocations_sound_def)

lemma other_graphs_world: "other_graphs w t \<subseteq> world_graphs w"
  by (auto simp: other_graphs_def world_graphs_def builder_graphs_def other_builders_def)


lemma builder_in_world:
  assumes "builder_of (w_threads w t) = Some b"
  shows "ub_graph b \<in> world_graphs w" "ub_provider_inputs b \<in> world_inputs w"
  using assms unfolding world_graphs_def builder_graphs_def world_inputs_def builder_inputs_def by blast+

lemma snapshot_in_world:
  assumes "s \<in> set (history w)"
  shows "ws_graph (snd s) \<in> world_graphs w" "ws_provider_inputs (snd s) \<in> world_inputs w"
  using assms unfolding world_graphs_def world_inputs_def by blast+

lemma thread_world:
  assumes "\<And>b. builder_of p = Some b \<Longrightarrow> ub_graph b \<in> world_graphs w \<and> ub_provider_inputs b \<in> world_inputs w"
  shows "world_graphs (set_thread t p w) \<subseteq> world_graphs w \<and> world_inputs (set_thread t p w) \<subseteq> world_inputs w"
proof (intro conjI subsetI)
  fix x assume "x \<in> world_graphs (set_thread t p w)"
  then consider "x \<in> (\<lambda>s. ws_graph (snd s)) ` set (history w)"
    | b u where "x = ub_graph b" "builder_of (if u = t then p else w_threads w u) = Some b"
    by (auto simp: world_graphs_def builder_graphs_def)
  then show "x \<in> world_graphs w"
  proof cases
    case 1
    then show ?thesis by (simp add: world_graphs_def)
  next
    case 2
    then show ?thesis using assms builder_in_world(1) by (cases "u = t") auto
  qed
next
  fix x assume "x \<in> world_inputs (set_thread t p w)"
  then consider "x \<in> (\<lambda>s. ws_provider_inputs (snd s)) ` set (history w)"
    | b u where "x = ub_provider_inputs b" "builder_of (if u = t then p else w_threads w u) = Some b"
    by (auto simp: world_inputs_def builder_inputs_def)
  then show "x \<in> world_inputs w"
  proof cases
    case 1
    then show ?thesis by (simp add: world_inputs_def)
  next
    case 2
    then show ?thesis using assms builder_in_world(2) by (cases "u = t") auto
  qed
qed

lemma world_sets_update [simp]:
  "world_graphs (w\<lparr>w_next := n\<rparr>) = world_graphs w" "world_inputs (w\<lparr>w_next := n\<rparr>) = world_inputs w"
  "world_graphs (w\<lparr>w_engine := e\<rparr>) = world_graphs w" "world_inputs (w\<lparr>w_engine := e\<rparr>) = world_inputs w"
  "world_graphs (w\<lparr>w_pubs := w_pubs w @ [p]\<rparr>) = insert (ws_graph (snd (p_new p))) (world_graphs w)"
  "world_inputs (w\<lparr>w_pubs := w_pubs w @ [p]\<rparr>) = insert (ws_provider_inputs (snd (p_new p))) (world_inputs w)"
  by (auto simp: world_graphs_def world_inputs_def builder_graphs_def builder_inputs_def)

text \<open>An edit changes the allocations of its own builder only.\<close>

definition other_inputs :: "('b, 'd) engine_world \<Rightarrow> nat \<Rightarrow> (repo_path, provider_input) omap arc set" where
  "other_inputs w t =
     (\<lambda>s. ws_provider_inputs (snd s)) ` set (history w) \<union> ub_provider_inputs ` other_builders w t"

lemma thread_sets:
  assumes "builder_of p = Some b"
  shows "world_graphs (set_thread t p w) = insert (ub_graph b) (other_graphs w t)"
    and "world_inputs (set_thread t p w) = insert (ub_provider_inputs b) (other_inputs w t)"
proof -
  have "{b'. \<exists>u. builder_of (w_threads (set_thread t p w) u) = Some b'} = insert b (other_builders w t)"
    using assms by (auto simp: other_builders_def split: if_splits)
  then have "builder_graphs (set_thread t p w) = ub_graph ` insert b (other_builders w t)"
      "builder_inputs (set_thread t p w) = ub_provider_inputs ` insert b (other_builders w t)"
    unfolding builder_graphs_def builder_inputs_def by blast+
  then show "world_graphs (set_thread t p w) = insert (ub_graph b) (other_graphs w t)"
      "world_inputs (set_thread t p w) = insert (ub_provider_inputs b) (other_inputs w t)"
    by (auto simp: world_graphs_def world_inputs_def other_graphs_def other_inputs_def)
qed

lemma other_inputs_world: "other_inputs w t \<subseteq> world_inputs w"
  by (auto simp: other_inputs_def world_inputs_def builder_inputs_def other_builders_def)

lemma edit_arcs:
  assumes "arcs_sound n A" "y \<in> A" "O' \<subseteq> A" "x = y \<or> fst x = n \<or> fst x = fst y \<and> fst y \<notin> fst ` O'"
  shows "arcs_sound (Suc n) (insert x O')"
proof (cases "x = y")
  case True
  then show ?thesis using assms arcs_sound_subset [OF assms(1)] by simp
next
  case False
  have "fst x \<notin> fst ` O'"
    using assms False unfolding arcs_sound_def by (metis (no_types, lifting) imageE less_irrefl subsetD)
  moreover have "fst x \<le> n" using assms False by (auto simp: arcs_sound_def)
  ultimately show ?thesis using assms(1,3) by (intro arcs_sound_add [where A = A]) auto
qed

lemma edit_graph_arc:
  assumes "edit_allocates w t b ed"
  shows "ub_graph (apply_edit ed b) = ub_graph b \<or> fst (ub_graph (apply_edit ed b)) = w_next w \<or>
    fst (ub_graph (apply_edit ed b)) = fst (ub_graph b) \<and> fst (ub_graph b) \<notin> fst ` other_graphs w t"
  using assms by (cases ed) (simp_all add: edit_allocates_def graph_mut_def replace_graph_def
      set_graph_layers_def set_layers_def set_status_def set_freshness_def set_provider_state_def
      set_indexing_def set_provider_inputs_def set_project_model_def)

lemma edit_input_arc:
  assumes "edit_allocates w t b ed"
  shows "ub_provider_inputs (apply_edit ed b) = ub_provider_inputs b \<or>
    fst (ub_provider_inputs (apply_edit ed b)) = w_next w"
  using assms by (cases ed) (simp_all add: edit_allocates_def graph_mut_def replace_graph_def
      set_graph_layers_def set_layers_def set_status_def set_freshness_def set_provider_state_def
      set_indexing_def set_provider_inputs_def set_project_model_def)

lemma allocations_step:
  assumes "engine_step w w'" "allocations_sound w" "world_inv w"
  shows "allocations_sound w'"
  using assms(1)
proof (cases rule: engine_step.cases)
  case (begin_update_step t r)
  let ?b = "Building (snapshot (w_engine w)) [] (begin_update (w_engine w))"
  have "world_graphs (set_thread t ?b w) \<subseteq> world_graphs w \<and> world_inputs (set_thread t ?b w) \<subseteq> world_inputs w"
    using snapshot_in_world [OF current_in_history [OF assms(3)]]
    by (intro thread_world) (auto simp: begin_update_def begin_update_from_def snapshot_def)
  then show ?thesis unfolding begin_update_step(1) by (intro allocations_subset [OF assms(2)]) simp_all
next
  case (edit_step t base es b ed)
  have b: "ub_graph b \<in> world_graphs w" "ub_provider_inputs b \<in> world_inputs w"
    using builder_in_world [of w t b] edit_step(2) by simp_all
  have "arcs_sound (Suc (w_next w)) (insert (ub_graph (apply_edit ed b)) (other_graphs w t))"
    using assms(2) b(1) other_graphs_world edit_graph_arc [OF edit_step(3)]
    unfolding allocations_sound_def by (intro edit_arcs) auto
  moreover have "arcs_sound (Suc (w_next w)) (insert (ub_provider_inputs (apply_edit ed b)) (other_inputs w t))"
    using assms(2) b(2) other_inputs_world edit_input_arc [OF edit_step(3)]
    unfolding allocations_sound_def by (intro edit_arcs) auto
  ultimately show ?thesis
    unfolding edit_step(1) by (simp add: allocations_sound_def thread_sets)
next
  case (load_conflict_step t base es b err)
  then show ?thesis using thread_world [of "Finished (Inl err)" w t]
    by (intro allocations_subset [OF assms(2)]) simp_all
next
  case (load_step t base es b cur)
  then show ?thesis using thread_world [of "Loaded base es b cur" w t] builder_in_world [of w t b]
    by (intro allocations_subset [OF assms(2)]) simp_all
next
  case (swap_conflict_step t base es b cur err e')
  then show ?thesis using thread_world [of "Finished (Inl err)" w t]
    by (intro allocations_subset [OF assms(2)]) simp_all
next
  case (swap_step t base es b cur new e')
  have "ws_graph (snd new) = ub_graph b" "ws_provider_inputs (snd new) = ub_provider_inputs b"
    using swap_step(3) by (simp_all add: publish_swap_Inr next_snapshot_def)
  then have new: "ws_graph (snd new) \<in> world_graphs w" "ws_provider_inputs (snd new) \<in> world_inputs w"
    using builder_in_world [of w t b] swap_step(2) by simp_all
  let ?v = "set_thread t (Counting cur new) w"
  let ?u = "?v\<lparr>w_pubs := w_pubs ?v @ [\<lparr>p_base = cur, p_edits = es, p_new = new\<rparr>]\<rparr>"
  have "w' = ?u\<lparr>w_engine := e', w_next := Suc (w_next w)\<rparr>" unfolding swap_step(1) by simp
  then have "world_graphs w' = insert (ws_graph (snd new)) (world_graphs ?v)"
      "world_inputs w' = insert (ws_provider_inputs (snd new)) (world_inputs ?v)"
    by (simp_all only: world_sets_update publication.simps)
  then show ?thesis using thread_world [of "Counting cur new" w t] new
    by (intro allocations_subset [OF assms(2)]) (auto simp: swap_step(1))
next
  case (count_step t cur new)
  then show ?thesis using thread_world [of "Finished (Inr new)" w t]
    by (intro allocations_subset [OF assms(2)]) simp_all
qed

lemma allocations_new: "allocations_sound (world_new identity :: ('b, 'd) engine_world)"
proof -
  have "world_graphs (world_new identity :: ('b, 'd) engine_world) = {(1, Owned [] partition_new)}"
      "world_inputs (world_new identity :: ('b, 'd) engine_world) = {(2, [])}"
    by (auto simp: world_graphs_def world_inputs_def builder_graphs_def builder_inputs_def
        world_new_def history_def initial_snapshot_def)
  moreover have "w_next (world_new identity :: ('b, 'd) engine_world) = 3" by (simp add: world_new_def)
  ultimately show "allocations_sound (world_new identity :: ('b, 'd) engine_world)"
    unfolding allocations_sound_def arcs_sound_def by simp
qed

lemma allocations_reachable: "engine_reachable w \<Longrightarrow> allocations_sound w"
proof (induction rule: engine_reachable.induct)
  case (engine_start identity)
  show ?case by (rule allocations_new)
next
  case (engine_next w w')
  show ?case
    by (rule allocations_step [OF engine_next.hyps(2) engine_next.IH world_inv_reachable [OF engine_next.hyps(1)]])
qed

text \<open>
  Address comparison is sound. Two published snapshots that share the address of their
  graph, or of their provider inputs, have equal graphs or inputs, whatever publishers edited
  in place meanwhile; so a provider that skips what is pointer-equal skips nothing that
  changed.
\<close>

theorem shared_allocations_equal:
  assumes "engine_reachable w" "s \<in> set (history w)" "s' \<in> set (history w)"
  shows "(shares_document_catalog_with (workspace_from_snapshot (snd s)) (workspace_from_snapshot (snd s')) \<longrightarrow>
      pw_documents (workspace_from_snapshot (snd s)) = pw_documents (workspace_from_snapshot (snd s'))) \<and>
    (ptr_eq (pw_inputs (workspace_from_snapshot (snd s))) (pw_inputs (workspace_from_snapshot (snd s'))) \<longrightarrow>
      pw_inputs (workspace_from_snapshot (snd s)) = pw_inputs (workspace_from_snapshot (snd s')))"
proof -
  have "arcs_sound (w_next w) (world_graphs w)" "arcs_sound (w_next w) (world_inputs w)"
    using allocations_reachable [OF assms(1)] by (simp_all add: allocations_sound_def)
  then have "inj_on fst (world_graphs w)" "inj_on fst (world_inputs w)"
    by (simp_all add: arcs_sound_def)
  then show ?thesis
    using snapshot_in_world [OF assms(2)] snapshot_in_world [OF assms(3)]
    by (auto simp: workspace_from_snapshot_def shares_document_catalog_with_def dest: inj_onD)
qed

theorem shared_allocations_equal_witness:
  "pw_documents (workspace_from_snapshot (snd sample_new)) =
     pw_documents (workspace_from_snapshot (snd (w_first sample_published)))"
proof -
  have s: "sample_new \<in> set (history sample_published)" "w_first sample_published \<in> set (history sample_published)"
    by (simp_all add: history_def sample_published_def)
  have "shares_document_catalog_with (workspace_from_snapshot (snd sample_new))
      (workspace_from_snapshot (snd (w_first sample_published)))"
    by (simp add: workspace_from_snapshot_def shares_document_catalog_with_def sample_defs
        next_snapshot_def set_freshness_def begin_update_def begin_update_from_def)
  then show ?thesis using shared_allocations_equal [OF sample_reachable s] by blast
qed

end
