(* ===== verification/Engine_Routing.thy ===== *)
theory Engine_Routing
  imports Engine_Readers
begin

section \<open>The cold-build counter and provider routing\<close>

text \<open>
  Two more promises of \<open>chakra-engine/src/engine.rs\<close>: the counter of cold builds loses no
  concurrent publication, and installation keeps the routing of precise providers
  independent of the order they were installed in.
\<close>

subsection \<open>Cold builds\<close>

definition cold_publication :: "workspace_snapshot arc \<Rightarrow> workspace_snapshot arc \<Rightarrow> bool" where
  "cold_publication old new \<longleftrightarrow>
     is_cold_build (\<not> ptr_eq (ws_graph (snd old)) (ws_graph (snd new))) (snd new)"

definition owes_count :: "publisher \<Rightarrow> bool" where
  "owes_count p = (case p of Counting old new \<Rightarrow> cold_publication old new | _ \<Rightarrow> False)"

definition uncounted :: "('b, 'd) engine_world \<Rightarrow> nat set" where
  "uncounted w = {t. owes_count (w_threads w t)}"

definition cold_publications :: "('b, 'd) engine_world \<Rightarrow> publication list" where
  "cold_publications w = filter (\<lambda>p. cold_publication (p_base p) (p_new p)) (w_pubs w)"

definition count_inv :: "('b, 'd) engine_world \<Rightarrow> bool" where
  "count_inv w \<longleftrightarrow> finite (uncounted w) \<and>
     en_cold_builds (w_engine w) + of_nat (card (uncounted w)) = of_nat (length (cold_publications w))"

lemma uncounted_thread:
  "uncounted (set_thread t p w) = (if owes_count p then insert t (uncounted w) else uncounted w - {t})"
  by (auto simp: uncounted_def split: if_splits)

lemma uncounted_update [simp]:
  "uncounted (w\<lparr>w_next := n\<rparr>) = uncounted w" "uncounted (w\<lparr>w_engine := e\<rparr>) = uncounted w"
  "uncounted (w\<lparr>w_pubs := ps\<rparr>) = uncounted w"
  by (simp_all add: uncounted_def)

lemma count_inv_frame:
  assumes "count_inv w" "\<not> owes_count (w_threads w t)" "\<not> owes_count p"
    and "w_pubs w' = w_pubs w" "en_cold_builds (w_engine w') = en_cold_builds (w_engine w)"
    and "uncounted w' = uncounted (set_thread t p w)"
  shows "count_inv w'"
proof -
  have "t \<notin> uncounted w" using assms(2) by (simp add: uncounted_def)
  then have "uncounted w' = uncounted w" using assms(3,6) by (simp add: uncounted_thread)
  then show ?thesis using assms(1,4,5) by (simp add: count_inv_def cold_publications_def)
qed

lemma publish_count_builds:
  "en_cold_builds (publish_count old new e) =
     (if cold_publication old new then en_cold_builds e + 1 else en_cold_builds e)"
  by (simp add: publish_count_def cold_publication_def)

lemma count_inv_step:
  assumes "engine_step w w'" "count_inv w"
  shows "count_inv w'"
  using assms(1)
proof (cases rule: engine_step.cases)
  case (begin_update_step t r)
  then show ?thesis by (intro count_inv_frame [OF assms(2), of t]) (auto simp: owes_count_def)
next
  case (edit_step t base es b ed)
  then show ?thesis by (intro count_inv_frame [OF assms(2), of t]) (simp_all add: owes_count_def)
next
  case (load_conflict_step t base es b err)
  then show ?thesis by (intro count_inv_frame [OF assms(2), of t]) (simp_all add: owes_count_def)
next
  case (load_step t base es b cur)
  then show ?thesis by (intro count_inv_frame [OF assms(2), of t]) (simp_all add: owes_count_def)
next
  case (swap_conflict_step t base es b cur err e')
  then show ?thesis
    by (intro count_inv_frame [OF assms(2), of t]) (simp_all add: owes_count_def publish_swap_Inl)
next
  case (swap_step t base es b cur new e')
  have t: "t \<notin> uncounted w" using swap_step(2) by (simp add: uncounted_def owes_count_def)
  have pubs: "w_pubs w' = w_pubs w @ [\<lparr>p_base = cur, p_edits = es, p_new = new\<rparr>]"
    unfolding swap_step(1) by simp
  have un: "uncounted w' = uncounted (set_thread t (Counting cur new) w)"
    unfolding swap_step(1) by (simp add: uncounted_def)
  have "en_cold_builds (w_engine w') = en_cold_builds (w_engine w)"
    unfolding swap_step(1) using swap_step(3) by (simp add: publish_swap_Inr)
  then show ?thesis using assms(2) t
    by (simp add: count_inv_def cold_publications_def pubs un uncounted_thread owes_count_def algebra_simps)
next
  case (count_step t cur new)
  have e: "en_cold_builds (w_engine w') = (if cold_publication cur new then en_cold_builds (w_engine w) + 1
      else en_cold_builds (w_engine w))"
    unfolding count_step(1) by (simp add: publish_count_builds)
  have un: "uncounted w' = uncounted w - {t}"
    unfolding count_step(1) by (simp add: uncounted_thread) (simp add: uncounted_def owes_count_def)
  have pubs: "w_pubs w' = w_pubs w" unfolding count_step(1) by simp
  show ?thesis
  proof (cases "cold_publication cur new")
    case True
    then have "t \<in> uncounted w" using count_step(2) by (simp add: uncounted_def owes_count_def)
    moreover have fin: "finite (uncounted w)" using assms(2) by (simp add: count_inv_def)
    ultimately have "card (uncounted w) = Suc (card (uncounted w'))"
      unfolding un by (metis card_Suc_Diff1)
    then show ?thesis using assms(2) True fin
      by (simp add: count_inv_def e cold_publications_def pubs) (simp add: un algebra_simps)
  next
    case False
    then have "t \<notin> uncounted w" using count_step(2) by (simp add: uncounted_def owes_count_def)
    then show ?thesis using assms(2) False by (simp add: count_inv_def e cold_publications_def pubs un)
  qed
qed

text \<open>
  No cold build is lost or counted twice. In every interleaving the counter, plus the
  threads that have published a cold build and are about to count it, is the number of
  publications that replaced the graph, were not structurally incremental and rebuilt files
  (modulo the width of the counter).
\<close>

theorem cold_builds_counted:
  assumes "engine_reachable w"
  shows "finite (uncounted w) \<and>
    en_cold_builds (w_engine w) + of_nat (card (uncounted w)) = of_nat (length (cold_publications w))"
proof -
  have "count_inv w" using assms
  proof (induction rule: engine_reachable.induct)
    case (engine_start identity)
    show ?case by (simp add: count_inv_def uncounted_def owes_count_def cold_publications_def
        world_new_def engine_new_def)
  next
    case (engine_next w w')
    then show ?case by (blast intro: count_inv_step)
  qed
  then show ?thesis by (simp add: count_inv_def)
qed

theorem cold_builds_counted_witness:
  "en_cold_builds (w_engine sample_published) + of_nat (card (uncounted sample_published)) = 0"
  using cold_builds_counted [OF sample_reachable]
  by (simp add: cold_publications_def sample_published_def cold_publication_def is_cold_build_def)
    (simp add: sample_defs next_snapshot_def set_freshness_def begin_update_def begin_update_from_def)

subsection \<open>Provider installation\<close>

definition provider_languages_disjoint :: "precise_provider list \<Rightarrow> bool" where
  "provider_languages_disjoint ps \<longleftrightarrow> sorted_wrt (\<lambda>p q. \<forall>l. \<not> (pp_supports p l \<and> pp_supports q l)) ps"

definition install_all :: "precise_provider list \<Rightarrow> ('b, 'd) engine \<Rightarrow> ('b, 'd) engine" where
  "install_all ps e = fold (\<lambda>p e. snd (install_precise_provider p e)) ps e"

lemma find_SomeD: "find P xs = Some x \<Longrightarrow> x \<in> set xs \<and> P x"
  by (auto simp: find_Some_iff)

lemma language_conflict_None:
  "language_conflict p ps ls = None \<longleftrightarrow> (\<forall>l\<in>set ls. \<forall>q\<in>set ps. \<not> pp_supports q l)"
  by (induction ls) (auto simp: find_None_iff split: option.splits dest!: find_SomeD)

lemma install_cases:
  obtains err where "install_precise_provider p e = (Inl err, e)"
  | "install_precise_provider p e = (Inr (), e\<lparr>en_precise_providers := en_precise_providers e @ [p]\<rparr>)"
    "\<exists>l. pp_supports p l" "\<forall>q\<in>set (en_precise_providers e). \<forall>l. \<not> (pp_supports q l \<and> pp_supports p l)"
proof (cases "supported_languages p = []")
  case True
  then show ?thesis using that(1) by (simp add: install_precise_provider_def)
next
  case False
  show ?thesis
  proof (cases "language_conflict p (en_precise_providers e) (supported_languages p)")
    case None
    then have "\<exists>l. pp_supports p l" "\<forall>q\<in>set (en_precise_providers e). \<forall>l. \<not> (pp_supports q l \<and> pp_supports p l)"
      using False by (auto simp: supported_languages_def filter_empty_conv language_conflict_None language_all_UNIV)
    then show ?thesis using None False that(2) by (simp add: install_precise_provider_def)
  next
    case (Some err)
    then show ?thesis using False that(1) by (simp add: install_precise_provider_def)
  qed
qed

lemma install_accepted_iff:
  "fst (install_precise_provider p e) = Inr () \<longleftrightarrow>
     (\<exists>l. pp_supports p l) \<and> (\<forall>q\<in>set (en_precise_providers e). \<forall>l. \<not> (pp_supports q l \<and> pp_supports p l))"
proof -
  have "fst (install_precise_provider p e) = Inr () \<longleftrightarrow> supported_languages p \<noteq> [] \<and>
      language_conflict p (en_precise_providers e) (supported_languages p) = None"
    by (simp add: install_precise_provider_def split: option.split)
  then show ?thesis
    by (auto simp: supported_languages_def filter_empty_conv language_conflict_None language_all_UNIV)
qed

lemma install_disjoint:
  "provider_languages_disjoint (en_precise_providers e) \<Longrightarrow>
   provider_languages_disjoint (en_precise_providers (snd (install_precise_provider p e)))"
  by (cases rule: install_cases [of p e]) (auto simp: provider_languages_disjoint_def sorted_wrt_append)

lemma install_all_disjoint:
  "provider_languages_disjoint (en_precise_providers e) \<Longrightarrow>
   provider_languages_disjoint (en_precise_providers (install_all ps e))"
  unfolding install_all_def by (induction ps arbitrary: e) (simp_all add: install_disjoint)

lemma disjoint_unique:
  "provider_languages_disjoint ps \<Longrightarrow> p \<in> set ps \<Longrightarrow> q \<in> set ps \<Longrightarrow> pp_supports p l \<Longrightarrow> pp_supports q l \<Longrightarrow> p = q"
  by (induction ps) (auto simp: provider_languages_disjoint_def)

lemma find_unique:
  assumes "\<And>p q. p \<in> set ps \<Longrightarrow> q \<in> set ps \<Longrightarrow> P p \<Longrightarrow> P q \<Longrightarrow> p = q"
  shows "find P ps = Some p \<longleftrightarrow> p \<in> set ps \<and> P p"
proof
  assume "find P ps = Some p"
  then show "p \<in> set ps \<and> P p" by (auto simp: find_Some_iff)
next
  assume p: "p \<in> set ps \<and> P p"
  then obtain q where q: "find P ps = Some q" by (metis find_None_iff not_Some_eq)
  then have "q \<in> set ps" "P q" by (auto simp: find_Some_iff)
  with p q assms show "find P ps = Some p" by blast
qed

text \<open>
  Routing is independent of installation order. Whatever providers are offered in
  whatever order, refusals included, a path of a language is routed to a provider exactly
  when that provider is installed and covers the path; an offer is refused exactly when it
  names no language or one that is already owned, and then changes nothing.
\<close>

theorem provider_routing_exact:
  assumes "e = install_all ps (engine_new identity sa ga ia)"
    and "\<forall>p\<in>set (en_precise_providers e). \<forall>l path. pp_supports_path p l path \<longrightarrow> pp_supports p l"
  shows "(precise_provider_for_path e l path = Some p \<longleftrightarrow>
      p \<in> set (en_precise_providers e) \<and> pp_supports_path p l path) \<and>
    (fst (install_precise_provider q e) = Inr () \<longleftrightarrow>
      (\<exists>l. pp_supports q l) \<and>
      (\<forall>p\<in>set (en_precise_providers e). \<forall>l. \<not> (pp_supports p l \<and> pp_supports q l))) \<and>
    (fst (install_precise_provider q e) \<noteq> Inr () \<longrightarrow> snd (install_precise_provider q e) = e)"
proof (intro conjI)
  have disj: "provider_languages_disjoint (en_precise_providers e)"
    unfolding assms(1) by (rule install_all_disjoint) (simp add: engine_new_def provider_languages_disjoint_def)
  show "precise_provider_for_path e l path = Some p \<longleftrightarrow>
      p \<in> set (en_precise_providers e) \<and> pp_supports_path p l path"
    unfolding precise_provider_for_path_def
    by (rule find_unique) (use disjoint_unique [OF disj] assms(2) in blast)
  show "fst (install_precise_provider q e) = Inr () \<longleftrightarrow>
      (\<exists>l. pp_supports q l) \<and> (\<forall>p\<in>set (en_precise_providers e). \<forall>l. \<not> (pp_supports p l \<and> pp_supports q l))"
    by (rule install_accepted_iff)
  show "fst (install_precise_provider q e) \<noteq> Inr () \<longrightarrow> snd (install_precise_provider q e) = e"
    by (cases rule: install_cases [of q e]) simp_all
qed

definition sample_provider :: "string \<Rightarrow> language \<Rightarrow> precise_provider" where
  "sample_provider n l = \<lparr>pp_name = n, pp_supports = (\<lambda>k. k = l),
     pp_supports_path = supports_path_default (\<lambda>k. k = l)\<rparr>"

lemma sample_provider_covers [simp]:
  "pp_supports (sample_provider n l) k \<longleftrightarrow> k = l" "pp_supports_path (sample_provider n l) k path \<longleftrightarrow> k = l"
  by (simp_all add: sample_provider_def supports_path_default_def)

theorem provider_routing_exact_witness:
  "precise_provider_for_path
     (install_all [sample_provider ''gopls'' LangGo, sample_provider ''other'' LangGo,
        sample_provider ''ra'' LangRust] (engine_new sample_identity 0 1 2 :: (unit, unit) engine))
     LangRust (RepoPath ''a.rs'') = Some (sample_provider ''ra'' LangRust)"
proof -
  let ?ps = "[sample_provider ''gopls'' LangGo, sample_provider ''other'' LangGo, sample_provider ''ra'' LangRust]"
  let ?e = "install_all ?ps (engine_new sample_identity 0 1 2 :: (unit, unit) engine)"
  have e: "en_precise_providers ?e = [sample_provider ''gopls'' LangGo, sample_provider ''ra'' LangRust]"
    by (simp add: install_all_def install_precise_provider_def supported_languages_def language_all_def
        sample_provider_def engine_new_def)
  then have covers: "\<forall>p\<in>set (en_precise_providers ?e). \<forall>l path. pp_supports_path p l path \<longrightarrow> pp_supports p l"
    unfolding e by auto
  have "sample_provider ''ra'' LangRust \<in> set (en_precise_providers ?e)" unfolding e by simp
  moreover have "pp_supports_path (sample_provider ''ra'' LangRust) LangRust (RepoPath ''a.rs'')"
    by simp
  ultimately show ?thesis
    using provider_routing_exact [OF refl covers] by blast
qed

end
