(* ===== verification/Step_Systems.thy ===== *)
theory Step_Systems
  imports Chakra_Prelude
begin

section \<open>Reachability under a step relation\<close>

text \<open>
  Shared by the components that several threads drive: the states reachable from a start
  state, and the invariance rule.
\<close>

inductive reachable_from :: "'s \<Rightarrow> ('s \<Rightarrow> 's \<Rightarrow> bool) \<Rightarrow> 's \<Rightarrow> bool" for start step where
  reachable_start: "reachable_from start step start"
| reachable_step: "reachable_from start step s \<Longrightarrow> step s t \<Longrightarrow> reachable_from start step t"

text \<open>
  The interface of an invariant: it holds at the start and every step keeps it. Whoever
  provides these laws gets the invariant in every reachable state.
\<close>

locale step_invariant =
  fixes start :: 's and step :: "'s \<Rightarrow> 's \<Rightarrow> bool" and inv :: "'s \<Rightarrow> bool"
  assumes inv_start: "inv start"
    and inv_step: "inv s \<Longrightarrow> step s t \<Longrightarrow> inv t"
begin

lemma inv_reachable: "reachable_from start step s \<Longrightarrow> inv s"
  by (induction rule: reachable_from.induct) (auto intro: inv_start inv_step)

lemma inv_along: "step\<^sup>*\<^sup>* s t \<Longrightarrow> inv s \<Longrightarrow> inv t"
  by (induction rule: rtranclp_induct) (auto intro: inv_step)

end

end
