(* ===== verification/Workspace_Registry.thy ===== *)
theory Workspace_Registry
  imports Engine_Routing Step_Systems
begin

section \<open>The registry of worktree runtimes\<close>

text \<open>
  \<open>chakra-workspace/src/lib.rs\<close>: one registry owns the runtimes of the materialized
  worktrees of one repository. Every operation is one or two critical sections on the
  registry state; starting and stopping a runtime happens outside the lock. Git discovery,
  indexing and the watcher (\<open>LiveIndex\<close>, type \<open>'l\<close>) are outside; a runtime refers to its
  shared engine by a handle. A \<open>HashMap\<close> is an ordered map, so where the code collects from
  it in an unspecified order (the runtimes of a shutdown) the model uses key order.
\<close>

subsection \<open>Data\<close>

record registry_config = max_workspaces :: nat

definition registry_config_default :: registry_config where
  "registry_config_default = \<lparr>max_workspaces = 8\<rparr>"

definition max_stale_publication_attempts :: nat where "max_stale_publication_attempts = 3"
definition max_layer_composition_attempts :: nat where "max_layer_composition_attempts = 3"

datatype registry_error =
    InvalidMaxWorkspaces
  | RegistryShutDown
  | RepositoryMismatch repository_id repository_id
  | AlreadyRegistered workspace_id
  | RegistrationInProgress workspace_id
  | ShutdownInProgress workspace_id
  | CapacityReached nat
  | NotRegistered workspace_id
  | WorkspaceTransitionsInProgress nat nat
  | GitError string
  | IndexError string
  | SnapshotCacheError string
  | DiffProviderInstall
  | LayerComposition string
  | InitialPublish publish_error
  | LiveIndexError string
  | StalePublication workspace_id publish_error
  | ShutdownFailures "string list"

definition registry_config_validate :: "registry_config \<Rightarrow> registry_error + registry_config" where
  "registry_config_validate c = (if max_workspaces c = 0 then Inl InvalidMaxWorkspaces else Inr c)"

record 'l workspace_runtime =
  rt_identity :: workspace_identity
  rt_engine :: nat
  rt_live :: "'l option"
  rt_freshness_revoked :: bool

datatype 'l registry_entry = EntryStarting | EntryReady "'l workspace_runtime" | EntryStopping

record 'l registry_state =
  rs_repository :: "repository_id option"
  rs_entries :: "(workspace_id, 'l registry_entry) omap"
  rs_shut_down :: bool

definition registry_state_default :: "'l registry_state" where
  "registry_state_default = \<lparr>rs_repository = None, rs_entries = [], rs_shut_down = False\<rparr>"

subsection \<open>Registration\<close>

definition reserve ::
    "registry_config \<Rightarrow> workspace_identity \<Rightarrow> 'l registry_state \<Rightarrow>
     (registry_error + unit) \<times> 'l registry_state" where
  "reserve cfg identity s =
     (if rs_shut_down s then (Inl RegistryShutDown, s)
      else if rs_repository s \<noteq> None \<and> rs_repository s \<noteq> Some (wi_repository identity)
      then (Inl (RepositoryMismatch (the (rs_repository s)) (wi_repository identity)), s)
      else if omap_get (rs_entries s) (wi_workspace identity) \<noteq> None
      then (Inl (AlreadyRegistered (wi_workspace identity)), s)
      else if max_workspaces cfg \<le> length (rs_entries s)
      then (Inl (CapacityReached (max_workspaces cfg)), s)
      else (Inr (), s\<lparr>
        rs_repository := (if rs_repository s = None then Some (wi_repository identity) else rs_repository s),
        rs_entries := omap_insert (wi_workspace identity) EntryStarting (rs_entries s)\<rparr>))"

text \<open>The critical section of \<open>finish_registration\<close>: the rejected runtime, if any.\<close>

definition finish_registration ::
    "'l workspace_runtime \<Rightarrow> 'l registry_state \<Rightarrow> 'l workspace_runtime option \<times> 'l registry_state" where
  "finish_registration rt s =
     (let ws = wi_workspace (rt_identity rt)
      in if rs_shut_down s then (Some rt, s\<lparr>rs_entries := omap_delete ws (rs_entries s)\<rparr>)
         else (None, s\<lparr>rs_entries := omap_insert ws (EntryReady rt) (rs_entries s)\<rparr>))"

definition rollback_reservation :: "workspace_id \<Rightarrow> 'l registry_state \<Rightarrow> 'l registry_state" where
  "rollback_reservation ws s =
     (let entries = omap_delete ws (rs_entries s)
      in s\<lparr>rs_entries := entries,
           rs_repository := (if entries = [] then None else rs_repository s)\<rparr>)"

text \<open>\<open>WorkspaceRuntime::start\<close>: composition is retried, other errors are final.\<close>

fun start_attempts ::
    "(nat \<Rightarrow> registry_error + 'l workspace_runtime) \<Rightarrow> nat \<Rightarrow> nat \<Rightarrow> string option \<Rightarrow>
     registry_error + 'l workspace_runtime" where
  "start_attempts start_once attempt 0 last_instability =
     Inl (LayerComposition (case last_instability of Some m \<Rightarrow> m
       | None \<Rightarrow> ''worktree kept changing during startup composition''))"
| "start_attempts start_once attempt (Suc left) last_instability =
     (case start_once attempt of
        Inr rt \<Rightarrow> Inr rt
      | Inl (LayerComposition m) \<Rightarrow> start_attempts start_once (attempt + 1) left (Some m)
      | Inl e \<Rightarrow> Inl e)"

definition runtime_start ::
    "(nat \<Rightarrow> registry_error + 'l workspace_runtime) \<Rightarrow> registry_error + 'l workspace_runtime" where
  "runtime_start start_once = start_attempts start_once 0 max_layer_composition_attempts None"

subsection \<open>Lookup and routing\<close>

definition registry_workspace :: "workspace_id \<Rightarrow> 'l registry_state \<Rightarrow> registry_error + nat" where
  "registry_workspace ws s =
     (case omap_get (rs_entries s) ws of
        Some (EntryReady rt) \<Rightarrow> Inr (rt_engine rt)
      | Some EntryStarting \<Rightarrow> Inl (RegistrationInProgress ws)
      | Some EntryStopping \<Rightarrow> Inl (ShutdownInProgress ws)
      | None \<Rightarrow> Inl (NotRegistered ws))"

fun ready_runtime :: "'l registry_entry \<Rightarrow> 'l workspace_runtime option" where
  "ready_runtime (EntryReady rt) = Some rt"
| "ready_runtime EntryStarting = None"
| "ready_runtime EntryStopping = None"

definition ready_runtimes :: "'l registry_state \<Rightarrow> 'l workspace_runtime list" where
  "ready_runtimes s = List.map_filter (\<lambda>kv. ready_runtime (snd kv)) (rs_entries s)"

definition registry_workspaces :: "'l registry_state \<Rightarrow> workspace_identity list" where
  "registry_workspaces s = sort_key wi_workspace (map rt_identity (ready_runtimes s))"

datatype route_error =
    WorkspaceNotFound workspace_id
  | NoWorkspacesRegistered
  | WorkspaceSelectionRequired "workspace_id list"

definition route :: "workspace_id option \<Rightarrow> 'l registry_state \<Rightarrow> route_error + nat" where
  "route requested s =
     (case requested of
        Some ws \<Rightarrow>
          (case omap_get (rs_entries s) ws of
             Some (EntryReady rt) \<Rightarrow> Inr (rt_engine rt)
           | _ \<Rightarrow> Inl (WorkspaceNotFound ws))
      | None \<Rightarrow>
          (case ready_runtimes s of
             [] \<Rightarrow> Inl NoWorkspacesRegistered
           | [rt] \<Rightarrow> Inr (rt_engine rt)
           | rts \<Rightarrow> Inl (WorkspaceSelectionRequired
               (sort (map (\<lambda>rt. wi_workspace (rt_identity rt)) rts)))))"

subsection \<open>Removal\<close>

definition unregister_begin ::
    "workspace_id \<Rightarrow> 'l registry_state \<Rightarrow> (registry_error + 'l workspace_runtime) \<times> 'l registry_state" where
  "unregister_begin ws s =
     (case omap_get (rs_entries s) ws of
        Some EntryStarting \<Rightarrow> (Inl (RegistrationInProgress ws), s)
      | Some EntryStopping \<Rightarrow> (Inl (ShutdownInProgress ws), s)
      | None \<Rightarrow> (Inl (NotRegistered ws), s)
      | Some (EntryReady rt) \<Rightarrow>
          (Inr rt, s\<lparr>rs_entries := omap_insert ws EntryStopping (rs_entries s)\<rparr>))"

definition unregister_end :: "workspace_id \<Rightarrow> 'l registry_state \<Rightarrow> 'l registry_state" where
  "unregister_end ws s =
     (case omap_get (rs_entries s) ws of
        Some EntryStopping \<Rightarrow> s\<lparr>rs_entries := omap_delete ws (rs_entries s)\<rparr>
      | _ \<Rightarrow> s)"

definition count_entries :: "'l registry_entry \<Rightarrow> 'l registry_state \<Rightarrow> nat" where
  "count_entries e s = length (filter (\<lambda>kv. snd kv = e) (rs_entries s))"

definition shutdown_begin ::
    "'l registry_state \<Rightarrow> (registry_error + 'l workspace_runtime list) \<times> 'l registry_state" where
  "shutdown_begin s =
     (if rs_shut_down s then (Inr [], s)
      else (let starting = count_entries EntryStarting s; stopping = count_entries EntryStopping s
            in if starting > 0 \<or> stopping > 0
               then (Inl (WorkspaceTransitionsInProgress starting stopping), s)
               else (Inr (ready_runtimes s), s\<lparr>rs_shut_down := True, rs_entries := []\<rparr>)))"

subsection \<open>Revoking freshness\<close>

text \<open>
  \<open>mark_engine_stale\<close> publishes a stale revision. Whoever still holds the engine may publish
  between its steps: \<open>env k\<close> is what the others did before its \<open>k\<close>-th access, and \<open>sa k\<close> the
  address of the snapshot its \<open>k\<close>-th attempt allocates. A publication is one access here; its
  own interleavings are those of \<open>Engine_Concurrency\<close>.
\<close>

definition stale_update :: "('b, 'd) engine \<Rightarrow> update_builder" where
  "stale_update e = set_status StatusStale (set_freshness Stale (begin_update e))"

fun mark_stale_attempts ::
    "(nat \<Rightarrow> ('b, 'd) engine \<Rightarrow> ('b, 'd) engine) \<Rightarrow> (nat \<Rightarrow> nat) \<Rightarrow> nat \<Rightarrow> nat \<Rightarrow> publish_error option \<Rightarrow>
     ('b, 'd) engine \<Rightarrow> (publish_error option + unit) \<times> ('b, 'd) engine" where
  "mark_stale_attempts env sa k 0 last_conflict e = (Inl last_conflict, e)"
| "mark_stale_attempts env sa k (Suc left) last_conflict e =
     (let e0 = env (2 * k) e; update = stale_update e0; e1 = env (Suc (2 * k)) e0
      in case publish update (sa k) e1 of
           (Inr _, e2) \<Rightarrow> (Inr (), e2)
         | (Inl err, e2) \<Rightarrow> mark_stale_attempts env sa (Suc k) left (Some err) e2)"

definition mark_engine_stale ::
    "(nat \<Rightarrow> ('b, 'd) engine \<Rightarrow> ('b, 'd) engine) \<Rightarrow> (nat \<Rightarrow> nat) \<Rightarrow> workspace_id \<Rightarrow>
     ('b, 'd) engine \<Rightarrow> (registry_error + unit) \<times> ('b, 'd) engine" where
  "mark_engine_stale env sa ws e =
     (case mark_stale_attempts env sa 0 max_stale_publication_attempts None e of
        (Inr _, e') \<Rightarrow> (Inr (), e')
      | (Inl conflict, e') \<Rightarrow>
          (let r = ws_revision (snd (snapshot e'))
           in (Inl (StalePublication ws (case conflict of Some c \<Rightarrow> c | None \<Rightarrow> Conflict r r)), e')))"

text \<open>
  \<open>WorkspaceRuntime::shutdown\<close>: stop the watcher, revoke the freshness whatever the watcher
  says, report the watcher's error first; \<open>stop\<close> is the watcher's shutdown. The runtime is
  dropped at the end, and dropping one whose freshness was not revoked tries again.
\<close>

definition runtime_drop ::
    "('l \<Rightarrow> registry_error + unit) \<Rightarrow> (nat \<Rightarrow> ('b, 'd) engine \<Rightarrow> ('b, 'd) engine) \<Rightarrow> (nat \<Rightarrow> nat) \<Rightarrow>
     'l workspace_runtime \<Rightarrow> ('b, 'd) engine \<Rightarrow> ('b, 'd) engine" where
  "runtime_drop stop env sa rt e =
     (if rt_freshness_revoked rt then e
      else snd (mark_engine_stale env sa (wi_workspace (rt_identity rt)) e))"

definition runtime_shutdown ::
    "('l \<Rightarrow> registry_error + unit) \<Rightarrow> (nat \<Rightarrow> ('b, 'd) engine \<Rightarrow> ('b, 'd) engine) \<Rightarrow> (nat \<Rightarrow> nat) \<Rightarrow>
     'l workspace_runtime \<Rightarrow> ('b, 'd) engine \<Rightarrow> (registry_error + unit) \<times> ('b, 'd) engine" where
  "runtime_shutdown stop env sa rt e =
     (let live_result = (case rt_live rt of Some l \<Rightarrow> stop l | None \<Rightarrow> Inr ());
          (stale_result, e1) = mark_engine_stale env sa (wi_workspace (rt_identity rt)) e;
          rt' = rt\<lparr>rt_live := None,
                   rt_freshness_revoked := (rt_freshness_revoked rt \<or> stale_result = Inr ())\<rparr>;
          again = 2 * max_stale_publication_attempts
      in (case live_result of Inl err \<Rightarrow> Inl err | Inr _ \<Rightarrow> stale_result,
          runtime_drop stop (\<lambda>k. env (again + k)) (\<lambda>k. sa (max_stale_publication_attempts + k)) rt' e1))"

end
