(* ===== verification/Registry_Properties.thy ===== *)
theory Registry_Properties
  imports Workspace_Registry
begin

section \<open>Single ownership of worktrees\<close>

text \<open>
  Concurrent callers of the registry of \<open>chakra-workspace/src/lib.rs\<close>, one critical section
  per step, and the revocation of freshness when a runtime goes away.
\<close>

subsection \<open>Callers\<close>

datatype registry_caller =
    CallerIdle
  | CallerStarting workspace_identity
  | CallerStopping workspace_id

record 'l registry_world =
  rw_state :: "'l registry_state"
  rw_callers :: "nat \<Rightarrow> registry_caller"

definition registry_start :: "'l registry_world" where
  "registry_start = \<lparr>rw_state = registry_state_default, rw_callers = (\<lambda>_. CallerIdle)\<rparr>"

definition caller_moves :: "nat \<Rightarrow> registry_caller \<Rightarrow> 'l registry_state \<Rightarrow> 'l registry_world \<Rightarrow> 'l registry_world" where
  "caller_moves t c s w = w\<lparr>rw_state := s, rw_callers := (rw_callers w)(t := c)\<rparr>"

inductive registry_step :: "registry_config \<Rightarrow> 'l registry_world \<Rightarrow> 'l registry_world \<Rightarrow> bool" for cfg where
  reserve_step:
    "rw_callers w t = CallerIdle \<Longrightarrow> reserve cfg identity (rw_state w) = (Inr (), s) \<Longrightarrow>
     registry_step cfg w (caller_moves t (CallerStarting identity) s w)"
| finish_step:
    "rw_callers w t = CallerStarting identity \<Longrightarrow> rt_identity rt = identity \<Longrightarrow>
     finish_registration rt (rw_state w) = (rejected, s) \<Longrightarrow>
     registry_step cfg w (caller_moves t CallerIdle s w)"
| rollback_step:
    "rw_callers w t = CallerStarting identity \<Longrightarrow>
     registry_step cfg w
       (caller_moves t CallerIdle (rollback_reservation (wi_workspace identity) (rw_state w)) w)"
| unregister_step:
    "rw_callers w t = CallerIdle \<Longrightarrow> unregister_begin ws (rw_state w) = (Inr rt, s) \<Longrightarrow>
     registry_step cfg w (caller_moves t (CallerStopping ws) s w)"
| unregistered_step:
    "rw_callers w t = CallerStopping ws \<Longrightarrow>
     registry_step cfg w (caller_moves t CallerIdle (unregister_end ws (rw_state w)) w)"
| shutdown_step:
    "rw_callers w t = CallerIdle \<Longrightarrow> shutdown_begin (rw_state w) = (Inr rts, s) \<Longrightarrow>
     registry_step cfg w (caller_moves t CallerIdle s w)"

text \<open>The transition a caller is responsible for, and the one an entry is in.\<close>

datatype entry_transition = TransitionStarting | TransitionStopping

fun caller_transition :: "registry_caller \<Rightarrow> (workspace_id \<times> entry_transition) option" where
  "caller_transition CallerIdle = None"
| "caller_transition (CallerStarting i) = Some (wi_workspace i, TransitionStarting)"
| "caller_transition (CallerStopping ws) = Some (ws, TransitionStopping)"

fun transition_of :: "'l registry_entry \<Rightarrow> entry_transition option" where
  "transition_of (EntryReady rt) = None"
| "transition_of EntryStarting = Some TransitionStarting"
| "transition_of EntryStopping = Some TransitionStopping"

definition in_transition :: "'l registry_state \<Rightarrow> workspace_id \<Rightarrow> entry_transition option" where
  "in_transition s ws = Option.bind (omap_get (rs_entries s) ws) transition_of"

subsection \<open>The invariant\<close>

definition owners_ok :: "'l registry_state \<Rightarrow> (nat \<Rightarrow> registry_caller) \<Rightarrow> bool" where
  "owners_ok s callers \<longleftrightarrow>
     (\<forall>t ws k. caller_transition (callers t) = Some (ws, k) \<longrightarrow> in_transition s ws = Some k) \<and>
     (\<forall>ws k. in_transition s ws = Some k \<longrightarrow> (\<exists>t. caller_transition (callers t) = Some (ws, k))) \<and>
     (\<forall>t u ws k l. caller_transition (callers t) = Some (ws, k) \<longrightarrow>
        caller_transition (callers u) = Some (ws, l) \<longrightarrow> t = u)"

definition scoped_ok :: "'l registry_state \<Rightarrow> (nat \<Rightarrow> registry_caller) \<Rightarrow> bool" where
  "scoped_ok s callers \<longleftrightarrow>
     (\<forall>ws rt. omap_get (rs_entries s) ws = Some (EntryReady rt) \<longrightarrow>
        wi_workspace (rt_identity rt) = ws \<and> rs_repository s = Some (wi_repository (rt_identity rt))) \<and>
     (\<forall>t i. callers t = CallerStarting i \<longrightarrow> rs_repository s = Some (wi_repository i))"

definition bounded_ok :: "registry_config \<Rightarrow> 'l registry_state \<Rightarrow> bool" where
  "bounded_ok cfg s \<longleftrightarrow> omap_ok (rs_entries s) \<and> length (rs_entries s) \<le> max_workspaces cfg \<and>
     (rs_shut_down s \<longrightarrow> rs_entries s = [])"

definition registry_inv :: "registry_config \<Rightarrow> 'l registry_world \<Rightarrow> bool" where
  "registry_inv cfg w \<longleftrightarrow> bounded_ok cfg (rw_state w) \<and> owners_ok (rw_state w) (rw_callers w) \<and>
     scoped_ok (rw_state w) (rw_callers w)"

lemma caller_moves_simps [simp]:
  "rw_state (caller_moves t c s w) = s" "rw_callers (caller_moves t c s w) = (rw_callers w)(t := c)"
  by (simp_all add: caller_moves_def)

text \<open>
  A caller takes responsibility for an entry nobody is responsible for, or gives up the one
  it has: the two ways ownership changes.
\<close>

lemma owners_take:
  assumes "owners_ok s callers" "callers t = CallerIdle" "caller_transition c = Some (ws, k)"
    and "in_transition s ws = None" "in_transition s' = (in_transition s)(ws := Some k)"
  shows "owners_ok s' (callers(t := c))"
proof -
  have free: "caller_transition (callers u) \<noteq> Some (ws, l)" for u l
    using assms(1,4) unfolding owners_ok_def by fastforce
  show ?thesis unfolding owners_ok_def
  proof (intro conjI allI impI)
    fix u x l assume "caller_transition ((callers(t := c)) u) = Some (x, l)"
    then show "in_transition s' x = Some l"
      using assms(1,3,5) free by (cases "u = t") (auto simp: owners_ok_def)
  next
    fix x l assume xl: "in_transition s' x = Some l"
    show "\<exists>u. caller_transition ((callers(t := c)) u) = Some (x, l)"
    proof (cases "x = ws")
      case True
      then show ?thesis using xl assms(3,5) by (intro exI [of _ t]) simp
    next
      case False
      then have "in_transition s x = Some l" using xl assms(5) by simp
      then obtain u where "caller_transition (callers u) = Some (x, l)"
        using assms(1) unfolding owners_ok_def by blast
      then show ?thesis using assms(2) by (intro exI [of _ u]) auto
    qed
  next
    fix u v x l m
    assume "caller_transition ((callers(t := c)) u) = Some (x, l)"
      "caller_transition ((callers(t := c)) v) = Some (x, m)"
    then show "u = v"
      using assms(1,3) free unfolding owners_ok_def by (cases "u = t"; cases "v = t") auto
  qed
qed

lemma owners_give:
  assumes "owners_ok s callers" "caller_transition (callers t) = Some (ws, k)"
    and "in_transition s' = (in_transition s)(ws := None)"
  shows "owners_ok s' (callers(t := CallerIdle))"
proof -
  have only: "u = t" if "caller_transition (callers u) = Some (ws, l)" for u l
    using assms(1,2) that unfolding owners_ok_def by blast
  show ?thesis unfolding owners_ok_def
  proof (intro conjI allI impI)
    fix u x l assume a: "caller_transition ((callers(t := CallerIdle)) u) = Some (x, l)"
    then have u: "u \<noteq> t" "caller_transition (callers u) = Some (x, l)" by (auto split: if_splits)
    then have "x \<noteq> ws" using only by blast
    then show "in_transition s' x = Some l" using assms(1,3) u unfolding owners_ok_def by simp
  next
    fix x l assume "in_transition s' x = Some l"
    then have x: "x \<noteq> ws" "in_transition s x = Some l" using assms(3) by (auto split: if_splits)
    then obtain u where u: "caller_transition (callers u) = Some (x, l)"
      using assms(1) unfolding owners_ok_def by blast
    moreover have "u \<noteq> t" using u assms(2) x by auto
    ultimately show "\<exists>u. caller_transition ((callers(t := CallerIdle)) u) = Some (x, l)"
      by (intro exI [of _ u]) simp
  next
    fix u v x l m
    assume "caller_transition ((callers(t := CallerIdle)) u) = Some (x, l)"
      "caller_transition ((callers(t := CallerIdle)) v) = Some (x, m)"
    then show "u = v" using assms(1) unfolding owners_ok_def by (auto split: if_splits)
  qed
qed

text \<open>How the critical sections change the transitions.\<close>

lemma in_transition_insert:
  "rs_entries s' = omap_insert ws e (rs_entries s) \<Longrightarrow>
   in_transition s' = (in_transition s)(ws := transition_of e)"
  by (rule ext) (simp add: in_transition_def)

lemma in_transition_delete:
  "rs_entries s' = omap_delete ws (rs_entries s) \<Longrightarrow> in_transition s' = (in_transition s)(ws := None)"
  by (rule ext) (simp add: in_transition_def)

lemma reserve_Inr:
  "reserve cfg identity s = (Inr (), s') \<Longrightarrow> \<not> rs_shut_down s \<and>
     (rs_repository s = None \<or> rs_repository s = Some (wi_repository identity)) \<and>
     omap_get (rs_entries s) (wi_workspace identity) = None \<and> length (rs_entries s) < max_workspaces cfg \<and>
     s' = s\<lparr>rs_repository := Some (wi_repository identity),
            rs_entries := omap_insert (wi_workspace identity) EntryStarting (rs_entries s)\<rparr>"
  by (auto simp: reserve_def split: if_splits)

lemma unregister_begin_Inr:
  "unregister_begin ws s = (Inr rt, s') \<Longrightarrow>
     omap_get (rs_entries s) ws = Some (EntryReady rt) \<and>
     s' = s\<lparr>rs_entries := omap_insert ws EntryStopping (rs_entries s)\<rparr>"
  by (auto simp: unregister_begin_def split: option.splits registry_entry.splits)

lemma shutdown_begin_Inr:
  assumes "shutdown_begin s = (Inr rts, s')" "omap_ok (rs_entries s)" "rs_shut_down s \<longrightarrow> rs_entries s = []"
  shows "rs_entries s' = []" "rs_shut_down s'" "in_transition s = (\<lambda>_. None)" "rs_repository s' = rs_repository s"
proof -
  show "rs_entries s' = []" "rs_shut_down s'" "rs_repository s' = rs_repository s"
    using assms(1,3) by (auto simp: shutdown_begin_def Let_def split: if_splits)
  show "in_transition s = (\<lambda>_. None)"
  proof
    fix ws
    show "in_transition s ws = None"
    proof (cases "rs_shut_down s")
      case True
      then show ?thesis using assms(3) by (simp add: in_transition_def)
    next
      case False
      then have "count_entries EntryStarting s = 0" "count_entries EntryStopping s = 0"
        using assms(1) by (auto simp: shutdown_begin_def Let_def split: if_splits)
      then have "\<forall>(x, e)\<in>set (rs_entries s). e \<noteq> EntryStarting \<and> e \<noteq> EntryStopping"
        by (auto simp: count_entries_def filter_empty_conv)
      then show ?thesis
        by (cases "omap_get (rs_entries s) ws")
          (auto simp: in_transition_def dest!: map_of_SomeD split: registry_entry.splits
            intro: transition_of.elims)
    qed
  qed
qed


subsection \<open>Every critical section keeps the invariant\<close>

lemma scoped_caller:
  "scoped_ok s callers \<Longrightarrow> callers t = CallerStarting i \<Longrightarrow> rs_repository s = Some (wi_repository i)"
  by (simp add: scoped_ok_def)

lemma scoped_frame:
  assumes "scoped_ok s callers" "rs_repository s' = rs_repository s"
    and "\<And>ws rt. omap_get (rs_entries s') ws = Some (EntryReady rt) \<Longrightarrow>
      omap_get (rs_entries s) ws = Some (EntryReady rt)"
    and "\<And>u i. callers' u = CallerStarting i \<Longrightarrow> callers u = CallerStarting i"
  shows "scoped_ok s' callers'"
  using assms(1) assms(3,4) unfolding scoped_ok_def assms(2) by blast

lemma starting_entry:
  assumes "registry_inv cfg w" "rw_callers w t = CallerStarting i"
  shows "omap_get (rs_entries (rw_state w)) (wi_workspace i) = Some EntryStarting"
proof -
  have "caller_transition (rw_callers w t) = Some (wi_workspace i, TransitionStarting)"
    by (simp add: assms(2))
  then have "in_transition (rw_state w) (wi_workspace i) = Some TransitionStarting"
    using assms(1) unfolding registry_inv_def owners_ok_def by blast
  then show ?thesis by (auto simp: in_transition_def bind_eq_Some_conv elim: transition_of.elims)
qed

lemma stopping_entry:
  assumes "registry_inv cfg w" "rw_callers w t = CallerStopping ws"
  shows "omap_get (rs_entries (rw_state w)) ws = Some EntryStopping"
proof -
  have "caller_transition (rw_callers w t) = Some (ws, TransitionStopping)" by (simp add: assms(2))
  then have "in_transition (rw_state w) ws = Some TransitionStopping"
    using assms(1) unfolding registry_inv_def owners_ok_def by blast
  then show ?thesis by (auto simp: in_transition_def bind_eq_Some_conv elim: transition_of.elims)
qed

lemma not_shut_down:
  "registry_inv cfg w \<Longrightarrow> omap_get (rs_entries (rw_state w)) ws = Some e \<Longrightarrow> \<not> rs_shut_down (rw_state w)"
  by (auto simp: registry_inv_def bounded_ok_def)

lemma registry_inv_start: "registry_inv cfg registry_start"
  by (simp add: registry_inv_def bounded_ok_def owners_ok_def scoped_ok_def registry_start_def
      registry_state_default_def in_transition_def)

lemma registry_inv_step:
  assumes "registry_inv cfg w" "registry_step cfg w w'"
  shows "registry_inv cfg w'"
  using assms(2)
proof (cases rule: registry_step.cases)
  case (reserve_step t identity s)
  note r = reserve_Inr [OF reserve_step(3)]
  have "owners_ok s ((rw_callers w)(t := CallerStarting identity))"
    using assms(1) reserve_step(2) r
    by (intro owners_take [where k = TransitionStarting and ws = "wi_workspace identity"])
      (auto simp: registry_inv_def in_transition_def intro!: in_transition_insert [THEN trans])
  moreover have "bounded_ok cfg s"
    using assms(1) r by (auto simp: registry_inv_def bounded_ok_def length_omap_insert)
  moreover have "scoped_ok s ((rw_callers w)(t := CallerStarting identity))"
    using assms(1) r by (fastforce simp: registry_inv_def scoped_ok_def)
  ultimately show ?thesis unfolding reserve_step(1) by (simp add: registry_inv_def)
next
  case (finish_step t identity rt rejected s)
  have e: "omap_get (rs_entries (rw_state w)) (wi_workspace identity) = Some EntryStarting"
    by (rule starting_entry [OF assms(1) finish_step(2)])
  then have s: "s = (rw_state w)\<lparr>rs_entries :=
      omap_insert (wi_workspace identity) (EntryReady rt) (rs_entries (rw_state w))\<rparr>"
    using finish_step(3,4) not_shut_down [OF assms(1) e] by (simp add: finish_registration_def Let_def)
  have "owners_ok s ((rw_callers w)(t := CallerIdle))"
    using assms(1) finish_step(2) in_transition_insert [of s "wi_workspace identity" "EntryReady rt" "rw_state w"]
    by (intro owners_give [where s = "rw_state w" and ws = "wi_workspace identity" and k = TransitionStarting])
      (simp_all add: registry_inv_def s)
  moreover have "bounded_ok cfg s"
    using assms(1) not_shut_down [OF assms(1) e] e
    by (simp add: registry_inv_def bounded_ok_def length_omap_insert s)
  moreover have "scoped_ok s ((rw_callers w)(t := CallerIdle))"
    unfolding scoped_ok_def
  proof (intro conjI allI impI)
    have sc: "scoped_ok (rw_state w) (rw_callers w)" using assms(1) by (simp add: registry_inv_def)
    note rep = scoped_caller [OF sc finish_step(2)]
    fix ws rt' assume get: "omap_get (rs_entries s) ws = Some (EntryReady rt')"
    have "wi_workspace (rt_identity rt') = ws \<and> rs_repository (rw_state w) = Some (wi_repository (rt_identity rt'))"
    proof (cases "ws = wi_workspace identity")
      case True
      then have "rt' = rt" using get by (simp add: s)
      then show ?thesis using True rep finish_step(3) by simp
    next
      case False
      then have "omap_get (rs_entries (rw_state w)) ws = Some (EntryReady rt')" using get by (simp add: s)
      then show ?thesis using sc unfolding scoped_ok_def by blast
    qed
    then show "wi_workspace (rt_identity rt') = ws" "rs_repository s = Some (wi_repository (rt_identity rt'))"
      by (simp_all add: s)
  next
    fix u i assume "((rw_callers w)(t := CallerIdle)) u = CallerStarting i"
    then have "rw_callers w u = CallerStarting i" by (auto split: if_splits)
    then show "rs_repository s = Some (wi_repository i)"
      using assms(1) scoped_caller [of "rw_state w" "rw_callers w" u i] by (simp add: registry_inv_def s)
  qed
  ultimately show ?thesis unfolding finish_step(1) by (simp add: registry_inv_def)
next
  case (rollback_step t identity)
  let ?ws = "wi_workspace identity"
  let ?s = "rollback_reservation ?ws (rw_state w)"
  have e: "omap_get (rs_entries (rw_state w)) ?ws = Some EntryStarting"
    by (rule starting_entry [OF assms(1) rollback_step(2)])
  have ent: "rs_entries ?s = omap_delete ?ws (rs_entries (rw_state w))"
    by (simp add: rollback_reservation_def Let_def)
  have own: "owners_ok ?s ((rw_callers w)(t := CallerIdle))"
    using assms(1) rollback_step(2) in_transition_delete [OF ent]
    by (intro owners_give [where s = "rw_state w" and ws = ?ws and k = TransitionStarting])
      (simp_all add: registry_inv_def)
  moreover have "bounded_ok cfg ?s"
    using assms(1) not_shut_down [OF assms(1) e]
    by (auto simp: registry_inv_def bounded_ok_def ent length_omap_delete rollback_reservation_def Let_def)
  moreover have "scoped_ok ?s ((rw_callers w)(t := CallerIdle))"
  proof (cases "rs_entries ?s = []")
    case True
    then have "in_transition ?s = (\<lambda>_. None)" by (intro ext) (simp add: in_transition_def)
    then have "caller_transition (((rw_callers w)(t := CallerIdle)) u) = None" for u
      using own unfolding owners_ok_def by (metis option.distinct(1) option.exhaust surj_pair)
    then have "((rw_callers w)(t := CallerIdle)) u \<noteq> CallerStarting i" for u i
      by (metis caller_transition.simps(2) option.distinct(1))
    then show ?thesis unfolding scoped_ok_def by (simp add: True)
  next
    case False
    then have "rs_repository ?s = rs_repository (rw_state w)"
      by (simp add: rollback_reservation_def Let_def split: if_splits)
    then show ?thesis
      using assms(1) by - (rule scoped_frame [of "rw_state w" "rw_callers w"],
        simp_all add: registry_inv_def ent split: if_splits)
  qed
  ultimately show ?thesis unfolding rollback_step(1) by (simp add: registry_inv_def)
next
  case (unregister_step t ws rt s)
  note u = unregister_begin_Inr [OF unregister_step(3)]
  have "owners_ok s ((rw_callers w)(t := CallerStopping ws))"
    using assms(1) unregister_step(2) u in_transition_insert [of s ws EntryStopping "rw_state w"]
    by (intro owners_take [where s = "rw_state w" and k = TransitionStopping and ws = ws])
      (simp_all add: registry_inv_def in_transition_def)
  moreover have "bounded_ok cfg s"
    using assms(1) u not_shut_down [OF assms(1), of ws "EntryReady rt"]
    by (simp add: registry_inv_def bounded_ok_def length_omap_insert)
  moreover have "scoped_ok s ((rw_callers w)(t := CallerStopping ws))"
    using assms(1) u by - (rule scoped_frame [of "rw_state w" "rw_callers w"],
      simp_all add: registry_inv_def split: if_splits)
  ultimately show ?thesis unfolding unregister_step(1) by (simp add: registry_inv_def)
next
  case (unregistered_step t ws)
  have e: "omap_get (rs_entries (rw_state w)) ws = Some EntryStopping"
    by (rule stopping_entry [OF assms(1) unregistered_step(2)])
  let ?s = "unregister_end ws (rw_state w)"
  have s: "?s = (rw_state w)\<lparr>rs_entries := omap_delete ws (rs_entries (rw_state w))\<rparr>"
    by (simp add: unregister_end_def e)
  have "owners_ok ?s ((rw_callers w)(t := CallerIdle))"
    using assms(1) unregistered_step(2) in_transition_delete [of ?s ws "rw_state w"]
    by (intro owners_give [where s = "rw_state w" and ws = ws and k = TransitionStopping])
      (simp_all add: registry_inv_def s)
  moreover have "bounded_ok cfg ?s"
    using assms(1) not_shut_down [OF assms(1) e]
    by (simp add: registry_inv_def bounded_ok_def length_omap_delete s le_diff_conv)
  moreover have "scoped_ok ?s ((rw_callers w)(t := CallerIdle))"
    using assms(1) by - (rule scoped_frame [of "rw_state w" "rw_callers w"],
      simp_all add: registry_inv_def s split: if_splits)
  ultimately show ?thesis unfolding unregistered_step(1) by (simp add: registry_inv_def)
next
  case (shutdown_step t rts s)
  have b: "omap_ok (rs_entries (rw_state w))" "rs_shut_down (rw_state w) \<longrightarrow> rs_entries (rw_state w) = []"
    using assms(1) by (simp_all add: registry_inv_def bounded_ok_def)
  note sh = shutdown_begin_Inr [OF shutdown_step(3) b]
  have none: "in_transition s = in_transition (rw_state w)"
    unfolding sh(3) by (rule ext) (simp add: in_transition_def sh(1))
  have idle: "(rw_callers w)(t := CallerIdle) = rw_callers w" using shutdown_step(2) by auto
  have "owners_ok s (rw_callers w)"
    using assms(1) by (simp add: registry_inv_def owners_ok_def none)
  moreover have "bounded_ok cfg s" by (simp add: bounded_ok_def sh(1))
  moreover have "scoped_ok s (rw_callers w)"
    using assms(1) by (simp add: registry_inv_def scoped_ok_def sh(1,4))
  ultimately show ?thesis unfolding shutdown_step(1) by (simp add: registry_inv_def idle)
qed

interpretation registry: step_invariant registry_start "registry_step cfg" "registry_inv cfg" for cfg
  by unfold_locales (rule registry_inv_start, rule registry_inv_step)


text \<open>
  C27: One owner per worktree, within bounds, of one repository. However concurrent callers
  interleave, the registry never holds more than its limit; every starting or stopping entry
  has exactly one caller responsible for it; all ready runtimes are filed under their own
  workspace and belong to the registry's repository; once shut down it stays empty and no
  registration is in flight, so a started runtime is never turned away.
\<close>

theorem registry_single_owner:
  assumes "reachable_from registry_start (registry_step cfg) w"
  shows "length (rs_entries (rw_state w)) \<le> max_workspaces cfg \<and>
    (\<forall>ws k. in_transition (rw_state w) ws = Some k \<longrightarrow>
       (\<exists>!t. caller_transition (rw_callers w t) = Some (ws, k))) \<and>
    (\<forall>ws rt. omap_get (rs_entries (rw_state w)) ws = Some (EntryReady rt) \<longrightarrow>
       wi_workspace (rt_identity rt) = ws \<and>
       rs_repository (rw_state w) = Some (wi_repository (rt_identity rt))) \<and>
    (rs_shut_down (rw_state w) \<longrightarrow> (\<forall>t. rw_callers w t = CallerIdle)) \<and>
    (\<forall>t identity rt. rw_callers w t = CallerStarting identity \<longrightarrow>
       fst (finish_registration rt (rw_state w)) = None)"
proof (intro conjI)
  have inv: "registry_inv cfg w" by (rule registry.inv_reachable [OF assms])
  then have b: "bounded_ok cfg (rw_state w)" and o: "owners_ok (rw_state w) (rw_callers w)"
      and s: "scoped_ok (rw_state w) (rw_callers w)"
    by (simp_all add: registry_inv_def)
  show "length (rs_entries (rw_state w)) \<le> max_workspaces cfg" using b by (simp add: bounded_ok_def)
  show "\<forall>ws k. in_transition (rw_state w) ws = Some k \<longrightarrow>
      (\<exists>!t. caller_transition (rw_callers w t) = Some (ws, k))"
    using o unfolding owners_ok_def by blast
  show "\<forall>ws rt. omap_get (rs_entries (rw_state w)) ws = Some (EntryReady rt) \<longrightarrow>
      wi_workspace (rt_identity rt) = ws \<and> rs_repository (rw_state w) = Some (wi_repository (rt_identity rt))"
    using s unfolding scoped_ok_def by blast
  show "\<forall>t identity rt. rw_callers w t = CallerStarting identity \<longrightarrow>
      fst (finish_registration rt (rw_state w)) = None"
    using not_shut_down [OF inv starting_entry [OF inv]] by (simp add: finish_registration_def Let_def)
  show "rs_shut_down (rw_state w) \<longrightarrow> (\<forall>t. rw_callers w t = CallerIdle)"
  proof (intro impI allI)
    fix t assume "rs_shut_down (rw_state w)"
    then show "rw_callers w t = CallerIdle"
      using not_shut_down [OF inv starting_entry [OF inv]] not_shut_down [OF inv stopping_entry [OF inv]]
      by (cases "rw_callers w t") auto
  qed
qed

definition sample_registry :: "unit registry_world" where
  "sample_registry = caller_moves 0 (CallerStarting sample_identity)
     (snd (reserve registry_config_default sample_identity registry_state_default)) registry_start"

theorem registry_single_owner_witness:
  "\<exists>!t. caller_transition (rw_callers sample_registry t) =
     Some (wi_workspace sample_identity, TransitionStarting)"
proof -
  have r: "reserve registry_config_default sample_identity (rw_state registry_start) =
      (Inr (), snd (reserve registry_config_default sample_identity registry_state_default))"
    by (simp add: reserve_def registry_start_def registry_state_default_def registry_config_default_def)
  have "registry_step registry_config_default registry_start sample_registry"
    unfolding sample_registry_def by (rule reserve_step [OF _ r]) (simp add: registry_start_def)
  then have "reachable_from registry_start (registry_step registry_config_default) sample_registry"
    by (rule reachable_step [OF reachable_start])
  moreover have "in_transition (rw_state sample_registry) (wi_workspace sample_identity) = Some TransitionStarting"
    by (simp add: sample_registry_def in_transition_def reserve_def registry_state_default_def
        registry_config_default_def)
  ultimately show ?thesis using registry_single_owner by blast
qed

subsection \<open>Freshness is revoked\<close>

lemma publish_cases:
  "publish b a e =
     (if ws_revision (snd (en_current e)) = ub_base_revision b
      then (Inr (a, next_snapshot b), publish_count (en_current e) (a, next_snapshot b)
              (e\<lparr>en_current := (a, next_snapshot b)\<rparr>))
      else (Inl (Conflict (ub_base_revision b) (ws_revision (snd (en_current e)))), e))"
  by (simp add: publish_def publish_load_def publish_swap_def compare_and_swap_def Let_def)

lemma stale_update_fields [simp]:
  "ub_base_revision (stale_update e) = ws_revision (snd (en_current e))"
  "ws_freshness (next_snapshot (stale_update e)) = Stale"
  "ws_status (next_snapshot (stale_update e)) = StatusStale"
  by (simp_all add: stale_update_def set_status_def set_freshness_def begin_update_def
      begin_update_from_def next_snapshot_def snapshot_def)

definition revoked :: "('b, 'd) engine \<Rightarrow> bool" where
  "revoked e \<longleftrightarrow> ws_freshness (snd (snapshot e)) = Stale \<and> ws_status (snd (snapshot e)) = StatusStale"

lemma mark_stale_attempts_result:
  "case mark_stale_attempts env sa k n c e of
     (Inr _, e') \<Rightarrow> revoked e'
   | (Inl c', e') \<Rightarrow> (\<forall>j<n. env (Suc (2 * (k + j))) \<noteq> (\<lambda>e. e)) \<and>
       (if n = 0 then c' = c else \<exists>b r. c' = Some (Conflict b r) \<and> b \<noteq> r)"
proof (induction env sa k n c e rule: mark_stale_attempts.induct)
  case (2 env sa k left c e)
  let ?e0 = "env (2 * k) e"
  let ?e1 = "env (Suc (2 * k)) ?e0"
  show ?case
  proof (cases "ws_revision (snd (en_current ?e1)) = ws_revision (snd (en_current ?e0))")
    case True
    then show ?thesis by (simp add: Let_def publish_cases revoked_def snapshot_def)
  next
    case False
    let ?err = "Conflict (ws_revision (snd (en_current ?e0))) (ws_revision (snd (en_current ?e1)))"
    have p: "publish (stale_update ?e0) (sa k) ?e1 = (Inl ?err, ?e1)"
      using False by (simp add: publish_cases)
    have moved: "env (Suc (2 * k)) \<noteq> (\<lambda>e. e)" using False by metis
    have eq: "mark_stale_attempts env sa k (Suc left) c e =
        mark_stale_attempts env sa (Suc k) left (Some ?err) ?e1"
      by (simp add: Let_def p)
    have IH: "case mark_stale_attempts env sa (Suc k) left (Some ?err) ?e1 of
        (Inr _, e') \<Rightarrow> revoked e'
      | (Inl c', e') \<Rightarrow> (\<forall>j<left. env (Suc (2 * (Suc k + j))) \<noteq> (\<lambda>e. e)) \<and>
          (if left = 0 then c' = Some ?err else \<exists>b r. c' = Some (Conflict b r) \<and> b \<noteq> r)"
      using 2 [OF refl refl refl p [symmetric] refl] by simp
    have all: "\<forall>j<Suc left. env (Suc (2 * (k + j))) \<noteq> (\<lambda>e. e)"
      if "\<forall>j<left. env (Suc (2 * (Suc k + j))) \<noteq> (\<lambda>e. e)"
    proof (intro allI impI)
      fix j assume "j < Suc left"
      then show "env (Suc (2 * (k + j))) \<noteq> (\<lambda>e. e)"
        using that moved by (cases j) auto
    qed
    show ?thesis unfolding eq using IH all False
      by (simp split: prod.splits sum.splits if_splits)
  qed
qed simp

lemma all_three_attempts: "(\<forall>j<3. P (Suc (2 * j))) \<longleftrightarrow> P 1 \<and> P 3 \<and> P 5" for P :: "nat \<Rightarrow> bool"
  by (simp add: numeral_3_eq_3 All_less_Suc eval_nat_numeral conj_ac)

text \<open>
  C28: A stopped worktree stops claiming fresh facts. When \<open>mark_engine_stale\<close> succeeds, the
  published snapshot is stale with status stale; it succeeds as soon as one of its three
  attempts is not disturbed between reading and publishing; and when it gives up, it reports
  a genuine conflict of two revisions.
\<close>

theorem mark_engine_stale_exact:
  "case mark_engine_stale env sa ws e of
     (Inr _, e') \<Rightarrow> ws_freshness (snd (snapshot e')) = Stale \<and> ws_status (snd (snapshot e')) = StatusStale
   | (Inl err, e') \<Rightarrow> env 1 \<noteq> (\<lambda>e. e) \<and> env 3 \<noteq> (\<lambda>e. e) \<and> env 5 \<noteq> (\<lambda>e. e) \<and>
       (\<exists>b r. err = StalePublication ws (Conflict b r) \<and> b \<noteq> r)"
  using mark_stale_attempts_result [where k = 0 and n = max_stale_publication_attempts and c = None
      and env = env and sa = sa and e = e]
  unfolding add_0 max_stale_publication_attempts_def
    all_three_attempts [where P = "\<lambda>i. env i \<noteq> (\<lambda>e. e)"]
  by (auto simp: mark_engine_stale_def max_stale_publication_attempts_def Let_def revoked_def
      split: prod.splits sum.splits)

end
