(* ===== verification/Snapshot_Cache.thy ===== *)
theory Snapshot_Cache
  imports Query_Envelope Step_Systems
begin

section \<open>The commit snapshot cache\<close>

text \<open>
  \<open>chakra-workspace/src/snapshot_cache.rs\<close>: bounded reuse of complete commit indexes. The
  process-local part is a map of ready reports and a set of keys being built, under one lock;
  the optional disk part validates an artifact before it is trusted and evicts the least
  recently used ones. The index itself (\<open>'x\<close>), its encoding and the file system are outside:
  what a file holds, what decoding says and whether a directory can be removed are arguments.
\<close>

subsection \<open>Configuration and keys\<close>

record cache_config =
  cf_directory :: "string option"
  cf_max_memory_entries :: nat
  cf_max_disk_artifacts :: nat
  cf_max_disk_bytes :: nat
  cf_max_artifact_bytes :: nat

definition cache_config_default :: cache_config where
  "cache_config_default = \<lparr>cf_directory = None, cf_max_memory_entries = 4, cf_max_disk_artifacts = 16,
     cf_max_disk_bytes = 1024 * 1024 * 1024, cf_max_artifact_bytes = 512 * 1024 * 1024\<rparr>"

definition cache_config_with_directory :: "string \<Rightarrow> cache_config" where
  "cache_config_with_directory d = cache_config_default\<lparr>cf_directory := Some d\<rparr>"

datatype 'e cache_error = CacheInvalidConfig string | CacheIndexError 'e | CacheCancelled

definition cache_config_validate :: "cache_config \<Rightarrow> 'e cache_error + unit" where
  "cache_config_validate c =
     (if cf_max_memory_entries c = 0
      then Inl (CacheInvalidConfig ''max_memory_entries must be greater than zero'')
      else if cf_directory c \<noteq> None \<and>
         (cf_max_disk_artifacts c = 0 \<or> cf_max_disk_bytes c = 0 \<or> cf_max_artifact_bytes c = 0 \<or>
          cf_max_disk_bytes c < cf_max_artifact_bytes c)
      then Inl (CacheInvalidConfig
        ''disk bounds must be non-zero and max_artifact_bytes must not exceed max_disk_bytes'')
      else Inr ())"

record snapshot_compatibility =
  sc_format_version :: nat
  sc_graph_model_version :: nat
  sc_language_version :: string
  sc_budgets :: index_budgets
  sc_adapters :: "(language \<times> string) list"

record compatibility_key =
  ck_repository :: string
  ck_commit :: "string option"
  ck_compatibility :: snapshot_compatibility

record cache_manifest =
  mf_key :: compatibility_key
  mf_payload_bytes :: nat

text \<open>A commit index report: what the cache reads and writes of it, and the rest.\<close>

record 'x commit_report =
  ci_root :: string
  ci_source_files :: nat
  ci_source_bytes :: nat
  ci_reuse :: commit_snapshot_reuse
  ci_index :: 'x

definition clone_for_root :: "string \<Rightarrow> 'x commit_report \<Rightarrow> 'x commit_report" where
  "clone_for_root root r = r\<lparr>ci_root := root\<rparr>"

subsection \<open>The process-local cache\<close>

record 'x memory_entry =
  me_report :: "'x commit_report"
  me_last_used :: nat

record 'x cache_state =
  cs_ready :: "(string, 'x memory_entry) omap"
  cs_building :: "string set"
  cs_clock :: nat

definition cache_state_default :: "'x cache_state" where
  "cache_state_default = \<lparr>cs_ready = [], cs_building = {}, cs_clock = 0\<rparr>"

definition least_recent :: "(string, 'x memory_entry) omap \<Rightarrow> string option" where
  "least_recent ready = map_option fst (min_by_key (\<lambda>kv. me_last_used (snd kv)) ready)"

lemma least_recent_in: "least_recent ready = Some k \<Longrightarrow> k \<in> fst ` set ready"
  by (force simp: least_recent_def dest!: min_by_key_in)

lemma length_omap_delete_in: "k \<in> fst ` set m \<Longrightarrow> length (omap_delete k m) < length m"
  unfolding omap_delete_def by (erule imageE, rule length_filter_less) auto

function evict_memory :: "nat \<Rightarrow> (string, 'x memory_entry) omap \<Rightarrow> (string, 'x memory_entry) omap" where
  "evict_memory limit ready =
     (if limit < length ready
      then (case least_recent ready of
              None \<Rightarrow> ready
            | Some oldest \<Rightarrow> evict_memory limit (omap_delete oldest ready))
      else ready)"
  by pat_completeness auto

termination
  by (relation "measure (\<lambda>(limit, ready). length ready)")
    (auto intro: length_omap_delete_in least_recent_in)

declare evict_memory.simps [simp del]

text \<open>One turn of the lookup loop of \<open>load_or_build\<close>, under the lock.\<close>

datatype 'x cache_turn = Hit "'x commit_report" | BecomeBuilder | LookupCancelled | WaitForBuilder

definition memory_reuse :: "nat \<Rightarrow> 'x commit_report \<Rightarrow> commit_snapshot_reuse" where
  "memory_reuse elapsed r = \<lparr>cr_origin = MemoryReuse, cr_reused_files = ci_source_files r,
     cr_reused_source_bytes = ci_source_bytes r, cr_elapsed_micros = elapsed,
     cr_artifact_bytes = None, cr_rejection = None\<rparr>"

definition cache_lookup ::
    "string \<Rightarrow> string \<Rightarrow> nat \<Rightarrow> bool \<Rightarrow> 'x cache_state \<Rightarrow> 'x cache_turn \<times> 'x cache_state" where
  "cache_lookup root fingerprint elapsed cancelled s =
     (let next_clock = sat_add64 (cs_clock s) 1
      in case omap_get (cs_ready s) fingerprint of
           Some e \<Rightarrow>
             (Hit ((clone_for_root root (me_report e))\<lparr>ci_reuse := memory_reuse elapsed (me_report e)\<rparr>),
              s\<lparr>cs_ready := omap_insert fingerprint (e\<lparr>me_last_used := next_clock\<rparr>) (cs_ready s),
                cs_clock := next_clock\<rparr>)
         | None \<Rightarrow>
             if fingerprint \<notin> cs_building s
             then (BecomeBuilder, s\<lparr>cs_building := insert fingerprint (cs_building s)\<rparr>)
             else if cancelled then (LookupCancelled, s)
             else (WaitForBuilder, s))"

text \<open>The second critical section: what the builder leaves behind.\<close>

definition cache_finish ::
    "nat \<Rightarrow> string \<Rightarrow> 'e cache_error + 'x commit_report \<Rightarrow> 'x cache_state \<Rightarrow> 'x cache_state" where
  "cache_finish limit fingerprint built s =
     (let s1 = s\<lparr>cs_building := cs_building s - {fingerprint}\<rparr>
      in case built of
           Inl e \<Rightarrow> s1
         | Inr report \<Rightarrow>
             (let now = sat_add64 (cs_clock s1) 1
              in s1\<lparr>cs_clock := now,
                    cs_ready := evict_memory limit
                      (omap_insert fingerprint \<lparr>me_report = report, me_last_used = now\<rparr> (cs_ready s1))\<rparr>))"

subsection \<open>Reading the disk\<close>

datatype disk_failure = DiskCancelled | DiskRejected commit_snapshot_rejection

text \<open>
  What opening a file gives: it is missing, it (or its metadata) cannot be accessed, or it has
  a length in its metadata, its bytes, and for the \<open>k\<close>-th read the most bytes that this read
  returns, or \<open>None\<close> when it fails. \<open>read\<close> promises no more than that: it may return less
  than the buffer holds, and it returns nothing only at the end.
\<close>

datatype disk_file =
    FileMissing
  | FileUnreadable
  | FileContents nat "8 word list" "nat \<Rightarrow> nat option"

definition io_chunk_bytes :: nat where "io_chunk_bytes = 64 * 1024"
definition manifest_read_limit :: nat where "manifest_read_limit = 1024 * 1024"

text \<open>
  One \<open>read\<close> into the chunk through \<open>Take\<close>, which has \<open>room\<close> bytes left and asks the file
  for no byte beyond them (and for nothing once the room is used up).
\<close>

definition read_chunk :: "nat option \<Rightarrow> nat \<Rightarrow> 8 word list \<Rightarrow> disk_failure + 8 word list" where
  "read_chunk outcome room rest =
     (if room = 0 then Inr []
      else case outcome of
             None \<Rightarrow> Inl (DiskRejected RejectIoFailure)
           | Some n \<Rightarrow> Inr (take (min (max 1 n) (min io_chunk_bytes room)) rest))"

text \<open>
  The loop of \<open>read_bounded\<close> over what the limited reader still has to give;
  \<open>cancelled k\<close> is what the \<open>k\<close>-th poll sees.
\<close>

function read_chunks ::
    "(nat \<Rightarrow> bool) \<Rightarrow> (nat \<Rightarrow> nat option) \<Rightarrow> nat \<Rightarrow> nat \<Rightarrow> nat \<Rightarrow> 8 word list \<Rightarrow> 8 word list \<Rightarrow>
     disk_failure + 8 word list" where
  "read_chunks cancelled reads limit k room output rest =
     (if cancelled k then Inl DiskCancelled
      else case read_chunk (reads k) room rest of
             Inl f \<Rightarrow> Inl f
           | Inr chunk \<Rightarrow>
               if chunk = [] then Inr output
               else if limit < length (output @ chunk) then Inl (DiskRejected RejectOversized)
               else read_chunks cancelled reads limit (k + 1) (room - length chunk) (output @ chunk)
                      (drop (length chunk) rest))"
  by pat_completeness auto

termination
  by (relation "measure (\<lambda>(cancelled, reads, limit, k, room, output, rest). length rest)")
    (auto simp: read_chunk_def split: if_splits option.splits)

declare read_chunks.simps [simp del]

definition read_bounded :: "(nat \<Rightarrow> bool) \<Rightarrow> nat \<Rightarrow> disk_file \<Rightarrow> disk_failure + 8 word list" where
  "read_bounded cancelled limit f =
     (case f of
        FileMissing \<Rightarrow> Inl (DiskRejected RejectNotFound)
      | FileUnreadable \<Rightarrow> Inl (DiskRejected RejectIoFailure)
      | FileContents len bytes reads \<Rightarrow>
          if limit < len then Inl (DiskRejected RejectOversized)
          else read_chunks cancelled reads limit 0 (sat_add64 limit 1) [] bytes)"

record disk_artifact =
  da_manifest :: disk_file
  da_payload :: disk_file
  da_bytes :: nat

datatype payload_error =
    PayloadCancelled | PayloadFormat | PayloadCompatibility | PayloadOversized | PayloadOther

fun payload_rejection :: "payload_error \<Rightarrow> commit_snapshot_rejection" where
  "payload_rejection PayloadCancelled = RejectIoFailure"
| "payload_rejection PayloadFormat = RejectFormatMismatch"
| "payload_rejection PayloadCompatibility = RejectCompatibilityMismatch"
| "payload_rejection PayloadOversized = RejectOversized"
| "payload_rejection PayloadOther = RejectCorrupt"

fun disk_rejection :: "disk_failure \<Rightarrow> commit_snapshot_rejection" where
  "disk_rejection DiskCancelled = RejectIoFailure"
| "disk_rejection (DiskRejected r) = r"

text \<open>
  \<open>artifact\<close> is \<open>None\<close> where the path is not a real directory; \<open>parse\<close> and \<open>decode\<close> are the
  manifest and payload decoders.
\<close>

definition read_disk ::
    "(8 word list \<Rightarrow> cache_manifest option) \<Rightarrow> (8 word list \<Rightarrow> payload_error + 'x commit_report) \<Rightarrow>
     cache_config \<Rightarrow> (nat \<Rightarrow> bool) \<Rightarrow> (nat \<Rightarrow> bool) \<Rightarrow> compatibility_key \<Rightarrow> disk_artifact option \<Rightarrow>
     ('x commit_report \<times> nat) option \<times> commit_snapshot_rejection" where
  "read_disk parse decode cfg cancel_manifest cancel_payload expected artifact =
     (case artifact of
        None \<Rightarrow> (None, RejectNotFound)
      | Some a \<Rightarrow>
          (case read_bounded cancel_manifest manifest_read_limit (da_manifest a) of
             Inl f \<Rightarrow> (None, disk_rejection f)
           | Inr manifest_raw \<Rightarrow>
               (case parse manifest_raw of
                  None \<Rightarrow> (None, RejectCorrupt)
                | Some m \<Rightarrow>
                    if sc_format_version (ck_compatibility (mf_key m)) \<noteq>
                       sc_format_version (ck_compatibility expected)
                    then (None, RejectFormatMismatch)
                    else if mf_key m \<noteq> expected then (None, RejectCompatibilityMismatch)
                    else if cf_max_artifact_bytes cfg < mf_payload_bytes m then (None, RejectOversized)
                    else (case read_bounded cancel_payload
                                (sat_add64 (cf_max_artifact_bytes cfg) 1) (da_payload a) of
                            Inl f \<Rightarrow> (None, disk_rejection f)
                          | Inr payload \<Rightarrow>
                              if length payload \<noteq> mf_payload_bytes m then (None, RejectCorrupt)
                              else (case decode payload of
                                      Inl e \<Rightarrow> (None, payload_rejection e)
                                    | Inr report \<Rightarrow> (Some (report, da_bytes a), RejectNotFound))))))"

subsection \<open>Evicting from the disk\<close>

record disk_entry =
  de_name :: string
  de_bytes :: nat
  de_modified :: nat

text \<open>The removal loop: \<open>removable\<close> says whether deleting a directory succeeds.\<close>

fun evict_disk_loop ::
    "cache_config \<Rightarrow> string option \<Rightarrow> (string \<Rightarrow> bool) \<Rightarrow> disk_entry list \<Rightarrow> nat \<Rightarrow> nat \<Rightarrow>
     string list \<times> nat \<times> nat" where
  "evict_disk_loop cfg retained removable [] total_count total_bytes = ([], total_count, total_bytes)"
| "evict_disk_loop cfg retained removable (a # as) total_count total_bytes =
     (if total_count \<le> cf_max_disk_artifacts cfg \<and> total_bytes \<le> cf_max_disk_bytes cfg
      then ([], total_count, total_bytes)
      else if retained = Some (de_name a)
      then evict_disk_loop cfg retained removable as total_count total_bytes
      else if removable (de_name a)
      then (let (removed, counts) = evict_disk_loop cfg retained removable as
                  (total_count - 1) (total_bytes - de_bytes a)
            in (de_name a # removed, counts))
      else evict_disk_loop cfg retained removable as total_count total_bytes)"

definition saturating_sum :: "nat list \<Rightarrow> nat" where
  "saturating_sum ns = fold (\<lambda>n total. sat_add64 total n) ns 0"

text \<open>
  What listing the entries directory gives: it is missing, unreadable, or a sequence of entries,
  each with its name, whether it is a directory, the bytes of its files and the modification
  time of its access file (\<open>None\<close> when that cannot be read), or failing itself.
\<close>

datatype dir_entry = EntryFails | DirEntry string bool nat "nat option"

datatype dir_listing = ListingMissing | ListingFails | Listing "dir_entry list"

fun list_artifacts :: "(nat \<Rightarrow> bool) \<Rightarrow> nat \<Rightarrow> dir_entry list \<Rightarrow> disk_failure + disk_entry list" where
  "list_artifacts cancelled k [] = Inr []"
| "list_artifacts cancelled k (entry # es) =
     (if cancelled k then Inl DiskCancelled
      else case entry of
             EntryFails \<Rightarrow> Inl (DiskRejected RejectIoFailure)
           | DirEntry name is_dir bytes modified \<Rightarrow>
               (case list_artifacts cancelled (k + 1) es of
                  Inl f \<Rightarrow> Inl f
                | Inr as \<Rightarrow>
                    if \<not> is_dir \<or> starts_with ''.'' name then Inr as
                    else Inr (\<lparr>de_name = name, de_bytes = bytes,
                               de_modified = (case modified of None \<Rightarrow> 0 | Some t \<Rightarrow> t)\<rparr> # as)))"

text \<open>The removed names, and whether the bounds hold afterwards.\<close>

definition evict_artifacts ::
    "cache_config \<Rightarrow> string option \<Rightarrow> (string \<Rightarrow> bool) \<Rightarrow> disk_entry list \<Rightarrow>
     string list \<times> (disk_failure + unit)" where
  "evict_artifacts cfg retained removable artifacts =
     (let as = sort_key de_modified artifacts;
          (removed, total_count, total_bytes) = evict_disk_loop cfg retained removable as
            (length as) (saturating_sum (map de_bytes as))
      in (removed,
          if cf_max_disk_artifacts cfg < total_count \<or> cf_max_disk_bytes cfg < total_bytes
          then Inl (DiskRejected RejectIoFailure) else Inr ()))"

definition evict_disk ::
    "cache_config \<Rightarrow> string option \<Rightarrow> (string \<Rightarrow> bool) \<Rightarrow> (nat \<Rightarrow> bool) \<Rightarrow> dir_listing \<Rightarrow>
     string list \<times> (disk_failure + unit)" where
  "evict_disk cfg retained removable cancelled listing =
     (case listing of
        ListingMissing \<Rightarrow> ([], Inr ())
      | ListingFails \<Rightarrow> ([], Inl (DiskRejected RejectIoFailure))
      | Listing es \<Rightarrow>
          (case list_artifacts cancelled 0 es of
             Inl f \<Rightarrow> ([], Inl f)
           | Inr artifacts \<Rightarrow> evict_artifacts cfg retained removable artifacts))"

subsection \<open>The builder\<close>

definition replaces_existing :: "commit_snapshot_rejection \<Rightarrow> bool" where
  "replaces_existing r \<longleftrightarrow> r \<in> {RejectNotFound, RejectFormatMismatch, RejectCompatibilityMismatch,
     RejectCorrupt, RejectOversized}"

text \<open>
  \<open>load_or_build_owner\<close>: \<open>disk\<close> is the outcome of reading the configured directory, \<open>index\<close>
  that of indexing the commit, \<open>write replace\<close> that of writing the artifact.
\<close>

definition load_or_build_owner ::
    "cache_config \<Rightarrow> ('x commit_report \<times> nat) option \<times> commit_snapshot_rejection \<Rightarrow> bool \<Rightarrow>
     'e cache_error + 'x commit_report \<Rightarrow> (bool \<Rightarrow> 'x commit_report \<Rightarrow> disk_failure + nat) \<Rightarrow> nat \<Rightarrow>
     'e cache_error + 'x commit_report" where
  "load_or_build_owner cfg disk cancelled index write elapsed =
     (let (restored, rejection) = (if cf_directory cfg = None then (None, RejectCacheDisabled) else disk)
      in case restored of
           Some (report, artifact_bytes) \<Rightarrow>
             Inr (report\<lparr>ci_reuse := \<lparr>cr_origin = DiskRestore, cr_reused_files = ci_source_files report,
               cr_reused_source_bytes = ci_source_bytes report, cr_elapsed_micros = elapsed,
               cr_artifact_bytes = Some artifact_bytes, cr_rejection = None\<rparr>\<rparr>)
         | None \<Rightarrow>
             if cancelled then Inl CacheCancelled
             else (case index of
                     Inl e \<Rightarrow> Inl e
                   | Inr report \<Rightarrow>
                       (let cold = (\<lambda>artifact_bytes rejected. report\<lparr>ci_reuse := \<lparr>cr_origin = ColdBuild,
                              cr_reused_files = 0, cr_reused_source_bytes = 0,
                              cr_elapsed_micros = elapsed, cr_artifact_bytes = artifact_bytes,
                              cr_rejection = Some rejected\<rparr>\<rparr>)
                        in if cf_directory cfg = None
                           then Inr (cold (cr_artifact_bytes (ci_reuse report)) rejection)
                           else (case write (replaces_existing rejection) report of
                                   Inr bytes \<Rightarrow> Inr (cold (Some bytes) rejection)
                                 | Inl DiskCancelled \<Rightarrow> Inl CacheCancelled
                                 | Inl (DiskRejected reason) \<Rightarrow>
                                     Inr (cold (cr_artifact_bytes (ci_reuse report)) reason)))))"

end
