(* ===== verification/Cache_Properties.thy ===== *)
theory Cache_Properties
  imports Snapshot_Cache
begin

section \<open>Sharing, recency and trust in the snapshot cache\<close>

text \<open>
  What \<open>chakra-workspace/src/snapshot_cache.rs\<close> promises: one builder per key and truthful
  hits under concurrent callers, least-recently-used eviction in memory and on disk, and no
  artifact restored that its manifest does not vouch for.
\<close>

subsection \<open>Eviction in memory\<close>

lemma evict_memory_facts:
  assumes "omap_ok ready"
  shows "omap_ok (evict_memory limit ready) \<and>
    length (evict_memory limit ready) = min limit (length ready) \<and>
    (\<forall>k e. omap_get (evict_memory limit ready) k = Some e \<longrightarrow> omap_get ready k = Some e) \<and>
    (\<forall>k e k' e'. omap_get (evict_memory limit ready) k = Some e \<longrightarrow>
       omap_get (evict_memory limit ready) k' = None \<longrightarrow> omap_get ready k' = Some e' \<longrightarrow>
       me_last_used e' \<le> me_last_used e)"
  using assms
proof (induction limit ready rule: evict_memory.induct)
  case (1 limit ready)
  show ?case
  proof (cases "limit < length ready")
    case False
    then show ?thesis using 1(2) by (simp add: evict_memory.simps [of limit ready])
  next
    case True
    then have "min_by_key (\<lambda>kv. me_last_used (snd kv)) ready \<noteq> None" by auto
    then obtain old oe where oe: "min_by_key (\<lambda>kv. me_last_used (snd kv)) ready = Some (old, oe)"
      by (metis not_None_eq surj_pair)
    then have old: "least_recent ready = Some old" by (simp add: least_recent_def)
    have get: "omap_get ready old = Some oe"
      using min_by_key_in [OF oe] omap_ok_get_iff [OF 1(2)] by simp
    have least: "me_last_used oe \<le> me_last_used e" if "omap_get ready k = Some e" for k e
    proof -
      have "(k, e) \<in> set ready" using that omap_ok_get_iff [OF 1(2)] by simp
      from min_by_key_le [OF oe this] show ?thesis by simp
    qed
    let ?r = "omap_delete old ready"
    have step: "evict_memory limit ready = evict_memory limit ?r"
      using True old by (simp add: evict_memory.simps [of limit ready])
    have len: "length ?r = length ready - 1"
      using get by (simp add: length_omap_delete [OF 1(2)])
    note IH = 1(1) [OF True old omap_ok_delete [OF 1(2)]]
    have kept: "omap_get ready k = Some e \<and> k \<noteq> old" if "omap_get (evict_memory limit ?r) k = Some e" for k e
    proof -
      have "omap_get ?r k = Some e" using IH that by blast
      then show ?thesis by (simp split: if_splits)
    qed
    show ?thesis unfolding step
    proof (intro conjI allI impI)
      show "omap_ok (evict_memory limit ?r)" using IH by blast
      show "length (evict_memory limit ?r) = min limit (length ready)" using IH len True by simp
      show "omap_get ready k = Some e" if "omap_get (evict_memory limit ?r) k = Some e" for k e
        using kept [OF that] by blast
      fix k e k' e'
      assume a: "omap_get (evict_memory limit ?r) k = Some e" "omap_get (evict_memory limit ?r) k' = None"
        "omap_get ready k' = Some e'"
      show "me_last_used e' \<le> me_last_used e"
      proof (cases "k' = old")
        case True
        then have "e' = oe" using a(3) get by simp
        then show ?thesis using least [of k e] kept [OF a(1)] by blast
      next
        case False
        then have "omap_get ?r k' = Some e'" using a(3) by simp
        then show ?thesis using IH a(1,2) by blast
      qed
    qed
  qed
qed

lemma evict_keeps_newest:
  assumes "omap_ok ready" "0 < limit" "\<And>k e. omap_get ready k = Some e \<Longrightarrow> me_last_used e < now"
  shows "omap_get (evict_memory limit (omap_insert fp \<lparr>me_report = r, me_last_used = now\<rparr> ready)) fp =
    Some \<lparr>me_report = r, me_last_used = now\<rparr>"
proof -
  let ?new = "omap_insert fp \<lparr>me_report = r, me_last_used = now\<rparr> ready"
  note f = evict_memory_facts [OF omap_ok_insert [OF assms(1)],
      of limit fp "\<lparr>me_report = r, me_last_used = now\<rparr>"]
  have new: "omap_get ?new fp = Some \<lparr>me_report = r, me_last_used = now\<rparr>" by simp
  show ?thesis
  proof (cases "omap_get (evict_memory limit ?new) fp")
    case None
    have ok: "omap_ok (evict_memory limit ?new)" using f by simp
    have sub: "omap_get ?new k = Some e" if "omap_get (evict_memory limit ?new) k = Some e" for k e
      using f that by blast
    have "0 < length ?new" using new by (cases ?new) simp_all
    then have "0 < length (evict_memory limit ?new)" using f assms(2) by simp
    then obtain k e where ke: "(k, e) \<in> set (evict_memory limit ?new)"
      by (cases "evict_memory limit ?new") auto
    then have k: "omap_get (evict_memory limit ?new) k = Some e" using omap_ok_get_iff [OF ok] by simp
    then have "me_last_used \<lparr>me_report = r, me_last_used = now\<rparr> \<le> me_last_used e"
      using f None new by blast
    then have "now \<le> me_last_used e" by simp
    moreover have "k \<noteq> fp" using k None by auto
    then have "omap_get ready k = Some e" using sub [OF k] by simp
    ultimately show ?thesis using assms(3) [of k e] by simp
  next
    case (Some e)
    then have "omap_get ?new fp = Some e" using f by blast
    then show ?thesis using Some new by simp
  qed
qed

subsection \<open>Concurrent callers\<close>

datatype cache_caller = CacheIdle | CacheBuilding string

record 'x cache_world =
  cw_state :: "'x cache_state"
  cw_callers :: "nat \<Rightarrow> cache_caller"

definition cache_start :: "'x cache_world" where
  "cache_start = \<lparr>cw_state = cache_state_default, cw_callers = (\<lambda>_. CacheIdle)\<rparr>"

text \<open>
  One critical section per step; \<open>build fp r\<close> says that building key \<open>fp\<close> may produce \<open>r\<close>.
  A waiting or cancelled lookup changes nothing.
\<close>

inductive cache_step ::
    "nat \<Rightarrow> (string \<Rightarrow> 'x commit_report \<Rightarrow> bool) \<Rightarrow> 'x cache_world \<Rightarrow> 'x cache_world \<Rightarrow> bool"
  for limit build where
  cache_hit:
    "cw_callers w t = CacheIdle \<Longrightarrow> cache_lookup root fp elapsed cancelled (cw_state w) = (Hit r, s) \<Longrightarrow>
     cache_step limit build w (w\<lparr>cw_state := s\<rparr>)"
| cache_own:
    "cw_callers w t = CacheIdle \<Longrightarrow> cache_lookup root fp elapsed cancelled (cw_state w) = (BecomeBuilder, s) \<Longrightarrow>
     cache_step limit build w (w\<lparr>cw_state := s, cw_callers := (cw_callers w)(t := CacheBuilding fp)\<rparr>)"
| cache_built:
    "cw_callers w t = CacheBuilding fp \<Longrightarrow> build fp r \<Longrightarrow>
     cache_step limit build w
       (w\<lparr>cw_state := cache_finish limit fp (Inr r :: string cache_error + 'x commit_report) (cw_state w),
         cw_callers := (cw_callers w)(t := CacheIdle)\<rparr>)"
| cache_failed:
    "cw_callers w t = CacheBuilding fp \<Longrightarrow>
     cache_step limit build w
       (w\<lparr>cw_state := cache_finish limit fp (Inl err :: string cache_error + 'x commit_report) (cw_state w),
         cw_callers := (cw_callers w)(t := CacheIdle)\<rparr>)"

definition builders_ok :: "string set \<Rightarrow> (nat \<Rightarrow> cache_caller) \<Rightarrow> bool" where
  "builders_ok building callers \<longleftrightarrow>
     (\<forall>fp. fp \<in> building \<longleftrightarrow> (\<exists>t. callers t = CacheBuilding fp)) \<and>
     (\<forall>t u fp. callers t = CacheBuilding fp \<longrightarrow> callers u = CacheBuilding fp \<longrightarrow> t = u)"

definition ready_ok :: "nat \<Rightarrow> (string \<Rightarrow> 'x commit_report \<Rightarrow> bool) \<Rightarrow> 'x cache_state \<Rightarrow> bool" where
  "ready_ok limit build s \<longleftrightarrow> omap_ok (cs_ready s) \<and> length (cs_ready s) \<le> limit \<and>
     (\<forall>fp e. omap_get (cs_ready s) fp = Some e \<longrightarrow> me_last_used e \<le> cs_clock s \<and> build fp (me_report e))"

definition cache_inv :: "nat \<Rightarrow> (string \<Rightarrow> 'x commit_report \<Rightarrow> bool) \<Rightarrow> 'x cache_world \<Rightarrow> bool" where
  "cache_inv limit build w \<longleftrightarrow> cs_clock (cw_state w) \<le> u64_max \<and>
     ready_ok limit build (cw_state w) \<and> builders_ok (cs_building (cw_state w)) (cw_callers w)"

lemma cache_lookup_Hit:
  "cache_lookup root fp elapsed cancelled s = (Hit r, s') \<Longrightarrow>
   \<exists>e. omap_get (cs_ready s) fp = Some e \<and>
     r = (me_report e)\<lparr>ci_root := root, ci_reuse := memory_reuse elapsed (me_report e)\<rparr> \<and>
     s' = s\<lparr>cs_ready := omap_insert fp (e\<lparr>me_last_used := sat_add64 (cs_clock s) 1\<rparr>) (cs_ready s),
            cs_clock := sat_add64 (cs_clock s) 1\<rparr>"
  by (auto simp: cache_lookup_def Let_def clone_for_root_def split: option.splits if_splits)

lemma cache_lookup_Own:
  "cache_lookup root fp elapsed cancelled s = (BecomeBuilder, s') \<Longrightarrow>
   fp \<notin> cs_building s \<and> s' = s\<lparr>cs_building := insert fp (cs_building s)\<rparr>"
  by (auto simp: cache_lookup_def Let_def split: option.splits if_splits)

lemma builders_take:
  assumes "builders_ok B callers" "callers t = CacheIdle" "fp \<notin> B"
  shows "builders_ok (insert fp B) (callers(t := CacheBuilding fp))"
proof -
  have "\<And>u. callers u \<noteq> CacheBuilding fp" using assms(1,3) unfolding builders_ok_def by blast
  then show ?thesis using assms(1,2) unfolding builders_ok_def
    by (auto split: if_splits) (metis cache_caller.distinct(1))+
qed

lemma builders_give:
  assumes "builders_ok B callers" "callers t = CacheBuilding fp"
  shows "builders_ok (B - {fp}) (callers(t := CacheIdle))"
proof -
  have "\<And>u. callers u = CacheBuilding fp \<Longrightarrow> u = t" using assms unfolding builders_ok_def by blast
  then show ?thesis using assms unfolding builders_ok_def
    by (auto split: if_splits) (metis cache_caller.inject)+
qed

lemma touch_entry: "e\<lparr>me_last_used := n\<rparr> = \<lparr>me_report = me_report e, me_last_used = n\<rparr>"
  by (cases e) simp

lemma sat_add64_ge: "a \<le> u64_max \<Longrightarrow> a \<le> sat_add64 a 1" by (simp add: sat_add64_def)

lemma ready_ok_insert:
  assumes "ready_ok limit build s" "cs_clock s \<le> now" "build fp r"
    and "length (omap_insert fp \<lparr>me_report = r, me_last_used = now\<rparr> (cs_ready s)) \<le> limit'"
  shows "ready_ok limit' build
    (s\<lparr>cs_ready := omap_insert fp \<lparr>me_report = r, me_last_used = now\<rparr> (cs_ready s), cs_clock := now\<rparr>)"
  using assms by (fastforce simp: ready_ok_def)

lemma ready_ok_evict:
  assumes "ready_ok n build s"
  shows "ready_ok limit build (s\<lparr>cs_ready := evict_memory limit (cs_ready s)\<rparr>)"
proof -
  have "omap_ok (cs_ready s)" using assms by (simp add: ready_ok_def)
  note f = evict_memory_facts [OF this, of limit]
  have "me_last_used e \<le> cs_clock s \<and> build fp (me_report e)"
    if "omap_get (evict_memory limit (cs_ready s)) fp = Some e" for fp e
    using f that assms unfolding ready_ok_def by blast
  then show ?thesis using f unfolding ready_ok_def by simp
qed

lemma cache_inv_step:
  assumes "cache_inv limit build w" "cache_step limit build w w'"
  shows "cache_inv limit build w'"
  using assms(2)
proof (cases rule: cache_step.cases)
  case (cache_hit t root fp elapsed cancelled r s)
  obtain e where e: "omap_get (cs_ready (cw_state w)) fp = Some e"
      "s = (cw_state w)\<lparr>cs_ready := omap_insert fp (e\<lparr>me_last_used := sat_add64 (cs_clock (cw_state w)) 1\<rparr>)
          (cs_ready (cw_state w)), cs_clock := sat_add64 (cs_clock (cw_state w)) 1\<rparr>"
    using cache_lookup_Hit [OF cache_hit(3)] by blast
  have inv: "ready_ok limit build (cw_state w)" "cs_clock (cw_state w) \<le> u64_max"
    using assms(1) by (simp_all add: cache_inv_def)
  have "build fp (me_report e)" using inv(1) e(1) unfolding ready_ok_def by blast
  moreover have "length (omap_insert fp \<lparr>me_report = me_report e,
      me_last_used = sat_add64 (cs_clock (cw_state w)) 1\<rparr> (cs_ready (cw_state w))) \<le> limit"
    using inv(1) e(1) by (simp add: length_omap_insert ready_ok_def)
  ultimately have "ready_ok limit build s"
    unfolding e(2) touch_entry by (rule ready_ok_insert [OF inv(1) sat_add64_ge [OF inv(2)]])
  then show ?thesis
    unfolding cache_hit(1) using assms(1) by (simp add: cache_inv_def e(2) sat_add64_le)
next
  case (cache_own t root fp elapsed cancelled s)
  note o = cache_lookup_Own [OF cache_own(3)]
  then show ?thesis unfolding cache_own(1) using assms(1) cache_own(2)
    by (simp add: cache_inv_def ready_ok_def builders_take)
next
  case (cache_built t fp r)
  let ?s = "cw_state w" and ?now = "sat_add64 (cs_clock (cw_state w)) 1"
  have inv: "ready_ok limit build ?s" "cs_clock ?s \<le> u64_max" "builders_ok (cs_building ?s) (cw_callers w)"
    using assms(1) by (simp_all add: cache_inv_def)
  have "ready_ok (Suc limit) build
      (?s\<lparr>cs_ready := omap_insert fp \<lparr>me_report = r, me_last_used = ?now\<rparr> (cs_ready ?s), cs_clock := ?now\<rparr>)"
    using inv(1,2) cache_built(3)
    by (intro ready_ok_insert [OF inv(1) sat_add64_ge]) (auto simp: ready_ok_def length_omap_insert)
  from ready_ok_evict [OF this, of limit]
  have "ready_ok limit build (cache_finish limit fp (Inr r) ?s)"
    by (simp add: cache_finish_def Let_def ready_ok_def)
  then show ?thesis unfolding cache_built(1) using builders_give [OF inv(3) cache_built(2)]
    by (simp add: cache_inv_def cache_finish_def Let_def sat_add64_le)
next
  case (cache_failed t fp err)
  have "builders_ok (cs_building (cw_state w) - {fp}) ((cw_callers w)(t := CacheIdle))"
    using assms(1) cache_failed(2) by (simp add: cache_inv_def builders_give)
  then show ?thesis unfolding cache_failed(1) using assms(1)
    by (simp add: cache_inv_def cache_finish_def Let_def ready_ok_def)
qed

lemma cache_inv_start: "cache_inv limit build cache_start"
  by (simp add: cache_inv_def cache_start_def cache_state_default_def ready_ok_def builders_ok_def)

interpretation cache: step_invariant cache_start "cache_step limit build" "cache_inv limit build" for limit build
  by unfold_locales (rule cache_inv_start, rule cache_inv_step)


text \<open>
  C29: One builder per key, truthful hits, bounded memory. However callers interleave: at most
  \<open>max_memory_entries\<close> reports are kept; a key being built has exactly one builder; a hit
  returns a report that was built for that very key, rebased to the caller's root and labelled
  as reuse of that many files; and a report just built stays cached while older ones give way.
\<close>

theorem cache_shares_builders:
  assumes "reachable_from cache_start (cache_step limit build) w" "0 < limit"
  shows "length (cs_ready (cw_state w)) \<le> limit \<and>
    (\<forall>fp\<in>cs_building (cw_state w). \<exists>!t. cw_callers w t = CacheBuilding fp) \<and>
    (\<forall>root fp elapsed c r s. cache_lookup root fp elapsed c (cw_state w) = (Hit r, s) \<longrightarrow>
       (\<exists>r0. build fp r0 \<and> r = r0\<lparr>ci_root := root, ci_reuse := memory_reuse elapsed r0\<rparr>)) \<and>
    (\<forall>fp r. cs_clock (cw_state w) < u64_max \<longrightarrow>
       map_option me_report (omap_get (cs_ready
         (cache_finish limit fp (Inr r :: string cache_error + 'x commit_report) (cw_state w))) fp) = Some r)"
proof (intro conjI ballI allI impI)
  let ?s = "cw_state w"
  have "cache_inv limit build w" by (rule cache.inv_reachable [OF assms(1)])
  then have inv: "ready_ok limit build ?s" "builders_ok (cs_building ?s) (cw_callers w)"
    by (simp_all add: cache_inv_def)
  show "length (cs_ready ?s) \<le> limit" using inv(1) by (simp add: ready_ok_def)
  show "\<exists>!t. cw_callers w t = CacheBuilding fp" if "fp \<in> cs_building ?s" for fp
    using inv(2) that unfolding builders_ok_def by blast
  show "\<exists>r0. build fp r0 \<and> r = r0\<lparr>ci_root := root, ci_reuse := memory_reuse elapsed r0\<rparr>"
    if "cache_lookup root fp elapsed c ?s = (Hit r, s)" for root fp elapsed c r s
    using cache_lookup_Hit [OF that] inv(1) unfolding ready_ok_def by blast
  fix fp and r :: "'x commit_report"
  assume "cs_clock ?s < u64_max"
  then have now: "cs_clock ?s < sat_add64 (cs_clock ?s) 1" by (simp add: sat_add64_def)
  have "me_last_used e < sat_add64 (cs_clock ?s) 1" if "omap_get (cs_ready ?s) k = Some e" for k e
    using inv(1) that now unfolding ready_ok_def by (meson le_less_trans)
  from evict_keeps_newest [OF _ assms(2) this] inv(1)
  show "map_option me_report (omap_get (cs_ready
      (cache_finish limit fp (Inr r :: string cache_error + 'x commit_report) ?s)) fp) = Some r"
    by (simp add: cache_finish_def Let_def ready_ok_def)
qed

definition sample_report :: "unit commit_report" where
  "sample_report = \<lparr>ci_root = ''/a'', ci_source_files = 3, ci_source_bytes = 100,
     ci_reuse = commit_snapshot_reuse_default, ci_index = ()\<rparr>"

theorem cache_shares_builders_witness:
  "map_option me_report (omap_get (cs_ready (cache_finish 1 ''k''
     (Inr sample_report :: string cache_error + unit commit_report) (cw_state cache_start))) ''k'') =
   Some sample_report"
proof -
  have "cs_clock (cw_state (cache_start :: unit cache_world)) < u64_max"
    by (simp add: cache_start_def cache_state_default_def u64_max_def)
  then show ?thesis
    using cache_shares_builders [OF reachable_start zero_less_one, of "\<lambda>_ (_ :: unit commit_report). True",
        THEN conjunct2, THEN conjunct2, THEN conjunct2, rule_format, of "''k''" sample_report]
    by simp
qed

subsection \<open>Eviction from the disk\<close>

lemma saturating_sum_exact:
  "sum_list ns \<le> u64_max \<Longrightarrow> saturating_sum ns = sum_list ns"
proof -
  have "fold (\<lambda>n total. sat_add64 total n) ns a = a + sum_list ns" if "a + sum_list ns \<le> u64_max" for a
    using that
  proof (induction ns arbitrary: a)
    case (Cons n ns)
    then have "sat_add64 a n = a + n" by (simp add: sat_add64_def)
    then show ?case using Cons.IH [of "a + n"] Cons.prems by (simp add: add.assoc)
  qed simp
  then show "sum_list ns \<le> u64_max \<Longrightarrow> saturating_sum ns = sum_list ns"
    unfolding saturating_sum_def by simp
qed

definition kept_entries :: "string list \<Rightarrow> disk_entry list \<Rightarrow> disk_entry list" where
  "kept_entries removed as = filter (\<lambda>a. de_name a \<notin> set removed) as"

definition within_disk_bounds :: "cache_config \<Rightarrow> nat \<Rightarrow> nat \<Rightarrow> bool" where
  "within_disk_bounds cfg num bytes \<longleftrightarrow> num \<le> cf_max_disk_artifacts cfg \<and> bytes \<le> cf_max_disk_bytes cfg"

lemma evict_disk_loop_facts:
  assumes "distinct (map de_name as)" "sorted (map de_modified as)"
    and "evict_disk_loop cfg retained removable as num bytes = (removed, num', bytes')"
    and "length as \<le> num" "sum_list (map de_bytes as) \<le> bytes"
  shows "set removed \<subseteq> de_name ` set as \<and> (\<forall>n\<in>set removed. removable n \<and> retained \<noteq> Some n) \<and>
    num' + length as = num + length (kept_entries removed as) \<and>
    bytes' + sum_list (map de_bytes as) = bytes + sum_list (map de_bytes (kept_entries removed as)) \<and>
    (\<forall>a\<in>set as. \<forall>b\<in>set as. de_name a \<notin> set removed \<longrightarrow> de_name b \<in> set removed \<longrightarrow>
       retained = Some (de_name a) \<or> \<not> removable (de_name a) \<or> de_modified b \<le> de_modified a) \<and>
    (\<forall>k<length removed. \<not> within_disk_bounds cfg
       (num + length (kept_entries (take k removed) as) - length as)
       (bytes + sum_list (map de_bytes (kept_entries (take k removed) as)) - sum_list (map de_bytes as)))"
  using assms
proof (induction as arbitrary: num bytes removed)
  case (Cons a as)
  have d: "distinct (map de_name as)" "de_name a \<notin> de_name ` set as" using Cons.prems(1) by auto
  have s: "sorted (map de_modified as)" "\<forall>b\<in>set as. de_modified a \<le> de_modified b"
    using Cons.prems(2) by auto
  have fresh: "de_name a \<notin> set r" if "set r \<subseteq> de_name ` set as" for r using that d(2) by blast
  consider (stop) "within_disk_bounds cfg num bytes" "removed = []" "num' = num" "bytes' = bytes"
    | (keep) "\<not> within_disk_bounds cfg num bytes" "retained = Some (de_name a) \<or> \<not> removable (de_name a)"
        "evict_disk_loop cfg retained removable as num bytes = (removed, num', bytes')"
    | (drop) r where "\<not> within_disk_bounds cfg num bytes" "retained \<noteq> Some (de_name a)"
        "removable (de_name a)" "removed = de_name a # r"
        "evict_disk_loop cfg retained removable as (num - 1) (bytes - de_bytes a) = (r, num', bytes')"
    using Cons.prems(3) by (auto simp: within_disk_bounds_def split: if_splits prod.splits)
  then show ?case
  proof cases
    case stop
    then show ?thesis by (simp add: kept_entries_def)
  next
    case keep
    note IH = Cons.IH [OF d(1) s(1) keep(3)]
    then have f: "set removed \<subseteq> de_name ` set as" using Cons.prems(4,5) by simp
    show ?thesis
    proof (intro conjI)
      show "set removed \<subseteq> de_name ` set (a # as)" using f by auto
      show "\<forall>n\<in>set removed. removable n \<and> retained \<noteq> Some n" using IH Cons.prems(4,5) by simp
      show "num' + length (a # as) = num + length (kept_entries removed (a # as))"
        using IH Cons.prems(4,5) fresh [OF f] by (simp add: kept_entries_def)
      show "bytes' + sum_list (map de_bytes (a # as)) = bytes + sum_list (map de_bytes (kept_entries removed (a # as)))"
        using IH Cons.prems(4,5) fresh [OF f] by (simp add: kept_entries_def)
      show "\<forall>x\<in>set (a # as). \<forall>b\<in>set (a # as). de_name x \<notin> set removed \<longrightarrow> de_name b \<in> set removed \<longrightarrow>
          retained = Some (de_name x) \<or> \<not> removable (de_name x) \<or> de_modified b \<le> de_modified x"
        using IH Cons.prems(4,5) fresh [OF f] keep(2) by auto
      have "kept_entries (take k removed) (a # as) = a # kept_entries (take k removed) as" for k
        using fresh [OF f] by (auto simp: kept_entries_def dest: in_set_takeD)
      then show "\<forall>k<length removed. \<not> within_disk_bounds cfg
          (num + length (kept_entries (take k removed) (a # as)) - length (a # as))
          (bytes + sum_list (map de_bytes (kept_entries (take k removed) (a # as))) -
            sum_list (map de_bytes (a # as)))"
        using IH Cons.prems(4,5) by simp
    qed
  next
    case (drop r)
    have pre: "length as \<le> num - 1" "sum_list (map de_bytes as) \<le> bytes - de_bytes a" "0 < num" "de_bytes a \<le> bytes"
      using Cons.prems(4,5) by auto
    note IH = Cons.IH [OF d(1) s(1) drop(5) pre(1,2)]
    then have f: "set r \<subseteq> de_name ` set as" by simp
    have other: "de_name x \<noteq> de_name a" if "x \<in> set as" for x using that d(2) by (metis image_eqI)
    have kept: "kept_entries removed (a # as) = kept_entries r as"
      unfolding kept_entries_def drop(4) by (simp add: other cong: filter_cong)
    show ?thesis
    proof (intro conjI)
      show "set removed \<subseteq> de_name ` set (a # as)" using f drop(4) by auto
      show "\<forall>n\<in>set removed. removable n \<and> retained \<noteq> Some n" using IH drop(2-4) by auto
      show "num' + length (a # as) = num + length (kept_entries removed (a # as))"
        using IH pre(3) unfolding kept by simp
      show "bytes' + sum_list (map de_bytes (a # as)) = bytes + sum_list (map de_bytes (kept_entries removed (a # as)))"
      proof -
        have "bytes' + sum_list (map de_bytes as) =
            bytes - de_bytes a + sum_list (map de_bytes (kept_entries r as))" using IH by blast
        then show ?thesis using pre(4) unfolding kept by simp
      qed
      show "\<forall>x\<in>set (a # as). \<forall>b\<in>set (a # as). de_name x \<notin> set removed \<longrightarrow> de_name b \<in> set removed \<longrightarrow>
          retained = Some (de_name x) \<or> \<not> removable (de_name x) \<or> de_modified b \<le> de_modified x"
        using IH s(2) other unfolding drop(4) by auto
      show "\<forall>k<length removed. \<not> within_disk_bounds cfg
          (num + length (kept_entries (take k removed) (a # as)) - length (a # as))
          (bytes + sum_list (map de_bytes (kept_entries (take k removed) (a # as))) -
            sum_list (map de_bytes (a # as)))"
      proof (intro allI impI)
        fix k assume k: "k < length removed"
        show "\<not> within_disk_bounds cfg
            (num + length (kept_entries (take k removed) (a # as)) - length (a # as))
            (bytes + sum_list (map de_bytes (kept_entries (take k removed) (a # as))) -
              sum_list (map de_bytes (a # as)))"
        proof (cases k)
          case 0
          then show ?thesis using drop(1) by (simp add: kept_entries_def)
        next
          case (Suc j)
          have "kept_entries (take k removed) (a # as) = kept_entries (take j r) as"
            unfolding kept_entries_def drop(4) Suc by (simp add: other cong: filter_cong)
          moreover have "\<not> within_disk_bounds cfg
              (num - 1 + length (kept_entries (take j r) as) - length as)
              (bytes - de_bytes a + sum_list (map de_bytes (kept_entries (take j r) as)) -
                sum_list (map de_bytes as))"
            using IH k drop(4) Suc by simp
          ultimately show ?thesis using pre by simp
        qed
      qed
    qed
  qed
qed (simp add: kept_entries_def)


text \<open>The artifacts of a listing that succeeded: the directories without a leading dot.\<close>

definition listed_artifact :: "dir_entry \<Rightarrow> disk_entry option" where
  "listed_artifact e =
     (case e of
        DirEntry name True bytes modified \<Rightarrow>
          if starts_with ''.'' name then None
          else Some \<lparr>de_name = name, de_bytes = bytes,
                     de_modified = (case modified of None \<Rightarrow> 0 | Some t \<Rightarrow> t)\<rparr>
      | _ \<Rightarrow> None)"

lemma list_artifacts_cases:
  "list_artifacts cancelled k es =
     (case find (\<lambda>(i, e). cancelled (k + i) \<or> e = EntryFails) (enumerate 0 es) of
        None \<Rightarrow> Inr (List.map_filter listed_artifact es)
      | Some (i, e) \<Rightarrow> Inl (if cancelled (k + i) then DiskCancelled else DiskRejected RejectIoFailure))"
proof (induction es arbitrary: k)
  case (Cons e es)
  have shift: "find (\<lambda>(i, e). cancelled (k + i) \<or> e = EntryFails) (enumerate (Suc 0) es) =
      map_option (\<lambda>(i, e). (Suc i, e))
        (find (\<lambda>(i, e). cancelled (k + 1 + i) \<or> e = EntryFails) (enumerate 0 es))"
  proof -
    have "find (\<lambda>(i, e). cancelled (k + i) \<or> e = EntryFails) (enumerate (Suc n) es) =
        map_option (\<lambda>(i, e). (Suc i, e))
          (find (\<lambda>(i, e). cancelled (k + 1 + i) \<or> e = EntryFails) (enumerate n es))" for n
      by (induction es arbitrary: n) simp_all
    then show ?thesis .
  qed
  show ?case
    using Cons.IH [of "k + 1"] unfolding enumerate_simps find.simps
    by (auto simp: shift listed_artifact_def map_filter_simps split: dir_entry.splits option.splits bool.splits)
qed (simp add: map_filter_simps)

text \<open>
  C30: Disk eviction is least recently used, minimal and honest about its bounds. When the
  entries are listed it removes only listed artifacts it may remove and never the artifact just
  written; before every single removal what is still there exceeds a bound, so nothing is
  removed once the rest fits; every other artifact it keeps was used at least as recently as
  every one it removed; and it succeeds exactly when what is left is within both bounds. The
  artifacts are the directories without a leading dot. When the listing is cancelled or fails,
  nothing is removed.
\<close>

theorem disk_eviction_exact:
  assumes "arts = List.map_filter listed_artifact es" "distinct (map de_name arts)"
    "sum_list (map de_bytes arts) \<le> u64_max"
    and "evict_disk cfg retained removable cancelled (Listing es) = (removed, result)"
  shows "if \<exists>i<length es. cancelled i \<or> es ! i = EntryFails
    then removed = [] \<and> result \<in> {Inl DiskCancelled, Inl (DiskRejected RejectIoFailure)}
    else set removed \<subseteq> de_name ` set arts \<and> (\<forall>n\<in>set removed. removable n \<and> retained \<noteq> Some n) \<and>
      (\<forall>k<length removed. \<not> within_disk_bounds cfg (length (kept_entries (take k removed) arts))
         (sum_list (map de_bytes (kept_entries (take k removed) arts)))) \<and>
      (\<forall>a\<in>set arts. \<forall>b\<in>set arts. de_name a \<notin> set removed \<longrightarrow> de_name b \<in> set removed \<longrightarrow>
         retained = Some (de_name a) \<or> \<not> removable (de_name a) \<or> de_modified b \<le> de_modified a) \<and>
      (result = Inr () \<longleftrightarrow> within_disk_bounds cfg (length (kept_entries removed arts))
         (sum_list (map de_bytes (kept_entries removed arts))))"
proof (cases "\<exists>i<length es. cancelled i \<or> es ! i = EntryFails")
  case True
  then obtain i where i: "i < length es" "cancelled i \<or> es ! i = EntryFails" by blast
  then have "(i, es ! i) \<in> set (enumerate 0 es)" by (simp add: in_set_enumerate_eq)
  then obtain x where "find (\<lambda>(i, e). cancelled (0 + i) \<or> e = EntryFails) (enumerate 0 es) = Some x"
    using i(2) by (cases "find (\<lambda>(i, e). cancelled (0 + i) \<or> e = EntryFails) (enumerate 0 es)")
      (auto simp: find_None_iff)
  with assms(4) have "removed = [] \<and> result \<in> {Inl DiskCancelled, Inl (DiskRejected RejectIoFailure)}"
    by (auto simp: evict_disk_def list_artifacts_cases split: if_splits prod.splits)
  with True show ?thesis by simp
next
  case False
  then have "find (\<lambda>(i, e). cancelled (0 + i) \<or> e = EntryFails) (enumerate 0 es) = None"
    by (auto simp: find_None_iff in_set_enumerate_eq)
  then have listed: "list_artifacts cancelled 0 es = Inr arts"
    unfolding list_artifacts_cases assms(1) by simp
  let ?s = "sort_key de_modified arts"
  have sums: "sum_list (map f ?s) = sum_list (map f arts)" for f :: "disk_entry \<Rightarrow> nat"
    by (metis mset_map mset_sort sum_mset_sum_list)
  have kept: "length (kept_entries r ?s) = length (kept_entries r arts)"
      "sum_list (map de_bytes (kept_entries r ?s)) = sum_list (map de_bytes (kept_entries r arts))" for r
  proof -
    have "mset (kept_entries r ?s) = mset (kept_entries r arts)" by (simp add: kept_entries_def)
    then show "length (kept_entries r ?s) = length (kept_entries r arts)"
        "sum_list (map de_bytes (kept_entries r ?s)) = sum_list (map de_bytes (kept_entries r arts))"
      by (metis size_mset, metis mset_map sum_mset_sum_list)
  qed
  obtain num bytes where loop: "evict_disk_loop cfg retained removable ?s (length ?s)
        (sum_list (map de_bytes ?s)) = (removed, num, bytes)"
      "result = (if within_disk_bounds cfg num bytes then Inr () else Inl (DiskRejected RejectIoFailure))"
    using assms(4) listed sums [of de_bytes] saturating_sum_exact [of "map de_bytes ?s"] assms(3)
    by (auto simp: evict_disk_def evict_artifacts_def Let_def within_disk_bounds_def not_le
        split: prod.splits if_splits)
  have "distinct (map de_name ?s)"
    using assms(2) by (metis mset_map mset_sort mset_eq_imp_distinct_iff)
  from evict_disk_loop_facts [OF this sorted_sort_key loop(1) order_refl order_refl] show ?thesis
    unfolding if_not_P [OF False] using loop(2) kept sums by simp
qed

definition sample_entries :: "dir_entry list" where
  "sample_entries = [DirEntry ''new'' True 4 (Some 9), DirEntry ''.tmp'' True 4 (Some 2),
     DirEntry ''old'' True 4 (Some 1), DirEntry ''README'' False 4 None]"

theorem disk_eviction_exact_witness:
  "evict_disk (cache_config_default\<lparr>cf_max_disk_artifacts := 1\<rparr>) (Some ''new'') (\<lambda>_. True)
     (\<lambda>_. False) (Listing sample_entries) = ([''old''], Inr ())"
proof -
  let ?cfg = "cache_config_default\<lparr>cf_max_disk_artifacts := 1\<rparr>"
  let ?arts = "List.map_filter listed_artifact sample_entries"
  have arts: "?arts = [\<lparr>de_name = ''new'', de_bytes = 4, de_modified = 9\<rparr>,
      \<lparr>de_name = ''old'', de_bytes = 4, de_modified = 1\<rparr>]"
    by (simp add: sample_entries_def listed_artifact_def map_filter_simps starts_with_def)
  have run: "fst (evict_disk ?cfg (Some ''new'') (\<lambda>_. True) (\<lambda>_. False) (Listing sample_entries)) = [''old'']"
    by (simp add: evict_disk_def evict_artifacts_def sample_entries_def cache_config_default_def
        saturating_sum_def sat_add64_def u64_max_def starts_with_def)
  have small: "distinct (map de_name ?arts)" "sum_list (map de_bytes ?arts) \<le> u64_max"
    by (simp_all add: arts u64_max_def)
  have ok: "\<not> (\<exists>i<length sample_entries. False \<or> sample_entries ! i = EntryFails)"
    by (auto simp: sample_entries_def nth_Cons split: nat.splits)
  have "within_disk_bounds ?cfg (length (kept_entries [''old''] ?arts))
      (sum_list (map de_bytes (kept_entries [''old''] ?arts)))"
    unfolding arts by (simp add: within_disk_bounds_def kept_entries_def cache_config_default_def)
  then have "snd (evict_disk ?cfg (Some ''new'') (\<lambda>_. True) (\<lambda>_. False) (Listing sample_entries)) = Inr ()"
    using disk_eviction_exact [OF refl small prod.collapse [symmetric], where cancelled = "\<lambda>_. False"] ok run
    by simp
  with run show ?thesis by (metis prod.collapse)
qed

subsection \<open>Restoring from the disk\<close>

lemma read_chunk_Inr:
  "read_chunk outcome room rest = Inr chunk \<Longrightarrow> chunk = take (length chunk) rest \<and>
     length chunk \<le> room \<and> (chunk = [] \<longrightarrow> room = 0 \<or> rest = [])"
proof (cases "room = 0")
  case False
  assume "read_chunk outcome room rest = Inr chunk"
  with False have "\<exists>q. chunk = take q rest \<and> 0 < q \<and> q \<le> room"
    by (auto simp: read_chunk_def io_chunk_bytes_def split: option.splits)
  then obtain q where q: "chunk = take q rest" "0 < q" "q \<le> room" by blast
  have "take (length (take q rest)) rest = take q rest" by (simp add: min_def)
  with q show ?thesis by auto
qed (simp add: read_chunk_def)

lemma read_chunks_Inr:
  "read_chunks cancelled reads limit k room acc rest = Inr out \<Longrightarrow> length acc + room = limit + 1 \<Longrightarrow>
   length acc \<le> limit \<Longrightarrow> out = acc @ rest \<and> length out \<le> limit"
proof (induction cancelled reads limit k room acc rest rule: read_chunks.induct)
  case (1 cancelled reads limit k room acc rest)
  have "\<not> cancelled k" using 1(2) by (simp add: read_chunks.simps [of cancelled reads limit k] split: if_splits)
  then obtain chunk where c: "read_chunk (reads k) room rest = Inr chunk"
      "(if chunk = [] then Inr acc
        else if limit < length (acc @ chunk) then Inl (DiskRejected RejectOversized)
        else read_chunks cancelled reads limit (k + 1) (room - length chunk) (acc @ chunk)
               (drop (length chunk) rest)) = Inr out"
    using 1(2) by (auto simp: read_chunks.simps [of cancelled reads limit k] split: sum.splits)
  note f = read_chunk_Inr [OF c(1)]
  show ?case
  proof (cases "chunk = []")
    case True
    with f 1(3,4) c(2) show ?thesis by auto
  next
    case False
    with c(2) have step: "\<not> limit < length (acc @ chunk)"
        "read_chunks cancelled reads limit (k + 1) (room - length chunk) (acc @ chunk)
          (drop (length chunk) rest) = Inr out" by (simp_all split: if_splits)
    from 1(1) [OF \<open>\<not> cancelled k\<close> c(1) False step] 1(3) step(1) f show ?thesis
      by (metis (no_types, lifting) add.assoc append.assoc append_take_drop_id le_add_diff_inverse
          length_append not_le)
  qed
qed

text \<open>
  A bounded read that succeeds returns the whole file, within the limit, however many bytes
  each read gave.
\<close>

lemma read_bounded_Inr:
  assumes "read_bounded cancelled limit f = Inr out" "limit < u64_max"
  shows "\<exists>len reads. f = FileContents len out reads \<and> length out \<le> limit"
proof -
  obtain len bytes reads where f: "f = FileContents len bytes reads"
      "read_chunks cancelled reads limit 0 (sat_add64 limit 1) [] bytes = Inr out"
    using assms(1) by (auto simp: read_bounded_def split: disk_file.splits if_splits)
  have "sat_add64 limit 1 = limit + 1" using assms(2) by (simp add: sat_add64_def)
  with read_chunks_Inr [OF f(2)] have "out = bytes" "length out \<le> limit" by auto
  with f(1) show ?thesis by simp
qed

text \<open>
  C31: Nothing is restored on trust. A report read from disk comes from a real artifact whose
  manifest carries exactly the expected repository, commit and compatibility, whose payload
  file is complete (no read of it failed, whatever sizes the reads had), of the recorded size
  and within the artifact bound, and decodes without error. In every other case the commit is
  indexed anew: the result is the error of the indexer, the report of the indexer marked as a
  cold build and labelled with a reason, or a cancellation.
\<close>

theorem restored_artifact_trusted:
  assumes "read_disk parse decode cfg c1 c2 expected artifact = (restored, rejection)"
    and "cf_max_artifact_bytes cfg + 1 < u64_max" "cf_directory cfg \<noteq> None"
  shows "(\<forall>report bytes. restored = Some (report, bytes) \<longrightarrow>
      (\<exists>a len raw reads m plen payload preads. artifact = Some a \<and> da_manifest a = FileContents len raw reads \<and>
         length raw \<le> manifest_read_limit \<and> parse raw = Some m \<and> mf_key m = expected \<and>
         da_payload a = FileContents plen payload preads \<and> length payload = mf_payload_bytes m \<and>
         mf_payload_bytes m \<le> cf_max_artifact_bytes cfg \<and> decode payload = Inr report)) \<and>
    (restored = None \<longrightarrow>
       (case load_or_build_owner cfg (restored, rejection) cancelled index save elapsed of
          Inl e \<Rightarrow> index = Inl e \<or> e = CacheCancelled
        | Inr r \<Rightarrow> \<exists>fresh. index = Inr fresh \<and> r = fresh\<lparr>ci_reuse := ci_reuse r\<rparr> \<and>
            cr_origin (ci_reuse r) = ColdBuild \<and>
            cr_rejection (ci_reuse r) = Some (case save (replaces_existing rejection) fresh of
              Inl (DiskRejected reason) \<Rightarrow> reason | _ \<Rightarrow> rejection)))"
proof (intro conjI allI impI)
  fix report bytes assume "restored = Some (report, bytes)"
  then obtain a raw m payload where r: "artifact = Some a"
      "read_bounded c1 manifest_read_limit (da_manifest a) = Inr raw" "parse raw = Some m"
      "mf_key m = expected" "mf_payload_bytes m \<le> cf_max_artifact_bytes cfg"
      "read_bounded c2 (sat_add64 (cf_max_artifact_bytes cfg) 1) (da_payload a) = Inr payload"
      "length payload = mf_payload_bytes m" "decode payload = Inr report"
    using assms(1) unfolding read_disk_def
    by (auto split: option.splits sum.splits if_splits)
  have "manifest_read_limit < u64_max" "sat_add64 (cf_max_artifact_bytes cfg) 1 < u64_max"
    using assms(2) by (simp_all add: manifest_read_limit_def u64_max_def sat_add64_def)
  from read_bounded_Inr [OF r(2) this(1)] read_bounded_Inr [OF r(6) this(2)] r
  show "\<exists>a len raw reads m plen payload preads. artifact = Some a \<and> da_manifest a = FileContents len raw reads \<and>
      length raw \<le> manifest_read_limit \<and> parse raw = Some m \<and> mf_key m = expected \<and>
      da_payload a = FileContents plen payload preads \<and> length payload = mf_payload_bytes m \<and>
      mf_payload_bytes m \<le> cf_max_artifact_bytes cfg \<and> decode payload = Inr report"
    by blast
next
  assume "restored = None"
  then show "case load_or_build_owner cfg (restored, rejection) cancelled index save elapsed of
          Inl e \<Rightarrow> index = Inl e \<or> e = CacheCancelled
        | Inr r \<Rightarrow> \<exists>fresh. index = Inr fresh \<and> r = fresh\<lparr>ci_reuse := ci_reuse r\<rparr> \<and>
            cr_origin (ci_reuse r) = ColdBuild \<and>
            cr_rejection (ci_reuse r) = Some (case save (replaces_existing rejection) fresh of
              Inl (DiskRejected reason) \<Rightarrow> reason | _ \<Rightarrow> rejection)"
    using assms(3) by (cases index)
      (auto simp: load_or_build_owner_def Let_def split: sum.splits disk_failure.splits)
qed

definition sample_key :: compatibility_key where
  "sample_key = \<lparr>ck_repository = ''r'', ck_commit = Some ''c'', ck_compatibility =
     \<lparr>sc_format_version = 1, sc_graph_model_version = 1, sc_language_version = ''1'',
      sc_budgets = index_budgets_default, sc_adapters = []\<rparr>\<rparr>"

text \<open>The second read of the payload gives one byte only, the third fails or not.\<close>

definition sample_artifact :: "nat option \<Rightarrow> disk_artifact" where
  "sample_artifact third = \<lparr>da_manifest = FileContents 1 [7] (\<lambda>_. Some 64),
     da_payload = FileContents 2 [1, 2] (\<lambda>k. if k = 2 then third else Some 1), da_bytes = 3\<rparr>"

definition sample_read :: "nat option \<Rightarrow> (unit commit_report \<times> nat) option \<times> commit_snapshot_rejection" where
  "sample_read third = read_disk (\<lambda>_. Some \<lparr>mf_key = sample_key, mf_payload_bytes = 2\<rparr>)
     (\<lambda>bytes. if bytes = [1, 2] then Inr sample_report else Inl PayloadFormat)
     (cache_config_with_directory ''d'') (\<lambda>_. False) (\<lambda>_. False) sample_key (Some (sample_artifact third))"

lemma sample_read_eval:
  "sample_read (Some 1) = (Some (sample_report, 3), RejectNotFound)"
  "sample_read None = (None, RejectIoFailure)"
  by (simp_all add: sample_read_def sample_artifact_def read_disk_def read_bounded_def
      read_chunks.simps [of _ _ _ 0] read_chunks.simps [of _ _ _ "Suc 0"] read_chunks.simps [of _ _ _ 2]
      read_chunk_def io_chunk_bytes_def manifest_read_limit_def sat_add64_def u64_max_def
      cache_config_with_directory_def cache_config_default_def numeral_2_eq_2 [symmetric])

theorem restored_artifact_trusted_witness:
  "sample_read (Some 1) = (Some (sample_report, 3), RejectNotFound) \<and>
   (\<exists>a plen payload preads. Some (sample_artifact (Some 1)) = Some a \<and>
      da_payload a = FileContents plen payload preads \<and> length payload = 2 \<and> payload = [1, 2]) \<and>
   sample_read None = (None, RejectIoFailure) \<and>
   load_or_build_owner (cache_config_with_directory ''d'') (sample_read None) False
     (Inl (CacheIndexError ())) (\<lambda>_ _. Inr 0) 0 = Inl (CacheIndexError ())"
proof -
  let ?cfg = "cache_config_with_directory ''d''"
  have small: "cf_max_artifact_bytes ?cfg + 1 < u64_max" "cf_directory ?cfg \<noteq> None"
    by (simp_all add: cache_config_with_directory_def cache_config_default_def u64_max_def)
  note trusted = restored_artifact_trusted [OF _ small, where cancelled = False and
      index = "Inl (CacheIndexError ())" and elapsed = 0 and save = "\<lambda>_ _. Inr 0"]
  from trusted [OF sample_read_eval(1) [unfolded sample_read_def], THEN conjunct1, rule_format, OF refl]
  obtain a plen payload preads and m :: cache_manifest where "Some (sample_artifact (Some 1)) = Some a"
      "da_payload a = FileContents plen payload preads" "length payload = mf_payload_bytes m"
      "(if payload = [1, 2] then Inr sample_report else Inl PayloadFormat) = (Inr sample_report :: payload_error + unit commit_report)"
    by (elim exE conjE) (rule that, assumption+)
  then have "\<exists>a plen payload preads. Some (sample_artifact (Some 1)) = Some a \<and>
      da_payload a = FileContents plen payload preads \<and> length payload = 2 \<and> payload = [1, 2]"
    by (intro exI [of _ a] exI [of _ plen] exI [of _ payload] exI [of _ preads]) (auto split: if_splits)
  moreover have "load_or_build_owner ?cfg (None, RejectIoFailure) False
      (Inl (CacheIndexError ())) (\<lambda>_ _. Inr 0) 0 = (Inl (CacheIndexError ()) :: unit cache_error + unit commit_report)"
    using trusted [OF sample_read_eval(2) [unfolded sample_read_def], THEN conjunct2, rule_format, OF refl]
    by (simp add: load_or_build_owner_def cache_config_with_directory_def)
  ultimately show ?thesis using sample_read_eval by simp
qed

end
