(* ===== verification/Diff_Layers.thy ===== *)
theory Diff_Layers
  imports Workspace_Engine
begin

section \<open>Commit snapshot and worktree overlay\<close>

text \<open>
  \<open>chakra-engine/src/diff.rs\<close>: the documents a diff adapter sees, the layer metadata
  published beside the effective graph, and the exact ownership of each current file by the
  commit snapshot or the worktree overlay. The adapter that produces a diff (Git) is outside.
\<close>

subsection \<open>Diff requests and inventories\<close>

datatype diff_scope = ScopeWorktree | ScopeBaseRef string | ScopeMergeBase string

record resolved_diff_scope =
  rs_requested :: diff_scope
  rs_base_commit :: "string option"

record diff_workspace =
  dw_root :: string
  dw_revision :: revision
  dw_scope :: diff_scope
  dw_documents :: "(repo_path \<times> string) list"

record workspace_file_change =
  fc_path :: repo_path
  fc_previous_path :: "repo_path option"
  fc_change :: change_kind
  fc_provenance :: provenance
  fc_precision :: precision

record diff_inventory_truncation =
  dt_limit :: nat
  dt_omitted :: "nat option"

record workspace_diff =
  wd_revision :: revision
  wd_scope :: resolved_diff_scope
  wd_files :: "workspace_file_change list"
  wd_truncation :: "diff_inventory_truncation option"

definition diff_workspace_from_graph ::
    "(nat \<Rightarrow> op_world) \<Rightarrow> op_context \<Rightarrow> string \<Rightarrow> revision \<Rightarrow> diff_scope \<Rightarrow> workspace_graph \<Rightarrow>
     diff_workspace polled" where
  "diff_workspace_from_graph worlds c root r scope g =
     op_bind (snapshot_documents_with_context worlds c g) (\<lambda>docs n.
       (Inr \<lparr>dw_root = root, dw_revision = r, dw_scope = scope, dw_documents = docs\<rparr>, n))"

definition diff_workspace_from_snapshot ::
    "(nat \<Rightarrow> op_world) \<Rightarrow> op_context \<Rightarrow> workspace_snapshot \<Rightarrow> diff_scope \<Rightarrow> diff_workspace polled" where
  "diff_workspace_from_snapshot worlds c s scope =
     op_bind (snapshot_documents_with_context worlds c (snd (ws_graph s))) (\<lambda>docs n.
       (Inr \<lparr>dw_root = wi_root (ws_identity s), dw_revision = ws_revision s, dw_scope = scope,
             dw_documents = docs\<rparr>, n))"

subsection \<open>Published layers\<close>

definition max_published_overlay_files :: nat where "max_published_overlay_files = 500"

definition overlay_file :: "workspace_file_change \<Rightarrow> overlay_file_change" where
  "overlay_file c = \<lparr>of_path = fc_path c, of_previous_path = fc_previous_path c, of_change = fc_change c\<rparr>"

definition workspace_graph_layers_of :: "nat \<Rightarrow> nat \<Rightarrow> workspace_diff \<Rightarrow> workspace_graph_layers" where
  "workspace_graph_layers_of n_files n_bytes d =
     (let published_files = min (length (wd_files d)) max_published_overlay_files;
          locally_omitted = length (wd_files d) - published_files;
          files_omitted =
            (case wd_truncation d of
               Some t \<Rightarrow> map_option (\<lambda>n. min u64_max (locally_omitted + n)) (dt_omitted t)
             | None \<Rightarrow> if locally_omitted > 0 then Some locally_omitted else None)
      in \<lparr>gl_commit_snapshot =
            \<lparr>cs_commit = rs_base_commit (wd_scope d), cs_source_files = n_files,
             cs_source_bytes = n_bytes, cs_reuse = commit_snapshot_reuse_default\<rparr>,
          gl_worktree_overlay =
            \<lparr>wo_files = map overlay_file (take published_files (wd_files d)),
             wo_files_truncated = (locally_omitted > 0 \<or> wd_truncation d \<noteq> None),
             wo_files_omitted = files_omitted\<rparr>\<rparr>)"

fun source_files_iter :: "workspace_graph \<Rightarrow> (repo_path \<times> string) list" where
  "source_files_iter (Owned _ g) =
     List.map_filter (\<lambda>(p, f). map_option (Pair p) (file_source f)) (files g)"
| "source_files_iter (Composite _ ps) = concat (map source_files_iter ps)"

definition source_layers_for_graph ::
    "workspace_graph \<Rightarrow> workspace_graph \<Rightarrow> (repo_path, source_layer) omap" where
  "source_layers_for_graph commit_graph effective_graph =
     omap_of_list (map (\<lambda>(path, source).
       (path, if ws_file_source commit_graph path = Some source then CommitSnapshot else WorktreeOverlay))
       (source_files_iter effective_graph))"

subsection \<open>Ownership is exact\<close>

lemma file_source_listed: "ws_file_source w p = Some s \<Longrightarrow> (p, s) \<in> set (source_files_iter w)"
proof (induction w)
  case (Owned ls g)
  then obtain f where "(p, f) \<in> set (files g)" "file_source f = Some s"
    by (auto dest: map_of_SomeD split: option.splits)
  then show ?case by (force simp: List.map_filter_def)
next
  case (Composite ls ps)
  then have "Some s \<in> set (map (\<lambda>q. ws_file_source q p) ps)" by (intro first_some_in) simp
  then obtain q where "q \<in> set ps" "ws_file_source q p = Some s" by auto
  then show ?case using Composite.IH by auto
qed

lemma omap_get_fold_other:
  "k \<notin> fst ` set kvs \<Longrightarrow> omap_get (fold (\<lambda>(k, v) m. omap_insert k v m) kvs m) k = omap_get m k"
  by (induction kvs arbitrary: m) (auto split: prod.splits)

lemma omap_get_fold:
  "distinct (map fst kvs) \<Longrightarrow> (k, v) \<in> set kvs \<Longrightarrow>
   omap_get (fold (\<lambda>(k, v) m. omap_insert k v m) kvs m) k = Some v"
  by (induction kvs arbitrary: m) (auto simp: omap_get_fold_other)

lemma file_source_layer_own:
  "omap_get ls p = Some l \<Longrightarrow> file_source_layer (with_source_layers ls w) p = l"
  by (cases w) (simp_all add: omap_get_or_def)

text \<open>
  C26: Layer ownership is exact. Once the layers computed from a commit graph are installed
  on an effective graph (whose parts hold different files), each of its files is attributed
  to the commit snapshot exactly when the commit holds the same text for its path, however
  many changed files the bounded overlay inventory left out; and that inventory is the first
  500 changes, flagged as truncated exactly when changes were left out of it.
\<close>

theorem source_layers_exact:
  assumes "distinct (map fst (source_files_iter eff))" "ws_file_source eff p = Some s"
  shows "file_source_layer (with_source_layers (source_layers_for_graph commit eff) eff) p =
      (if ws_file_source commit p = Some s then CommitSnapshot else WorktreeOverlay) \<and>
    (let overlay = gl_worktree_overlay (workspace_graph_layers_of n b d)
     in wo_files overlay = take 500 (map overlay_file (wd_files d)) \<and>
        (wo_files_truncated overlay \<longleftrightarrow> length (wd_files d) > 500 \<or> wd_truncation d \<noteq> None))"
proof (intro conjI)
  let ?layer = "\<lambda>(path, source).
    (path, if ws_file_source commit path = Some source then CommitSnapshot else WorktreeOverlay)"
  have "distinct (map fst (map ?layer (source_files_iter eff)))"
    using assms(1) by (simp add: comp_def case_prod_beta)
  moreover have "?layer (p, s) \<in> set (map ?layer (source_files_iter eff))"
    unfolding set_map by (rule imageI [OF file_source_listed [OF assms(2)]])
  ultimately have "omap_get (source_layers_for_graph commit eff) p =
      Some (if ws_file_source commit p = Some s then CommitSnapshot else WorktreeOverlay)"
    unfolding source_layers_for_graph_def omap_of_list_def by (intro omap_get_fold) simp_all
  then show "file_source_layer (with_source_layers (source_layers_for_graph commit eff) eff) p =
      (if ws_file_source commit p = Some s then CommitSnapshot else WorktreeOverlay)"
    by (rule file_source_layer_own)
  show "let overlay = gl_worktree_overlay (workspace_graph_layers_of n b d)
     in wo_files overlay = take 500 (map overlay_file (wd_files d)) \<and>
        (wo_files_truncated overlay \<longleftrightarrow> length (wd_files d) > 500 \<or> wd_truncation d \<noteq> None)"
    by (auto simp: workspace_graph_layers_of_def max_published_overlay_files_def Let_def take_map min_def)
qed


definition sample_layer_graph :: "string \<Rightarrow> workspace_graph" where
  "sample_layer_graph text = Owned [] (partition_new\<lparr>files :=
     [(RepoPath ''a.rs'', \<lparr>file_symbols = [], file_source = Some text, file_provenance = TreeSitter,
        file_precision = Syntax, file_metadata = \<lparr>meta_role = Production, meta_classification = PathFallbackMetadata, meta_package = None\<rparr>, file_diagnostics = [],
        file_diagnostic_count = 0\<rparr>)]\<rparr>)"

theorem source_layers_exact_witness:
  "file_source_layer (with_source_layers
     (source_layers_for_graph (sample_layer_graph ''old'') (sample_layer_graph ''new''))
     (sample_layer_graph ''new'')) (RepoPath ''a.rs'') = WorktreeOverlay"
proof -
  have "distinct (map fst (source_files_iter (sample_layer_graph ''new'')))"
    "ws_file_source (sample_layer_graph t) (RepoPath ''a.rs'') = Some t" for t
    by (simp_all add: sample_layer_graph_def List.map_filter_def)
  from source_layers_exact [OF this] show ?thesis
    by (simp add: sample_layer_graph_def)
qed

end
