(* ===== verification/Ranked_Selection.thy ===== *)
theory Ranked_Selection
  imports Chakra_Prelude
begin

section \<open>Choosing the next unit of waiting work\<close>

text \<open>
  Two components choose among waiting work by urgency and, within one urgency, by arrival:
  the indexing work queue (\<open>chakra-language/src/scheduler.rs\<close>) and the query admission of
  the provider pool (\<open>chakra-provider-pool/src/lib.rs\<close>). The interface below is what both
  promise; the lemmas proved inside it are used by both through an interpretation on their
  own selection functions.
\<close>

locale ranked_selection =
  fixes valid :: "'e \<Rightarrow> bool"
    and rank :: "'e \<Rightarrow> nat"
    and seq :: "'e \<Rightarrow> nat"
    and top :: nat
    and select :: "'e list \<Rightarrow> 'e option"
  assumes select_None: "select es = None \<longleftrightarrow> es = []"
    and select_in: "select es = Some e \<Longrightarrow> e \<in> set es"
    and select_best: "\<forall>x\<in>set es. valid x \<Longrightarrow> select es = Some e \<Longrightarrow> x \<in> set es \<Longrightarrow>
      rank x < rank e \<or> rank x = rank e \<and> seq e \<le> seq x"
    and rank_top: "valid x \<Longrightarrow> rank x \<le> top"
begin

text \<open>Work that has reached the top urgency is overtaken by older work only.\<close>

lemma select_before_top:
  assumes "\<forall>x\<in>set es. valid x" "select es = Some e" "x \<in> set es" "rank x = top"
  shows "seq e \<le> seq x"
  using select_best [OF assms(1-3)] rank_top [of e] select_in [OF assms(2)] assms(1,4) by auto

text \<open>With distinct sequence numbers the choice does not depend on the order of the list.\<close>

lemma select_order_free:
  assumes "\<forall>x\<in>set es. valid x" "set es = set fs"
    and inj: "\<And>x y. x \<in> set es \<Longrightarrow> y \<in> set es \<Longrightarrow> seq x = seq y \<Longrightarrow> x = y"
  shows "select es = select fs"
proof (cases "select es")
  case None
  with assms(2) show ?thesis by (simp add: select_None)
next
  case (Some e)
  then have e: "e \<in> set es" by (rule select_in)
  with assms(2) obtain f where f: "select fs = Some f"
    using select_None [of fs] by (cases "select fs") auto
  then have f': "f \<in> set es" using select_in [OF f] assms(2) by simp
  have "\<forall>x\<in>set fs. valid x" using assms(1,2) by simp
  from select_best [OF this f, of e] select_best [OF assms(1) Some f'] e assms(2)
  have "seq e = seq f" by auto
  with inj [OF e f'] Some f show ?thesis by simp
qed

text \<open>An item of strictly higher urgency than all others is chosen.\<close>

lemma select_strict:
  assumes "\<forall>x\<in>set es. valid x" "x \<in> set es" "\<And>y. y \<in> set es \<Longrightarrow> y \<noteq> x \<Longrightarrow> rank y < rank x"
  shows "select es = Some x"
proof -
  from assms(2) obtain e where e: "select es = Some e"
    using select_None [of es] by (cases "select es") auto
  have "e = x"
  proof (rule ccontr)
    assume "e \<noteq> x"
    then have "rank e < rank x" using assms(3) [OF select_in [OF e]] by simp
    with select_best [OF assms(1) e assms(2)] show False by auto
  qed
  with e show ?thesis by simp
qed

end

end
