(* ===== verification/Work_Scheduling.thy ===== *)
theory Work_Scheduling
  imports Ranked_Selection
begin

section \<open>The bounded priority queue of indexing work\<close>

text \<open>
  \<open>chakra-domain/src/scheduling.rs\<close> (work classes, queue metrics) and
  \<open>chakra-language/src/scheduler.rs\<close> (\<open>PriorityWorkQueue\<close>). An \<open>Instant\<close> is its
  distance in nanoseconds from a common origin and a \<open>Duration\<close> a number of nanoseconds;
  every operation that reads the clock takes the instant \<open>now\<close> it reads. The array of
  five \<open>VecDeque\<close>s indexed by \<open>class.index()\<close> is a function of the class.
\<close>

subsection \<open>Work classes\<close>

datatype work_class = Maintenance | CacheWarmup | Reconciliation | ProviderSync | FreshnessEdit

fun work_class_rank :: "work_class \<Rightarrow> nat" where
  "work_class_rank Maintenance = 0"
| "work_class_rank CacheWarmup = 1"
| "work_class_rank Reconciliation = 2"
| "work_class_rank ProviderSync = 3"
| "work_class_rank FreshnessEdit = 4"

lemma work_class_rank_inj: "work_class_rank a = work_class_rank b \<Longrightarrow> a = b"
  by (cases a; cases b) simp_all

instantiation work_class :: linorder
begin

definition less_eq_work_class :: "work_class \<Rightarrow> work_class \<Rightarrow> bool" where
  "a \<le> b \<longleftrightarrow> work_class_rank a \<le> work_class_rank b"

definition less_work_class :: "work_class \<Rightarrow> work_class \<Rightarrow> bool" where
  "a < b \<longleftrightarrow> work_class_rank a < work_class_rank b"

instance
  by standard (auto simp: less_eq_work_class_def less_work_class_def intro: work_class_rank_inj)

end

definition work_class_count :: nat where "work_class_count = 5"

definition work_class_all :: "work_class list" where
  "work_class_all = [FreshnessEdit, ProviderSync, Reconciliation, CacheWarmup, Maintenance]"

fun work_class_index :: "work_class \<Rightarrow> nat" where
  "work_class_index FreshnessEdit = 0"
| "work_class_index ProviderSync = 1"
| "work_class_index Reconciliation = 2"
| "work_class_index CacheWarmup = 3"
| "work_class_index Maintenance = 4"

lemma work_class_all_index: "work_class_all ! work_class_index c = c"
  by (cases c) (simp_all add: work_class_all_def)

lemma work_class_all_UNIV: "set work_class_all = UNIV"
proof -
  have "c \<in> set work_class_all" for c by (cases c) (simp_all add: work_class_all_def)
  then show ?thesis by auto
qed

lemma work_class_all_distinct: "distinct work_class_all"
  by (simp add: work_class_all_def)

lemma work_class_index_rank: "work_class_index c + work_class_rank c = 4"
  by (cases c) simp_all

subsection \<open>Queue metrics\<close>

record queue_latency_stats =
  samples :: nat
  total_micros :: nat
  max_micros :: nat

definition latency_default :: queue_latency_stats where
  "latency_default = \<lparr>samples = 0, total_micros = 0, max_micros = 0\<rparr>"

definition latency_record :: "nat \<Rightarrow> queue_latency_stats \<Rightarrow> queue_latency_stats" where
  "latency_record wait s =
     (let micros = to_u64 (wait div 1000)
      in s\<lparr>samples := sat_add64 (samples s) 1,
           total_micros := sat_add64 (total_micros s) micros,
           max_micros := max (max_micros s) micros\<rparr>)"

record class_queue_metrics =
  enqueued :: nat
  dequeued :: nat
  cancelled :: nat
  superseded :: nat
  rejected :: nat
  latency :: queue_latency_stats

definition class_metrics_default :: class_queue_metrics where
  "class_metrics_default =
     \<lparr>enqueued = 0, dequeued = 0, cancelled = 0, superseded = 0, rejected = 0,
      latency = latency_default\<rparr>"

record work_queue_metrics =
  m_freshness_edit :: class_queue_metrics
  m_provider_sync :: class_queue_metrics
  m_reconciliation :: class_queue_metrics
  m_cache_warmup :: class_queue_metrics
  m_maintenance :: class_queue_metrics

definition work_queue_metrics_default :: work_queue_metrics where
  "work_queue_metrics_default =
     \<lparr>m_freshness_edit = class_metrics_default, m_provider_sync = class_metrics_default,
      m_reconciliation = class_metrics_default, m_cache_warmup = class_metrics_default,
      m_maintenance = class_metrics_default\<rparr>"

fun for_class :: "work_class \<Rightarrow> work_queue_metrics \<Rightarrow> class_queue_metrics" where
  "for_class FreshnessEdit m = m_freshness_edit m"
| "for_class ProviderSync m = m_provider_sync m"
| "for_class Reconciliation m = m_reconciliation m"
| "for_class CacheWarmup m = m_cache_warmup m"
| "for_class Maintenance m = m_maintenance m"

text \<open>\<open>for_class_mut\<close>: apply an update to the counters of one class.\<close>

fun for_class_mut ::
  "work_class \<Rightarrow> (class_queue_metrics \<Rightarrow> class_queue_metrics) \<Rightarrow> work_queue_metrics
    \<Rightarrow> work_queue_metrics" where
  "for_class_mut FreshnessEdit f m = m\<lparr>m_freshness_edit := f (m_freshness_edit m)\<rparr>"
| "for_class_mut ProviderSync f m = m\<lparr>m_provider_sync := f (m_provider_sync m)\<rparr>"
| "for_class_mut Reconciliation f m = m\<lparr>m_reconciliation := f (m_reconciliation m)\<rparr>"
| "for_class_mut CacheWarmup f m = m\<lparr>m_cache_warmup := f (m_cache_warmup m)\<rparr>"
| "for_class_mut Maintenance f m = m\<lparr>m_maintenance := f (m_maintenance m)\<rparr>"

lemma for_class_mut_get [simp]:
  "for_class c (for_class_mut d f m) = (if c = d then f (for_class d m) else for_class c m)"
  by (cases c; cases d) simp_all

lemma for_class_default [simp]: "for_class c work_queue_metrics_default = class_metrics_default"
  by (cases c) (simp_all add: work_queue_metrics_default_def)

subsection \<open>The queue\<close>

record 'a queue_entry =
  entry_item :: 'a
  entry_class :: work_class
  entry_enqueued :: nat
  entry_sequence :: nat

record 'a work_queue =
  queue_classes :: "work_class \<Rightarrow> 'a queue_entry list"
  per_class_capacity :: nat
  aging_after :: nat
  next_sequence :: nat
  queue_metrics :: work_queue_metrics

datatype queue_full = QueueFull work_class

definition queue_new :: "nat \<Rightarrow> nat \<Rightarrow> 'a work_queue" where
  "queue_new capacity aging =
     \<lparr>queue_classes = (\<lambda>_. []), per_class_capacity = capacity, aging_after = aging,
      next_sequence = 0, queue_metrics = work_queue_metrics_default\<rparr>"

definition queue_push ::
  "work_class \<Rightarrow> 'a \<Rightarrow> nat \<Rightarrow> 'a work_queue \<Rightarrow> 'a work_queue \<times> (queue_full + unit)" where
  "queue_push class item at q =
     (let backlog = queue_classes q class in
      if per_class_capacity q \<le> length backlog then
        (q\<lparr>queue_metrics := for_class_mut class
             (\<lambda>m. m\<lparr>rejected := sat_add64 (rejected m) 1\<rparr>) (queue_metrics q)\<rparr>,
         Inl (QueueFull class))
      else
        (q\<lparr>next_sequence := sat_add64 (next_sequence q) 1,
           queue_classes := (queue_classes q)(class := backlog @
             [\<lparr>entry_item = item, entry_class = class, entry_enqueued = at,
               entry_sequence = next_sequence q\<rparr>]),
           queue_metrics := for_class_mut class
             (\<lambda>m. m\<lparr>enqueued := sat_add64 (enqueued m) 1\<rparr>) (queue_metrics q)\<rparr>,
         Inr ()))"

definition effective_rank :: "nat \<Rightarrow> nat \<Rightarrow> 'a queue_entry \<Rightarrow> nat" where
  "effective_rank aging now e =
     (let base = work_class_count - 1 - work_class_index (entry_class e) in
      if aging = 0 then base
      else (let waited = now - entry_enqueued e; intervals = to_u8 (waited div aging)
            in min (sat_add8 base intervals) (work_class_count - 1)))"

definition queue_take ::
  "nat \<Rightarrow> work_class \<Rightarrow> nat \<Rightarrow> 'a work_queue \<Rightarrow> 'a work_queue \<times> 'a option" where
  "queue_take now class position q =
     (let backlog = queue_classes q class in
      if position < length backlog then
        (let e = backlog ! position in
         (q\<lparr>queue_classes := (queue_classes q)
              (class := take position backlog @ drop (Suc position) backlog),
            queue_metrics := for_class_mut class
              (\<lambda>m. m\<lparr>dequeued := sat_add64 (dequeued m) 1,
                     latency := latency_record (now - entry_enqueued e) (latency m)\<rparr>)
              (queue_metrics q)\<rparr>,
          Some (entry_item e)))
      else (q, None))"

text \<open>
  \<open>pop\<close> looks at the front of every class in \<open>ALL\<close> order and keeps the greatest
  candidate \<open>(rank, u64::MAX - sequence, class)\<close>.
\<close>

definition front_candidates :: "nat \<Rightarrow> 'a work_queue \<Rightarrow> (nat \<times> nat \<times> work_class) list" where
  "front_candidates now q =
     concat (map (\<lambda>class. case queue_classes q class of
               [] \<Rightarrow> []
             | front # _ \<Rightarrow>
                 [(effective_rank (aging_after q) now front,
                   u64_max - entry_sequence front, class)])
       work_class_all)"

definition queue_pop :: "nat \<Rightarrow> 'a work_queue \<Rightarrow> 'a work_queue \<times> 'a option" where
  "queue_pop now q =
     (case select_by (\<lambda>candidate current. current < candidate) (front_candidates now q) of
        None \<Rightarrow> (q, None)
      | Some (_, _, class) \<Rightarrow> queue_take now class 0 q)"

text \<open>\<open>iter().position(include)\<close>.\<close>

fun position_of :: "('a \<Rightarrow> bool) \<Rightarrow> 'a list \<Rightarrow> nat option" where
  "position_of P [] = None"
| "position_of P (x # xs) = (if P x then Some 0 else map_option Suc (position_of P xs))"

fun pop_where_from ::
  "nat \<Rightarrow> ('a \<Rightarrow> bool) \<Rightarrow> work_class list \<Rightarrow> 'a work_queue \<Rightarrow> 'a work_queue \<times> 'a option" where
  "pop_where_from now include [] q = (q, None)"
| "pop_where_from now include (class # rest) q =
     (case position_of (\<lambda>e. include (entry_item e)) (queue_classes q class) of
        Some position \<Rightarrow> queue_take now class position q
      | None \<Rightarrow> pop_where_from now include rest q)"

definition queue_pop_where ::
  "nat \<Rightarrow> ('a \<Rightarrow> bool) \<Rightarrow> 'a work_queue \<Rightarrow> 'a work_queue \<times> 'a option" where
  "queue_pop_where now include q = pop_where_from now include work_class_all q"

definition retain_class ::
  "('a \<Rightarrow> bool) \<Rightarrow> work_class \<Rightarrow> 'a work_queue \<times> nat \<Rightarrow> 'a work_queue \<times> nat" where
  "retain_class keep class qr =
     (let q = fst qr;
          before = length (queue_classes q class);
          kept = filter (\<lambda>e. keep (entry_item e)) (queue_classes q class);
          gone = before - length kept
      in (q\<lparr>queue_classes := (queue_classes q)(class := kept),
            queue_metrics := for_class_mut class
              (\<lambda>m. m\<lparr>cancelled := sat_add64 (cancelled m) (to_u64 gone)\<rparr>) (queue_metrics q)\<rparr>,
          snd qr + gone))"

definition queue_retain :: "('a \<Rightarrow> bool) \<Rightarrow> 'a work_queue \<Rightarrow> 'a work_queue \<times> nat" where
  "queue_retain keep q = fold (retain_class keep) work_class_all (q, 0)"

definition note_superseded :: "work_class \<Rightarrow> 'a work_queue \<Rightarrow> 'a work_queue" where
  "note_superseded class q =
     q\<lparr>queue_metrics := for_class_mut class
         (\<lambda>m. m\<lparr>superseded := sat_add64 (superseded m) 1\<rparr>) (queue_metrics q)\<rparr>"

definition queue_len :: "'a work_queue \<Rightarrow> nat" where
  "queue_len q = sum_list (map (\<lambda>class. length (queue_classes q class)) work_class_all)"

definition queue_is_empty :: "'a work_queue \<Rightarrow> bool" where
  "queue_is_empty q \<longleftrightarrow> queue_len q = 0"

subsection \<open>Invariants\<close>

text \<open>
  Every class stays within its bound, holds its own entries only, in arrival order, and no
  sequence number is used twice. The counters account for every admitted item: it is
  still queued, was dequeued (with one latency sample), or was cancelled.
\<close>

definition queue_ok :: "'a work_queue \<Rightarrow> bool" where
  "queue_ok q \<longleftrightarrow>
     (\<forall>c. length (queue_classes q c) \<le> per_class_capacity q) \<and>
     (\<forall>c. \<forall>e\<in>set (queue_classes q c).
        entry_class e = c \<and> entry_sequence e < next_sequence q) \<and>
     (\<forall>c. sorted_wrt (\<lambda>e f. entry_sequence e < entry_sequence f) (queue_classes q c)) \<and>
     (\<forall>c d. c \<noteq> d \<longrightarrow>
        entry_sequence ` set (queue_classes q c) \<inter> entry_sequence ` set (queue_classes q d) = {}) \<and>
     next_sequence q \<le> u64_max"

definition queue_counted :: "'a work_queue \<Rightarrow> bool" where
  "queue_counted q \<longleftrightarrow>
     (\<forall>c. samples (latency (for_class c (queue_metrics q))) = dequeued (for_class c (queue_metrics q)) \<and>
        (enqueued (for_class c (queue_metrics q)) < u64_max \<longrightarrow>
           enqueued (for_class c (queue_metrics q)) =
             dequeued (for_class c (queue_metrics q)) + cancelled (for_class c (queue_metrics q)) +
             length (queue_classes q c)))"

lemma queue_okD:
  assumes "queue_ok q"
  shows "length (queue_classes q c) \<le> per_class_capacity q"
    "e \<in> set (queue_classes q c) \<Longrightarrow> entry_class e = c"
    "e \<in> set (queue_classes q c) \<Longrightarrow> entry_sequence e < next_sequence q"
    "e \<in> set (queue_classes q c) \<Longrightarrow> entry_sequence e < u64_max"
    "sorted_wrt (\<lambda>e f. entry_sequence e < entry_sequence f) (queue_classes q c)"
    "c \<noteq> d \<Longrightarrow> e \<in> set (queue_classes q c) \<Longrightarrow> f \<in> set (queue_classes q d) \<Longrightarrow>
       entry_sequence e \<noteq> entry_sequence f"
    "next_sequence q \<le> u64_max"
  using assms unfolding queue_ok_def by (blast, blast, blast, (fastforce intro: less_le_trans), blast, blast, blast)

lemma queue_ok_shrink:
  assumes "queue_ok q" "next_sequence q' = next_sequence q"
    "per_class_capacity q' = per_class_capacity q"
    "\<And>c. length (queue_classes q' c) \<le> length (queue_classes q c)"
    "\<And>c. set (queue_classes q' c) \<subseteq> set (queue_classes q c)"
    "\<And>c. sorted_wrt (\<lambda>e f. entry_sequence e < entry_sequence f) (queue_classes q' c)"
  shows "queue_ok q'"
  unfolding queue_ok_def
proof (intro conjI allI impI ballI)
  fix c show "length (queue_classes q' c) \<le> per_class_capacity q'"
    using assms(3) assms(4) [of c] queue_okD(1) [OF assms(1), of c] by simp
next
  fix c e assume "e \<in> set (queue_classes q' c)"
  then have e: "e \<in> set (queue_classes q c)" using assms(5) by blast
  show "entry_class e = c" by (rule queue_okD(2) [OF assms(1) e])
  show "entry_sequence e < next_sequence q'"
    using queue_okD(3) [OF assms(1) e] assms(2) by simp
next
  fix c show "sorted_wrt (\<lambda>e f. entry_sequence e < entry_sequence f) (queue_classes q' c)"
    by (rule assms(6))
next
  fix c d :: work_class assume "c \<noteq> d"
  then show "entry_sequence ` set (queue_classes q' c) \<inter> entry_sequence ` set (queue_classes q' d) = {}"
    using queue_okD(6) [OF assms(1)] assms(5) by blast
next
  show "next_sequence q' \<le> u64_max" using queue_okD(7) [OF assms(1)] assms(2) by simp
qed

lemma queue_ok_new [chakra_inv]: "queue_ok (queue_new capacity aging)"
  by (simp add: queue_ok_def queue_new_def)

lemma queue_counted_new [chakra_inv]: "queue_counted (queue_new capacity aging)"
  by (simp add: queue_counted_def queue_new_def class_metrics_default_def latency_default_def)

lemma queue_ok_push [chakra_inv]:
  assumes "queue_ok q" "next_sequence q < u64_max"
  shows "queue_ok (fst (queue_push class item at q))"
proof (cases "per_class_capacity q \<le> length (queue_classes q class)")
  case True
  with assms(1) show ?thesis by (simp add: queue_push_def queue_ok_def)
next
  case False
  let ?q = "fst (queue_push class item at q)"
  define e where "e = \<lparr>entry_item = item, entry_class = class, entry_enqueued = at,
               entry_sequence = next_sequence q\<rparr>"
  have classes: "queue_classes ?q = (queue_classes q)(class := queue_classes q class @ [e])"
    and seq: "next_sequence ?q = Suc (next_sequence q)"
    and cap: "per_class_capacity ?q = per_class_capacity q"
    using False assms(2) by (simp_all add: queue_push_def Let_def sat_add64_Suc e_def)
  note D = queue_okD [OF assms(1)]
  have e: "entry_class e = class" "entry_sequence e = next_sequence q" by (simp_all add: e_def)
  have lt: "f \<in> set (queue_classes q d) \<Longrightarrow> entry_sequence f < entry_sequence e" for f d
    using D(3) e by simp
  show ?thesis
    unfolding queue_ok_def
  proof (intro conjI allI impI ballI)
    fix c show "length (queue_classes ?q c) \<le> per_class_capacity ?q"
      using False D(1) [of c] by (simp add: classes cap)
  next
    fix c f assume "f \<in> set (queue_classes ?q c)"
    then show "entry_class f = c" "entry_sequence f < next_sequence ?q"
      using D(2,3) [of f c] e by (auto simp: classes seq split: if_splits)
  next
    fix c show "sorted_wrt (\<lambda>e f. entry_sequence e < entry_sequence f) (queue_classes ?q c)"
      using D(5) lt by (simp add: classes sorted_wrt_append)
  next
    fix c d :: work_class assume "c \<noteq> d"
    then show "entry_sequence ` set (queue_classes ?q c) \<inter> entry_sequence ` set (queue_classes ?q d) = {}"
      using D(6) lt by (auto simp: classes) (metis less_irrefl)+
  next
    show "next_sequence ?q \<le> u64_max" using assms(2) by (simp add: seq)
  qed
qed

lemma queue_counted_push [chakra_inv]:
  "queue_counted q \<Longrightarrow> queue_counted (fst (queue_push class item at q))"
  by (auto simp: queue_counted_def queue_push_def Let_def dest!: sat_add64_Suc_below)

lemma queue_take_Some:
  assumes "position < length (queue_classes q class)"
  shows "snd (queue_take now class position q) = Some (entry_item (queue_classes q class ! position))"
    "queue_classes (fst (queue_take now class position q)) =
       (queue_classes q)(class := take position (queue_classes q class) @
         drop (Suc position) (queue_classes q class))"
    "next_sequence (fst (queue_take now class position q)) = next_sequence q"
    "per_class_capacity (fst (queue_take now class position q)) = per_class_capacity q"
    "aging_after (fst (queue_take now class position q)) = aging_after q"
  using assms by (simp_all add: queue_take_def Let_def)

lemma sorted_wrt_remove_nth:
  assumes "sorted_wrt R xs" shows "sorted_wrt R (take n xs @ drop (Suc n) xs)"
proof (cases "n < length xs")
  case True
  with assms have "sorted_wrt R (take n xs @ xs ! n # drop (Suc n) xs)"
    by (simp add: id_take_nth_drop [symmetric])
  then show ?thesis by (simp add: sorted_wrt_append)
next
  case False
  with assms show ?thesis by simp
qed

lemma queue_ok_take [chakra_inv]:
  assumes "queue_ok q" shows "queue_ok (fst (queue_take now class position q))"
proof (cases "position < length (queue_classes q class)")
  case True
  show ?thesis
    by (rule queue_ok_shrink [OF assms])
      (auto simp: queue_take_Some [OF True] sorted_wrt_remove_nth queue_okD(5) [OF assms]
        dest: in_set_takeD in_set_dropD)
next
  case False
  with assms show ?thesis by (simp add: queue_take_def)
qed

lemma queue_counted_take [chakra_inv]:
  assumes "queue_counted q" "queue_ok q"
  shows "queue_counted (fst (queue_take now class position q))"
proof (cases "position < length (queue_classes q class)")
  case True
  let ?m = "for_class class (queue_metrics q)"
  have s: "samples (latency ?m) = dequeued ?m"
    and e: "enqueued ?m < u64_max \<Longrightarrow>
      enqueued ?m = dequeued ?m + cancelled ?m + length (queue_classes q class)"
    using assms(1) by (simp_all add: queue_counted_def)
  have "enqueued ?m < u64_max \<Longrightarrow> sat_add64 (dequeued ?m) 1 = Suc (dequeued ?m)"
    using e True by (simp add: sat_add64_def)
  then show ?thesis
    using assms(1) True s e
    by (auto simp: queue_counted_def queue_take_def Let_def latency_record_def)
next
  case False
  with assms show ?thesis by (simp add: queue_take_def)
qed

lemma retain_class_fields:
  "queue_classes (fst (retain_class keep class qr)) =
     (queue_classes (fst qr))(class := filter (\<lambda>e. keep (entry_item e)) (queue_classes (fst qr) class))"
  "next_sequence (fst (retain_class keep class qr)) = next_sequence (fst qr)"
  "per_class_capacity (fst (retain_class keep class qr)) = per_class_capacity (fst qr)"
  "aging_after (fst (retain_class keep class qr)) = aging_after (fst qr)"
  "snd (retain_class keep class qr) =
     snd qr + length (filter (\<lambda>e. \<not> keep (entry_item e)) (queue_classes (fst qr) class))"
  using sum_length_filter_compl [of "\<lambda>e. keep (entry_item e)" "queue_classes (fst qr) class"]
  by (auto simp: retain_class_def Let_def)

lemma queue_ok_retain_class:
  "queue_ok (fst qr) \<Longrightarrow> queue_ok (fst (retain_class keep class qr))"
  by (rule queue_ok_shrink [of "fst qr"])
    (auto simp: retain_class_fields intro: sorted_wrt_filter queue_okD(5))

lemma queue_counted_retain_class:
  assumes "queue_counted (fst qr)"
  shows "queue_counted (fst (retain_class keep class qr))"
proof -
  let ?q = "fst qr" and ?m = "for_class class (queue_metrics (fst qr))"
  let ?b = "length (queue_classes (fst qr) class)"
  let ?k = "length (filter (\<lambda>e. keep (entry_item e)) (queue_classes (fst qr) class))"
  obtain g where g: "?b = ?k + g"
    using length_filter_le le_iff_add by blast
  have "enqueued ?m < u64_max \<Longrightarrow> enqueued ?m = dequeued ?m + cancelled ?m + ?b"
    using assms by (simp add: queue_counted_def)
  then have "enqueued ?m < u64_max \<Longrightarrow> sat_add64 (cancelled ?m) (to_u64 g) = cancelled ?m + g"
    using g by (simp add: sat_add64_def to_u64_def)
  then show ?thesis
    using assms g by (auto simp: queue_counted_def retain_class_def Let_def)
qed

lemma fold_retain_classes:
  "distinct cs \<Longrightarrow>
     queue_classes (fst (fold (retain_class keep) cs qr)) c =
       (if c \<in> set cs then filter (\<lambda>e. keep (entry_item e)) (queue_classes (fst qr) c)
        else queue_classes (fst qr) c)"
  by (induction cs arbitrary: qr) (auto simp: retain_class_fields)

lemma fold_retain_count:
  "distinct cs \<Longrightarrow>
     snd (fold (retain_class keep) cs qr) =
       snd qr + sum_list (map (\<lambda>c. length (filter (\<lambda>e. \<not> keep (entry_item e))
         (queue_classes (fst qr) c))) cs)"
proof (induction cs arbitrary: qr)
  case (Cons d cs)
  then have "map (\<lambda>c. length (filter (\<lambda>e. \<not> keep (entry_item e))
         (queue_classes (fst (retain_class keep d qr)) c))) cs =
       map (\<lambda>c. length (filter (\<lambda>e. \<not> keep (entry_item e)) (queue_classes (fst qr) c))) cs"
    by (auto simp: retain_class_fields)
  with Cons.IH [of "retain_class keep d qr"] Cons.prems show ?case
    by (simp only: fold.simps o_apply distinct.simps simp_thms retain_class_fields(5)
        list.map sum_list.Cons add.assoc)
qed simp

lemma queue_retain_classes:
  "queue_classes (fst (queue_retain keep q)) =
     (\<lambda>c. filter (\<lambda>e. keep (entry_item e)) (queue_classes q c))"
  by (rule ext)
    (simp add: queue_retain_def fold_retain_classes work_class_all_distinct work_class_all_UNIV)

lemma queue_retain_count:
  "snd (queue_retain keep q) = queue_len q - queue_len (fst (queue_retain keep q))"
proof -
  have split: "length (queue_classes q c) =
      length (filter (\<lambda>e. keep (entry_item e)) (queue_classes q c)) +
      length (filter (\<lambda>e. \<not> keep (entry_item e)) (queue_classes q c))" for c
    using sum_length_filter_compl [of "\<lambda>e. keep (entry_item e)" "queue_classes q c"] by simp
  have "snd (queue_retain keep q) = sum_list (map (\<lambda>c. length (filter (\<lambda>e. \<not> keep (entry_item e))
      (queue_classes q c))) work_class_all)"
    by (simp add: queue_retain_def fold_retain_count work_class_all_distinct)
  also have "\<dots> = queue_len q - queue_len (fst (queue_retain keep q))"
    unfolding queue_len_def queue_retain_classes split work_class_all_def by simp
  finally show ?thesis .
qed

lemma queue_ok_retain [chakra_inv]: "queue_ok q \<Longrightarrow> queue_ok (fst (queue_retain keep q))"
  by (simp add: queue_retain_def work_class_all_def queue_ok_retain_class)

lemma queue_counted_retain [chakra_inv]:
  "queue_counted q \<Longrightarrow> queue_counted (fst (queue_retain keep q))"
  by (simp add: queue_retain_def work_class_all_def queue_counted_retain_class)

lemma queue_ok_superseded [chakra_inv]: "queue_ok q \<Longrightarrow> queue_ok (note_superseded class q)"
  by (simp add: queue_ok_def note_superseded_def)

lemma queue_counted_superseded [chakra_inv]:
  "queue_counted q \<Longrightarrow> queue_counted (note_superseded class q)"
  by (simp add: queue_counted_def note_superseded_def)

subsection \<open>What \<open>pop\<close> selects\<close>

definition candidate_ok :: "nat \<times> nat \<times> work_class \<Rightarrow> bool" where
  "candidate_ok k \<longleftrightarrow> fst k \<le> 4 \<and> fst (snd k) \<le> u64_max"

interpretation pop: ranked_selection candidate_ok fst "\<lambda>k. u64_max - fst (snd k)" 4
  "select_by (\<lambda>candidate current :: nat \<times> nat \<times> work_class. current < candidate)"
proof (unfold_locales, goal_cases)
  case (1 es) show ?case by simp
next
  case (2 es e) then show ?case by (rule select_by_in)
next
  case (3 es e x)
  have "x \<le> e"
    by (rule select_by_best [OF 3(2,3), where below = "(\<le>)"]) auto
  moreover have "candidate_ok e" "candidate_ok x"
    using 3(1,3) select_by_in [OF 3(2)] by auto
  ultimately show ?case
    by (cases x; cases e) (auto simp: candidate_ok_def)
next
  case (4 x) then show ?case by (simp add: candidate_ok_def)
qed

lemma effective_rank_le: "effective_rank aging now e \<le> 4"
  by (simp add: effective_rank_def work_class_count_def Let_def)

text \<open>An entry reaches the top urgency once it has waited one interval per missing class.\<close>

lemma effective_rank_top:
  assumes "0 < aging" "entry_enqueued e + work_class_index (entry_class e) * aging \<le> now"
  shows "effective_rank aging now e = 4"
proof -
  have i: "work_class_index (entry_class e) \<le> 4"
    using work_class_index_rank [of "entry_class e"] by simp
  have "work_class_index (entry_class e) * aging \<le> now - entry_enqueued e"
    using assms(2) by simp
  then have "work_class_index (entry_class e) \<le> (now - entry_enqueued e) div aging"
    using assms(1) by (simp add: less_eq_div_iff_mult_less_eq)
  then have "work_class_index (entry_class e) \<le> to_u8 ((now - entry_enqueued e) div aging)"
    using i by (simp add: to_u8_def u8_max_def)
  with i assms(1) show ?thesis
    by (simp add: effective_rank_def work_class_count_def Let_def sat_add8_def u8_max_def)
qed

lemma in_front_candidates:
  "k \<in> set (front_candidates now q) \<longleftrightarrow>
     (\<exists>c e es. queue_classes q c = e # es \<and>
        k = (effective_rank (aging_after q) now e, u64_max - entry_sequence e, c))"
  unfolding front_candidates_def
  by (auto simp: work_class_all_UNIV split: list.splits) (metis UNIV_I list.simps(5) list.set_intros(1) work_class_all_UNIV)

lemma front_candidates_ok: "k \<in> set (front_candidates now q) \<Longrightarrow> candidate_ok k"
  by (auto simp: in_front_candidates candidate_ok_def effective_rank_le)

lemma queue_pop_None:
  "queue_pop now q = (q', None) \<longleftrightarrow> q' = q \<and> (\<forall>c. queue_classes q c = [])"
proof (cases "select_by (\<lambda>candidate current. current < candidate) (front_candidates now q)")
  case None
  then have "front_candidates now q = []" by simp
  then have "queue_classes q c = []" for c
  proof (cases "queue_classes q c")
    case (Cons e es)
    then have "(effective_rank (aging_after q) now e, u64_max - entry_sequence e, c)
        \<in> set (front_candidates now q)"
      unfolding in_front_candidates by blast
    with \<open>front_candidates now q = []\<close> show ?thesis by simp
  qed
  with None show ?thesis by (auto simp: queue_pop_def)
next
  case (Some k)
  then have "k \<in> set (front_candidates now q)" by (rule select_by_in)
  then obtain c e es where k: "queue_classes q c = e # es"
    "k = (effective_rank (aging_after q) now e, u64_max - entry_sequence e, c)"
    by (auto simp: in_front_candidates)
  with Some show ?thesis
    by (auto simp: queue_pop_def queue_take_def Let_def intro!: exI [of _ c])
qed

lemma queue_pop_Some:
  assumes ok: "queue_ok q" and pop: "queue_pop now q = (q', Some x)"
  obtains c e es where "queue_classes q c = e # es" "x = entry_item e"
    "q' = fst (queue_take now c 0 q)" "queue_classes q' = (queue_classes q)(c := es)"
    "\<And>d f fs. queue_classes q d = f # fs \<Longrightarrow>
       effective_rank (aging_after q) now f < effective_rank (aging_after q) now e \<or>
       effective_rank (aging_after q) now f = effective_rank (aging_after q) now e \<and>
       entry_sequence e \<le> entry_sequence f"
proof -
  let ?r = "effective_rank (aging_after q) now"
  from pop obtain k where
    k: "select_by (\<lambda>candidate current. current < candidate) (front_candidates now q) = Some k"
    by (cases "select_by (\<lambda>candidate current. current < candidate) (front_candidates now q)")
      (auto simp: queue_pop_def)
  then have "k \<in> set (front_candidates now q)" by (rule select_by_in)
  then obtain c e es where ce: "queue_classes q c = e # es"
    and kk: "k = (?r e, u64_max - entry_sequence e, c)"
    by (auto simp: in_front_candidates)
  have eq: "queue_take now c 0 q = (q', Some x)"
    using pop k kk by (simp add: queue_pop_def)
  show thesis
  proof (rule that [OF ce])
    show "x = entry_item e" "q' = fst (queue_take now c 0 q)"
      "queue_classes q' = (queue_classes q)(c := es)"
      using eq ce queue_take_Some [of 0 q c now] by auto
  next
    fix d f fs assume df: "queue_classes q d = f # fs"
    have bounds: "entry_sequence e < u64_max" "entry_sequence f < u64_max"
      using queue_okD(4) [OF ok] ce df by (metis list.set_intros(1))+
    have "(?r f, u64_max - entry_sequence f, d) \<in> set (front_candidates now q)"
      using df in_front_candidates by blast
    from pop.select_best [OF _ k this] bounds kk front_candidates_ok [of _ now q]
    show "?r f < ?r e \<or> ?r f = ?r e \<and> entry_sequence e \<le> entry_sequence f"
      by auto
  qed
qed

lemma queue_ok_pop [chakra_inv]: "queue_ok q \<Longrightarrow> queue_ok (fst (queue_pop now q))"
  by (auto simp: queue_pop_def intro: queue_ok_take split: option.splits)

lemma queue_counted_pop [chakra_inv]:
  "queue_counted q \<Longrightarrow> queue_ok q \<Longrightarrow> queue_counted (fst (queue_pop now q))"
  by (auto simp: queue_pop_def intro: queue_counted_take split: option.splits)

subsection \<open>Filtered draining\<close>

lemma position_of_Some:
  "position_of P xs = Some i \<Longrightarrow> i < length xs \<and> P (xs ! i) \<and> (\<forall>x\<in>set (take i xs). \<not> P x)"
  by (induction xs arbitrary: i) (auto split: if_splits)

lemma position_of_None: "position_of P xs = None \<longleftrightarrow> (\<forall>x\<in>set xs. \<not> P x)"
  by (induction xs) auto

lemma pop_where_from_None:
  "pop_where_from now include cs q = (q', None) \<longleftrightarrow>
     q' = q \<and> (\<forall>c\<in>set cs. \<forall>e\<in>set (queue_classes q c). \<not> include (entry_item e))"
proof (induction cs)
  case (Cons c cs)
  show ?case
  proof (cases "position_of (\<lambda>e. include (entry_item e)) (queue_classes q c)")
    case None
    then have "pop_where_from now include (c # cs) q = pop_where_from now include cs q" by simp
    with Cons.IH position_of_None [THEN iffD1, OF None] show ?thesis by simp
  next
    case (Some i)
    then have i: "i < length (queue_classes q c)" "include (entry_item (queue_classes q c ! i))"
      using position_of_Some by fast+
    then have "snd (queue_take now c i q) \<noteq> None" by (simp add: queue_take_Some)
    with Some i show ?thesis by (auto dest: nth_mem)
  qed
qed auto

lemma pop_where_from_Some:
  assumes "pop_where_from now include cs q = (q', Some x)"
  shows "\<exists>before c after pre e post. cs = before @ c # after \<and>
     queue_classes q c = pre @ e # post \<and> x = entry_item e \<and> include x \<and>
     (\<forall>f\<in>set pre. \<not> include (entry_item f)) \<and>
     (\<forall>d\<in>set before. \<forall>f\<in>set (queue_classes q d). \<not> include (entry_item f)) \<and>
     queue_classes q' = (queue_classes q)(c := pre @ post)"
  using assms
proof (induction cs)
  case (Cons c cs)
  show ?case
  proof (cases "position_of (\<lambda>e. include (entry_item e)) (queue_classes q c)")
    case None
    then have "pop_where_from now include cs q = (q', Some x)" using Cons.prems by simp
    from Cons.IH [OF this] obtain before d after pre e post where
      "cs = before @ d # after" "queue_classes q d = pre @ e # post" "x = entry_item e" "include x"
      "\<forall>f\<in>set pre. \<not> include (entry_item f)"
      "\<forall>d\<in>set before. \<forall>f\<in>set (queue_classes q d). \<not> include (entry_item f)"
      "queue_classes q' = (queue_classes q)(d := pre @ post)"
      by (elim exE conjE) (rule that)
    with position_of_None [THEN iffD1, OF None] show ?thesis
      by (intro exI [of _ "c # before"] exI [of _ d] exI [of _ after] exI [of _ pre] exI [of _ e]
          exI [of _ post]) simp
  next
    case (Some i)
    let ?b = "queue_classes q c"
    have i: "i < length ?b" "include (entry_item (?b ! i))"
      "\<forall>f\<in>set (take i ?b). \<not> include (entry_item f)"
      using position_of_Some [OF Some] by auto
    have "queue_take now c i q = (q', Some x)" using Cons.prems Some by simp
    then have "x = entry_item (?b ! i)" "queue_classes q' = (queue_classes q)(c := take i ?b @ drop (Suc i) ?b)"
      using queue_take_Some [OF i(1), of now] by auto
    with i show ?thesis
      by (intro exI [of _ "[]"] exI [of _ c] exI [of _ cs] exI [of _ "take i ?b"] exI [of _ "?b ! i"]
          exI [of _ "drop (Suc i) ?b"]) (simp add: id_take_nth_drop)
  qed
qed simp

lemma more_urgent_before:
  assumes "work_class_all = before @ c # after" "c < d" shows "d \<in> set before"
proof -
  have "sorted_wrt (\<lambda>a b. b < a) (before @ c # after)"
    unfolding assms(1) [symmetric] by (simp add: work_class_all_def less_work_class_def)
  then have "d \<notin> set (c # after)" using assms(2) by (auto simp: sorted_wrt_append)
  moreover have "d \<in> set (before @ c # after)"
    using work_class_all_UNIV assms(1) by simp
  ultimately show ?thesis by auto
qed

lemma queue_ok_pop_where [chakra_inv]:
  "queue_ok q \<Longrightarrow> queue_ok (fst (queue_pop_where now include q))"
proof -
  have "queue_ok q \<Longrightarrow> queue_ok (fst (pop_where_from now include cs q))" for cs
    by (induction cs) (auto intro: queue_ok_take split: option.splits)
  then show "queue_ok q \<Longrightarrow> queue_ok (fst (queue_pop_where now include q))"
    by (simp add: queue_pop_where_def)
qed

lemma queue_counted_pop_where [chakra_inv]:
  "queue_counted q \<Longrightarrow> queue_ok q \<Longrightarrow> queue_counted (fst (queue_pop_where now include q))"
proof -
  have "queue_counted q \<Longrightarrow> queue_ok q \<Longrightarrow> queue_counted (fst (pop_where_from now include cs q))" for cs
    by (induction cs) (auto intro: queue_counted_take split: option.splits)
  then show "queue_counted q \<Longrightarrow> queue_ok q \<Longrightarrow> queue_counted (fst (queue_pop_where now include q))"
    by (simp add: queue_pop_where_def)
qed

subsection \<open>Runs, and freedom from starvation\<close>

datatype 'a queue_event =
    EvPush work_class 'a nat
  | EvPop nat
  | EvPopWhere nat "'a \<Rightarrow> bool"
  | EvRetain "'a \<Rightarrow> bool"
  | EvSuperseded work_class

fun queue_step :: "'a queue_event \<Rightarrow> 'a work_queue \<Rightarrow> 'a work_queue" where
  "queue_step (EvPush c x t) q = fst (queue_push c x t q)"
| "queue_step (EvPop now) q = fst (queue_pop now q)"
| "queue_step (EvPopWhere now P) q = fst (queue_pop_where now P q)"
| "queue_step (EvRetain P) q = fst (queue_retain P q)"
| "queue_step (EvSuperseded c) q = note_superseded c q"

definition queue_run :: "'a queue_event list \<Rightarrow> 'a work_queue \<Rightarrow> 'a work_queue" where
  "queue_run evs q = fold queue_step evs q"

lemma queue_take_next [simp]: "next_sequence (fst (queue_take now c i q)) = next_sequence q"
  by (simp add: queue_take_def Let_def)

lemma queue_step_next:
  "next_sequence (queue_step ev q) \<le> Suc (next_sequence q)"
proof (cases ev)
  case (EvPopWhere now P)
  have "next_sequence (fst (pop_where_from now P cs q)) = next_sequence q" for cs
    by (induction cs) (auto split: option.splits)
  with EvPopWhere show ?thesis by (simp add: queue_pop_where_def)
next
  case (EvRetain P)
  then show ?thesis
    by (simp add: queue_retain_def work_class_all_def retain_class_fields)
qed (auto simp: queue_push_def queue_pop_def note_superseded_def Let_def sat_add64_def
      split: option.splits)

lemma queue_step_inv:
  assumes "queue_ok q" "queue_counted q" "next_sequence q < u64_max"
  shows "queue_ok (queue_step ev q)" "queue_counted (queue_step ev q)"
  using assms by (cases ev; simp add: chakra_inv)+

lemma queue_run_inv:
  assumes "queue_ok q" "queue_counted q" "next_sequence q + length evs \<le> u64_max"
  shows "queue_ok (queue_run evs q) \<and> queue_counted (queue_run evs q)"
  using assms
proof (induction evs arbitrary: q)
  case Nil
  then show ?case by (simp add: queue_run_def)
next
  case (Cons ev evs)
  have "next_sequence q < u64_max" using Cons.prems(3) by simp
  note step = queue_step_inv [OF Cons.prems(1,2) this, of ev]
  have "next_sequence (queue_step ev q) + length evs \<le> u64_max"
    using queue_step_next [of ev q] Cons.prems(3) by simp
  from Cons.IH [OF step this] show ?case by (simp add: queue_run_def)
qed

text \<open>The queued entries that arrived no later than sequence number \<open>s\<close>.\<close>

definition queued_upto :: "nat \<Rightarrow> 'a work_queue \<Rightarrow> nat" where
  "queued_upto s q =
     sum_list (map (\<lambda>c. length (filter (\<lambda>e. entry_sequence e \<le> s) (queue_classes q c))) work_class_all)"

text \<open>By instant \<open>T\<close> all of them have waited one aging interval per class they are short of.\<close>

definition aged_by :: "nat \<Rightarrow> nat \<Rightarrow> 'a work_queue \<Rightarrow> bool" where
  "aged_by T s q \<longleftrightarrow>
     (\<forall>c. \<forall>e\<in>set (queue_classes q c). entry_sequence e \<le> s \<longrightarrow>
        entry_enqueued e + work_class_index c * aging_after q \<le> T)"

definition pops_only_after :: "nat \<Rightarrow> 'a queue_event list \<Rightarrow> bool" where
  "pops_only_after T evs \<longleftrightarrow>
     list_all (\<lambda>ev. case ev of EvPush _ _ _ \<Rightarrow> True | EvPop now \<Rightarrow> T \<le> now | _ \<Rightarrow> False) evs"

definition pop_count :: "'a queue_event list \<Rightarrow> nat" where
  "pop_count evs = length (filter (\<lambda>ev. case ev of EvPop _ \<Rightarrow> True | _ \<Rightarrow> False) evs)"

lemma queued_upto_0: "queued_upto s q = 0 \<longleftrightarrow> (\<forall>c. \<forall>e\<in>set (queue_classes q c). s < entry_sequence e)"
proof -
  have "queued_upto s q = 0 \<longleftrightarrow>
      (\<forall>c\<in>set work_class_all. \<forall>e\<in>set (queue_classes q c). s < entry_sequence e)"
    by (auto simp: queued_upto_def filter_empty_conv not_le)
  then show ?thesis by (simp add: work_class_all_UNIV)
qed

lemma queued_upto_update:
  "queued_upto s (q\<lparr>queue_classes := (queue_classes q)(c := es)\<rparr>) +
     length (filter (\<lambda>e. entry_sequence e \<le> s) (queue_classes q c)) =
   queued_upto s q + length (filter (\<lambda>e. entry_sequence e \<le> s) es)"
  by (cases c) (simp_all add: queued_upto_def work_class_all_def)

lemma queued_upto_cong: "queue_classes q = queue_classes q' \<Longrightarrow> queued_upto s q = queued_upto s q'"
  by (simp add: queued_upto_def)

lemma push_keeps_older:
  assumes "s < next_sequence q"
  shows "queued_upto s (fst (queue_push c x t q)) = queued_upto s q"
proof -
  have "queued_upto s (fst (queue_push c x t q)) = queued_upto s
      (q\<lparr>queue_classes := queue_classes (fst (queue_push c x t q))\<rparr>)"
    by (rule queued_upto_cong) simp
  also have "\<dots> = queued_upto s q"
    using queued_upto_update [of s q c "queue_classes (fst (queue_push c x t q)) c"] assms
    by (auto simp: queue_push_def Let_def)
  finally show ?thesis .
qed

lemma pop_serves_older:
  assumes ok: "queue_ok q" and aged: "aged_by T s q" and aging: "0 < aging_after q"
    and T: "T \<le> now" and some: "0 < queued_upto s q"
  shows "Suc (queued_upto s (fst (queue_pop now q))) = queued_upto s q"
proof -
  from some obtain d g where g: "g \<in> set (queue_classes q d)" "entry_sequence g \<le> s"
    using queued_upto_0 [of s q] by (metis gr_implies_not0 not_le)
  then obtain f fs where f: "queue_classes q d = f # fs" by (cases "queue_classes q d") auto
  have fg: "entry_sequence f \<le> entry_sequence g"
    using queue_okD(5) [OF ok, of d] g(1) f by auto
  have fd: "entry_class f = d" using queue_okD(2) [OF ok, of f d] f by simp
  have "entry_enqueued f + work_class_index (entry_class f) * aging_after q \<le> now"
    using aged fg g f fd T unfolding aged_by_def by (metis le_trans list.set_intros(1))
  then have top: "effective_rank (aging_after q) now f = 4"
    by (rule effective_rank_top [OF aging])
  have "snd (queue_pop now q) \<noteq> None"
    using queue_pop_None [of now q "fst (queue_pop now q)"] f by (metis list.discI prod.collapse)
  then obtain q' x where pop: "queue_pop now q = (q', Some x)"
    by (metis not_None_eq prod.collapse)
  obtain c e es where ce: "queue_classes q c = e # es"
    "queue_classes q' = (queue_classes q)(c := es)"
    "effective_rank (aging_after q) now f < effective_rank (aging_after q) now e \<or>
     effective_rank (aging_after q) now f = effective_rank (aging_after q) now e \<and>
     entry_sequence e \<le> entry_sequence f"
    by (rule queue_pop_Some [OF ok pop]) (blast intro: that f)
  then have "entry_sequence e \<le> s"
    using top effective_rank_le [of "aging_after q" now e] fg g(2) by auto
  moreover have "queued_upto s q' = queued_upto s (q\<lparr>queue_classes := (queue_classes q)(c := es)\<rparr>)"
    by (rule queued_upto_cong) (simp add: ce(2))
  ultimately show ?thesis
    using queued_upto_update [of s q c es] ce(1) pop by simp
qed

lemma push_keeps_aged:
  assumes "aged_by T s q" "s < next_sequence q"
  shows "aged_by T s (fst (queue_push c x t q))"
  using assms by (auto simp: aged_by_def queue_push_def Let_def)

lemma pop_keeps_aged: "aged_by T s q \<Longrightarrow> aged_by T s (fst (queue_pop now q))"
  unfolding aged_by_def queue_pop_def
  by (auto simp: queue_take_def Let_def split: option.splits dest: in_set_takeD in_set_dropD)

lemma queue_step_frame:
  "pops_only_after T [ev] \<Longrightarrow> aging_after (queue_step ev q) = aging_after q"
  "pops_only_after T [ev] \<Longrightarrow> next_sequence q < u64_max \<Longrightarrow>
     next_sequence q \<le> next_sequence (queue_step ev q)"
  by (cases ev; auto simp: pops_only_after_def queue_push_def queue_pop_def queue_take_def Let_def
      sat_add64_Suc split: option.splits)+

lemma queue_run_serves:
  assumes "queue_ok q" "queue_counted q" "aged_by T s q" "0 < aging_after q"
    "s < next_sequence q" "next_sequence q + length evs \<le> u64_max" "pops_only_after T evs"
  shows "queued_upto s (queue_run evs q) = queued_upto s q - pop_count evs"
  using assms
proof (induction evs arbitrary: q)
  case Nil
  then show ?case by (simp add: queue_run_def pop_count_def)
next
  case (Cons ev evs)
  let ?q = "queue_step ev q"
  have bound: "next_sequence q < u64_max" using Cons.prems(6) by simp
  note inv = queue_step_inv [OF Cons.prems(1,2) bound, of ev]
  have one: "pops_only_after T [ev]" "pops_only_after T evs"
    using Cons.prems(7) by (simp_all add: pops_only_after_def)
  note frame = queue_step_frame [OF one(1)]
  have aged: "aged_by T s ?q"
    using Cons.prems(3,5) one(1)
    by (cases ev) (simp_all add: push_keeps_aged pop_keeps_aged pops_only_after_def)
  have next_q: "s < next_sequence ?q" using frame(2) [OF bound] Cons.prems(5) by simp
  have len: "next_sequence ?q + length evs \<le> u64_max"
    using queue_step_next [of ev q] Cons.prems(6) by simp
  have served: "queued_upto s ?q = queued_upto s q - pop_count [ev]"
  proof (cases ev)
    case (EvPop now)
    have T: "T \<le> now" using one(1) EvPop by (simp add: pops_only_after_def)
    show ?thesis
    proof (cases "queued_upto s q")
      case 0
      have "set (queue_classes ?q c) \<subseteq> set (queue_classes q c)" for c
        using EvPop by (auto simp: queue_pop_def queue_take_def Let_def split: option.splits
            dest: in_set_takeD in_set_dropD)
      then have "queued_upto s ?q = 0" using 0 unfolding queued_upto_0 by blast
      with 0 show ?thesis by simp
    next
      case (Suc n)
      with pop_serves_older [OF Cons.prems(1,3,4) T] EvPop show ?thesis
        by (simp add: pop_count_def)
    qed
  qed (use one(1) Cons.prems(5) in \<open>simp_all add: pops_only_after_def pop_count_def push_keeps_older\<close>)
  have "queued_upto s (queue_run evs ?q) = queued_upto s ?q - pop_count evs"
    using Cons.IH [OF inv aged _ next_q len one(2)] frame(1) Cons.prems(4) by simp
  with served show ?case
    by (simp add: queue_run_def pop_count_def split: queue_event.splits)
qed

lemma queue_step_capacity: "per_class_capacity (queue_step ev q) = per_class_capacity q"
proof (cases ev)
  case (EvPopWhere now P)
  have "per_class_capacity (fst (pop_where_from now P cs q)) = per_class_capacity q" for cs
    by (induction cs) (auto simp: queue_take_def Let_def split: option.splits)
  with EvPopWhere show ?thesis by (simp add: queue_pop_where_def)
next
  case (EvRetain P)
  then show ?thesis by (simp add: queue_retain_def work_class_all_def retain_class_fields)
qed (auto simp: queue_push_def queue_pop_def queue_take_def note_superseded_def Let_def
      split: option.splits)

lemma queue_run_capacity: "per_class_capacity (queue_run evs q) = per_class_capacity q"
  by (induction evs arbitrary: q) (simp_all add: queue_run_def queue_step_capacity)

lemma queue_new_next [simp]: "next_sequence (queue_new cap aging) = 0"
  by (simp add: queue_new_def)

lemma queue_run_new_inv:
  assumes "length evs \<le> u64_max"
  shows "queue_ok (queue_run evs (queue_new cap aging))"
    "queue_counted (queue_run evs (queue_new cap aging))"
  using assms queue_run_inv [OF queue_ok_new queue_counted_new, of cap aging evs] by simp_all

subsection \<open>Properties\<close>

text \<open>
  C2: Whatever sequence of pushes, pops, filtered pops, cancellations and superseded marks a
  worker performs on a fresh queue, no class ever holds more than its bound, entries stay
  in arrival order, and every admitted item is accounted for: as long as the admission
  counter has not saturated, admitted = dequeued + cancelled + still queued, per class.
\<close>

theorem queue_bounded_and_accounted:
  assumes "length evs \<le> u64_max"
  shows "length (queue_classes (queue_run evs (queue_new cap aging)) c) \<le> cap \<and>
    sorted_wrt (\<lambda>e f. entry_sequence e < entry_sequence f)
      (queue_classes (queue_run evs (queue_new cap aging)) c) \<and>
    (let m = for_class c (queue_metrics (queue_run evs (queue_new cap aging)))
     in enqueued m < u64_max \<longrightarrow>
        enqueued m = dequeued m + cancelled m +
          length (queue_classes (queue_run evs (queue_new cap aging)) c))"
proof -
  let ?q = "queue_run evs (queue_new cap aging)"
  have "queue_ok ?q" "queue_counted ?q"
    using assms by (rule queue_run_new_inv)+
  moreover have "per_class_capacity ?q = cap"
    by (simp add: queue_run_capacity queue_new_def)
  ultimately show ?thesis
    using queue_okD(1,5) [of ?q c] by (simp add: queue_counted_def Let_def)
qed

theorem queue_bounded_and_accounted_witness:
  "length (queue_classes (queue_run [EvPush Maintenance ''a'' 0, EvPush Maintenance ''b'' 1, EvPop 5]
     (queue_new 1 10)) Maintenance) \<le> 1"
  using queue_bounded_and_accounted
    [of "[EvPush Maintenance ''a'' 0, EvPush Maintenance ''b'' 1, EvPop 5]" 1 10 Maintenance]
  by (simp add: u64_max_def)

text \<open>
  C3: \<open>pop\<close> returns the front entry of one class, removes exactly that entry, and no front
  of any class has a higher effective urgency (class plus one step per aging interval
  waited), nor the same urgency with an earlier arrival; it returns nothing only when the
  queue is empty, and then changes nothing.
\<close>

theorem queue_pop_most_urgent:
  assumes "queue_ok q"
  shows "case queue_pop now q of
      (q', None) \<Rightarrow> q' = q \<and> (\<forall>c. queue_classes q c = [])
    | (q', Some x) \<Rightarrow> \<exists>c e es. queue_classes q c = e # es \<and> x = entry_item e \<and>
        queue_classes q' = (queue_classes q)(c := es) \<and>
        (\<forall>d f fs. queue_classes q d = f # fs \<longrightarrow>
           effective_rank (aging_after q) now f < effective_rank (aging_after q) now e \<or>
           effective_rank (aging_after q) now f = effective_rank (aging_after q) now e \<and>
           entry_sequence e \<le> entry_sequence f)"
proof (cases "queue_pop now q")
  case (Pair q' r)
  show ?thesis
  proof (cases r)
    case None
    with Pair queue_pop_None [of now q q'] show ?thesis by simp
  next
    case (Some x)
    with Pair have pop: "queue_pop now q = (q', Some x)" by simp
    obtain c e es where "queue_classes q c = e # es" "x = entry_item e"
      "queue_classes q' = (queue_classes q)(c := es)"
      and best: "\<And>d f fs. queue_classes q d = f # fs \<Longrightarrow>
        effective_rank (aging_after q) now f < effective_rank (aging_after q) now e \<or>
        effective_rank (aging_after q) now f = effective_rank (aging_after q) now e \<and>
        entry_sequence e \<le> entry_sequence f"
      by (rule queue_pop_Some [OF assms pop]) blast
    then show ?thesis
      unfolding Pair Some prod.case option.case by blast
  qed
qed

theorem queue_pop_most_urgent_witness:
  "snd (queue_pop 100 (queue_run [EvPush Maintenance ''old'' 0, EvPush FreshnessEdit ''new'' 99]
     (queue_new 4 10))) = Some ''old''"
proof -
  let ?q = "queue_run [EvPush Maintenance ''old'' 0, EvPush FreshnessEdit ''new'' 99] (queue_new 4 10)"
  have "queue_ok ?q"
    by (rule queue_run_new_inv) (simp add: u64_max_def)
  from queue_pop_most_urgent [OF this, of 100] show ?thesis
    by (simp add: queue_pop_def front_candidates_def queue_run_def queue_push_def queue_new_def
        work_class_all_def select_by_def effective_rank_def work_class_count_def to_u8_def
        u8_max_def sat_add8_def queue_take_def sat_add64_def u64_max_def)
qed

text \<open>
  C3: Freedom from starvation. Take any queued item and the items that arrived before it
  (sequence numbers up to \<open>s\<close>), and an instant \<open>T\<close> by which each of them has waited one
  aging interval per class it is short of the top. Then every later \<open>pop\<close> serves one of
  them, whatever is pushed meanwhile and at whatever urgency: after as many pops as there
  are such items, none of them is queued any more.
\<close>

theorem queue_no_starvation:
  assumes "queue_ok q" "queue_counted q" "0 < aging_after q" "s < next_sequence q"
    and "aged_by T s q" "pops_only_after T evs"
    and "next_sequence q + length evs \<le> u64_max"
    and "queued_upto s q \<le> pop_count evs"
  shows "\<forall>c. \<forall>e\<in>set (queue_classes (queue_run evs q) c). s < entry_sequence e"
proof -
  have "queued_upto s (queue_run evs q) = 0"
    using queue_run_serves [OF assms(1,2,5,3,4,7,6)] assms(8) by simp
  then show ?thesis unfolding queued_upto_0 .
qed

theorem queue_no_starvation_witness:
  "0 \<notin> entry_sequence ` set (queue_classes (queue_run [EvPush FreshnessEdit ''c'' 50, EvPop 60]
     (queue_run [EvPush Maintenance ''a'' 0, EvPush FreshnessEdit ''b'' 5] (queue_new 4 10)))
   Maintenance)"
proof -
  let ?new = "queue_new 4 10 :: string work_queue"
  let ?first = "[EvPush Maintenance ''a'' 0, EvPush FreshnessEdit ''b'' 5]"
  let ?q = "queue_run ?first ?new"
  let ?evs = "[EvPush FreshnessEdit ''c'' 50, EvPop 60]"
  have inv: "queue_ok ?q" "queue_counted ?q"
    by (rule queue_run_new_inv, simp add: u64_max_def)+
  have q: "queue_classes ?q = (\<lambda>_. [])(Maintenance := [\<lparr>entry_item = ''a'', entry_class = Maintenance,
        entry_enqueued = 0, entry_sequence = 0\<rparr>], FreshnessEdit := [\<lparr>entry_item = ''b'',
        entry_class = FreshnessEdit, entry_enqueued = 5, entry_sequence = 1\<rparr>])"
    "aging_after ?q = 10" "next_sequence ?q = 2"
    by (simp_all add: queue_run_def queue_push_def queue_new_def sat_add64_def u64_max_def)
  have "\<forall>c. \<forall>e\<in>set (queue_classes (queue_run ?evs ?q) c). 0 < entry_sequence e"
    by (rule queue_no_starvation [where T = 40])
      (use inv q in \<open>auto simp: aged_by_def pops_only_after_def u64_max_def queued_upto_def
        pop_count_def work_class_all_def\<close>)
  then show ?thesis by fastforce
qed

end
