(* ===== verification/Pool_State.thy ===== *)
theory Pool_State
  imports Work_Scheduling Operation_Context Query_Envelope Provider_Delta
begin

section \<open>Configuration and shared state of the provider pool\<close>

text \<open>
  \<open>chakra-provider-pool/src/config.rs\<close> and the data of \<open>lib.rs\<close>. A provider factory and the
  adapter it returns are code outside the pool: where the pool calls them, their outcome is
  an argument of the operation, so a registration keeps its declared facts only. A
  \<open>Duration\<close> is a number of nanoseconds and an \<open>Instant\<close> its distance from a common origin.
\<close>

subsection \<open>Configuration\<close>

record pool_config =
  pc_max_active_providers :: nat
  pc_max_active_providers_per_workspace :: nat
  pc_max_reserved_memory_bytes :: nat
  pc_max_reserved_memory_bytes_per_workspace :: nat
  pc_max_concurrent_queries :: nat
  pc_max_queued_queries :: nat
  pc_query_queue_timeout :: nat
  pc_idle_timeout :: nat
  pc_idle_poll_interval :: nat
  pc_activation_backoff_base :: nat
  pc_activation_backoff_max :: nat
  pc_shutdown_timeout :: nat

definition millis :: "nat \<Rightarrow> nat" where "millis n = n * 10 ^ 6"
definition seconds :: "nat \<Rightarrow> nat" where "seconds n = n * 10 ^ 9"

definition pool_config_default :: pool_config where
  "pool_config_default = \<lparr>
     pc_max_active_providers = 3,
     pc_max_active_providers_per_workspace = 3,
     pc_max_reserved_memory_bytes = 2 * 1024 * 1024 * 1024,
     pc_max_reserved_memory_bytes_per_workspace = 2 * 1024 * 1024 * 1024,
     pc_max_concurrent_queries = 4,
     pc_max_queued_queries = 16,
     pc_query_queue_timeout = seconds 1,
     pc_idle_timeout = seconds (5 * 60),
     pc_idle_poll_interval = seconds 5,
     pc_activation_backoff_base = millis 250,
     pc_activation_backoff_max = seconds 30,
     pc_shutdown_timeout = seconds 10\<rparr>"

datatype pool_config_error =
    ZeroBound
  | InvalidBackoff
  | NoLanguages string
  | ZeroReservation string
  | ReservationExceedsPool string nat nat
  | ReservationExceedsWorkspace string nat nat
  | RegisteredTwice language string string
  | DuplicateProvider string
  | DuplicateLanguage string language
  | ThreadSpawn string

datatype provider_start_error = StartCancelled | StartDeadlineExceeded | StartError string

definition start_error_new :: "string \<Rightarrow> provider_start_error" where
  "start_error_new message = StartError message"

fun start_error_abort :: "provider_start_error \<Rightarrow> op_abort option" where
  "start_error_abort StartCancelled = Some Cancelled"
| "start_error_abort StartDeadlineExceeded = Some DeadlineExceeded"
| "start_error_abort (StartError _) = None"

fun start_error_of_abort :: "op_abort \<Rightarrow> provider_start_error" where
  "start_error_of_abort Cancelled = StartCancelled"
| "start_error_of_abort DeadlineExceeded = StartDeadlineExceeded"

lemma start_error_abort_inverse [simp]: "start_error_abort (start_error_of_abort a) = Some a"
  by (cases a) simp_all

subsection \<open>Registrations\<close>

record registration =
  reg_name :: string
  reg_languages :: "language list"
  reg_reserved_memory_bytes :: nat
  reg_additional_wait_budget :: nat
  reg_path_filter :: "(language \<Rightarrow> repo_path \<Rightarrow> bool) option"

definition registration_new :: "string \<Rightarrow> language list \<Rightarrow> nat \<Rightarrow> registration" where
  "registration_new name langs reserved =
     \<lparr>reg_name = name, reg_languages = langs, reg_reserved_memory_bytes = reserved,
      reg_additional_wait_budget = 0, reg_path_filter = None\<rparr>"

definition with_additional_wait_budget :: "nat \<Rightarrow> registration \<Rightarrow> registration" where
  "with_additional_wait_budget budget r = r\<lparr>reg_additional_wait_budget := budget\<rparr>"

definition with_path_filter :: "(language \<Rightarrow> repo_path \<Rightarrow> bool) \<Rightarrow> registration \<Rightarrow> registration" where
  "with_path_filter f r = r\<lparr>reg_path_filter := Some f\<rparr>"

definition registration_supports_path :: "registration \<Rightarrow> language \<Rightarrow> repo_path \<Rightarrow> bool" where
  "registration_supports_path r l p \<longleftrightarrow>
     l \<in> set (reg_languages r) \<and>
     (case reg_path_filter r of None \<Rightarrow> True | Some f \<Rightarrow> f l p)"

subsection \<open>Validation\<close>

definition has_zero_bound :: "pool_config \<Rightarrow> bool" where
  "has_zero_bound c \<longleftrightarrow>
     pc_max_active_providers c = 0 \<or> pc_max_active_providers_per_workspace c = 0 \<or>
     pc_max_reserved_memory_bytes c = 0 \<or> pc_max_reserved_memory_bytes_per_workspace c = 0 \<or>
     pc_max_concurrent_queries c = 0 \<or> pc_max_queued_queries c = 0 \<or>
     pc_query_queue_timeout c = 0 \<or> pc_idle_timeout c = 0 \<or> pc_idle_poll_interval c = 0 \<or>
     pc_activation_backoff_base c = 0 \<or> pc_activation_backoff_max c = 0 \<or>
     pc_shutdown_timeout c = 0"

text \<open>The first language of the list that occurs earlier in it.\<close>

fun first_duplicate :: "language list \<Rightarrow> language list \<Rightarrow> language option" where
  "first_duplicate before [] = None"
| "first_duplicate before (l # ls) =
     (if l \<in> set before then Some l else first_duplicate (before @ [l]) ls)"

fun clash_with :: "registration \<Rightarrow> registration list \<Rightarrow> pool_config_error option" where
  "clash_with r [] = None"
| "clash_with r (p # ps) =
     (if reg_name p = reg_name r then Some (DuplicateProvider (reg_name r))
      else (case find (\<lambda>l. l \<in> set (reg_languages p)) (reg_languages r) of
              Some l \<Rightarrow> Some (RegisteredTwice l (reg_name p) (reg_name r))
            | None \<Rightarrow> clash_with r ps))"

definition registration_error ::
    "pool_config \<Rightarrow> registration list \<Rightarrow> registration \<Rightarrow> pool_config_error option" where
  "registration_error c previous r =
     (if reg_languages r = [] then Some (NoLanguages (reg_name r))
      else if reg_reserved_memory_bytes r = 0 then Some (ZeroReservation (reg_name r))
      else if pc_max_reserved_memory_bytes c < reg_reserved_memory_bytes r then
        Some (ReservationExceedsPool (reg_name r) (reg_reserved_memory_bytes r)
                (pc_max_reserved_memory_bytes c))
      else if pc_max_reserved_memory_bytes_per_workspace c < reg_reserved_memory_bytes r then
        Some (ReservationExceedsWorkspace (reg_name r) (reg_reserved_memory_bytes r)
                (pc_max_reserved_memory_bytes_per_workspace c))
      else (case first_duplicate [] (reg_languages r) of
              Some l \<Rightarrow> Some (DuplicateLanguage (reg_name r) l)
            | None \<Rightarrow> clash_with r previous))"

fun validate_registrations ::
    "pool_config \<Rightarrow> registration list \<Rightarrow> registration list \<Rightarrow> pool_config_error + unit" where
  "validate_registrations c previous [] = Inr ()"
| "validate_registrations c previous (r # rs) =
     (case registration_error c previous r of
        Some err \<Rightarrow> Inl err
      | None \<Rightarrow> validate_registrations c (previous @ [r]) rs)"

definition pool_validate :: "pool_config \<Rightarrow> registration list \<Rightarrow> pool_config_error + unit" where
  "pool_validate c rs =
     (if has_zero_bound c then Inl ZeroBound
      else if pc_activation_backoff_max c < pc_activation_backoff_base c then Inl InvalidBackoff
      else validate_registrations c [] rs)"

lemma first_duplicate_None:
  "first_duplicate before ls = None \<longleftrightarrow> distinct ls \<and> set ls \<inter> set before = {}"
  by (induction before ls rule: first_duplicate.induct) auto

lemma clash_with_None:
  "clash_with r ps = None \<longleftrightarrow>
     (\<forall>p\<in>set ps. reg_name p \<noteq> reg_name r \<and> set (reg_languages p) \<inter> set (reg_languages r) = {})"
  by (induction ps) (auto simp: find_None_iff find_Some_iff split: option.splits)

text \<open>What one accepted registration promises on its own.\<close>

definition registration_ok :: "pool_config \<Rightarrow> registration \<Rightarrow> bool" where
  "registration_ok c r \<longleftrightarrow>
     reg_languages r \<noteq> [] \<and> distinct (reg_languages r) \<and> 0 < reg_reserved_memory_bytes r \<and>
     reg_reserved_memory_bytes r \<le> pc_max_reserved_memory_bytes c \<and>
     reg_reserved_memory_bytes r \<le> pc_max_reserved_memory_bytes_per_workspace c"

definition registrations_disjoint :: "registration \<Rightarrow> registration \<Rightarrow> bool" where
  "registrations_disjoint p r \<longleftrightarrow>
     reg_name p \<noteq> reg_name r \<and> set (reg_languages p) \<inter> set (reg_languages r) = {}"

lemma registration_error_None:
  "registration_error c previous r = None \<longleftrightarrow>
     registration_ok c r \<and> (\<forall>p\<in>set previous. registrations_disjoint p r)"
proof (cases "first_duplicate [] (reg_languages r)")
  case None
  then have "distinct (reg_languages r)" by (simp add: first_duplicate_None)
  with None show ?thesis
    by (auto simp: registration_error_def registration_ok_def registrations_disjoint_def
        clash_with_None)
next
  case (Some l)
  then have "\<not> distinct (reg_languages r)"
    using first_duplicate_None [of "[]" "reg_languages r"] by simp
  with Some show ?thesis by (auto simp: registration_error_def registration_ok_def)
qed

lemma validate_registrations_Inr:
  "validate_registrations c previous rs = Inr () \<longleftrightarrow>
     (\<forall>r\<in>set rs. registration_ok c r) \<and>
     sorted_wrt registrations_disjoint rs \<and>
     (\<forall>p\<in>set previous. \<forall>r\<in>set rs. registrations_disjoint p r)"
proof (induction c previous rs rule: validate_registrations.induct)
  case (2 c previous r rs)
  show ?case
  proof (cases "registration_error c previous r")
    case None
    with 2 [OF this] show ?thesis
      using registration_error_None [of c previous r] by auto
  next
    case (Some e)
    then have "\<not> (registration_ok c r \<and> (\<forall>p\<in>set previous. registrations_disjoint p r))"
      by (simp flip: registration_error_None)
    with Some show ?thesis by auto
  qed
qed simp

subsection \<open>The shared state\<close>

datatype request_priority = PriorityBackground | PriorityNormal | PriorityInteractive

fun priority_index :: "request_priority \<Rightarrow> nat" where
  "priority_index PriorityBackground = 0"
| "priority_index PriorityNormal = 1"
| "priority_index PriorityInteractive = 2"

definition priority_count :: nat where "priority_count = 3"

lemma priority_index_le [simp]: "priority_index p \<le> 2"
  by (cases p) simp_all

lemma priority_index_inj: "priority_index a = priority_index b \<Longrightarrow> a = b"
  by (cases a; cases b) simp_all

instantiation request_priority :: linorder
begin

definition less_eq_request_priority :: "request_priority \<Rightarrow> request_priority \<Rightarrow> bool" where
  "a \<le> b \<longleftrightarrow> priority_index a \<le> priority_index b"

definition less_request_priority :: "request_priority \<Rightarrow> request_priority \<Rightarrow> bool" where
  "a < b \<longleftrightarrow> priority_index a < priority_index b"

instance
  by standard (auto simp: less_eq_request_priority_def less_request_priority_def
      intro: priority_index_inj)

end

record workspace_usage =
  wu_active :: nat
  wu_memory :: nat

record waiter =
  wt_sequence :: nat
  wt_priority :: request_priority
  wt_enqueued :: nat
  wt_boost :: nat

text \<open>The latency array indexed by \<open>priority.index()\<close> is a function of the priority.\<close>

record pool_state =
  po_active :: nat
  po_memory :: nat
  po_usage :: "(workspace_id, workspace_usage) omap"
  po_running :: nat
  po_waiters :: "waiter list"
  po_next_sequence :: nat
  po_activations :: nat
  po_activation_failures :: nat
  po_activation_timeouts :: nat
  po_idle_shutdowns :: nat
  po_resource_evictions :: nat
  po_shutdown_failures :: nat
  po_saturated_queries :: nat
  po_queue_timeouts :: nat
  po_cancelled_queries :: nat
  po_queue_latency :: "request_priority \<Rightarrow> queue_latency_stats"

definition workspace_usage_default :: workspace_usage where
  "workspace_usage_default = \<lparr>wu_active = 0, wu_memory = 0\<rparr>"

definition pool_state_default :: pool_state where
  "pool_state_default = \<lparr>
     po_active = 0, po_memory = 0, po_usage = [], po_running = 0, po_waiters = [],
     po_next_sequence = 0, po_activations = 0, po_activation_failures = 0,
     po_activation_timeouts = 0, po_idle_shutdowns = 0, po_resource_evictions = 0,
     po_shutdown_failures = 0, po_saturated_queries = 0, po_queue_timeouts = 0,
     po_cancelled_queries = 0, po_queue_latency = (\<lambda>_. latency_default)\<rparr>"

text \<open>The saturating counters \<open>x = x.saturating_add(1)\<close>.\<close>

definition count_saturated :: "pool_state \<Rightarrow> pool_state" where
  "count_saturated s = s\<lparr>po_saturated_queries := sat_add64 (po_saturated_queries s) 1\<rparr>"

definition count_cancelled :: "pool_state \<Rightarrow> pool_state" where
  "count_cancelled s = s\<lparr>po_cancelled_queries := sat_add64 (po_cancelled_queries s) 1\<rparr>"

definition count_queue_timeout :: "pool_state \<Rightarrow> pool_state" where
  "count_queue_timeout s = s\<lparr>po_queue_timeouts := sat_add64 (po_queue_timeouts s) 1\<rparr>"

lemma counted_frame [simp]:
  "po_running (count_saturated s) = po_running s" "po_waiters (count_saturated s) = po_waiters s"
  "po_next_sequence (count_saturated s) = po_next_sequence s"
  "po_active (count_saturated s) = po_active s" "po_memory (count_saturated s) = po_memory s"
  "po_usage (count_saturated s) = po_usage s"
  "po_running (count_cancelled s) = po_running s" "po_waiters (count_cancelled s) = po_waiters s"
  "po_next_sequence (count_cancelled s) = po_next_sequence s"
  "po_active (count_cancelled s) = po_active s" "po_memory (count_cancelled s) = po_memory s"
  "po_usage (count_cancelled s) = po_usage s"
  "po_running (count_queue_timeout s) = po_running s"
  "po_waiters (count_queue_timeout s) = po_waiters s"
  "po_next_sequence (count_queue_timeout s) = po_next_sequence s"
  "po_active (count_queue_timeout s) = po_active s" "po_memory (count_queue_timeout s) = po_memory s"
  "po_usage (count_queue_timeout s) = po_usage s"
  by (simp_all add: count_saturated_def count_cancelled_def count_queue_timeout_def)

end
