(* ===== verification/Pool_Admission.thy ===== *)
theory Pool_Admission
  imports Pool_State Step_Systems
begin

section \<open>Query admission of the provider pool\<close>

text \<open>
  \<open>Waiter\<close>, \<open>best_waiter\<close>, \<open>age_waiters\<close>, \<open>remove_waiter\<close>, \<open>PoolInner::admit\<close> and the drop of
  a \<open>QueryPermit\<close> of \<open>chakra-provider-pool/src/lib.rs\<close>. Every operation below is one critical
  section of the code: the mutex is held from its first read to its last write. \<open>admit\<close> is
  \<open>admit_entry\<close> followed, when the caller has to queue, by \<open>admit_turn\<close> each time its wait on
  the condition variable ends; other callers run between these sections.
\<close>

subsection \<open>Waiters\<close>

definition waiter_rank :: "waiter \<Rightarrow> nat" where
  "waiter_rank w = min (sat_add8 (priority_index (wt_priority w)) (wt_boost w)) (priority_count - 1)"

text \<open>\<open>max_by\<close> keeps the earlier of two elements only when it compares greater.\<close>

definition waiter_greater :: "waiter \<Rightarrow> waiter \<Rightarrow> bool" where
  "waiter_greater a b \<longleftrightarrow>
     waiter_rank b < waiter_rank a \<or>
     waiter_rank a = waiter_rank b \<and> wt_sequence a < wt_sequence b"

definition best_waiter_entry :: "waiter list \<Rightarrow> waiter option" where
  "best_waiter_entry ws = select_by (\<lambda>candidate current. \<not> waiter_greater current candidate) ws"

definition best_waiter :: "waiter list \<Rightarrow> nat option" where
  "best_waiter ws = map_option wt_sequence (best_waiter_entry ws)"

definition age_waiters :: "waiter list \<Rightarrow> waiter list" where
  "age_waiters ws = map (\<lambda>w. w\<lparr>wt_boost := sat_add8 (wt_boost w) 1\<rparr>) ws"

text \<open>\<open>Vec::swap_remove\<close>: the last element takes the place of the removed one.\<close>

definition swap_remove :: "nat \<Rightarrow> 'a list \<Rightarrow> 'a list" where
  "swap_remove i xs = butlast (xs[i := last xs])"

definition remove_waiter :: "nat \<Rightarrow> waiter list \<Rightarrow> waiter list \<times> waiter option" where
  "remove_waiter s ws =
     (case position_of (\<lambda>w. wt_sequence w = s) ws of
        None \<Rightarrow> (ws, None)
      | Some i \<Rightarrow> (swap_remove i ws, Some (ws ! i)))"

subsection \<open>Admission\<close>

datatype admission_failure =
    AdmissionStopped | AdmissionSaturated | AdmissionQueueTimeout | AdmissionCancelled

text \<open>What a section tells its caller: the call returns, or it stays queued as a waiter.\<close>

datatype admission =
    Admission "admission_failure + unit"
  | Queued nat

definition admission_context :: "nat \<Rightarrow> pool_config \<Rightarrow> op_context \<Rightarrow> op_world \<Rightarrow> op_context" where
  "admission_context horizon cfg ctx w = context_bounded_by horizon ctx (pc_query_queue_timeout cfg) w"

definition admission_abort :: "op_abort \<Rightarrow> pool_state \<Rightarrow> pool_state \<times> admission" where
  "admission_abort a st =
     (case a of
        Cancelled \<Rightarrow> (count_cancelled st, Admission (Inl AdmissionCancelled))
      | DeadlineExceeded \<Rightarrow> (count_queue_timeout st, Admission (Inl AdmissionQueueTimeout)))"

definition admit_entry ::
    "pool_config \<Rightarrow> bool \<Rightarrow> op_context \<Rightarrow> op_world \<Rightarrow> request_priority \<Rightarrow> pool_state
      \<Rightarrow> pool_state \<times> admission" where
  "admit_entry cfg stopped queue_ctx w prio st =
     (if stopped then (st, Admission (Inl AdmissionStopped))
      else (case context_check queue_ctx w of
        Inl a \<Rightarrow> admission_abort a st
      | Inr _ \<Rightarrow>
          if po_running st < pc_max_concurrent_queries cfg \<and> po_waiters st = [] then
            (st\<lparr>po_running := po_running st + 1\<rparr>, Admission (Inr ()))
          else if pc_max_queued_queries cfg \<le> length (po_waiters st) then
            (count_saturated st, Admission (Inl AdmissionSaturated))
          else
            (st\<lparr>po_next_sequence := sat_add64 (po_next_sequence st) 1,
                po_waiters := po_waiters st @
                  [\<lparr>wt_sequence = po_next_sequence st, wt_priority = prio,
                    wt_enqueued = world_now w, wt_boost = 0\<rparr>]\<rparr>,
             Queued (po_next_sequence st))))"

definition admit_turn ::
    "pool_config \<Rightarrow> bool \<Rightarrow> op_context \<Rightarrow> op_world \<Rightarrow> nat \<Rightarrow> pool_state \<Rightarrow> pool_state \<times> admission" where
  "admit_turn cfg stopped queue_ctx w s st =
     (let removed = remove_waiter s (po_waiters st);
          left = st\<lparr>po_waiters := fst removed\<rparr>
      in if stopped then (left, Admission (Inl AdmissionStopped))
         else (case context_check queue_ctx w of
           Inl a \<Rightarrow> admission_abort a left
         | Inr _ \<Rightarrow>
             if best_waiter (po_waiters st) = Some s \<and>
                po_running st < pc_max_concurrent_queries cfg then
               (left\<lparr>po_queue_latency :=
                       (case snd removed of
                          None \<Rightarrow> po_queue_latency st
                        | Some x \<Rightarrow> (po_queue_latency st)(wt_priority x :=
                            latency_record (world_now w - wt_enqueued x)
                              (po_queue_latency st (wt_priority x)))),
                     po_waiters := age_waiters (fst removed),
                     po_running := po_running st + 1\<rparr>,
                Admission (Inr ()))
             else (st, Queued s)))"

definition admission_poll_interval :: nat where "admission_poll_interval = millis 10"

text \<open>The longest sleep before the next turn: \<open>poll_timeout(..).unwrap_or(ZERO)\<close>.\<close>

definition admission_wait :: "op_context \<Rightarrow> op_world \<Rightarrow> nat" where
  "admission_wait queue_ctx w =
     (case poll_timeout queue_ctx admission_poll_interval w of Inl _ \<Rightarrow> 0 | Inr t \<Rightarrow> t)"

definition permit_drop :: "pool_state \<Rightarrow> pool_state" where
  "permit_drop st = st\<lparr>po_running := po_running st - 1\<rparr>"

text \<open>
  The loop of \<open>admit\<close>: before turn \<open>n\<close> the other callers change the state by \<open>others n\<close>, the
  stop flag reads \<open>stops n\<close> and the world is \<open>worlds n\<close>. \<open>None\<close>: still queued after the given
  number of turns.
\<close>

fun admit_loop ::
    "pool_config \<Rightarrow> (nat \<Rightarrow> pool_state \<Rightarrow> pool_state) \<Rightarrow> (nat \<Rightarrow> bool) \<Rightarrow> (nat \<Rightarrow> op_world) \<Rightarrow>
     op_context \<Rightarrow> nat \<Rightarrow> nat \<Rightarrow> nat \<Rightarrow> pool_state \<Rightarrow> pool_state \<times> (admission_failure + unit) option" where
  "admit_loop cfg others stops worlds q s n 0 st = (st, None)"
| "admit_loop cfg others stops worlds q s n (Suc turns) st =
     (case admit_turn cfg (stops n) q (worlds n) s (others n st) of
        (st', Admission r) \<Rightarrow> (st', Some r)
      | (st', Queued _) \<Rightarrow> admit_loop cfg others stops worlds q s (Suc n) turns st')"

subsection \<open>Lemmas on waiters\<close>

lemma waiter_rank_le [simp]: "waiter_rank w \<le> 2"
  by (simp add: waiter_rank_def priority_count_def)

lemma waiter_rank_eq: "waiter_rank w = min (priority_index (wt_priority w) + wt_boost w) 2"
  by (simp add: waiter_rank_def priority_count_def sat_add8_def u8_max_def min_def)

text \<open>The pool's choice is a ranked selection.\<close>

interpretation waiting: ranked_selection "\<lambda>_. True" waiter_rank wt_sequence 2 best_waiter_entry
proof (unfold_locales, goal_cases)
  case (1 ws) show ?case by (simp add: best_waiter_entry_def)
next
  case (2 ws w) then show ?case unfolding best_waiter_entry_def by (rule select_by_in)
next
  case (3 ws w x)
  let ?below = "\<lambda>a b. waiter_rank a < waiter_rank b \<or>
    waiter_rank a = waiter_rank b \<and> wt_sequence b \<le> wt_sequence a"
  show ?case
    by (rule select_by_best [OF 3(2) [unfolded best_waiter_entry_def] 3(3), where below = ?below])
      (auto simp: waiter_greater_def)
next
  case (4 w) show ?case by simp
qed

lemma best_waiter_Some:
  "best_waiter ws = Some s \<longleftrightarrow> (\<exists>w. best_waiter_entry ws = Some w \<and> wt_sequence w = s)"
  by (auto simp: best_waiter_def)

lemma mset_swap_remove: "i < length xs \<Longrightarrow> mset (swap_remove i xs) = mset xs - {#xs ! i#}"
proof -
  assume i: "i < length xs"
  then have "xs[i := last xs] \<noteq> []" by auto
  then have split: "mset (xs[i := last xs]) = mset (butlast (xs[i := last xs])) + {#last (xs[i := last xs])#}"
    by (metis append_butlast_last_id mset.simps(1) mset.simps(2) mset_append)
  have "last (xs[i := last xs]) = last xs"
    using i last_list_update [of xs i "last xs"] by (cases xs) simp_all
  with split i show ?thesis
    by (simp add: swap_remove_def mset_update)
qed

text \<open>
  The queue is well formed: sequence numbers are distinct and below the next one. Removal
  then takes out exactly the waiter of that number.
\<close>

definition waiters_ok :: "pool_state \<Rightarrow> bool" where
  "waiters_ok st \<longleftrightarrow> distinct (map wt_sequence (po_waiters st)) \<and>
     (\<forall>w\<in>set (po_waiters st). wt_sequence w < po_next_sequence st)"

lemma distinct_mset: "mset xs = mset ys \<Longrightarrow> distinct xs = distinct ys"
  by (metis distinct_count_atmost_1 set_mset_mset)

lemma remove_waiter_present:
  assumes "distinct (map wt_sequence ws)" "w \<in> set ws"
  shows "snd (remove_waiter (wt_sequence w) ws) = Some w"
    and "mset (fst (remove_waiter (wt_sequence w) ws)) = mset ws - {#w#}"
proof -
  obtain i where i: "position_of (\<lambda>x. wt_sequence x = wt_sequence w) ws = Some i"
    using assms(2) position_of_None [of "\<lambda>x. wt_sequence x = wt_sequence w" ws]
    by (cases "position_of (\<lambda>x. wt_sequence x = wt_sequence w) ws") auto
  from position_of_Some [OF i] have "i < length ws" "wt_sequence (ws ! i) = wt_sequence w" by auto
  with assms have "ws ! i = w" by (metis distinct_map inj_on_def nth_mem)
  with i \<open>i < length ws\<close> show "snd (remove_waiter (wt_sequence w) ws) = Some w"
    "mset (fst (remove_waiter (wt_sequence w) ws)) = mset ws - {#w#}"
    by (simp_all add: remove_waiter_def mset_swap_remove)
qed

lemma remove_waiter_absent:
  "s \<notin> wt_sequence ` set ws \<Longrightarrow> remove_waiter s ws = (ws, None)"
  using position_of_None [of "\<lambda>w. wt_sequence w = s" ws]
  by (auto simp: remove_waiter_def split: option.split)

lemma remove_waiter_filter:
  assumes "distinct (map wt_sequence ws)"
  shows "mset (fst (remove_waiter s ws)) = mset (filter (\<lambda>w. wt_sequence w \<noteq> s) ws)"
proof (cases "s \<in> wt_sequence ` set ws")
  case True
  then obtain w where w: "w \<in> set ws" "s = wt_sequence w" by auto
  have "filter (\<lambda>x. wt_sequence x \<noteq> wt_sequence w) ws = filter (\<lambda>x. x \<noteq> w) ws"
  proof (rule filter_cong [OF refl])
    fix x assume "x \<in> set ws"
    with assms w(1) show "(wt_sequence x \<noteq> wt_sequence w) = (x \<noteq> w)"
      by (auto simp: distinct_map dest: inj_onD)
  qed
  moreover have "distinct ws" using assms by (simp add: distinct_map)
  then have "remove1 w ws = filter (\<lambda>x. x \<noteq> w) ws"
    by (simp add: distinct_remove1_removeAll removeAll_filter_not_eq eq_commute)
  then have "mset ws - {#w#} = mset (filter (\<lambda>x. x \<noteq> w) ws)"
    by (simp only: mset_remove1 [symmetric])
  ultimately show ?thesis
    unfolding w(2) remove_waiter_present(2) [OF assms w(1)] by simp
next
  case False
  then have "filter (\<lambda>w. wt_sequence w \<noteq> s) ws = ws" by (intro filter_True) auto
  with remove_waiter_absent [OF False] show ?thesis by simp
qed

lemma remove_waiter_facts:
  assumes "distinct (map wt_sequence ws)"
  shows "set (fst (remove_waiter s ws)) = {w \<in> set ws. wt_sequence w \<noteq> s}"
    and "distinct (map wt_sequence (fst (remove_waiter s ws)))"
    and "length (fst (remove_waiter s ws)) \<le> length ws"
proof -
  note m = remove_waiter_filter [OF assms, of s]
  show "set (fst (remove_waiter s ws)) = {w \<in> set ws. wt_sequence w \<noteq> s}"
    using mset_eq_setD [OF m] by auto
  have "distinct (map wt_sequence (filter (\<lambda>w. wt_sequence w \<noteq> s) ws))"
    using assms by (simp add: distinct_map_filter)
  then show "distinct (map wt_sequence (fst (remove_waiter s ws)))"
    using m by (metis distinct_mset mset_map)
  show "length (fst (remove_waiter s ws)) \<le> length ws"
    using mset_eq_length [OF m] by simp
qed

lemma map_age_waiters [simp]: "map wt_sequence (age_waiters ws) = map wt_sequence ws"
  "length (age_waiters ws) = length ws"
  by (simp_all add: age_waiters_def)

end
