(* ===== verification/Admission_Properties.thy ===== *)
theory Admission_Properties
  imports Pool_Admission
begin

section \<open>Admission under concurrent callers\<close>

text \<open>
  Any number of callers run \<open>admit\<close> and drop their permits. Besides the pool state the system
  records what the code keeps in its callers: how many permits are alive, which calls are
  queued (by sequence number), and how many other calls have been admitted since each of
  them joined the queue, be it from the queue or on arrival. What a section reads outside the mutex (the stop flag, the context,
  the clock) is arbitrary, and the other operations of the pool may run in between, which
  touch neither the waiters nor the count of running queries.
\<close>

record admission_system =
  as_state :: pool_state
  as_permits :: nat
  as_calls :: "nat set"
  as_overtaken :: "nat \<Rightarrow> nat"

definition admission_start :: admission_system where
  "admission_start = \<lparr>as_state = pool_state_default, as_permits = 0, as_calls = {},
     as_overtaken = (\<lambda>_. 0)\<rparr>"

definition permits_after :: "admission \<Rightarrow> nat \<Rightarrow> nat" where
  "permits_after r n = (if r = Admission (Inr ()) then n + 1 else n)"

fun join_call :: "admission \<Rightarrow> admission_system \<Rightarrow> admission_system" where
  "join_call (Queued s) x =
     x\<lparr>as_calls := insert s (as_calls x), as_overtaken := (as_overtaken x)(s := 0)\<rparr>"
| "join_call (Admission r) x =
     x\<lparr>as_overtaken := (case r of Inl _ \<Rightarrow> as_overtaken x | Inr _ \<Rightarrow> (\<lambda>t. as_overtaken x t + 1))\<rparr>"

fun leave_call :: "nat \<Rightarrow> admission \<Rightarrow> admission_system \<Rightarrow> admission_system" where
  "leave_call s (Queued _) x = x"
| "leave_call s (Admission r) x =
     x\<lparr>as_calls := as_calls x - {s},
       as_overtaken := (case r of Inl _ \<Rightarrow> as_overtaken x | Inr _ \<Rightarrow> (\<lambda>t. as_overtaken x t + 1))\<rparr>"

definition same_admission :: "pool_state \<Rightarrow> pool_state \<Rightarrow> bool" where
  "same_admission st st' \<longleftrightarrow> po_running st' = po_running st \<and> po_waiters st' = po_waiters st \<and>
     po_next_sequence st' = po_next_sequence st"

inductive admission_step :: "pool_config \<Rightarrow> admission_system \<Rightarrow> admission_system \<Rightarrow> bool" for cfg where
  entry_step: "admit_entry cfg stopped q w prio (as_state x) = (st, r) \<Longrightarrow>
     admission_step cfg x ((join_call r x)\<lparr>as_state := st, as_permits := permits_after r (as_permits x)\<rparr>)"
| turn_step: "s \<in> as_calls x \<Longrightarrow> admit_turn cfg stopped q w s (as_state x) = (st, r) \<Longrightarrow>
     admission_step cfg x ((leave_call s r x)\<lparr>as_state := st, as_permits := permits_after r (as_permits x)\<rparr>)"
| drop_step: "0 < as_permits x \<Longrightarrow>
     admission_step cfg x (x\<lparr>as_state := permit_drop (as_state x), as_permits := as_permits x - 1\<rparr>)"
| other_step: "same_admission (as_state x) st \<Longrightarrow> admission_step cfg x (x\<lparr>as_state := st\<rparr>)"

lemma join_call_other [simp]:
  "as_permits (join_call r x) = as_permits x" "as_state (join_call r x) = as_state x"
  "as_calls (join_call (Admission b) x) = as_calls x"
  by (cases r; simp)+

lemma leave_call_other [simp]:
  "as_permits (leave_call s r x) = as_permits x" "as_state (leave_call s r x) = as_state x"
  by (cases r; simp)+

subsection \<open>The outcomes of the sections\<close>

lemma admit_entry_cases:
  assumes "admit_entry cfg stopped q w prio st = (st', r)"
  obtains (refused) f where "r = Admission (Inl f)" "same_admission st st'"
  | (running) "r = Admission (Inr ())" "po_running st < pc_max_concurrent_queries cfg"
      "po_waiters st = []" "st' = st\<lparr>po_running := po_running st + 1\<rparr>"
  | (queued) x where "r = Queued (po_next_sequence st)"
      "length (po_waiters st) < pc_max_queued_queries cfg"
      "x = \<lparr>wt_sequence = po_next_sequence st, wt_priority = prio, wt_enqueued = world_now w, wt_boost = 0\<rparr>"
      "po_waiters st' = po_waiters st @ [x]" "po_running st' = po_running st"
      "po_next_sequence st' = sat_add64 (po_next_sequence st) 1"
proof -
  consider "stopped" | a where "\<not> stopped" "context_check q w = Inl a"
    | "\<not> stopped" "context_check q w = Inr ()"
    by (cases stopped; cases "context_check q w") auto
  then show ?thesis
  proof cases
    case 1
    with assms show ?thesis by (intro refused) (auto simp: admit_entry_def same_admission_def)
  next
    case 2
    with assms show ?thesis
      by (cases a; intro refused) (auto simp: admit_entry_def admission_abort_def same_admission_def)
  next
    case 3
    with assms show ?thesis
      by (auto simp: admit_entry_def same_admission_def split: if_splits intro: refused running queued)
  qed
qed

lemma admit_turn_cases:
  assumes "admit_turn cfg stopped q w s st = (st', r)"
  obtains (refused) f where "r = Admission (Inl f)" "po_running st' = po_running st"
      "po_waiters st' = fst (remove_waiter s (po_waiters st))" "po_next_sequence st' = po_next_sequence st"
  | (running) "r = Admission (Inr ())" "po_running st < pc_max_concurrent_queries cfg"
      "best_waiter (po_waiters st) = Some s" "po_running st' = po_running st + 1"
      "po_waiters st' = age_waiters (fst (remove_waiter s (po_waiters st)))"
      "po_next_sequence st' = po_next_sequence st"
  | (waits) "r = Queued s" "st' = st"
proof -
  consider "stopped" | a where "\<not> stopped" "context_check q w = Inl a"
    | "\<not> stopped" "context_check q w = Inr ()"
    by (cases stopped; cases "context_check q w") auto
  then show ?thesis
  proof cases
    case 1
    with assms show ?thesis by (intro refused) (auto simp: admit_turn_def Let_def)
  next
    case 2
    with assms show ?thesis
      by (cases a; intro refused) (auto simp: admit_turn_def admission_abort_def Let_def)
  next
    case 3
    with assms show ?thesis
      by (auto simp: admit_turn_def Let_def split: if_splits intro: running waits)
  qed
qed

lemma length_remove_waiter: "length (fst (remove_waiter s ws)) \<le> length ws"
  by (simp add: remove_waiter_def swap_remove_def split: option.split)

subsection \<open>Bounds\<close>

definition admission_bounds :: "pool_config \<Rightarrow> admission_system \<Rightarrow> bool" where
  "admission_bounds cfg x \<longleftrightarrow>
     po_running (as_state x) = as_permits x \<and>
     po_running (as_state x) \<le> pc_max_concurrent_queries cfg \<and>
     length (po_waiters (as_state x)) \<le> pc_max_queued_queries cfg"

lemma admission_bounds_step:
  assumes "admission_bounds cfg x" "admission_step cfg x y"
  shows "admission_bounds cfg y"
  using assms(2)
proof cases
  case (entry_step stopped q w prio st r)
  from entry_step(2) show ?thesis
    by (cases rule: admit_entry_cases)
      (use assms(1) in \<open>simp_all add: entry_step(1) admission_bounds_def permits_after_def same_admission_def\<close>)
next
  case (turn_step s stopped q w st r)
  from turn_step(3) show ?thesis
    by (cases rule: admit_turn_cases)
      (use assms(1) length_remove_waiter [of s "po_waiters (as_state x)"] in
        \<open>simp_all add: turn_step(1) admission_bounds_def permits_after_def\<close>)
next
  case drop_step
  with assms(1) show ?thesis by (auto simp: admission_bounds_def permit_drop_def)
next
  case (other_step st)
  with assms(1) show ?thesis by (simp add: admission_bounds_def same_admission_def)
qed

subsection \<open>Fairness\<close>

definition older_waiters :: "waiter list \<Rightarrow> nat \<Rightarrow> nat" where
  "older_waiters ws s = size (filter_mset (\<lambda>v. wt_sequence v < s) (mset ws))"

text \<open>
  A waiter's boost is the number of admissions it has seen, and once these have brought it to
  the top urgency, each further one takes away a waiter older than itself.
\<close>

definition waiter_fair :: "pool_config \<Rightarrow> admission_system \<Rightarrow> waiter \<Rightarrow> bool" where
  "waiter_fair cfg x w \<longleftrightarrow>
     wt_boost w = min (as_overtaken x (wt_sequence w)) u8_max \<and>
     (as_overtaken x (wt_sequence w) - (2 - priority_index (wt_priority w))) +
       older_waiters (po_waiters (as_state x)) (wt_sequence w) < pc_max_queued_queries cfg"

definition admission_fair_inv :: "pool_config \<Rightarrow> admission_system \<Rightarrow> bool" where
  "admission_fair_inv cfg x \<longleftrightarrow>
     waiters_ok (as_state x) \<and> as_calls x = wt_sequence ` set (po_waiters (as_state x)) \<and>
     (\<forall>w\<in>set (po_waiters (as_state x)). waiter_fair cfg x w)"

lemma older_mono: "mset ws \<subseteq># mset vs \<Longrightarrow> older_waiters ws s \<le> older_waiters vs s"
  unfolding older_waiters_def by (intro size_mset_mono multiset_filter_mono)

lemma older_remove: "older_waiters (fst (remove_waiter s ws)) t \<le> older_waiters ws t"
  if "distinct (map wt_sequence ws)"
  by (rule older_mono) (simp add: remove_waiter_filter [OF that] mset_filter)

lemma older_remove_less:
  assumes "distinct (map wt_sequence ws)" "v \<in> set ws" "wt_sequence v < t"
  shows "older_waiters (fst (remove_waiter (wt_sequence v) ws)) t < older_waiters ws t"
proof -
  have "v \<in># filter_mset (\<lambda>x. wt_sequence x < t) (mset ws)" using assms(2,3) by simp
  from size_Diff1_less [OF this] show ?thesis
    using assms(3)
    by (simp add: older_waiters_def remove_waiter_present(2) [OF assms(1,2)])
qed

lemma older_age [simp]: "older_waiters (age_waiters ws) t = older_waiters ws t"
proof -
  have "image_mset wt_sequence (mset (age_waiters ws)) = image_mset wt_sequence (mset ws)"
    by (simp flip: mset_map)
  then have "size (filter_mset (\<lambda>n. n < t) (image_mset wt_sequence (mset (age_waiters ws)))) =
      size (filter_mset (\<lambda>n. n < t) (image_mset wt_sequence (mset ws)))" by simp
  then show ?thesis by (simp add: older_waiters_def filter_mset_image_mset comp_def)
qed

lemma fair_entry:
  assumes "admission_fair_inv cfg x" "admit_entry cfg stopped q w prio (as_state x) = (st, r)"
    "po_next_sequence st < u64_max"
  shows "admission_fair_inv cfg ((join_call r x)\<lparr>as_state := st, as_permits := p\<rparr>)"
  using assms(2)
proof (cases rule: admit_entry_cases)
  case (queued v)
  let ?n = "po_next_sequence (as_state x)" and ?ws = "po_waiters (as_state x)"
  have ok: "waiters_ok (as_state x)" and fair: "\<And>u. u \<in> set ?ws \<Longrightarrow> waiter_fair cfg x u"
    using assms(1) by (simp_all add: admission_fair_inv_def)
  have next_st: "po_next_sequence st = Suc ?n"
    using queued(6) assms(3) sat_add64_Suc_below [of ?n] by simp
  have below: "wt_sequence u < ?n" if "u \<in> set ?ws" for u
    using ok that by (simp add: waiters_ok_def)
  have same: "older_waiters (?ws @ [v]) (wt_sequence u) = older_waiters ?ws (wt_sequence u)"
    if "u \<in> set ?ws" for u
    using below [OF that] queued(3) by (simp add: older_waiters_def)
  have "older_waiters (?ws @ [v]) ?n \<le> length ?ws"
    using size_mset_mono [OF multiset_filter_subset, of "\<lambda>v. wt_sequence v < ?n" "mset ?ws"]
    by (simp add: older_waiters_def queued(3))
  then have new: "older_waiters (?ws @ [v]) ?n < pc_max_queued_queries cfg" using queued(2) by simp
  have "?n \<notin> wt_sequence ` set ?ws" using below by force
  then have "waiters_ok st"
    using ok unfolding waiters_ok_def next_st queued(4)
    by (auto simp: queued(3) less_Suc_eq)
  moreover have "waiter_fair cfg ((join_call r x)\<lparr>as_state := st, as_permits := p\<rparr>) u"
    if "u \<in> set (?ws @ [v])" for u
  proof (cases "u = v")
    case True
    with new show ?thesis by (simp add: waiter_fair_def queued(1,3,4))
  next
    case False
    with that have u: "u \<in> set ?ws" by simp
    have "wt_sequence u \<noteq> ?n" using below [OF u] by simp
    with fair [OF u] show ?thesis by (simp add: waiter_fair_def queued(1,4) same [OF u])
  qed
  ultimately show ?thesis
    using assms(1) by (auto simp: admission_fair_inv_def queued(1,3,4))
qed (use assms(1) in \<open>simp_all add: admission_fair_inv_def waiter_fair_def waiters_ok_def same_admission_def\<close>)

text \<open>A waiter that stays queued while another one is admitted.\<close>

lemma fair_overtaken:
  assumes ok: "waiters_ok st" and best: "best_waiter (po_waiters st) = Some s"
    and w: "w \<in> set (po_waiters st)" "wt_sequence w \<noteq> s"
    and boost: "wt_boost w = min a u8_max"
    and room: "(a - (2 - priority_index (wt_priority w))) + older_waiters (po_waiters st) (wt_sequence w) < m"
  shows "(Suc a - (2 - priority_index (wt_priority w))) +
    older_waiters (fst (remove_waiter s (po_waiters st))) (wt_sequence w) < m"
proof -
  have d: "distinct (map wt_sequence (po_waiters st))" using ok by (simp add: waiters_ok_def)
  obtain v where v: "best_waiter_entry (po_waiters st) = Some v" "wt_sequence v = s"
    using best unfolding best_waiter_Some by blast
  have v_in: "v \<in> set (po_waiters st)" by (rule waiting.select_in [OF v(1)])
  show ?thesis
  proof (cases "waiter_rank w = 2")
    case True
    have "wt_sequence v \<le> wt_sequence w"
      using waiting.select_before_top [OF _ v(1) w(1) True] by simp
    with w(2) v(2) have "wt_sequence v < wt_sequence w" by simp
    from older_remove_less [OF d v_in this] room show ?thesis
      unfolding v(2) by linarith
  next
    case False
    then have "priority_index (wt_priority w) + wt_boost w < 2"
      using waiter_rank_eq [of w] by (simp add: min_def split: if_splits)
    then have "Suc a - (2 - priority_index (wt_priority w)) = 0"
      using boost by (auto simp: u8_max_def min_def split: if_splits)
    with older_remove [OF d, of s "wt_sequence w"] room show ?thesis by linarith
  qed
qed

lemma fair_turn:
  assumes "admission_fair_inv cfg x" "admit_turn cfg stopped q w s (as_state x) = (st, r)"
  shows "admission_fair_inv cfg ((leave_call s r x)\<lparr>as_state := st, as_permits := p\<rparr>)"
proof -
  let ?ws = "po_waiters (as_state x)"
  have ok: "waiters_ok (as_state x)" and d: "distinct (map wt_sequence ?ws)"
    and calls: "as_calls x = wt_sequence ` set ?ws"
    and fair: "\<And>u. u \<in> set ?ws \<Longrightarrow> waiter_fair cfg x u"
    using assms(1) by (simp_all add: admission_fair_inv_def waiters_ok_def)
  note rm = remove_waiter_facts [OF d, of s]
  show ?thesis
    using assms(2)
  proof (cases rule: admit_turn_cases)
    case (refused f)
    have "waiter_fair cfg ((leave_call s r x)\<lparr>as_state := st, as_permits := p\<rparr>) u"
      if "u \<in> set (fst (remove_waiter s ?ws))" for u
      using fair [of u] that older_remove [OF d, of s "wt_sequence u"]
      by (auto simp: waiter_fair_def refused rm(1))
    moreover have "waiters_ok st"
      using ok rm(1,2) by (auto simp: waiters_ok_def refused)
    ultimately show ?thesis
      by (auto simp: admission_fair_inv_def refused(1,3) rm(1) calls)
  next
    case running
    let ?left = "fst (remove_waiter s ?ws)"
    have seqs: "wt_sequence ` set (age_waiters ?left) = wt_sequence ` set ?left"
      by (metis list.set_map map_age_waiters(1))
    have "waiter_fair cfg ((leave_call s r x)\<lparr>as_state := st, as_permits := p\<rparr>)
        (u\<lparr>wt_boost := sat_add8 (wt_boost u) 1\<rparr>)" if "u \<in> set ?left" for u
    proof -
      have u: "u \<in> set ?ws" "wt_sequence u \<noteq> s" using that rm(1) by auto
      have f: "wt_boost u = min (as_overtaken x (wt_sequence u)) u8_max"
        "(as_overtaken x (wt_sequence u) - (2 - priority_index (wt_priority u))) +
           older_waiters ?ws (wt_sequence u) < pc_max_queued_queries cfg"
        using fair [OF u(1)] by (simp_all add: waiter_fair_def)
      from fair_overtaken [OF ok running(3) u f] f(1) show ?thesis
        by (simp add: waiter_fair_def running sat_add8_def min_def)
    qed
    then have "\<forall>u\<in>set (age_waiters ?left).
        waiter_fair cfg ((leave_call s r x)\<lparr>as_state := st, as_permits := p\<rparr>) u"
      by (simp add: age_waiters_def)
    moreover have "waiters_ok st"
      using ok by (simp add: waiters_ok_def running rm(2)) (auto simp: age_waiters_def rm(1))
    ultimately show ?thesis
      using seqs by (auto simp: admission_fair_inv_def running(1,5) rm(1) calls)
  next
    case waits
    with assms(1) show ?thesis
      by (simp add: admission_fair_inv_def waiter_fair_def)
  qed
qed

definition admission_inv :: "pool_config \<Rightarrow> admission_system \<Rightarrow> bool" where
  "admission_inv cfg x \<longleftrightarrow> admission_bounds cfg x \<and>
     (po_next_sequence (as_state x) < u64_max \<longrightarrow> admission_fair_inv cfg x)"

lemma admission_next_mono:
  assumes "admission_step cfg x y" "po_next_sequence (as_state y) < u64_max"
  shows "po_next_sequence (as_state x) < u64_max"
  using assms(1)
proof cases
  case (entry_step stopped q w prio st r)
  from entry_step(2) show ?thesis
    by (cases rule: admit_entry_cases)
      (use assms(2) in \<open>auto simp: entry_step(1) same_admission_def dest: sat_add64_Suc_below\<close>)
next
  case (turn_step s stopped q w st r)
  from turn_step(3) show ?thesis
    by (cases rule: admit_turn_cases) (use assms(2) in \<open>simp_all add: turn_step(1)\<close>)
qed (use assms(2) in \<open>simp_all add: permit_drop_def same_admission_def\<close>)

lemma admission_fair_step:
  assumes "admission_fair_inv cfg x" "admission_step cfg x y" "po_next_sequence (as_state y) < u64_max"
  shows "admission_fair_inv cfg y"
  using assms(2)
proof cases
  case (entry_step stopped q w prio st r)
  from fair_entry [OF assms(1) entry_step(2)] assms(3) show ?thesis by (simp add: entry_step(1))
next
  case (turn_step s stopped q w st r)
  from fair_turn [OF assms(1) turn_step(3)] show ?thesis by (simp add: turn_step(1))
qed (use assms(1) in \<open>simp_all add: admission_fair_inv_def waiter_fair_def waiters_ok_def
      permit_drop_def same_admission_def\<close>)

interpretation admissions: step_invariant admission_start "admission_step cfg" "admission_inv cfg" for cfg
proof (unfold_locales, goal_cases)
  case 1 show ?case
    by (simp add: admission_inv_def admission_bounds_def admission_fair_inv_def waiters_ok_def
        admission_start_def pool_state_default_def)
next
  case (2 x y)
  then show ?case
    using admission_bounds_step admission_next_mono admission_fair_step
    unfolding admission_inv_def by blast
qed

subsection \<open>Properties\<close>

text \<open>
  C32: Admission is bounded and fair. However callers interleave, no more queries run than
  allowed, every running query is an outstanding permit, the queue holds at most its bound
  and exactly the calls that wait in it; and while a call of priority \<open>p\<close> is queued, at most
  \<open>max_queued_queries + 1 - index p\<close> other calls are admitted, whether from the queue or on
  arrival (newcomers do not pass a queue that is not empty), whatever arrives meanwhile.
\<close>

theorem admission_bounded_fair:
  assumes "reachable_from admission_start (admission_step cfg) x"
    and "po_next_sequence (as_state x) < u64_max"
  shows "po_running (as_state x) = as_permits x \<and>
    as_permits x \<le> pc_max_concurrent_queries cfg \<and>
    length (po_waiters (as_state x)) \<le> pc_max_queued_queries cfg \<and>
    as_calls x = wt_sequence ` set (po_waiters (as_state x)) \<and>
    distinct (map wt_sequence (po_waiters (as_state x))) \<and>
    (\<forall>w\<in>set (po_waiters (as_state x)).
       as_overtaken x (wt_sequence w) \<le> pc_max_queued_queries cfg + 1 - priority_index (wt_priority w))"
proof -
  have inv: "admission_bounds cfg x" "admission_fair_inv cfg x"
    using admissions.inv_reachable [OF assms(1)] assms(2) by (simp_all add: admission_inv_def)
  have "as_overtaken x (wt_sequence w) \<le> pc_max_queued_queries cfg + 1 - priority_index (wt_priority w)"
    if "w \<in> set (po_waiters (as_state x))" for w
  proof -
    have "(as_overtaken x (wt_sequence w) - (2 - priority_index (wt_priority w))) < pc_max_queued_queries cfg"
      using inv(2) that by (auto simp: admission_fair_inv_def waiter_fair_def)
    then show ?thesis using priority_index_le [of "wt_priority w"] by linarith
  qed
  with inv show ?thesis
    by (simp add: admission_bounds_def admission_fair_inv_def waiters_ok_def)
qed

text \<open>
  Two callers at a pool that runs one query: the second one queues, the first one leaves.
\<close>

definition sample_pool_config :: pool_config where
  "sample_pool_config = pool_config_default\<lparr>pc_max_concurrent_queries := 1\<rparr>"

definition sample_world :: "nat \<Rightarrow> op_world" where
  "sample_world now = \<lparr>world_cancelled = (\<lambda>_. False), world_now = now\<rparr>"

definition sample_queued :: admission_system where
  "sample_queued =
     (let x1 = admission_start\<lparr>as_state := pool_state_default\<lparr>po_running := 1\<rparr>, as_permits := 1,
                 as_overtaken := (\<lambda>_. 1)\<rparr>
      in (join_call (Queued 0) x1)\<lparr>as_state := fst (admit_entry sample_pool_config False
            (context_unbounded 0) (sample_world 5) PriorityBackground (as_state x1)), as_permits := 1\<rparr>)"

lemma sample_queued_reachable:
  "reachable_from admission_start (admission_step sample_pool_config) sample_queued"
proof -
  let ?x1 = "admission_start\<lparr>as_state := pool_state_default\<lparr>po_running := 1\<rparr>, as_permits := 1,
    as_overtaken := (\<lambda>_. 1)\<rparr>"
  have "admit_entry sample_pool_config False (context_unbounded 0) (sample_world 5) PriorityNormal
      (as_state admission_start) = (pool_state_default\<lparr>po_running := 1\<rparr>, Admission (Inr ()))"
    by (simp add: admit_entry_def admission_start_def pool_state_default_def sample_pool_config_def
        pool_config_default_def context_check_def context_unbounded_def sample_world_def)
  from admission_step.entry_step [OF this]
  have 1: "admission_step sample_pool_config admission_start ?x1"
    by (simp add: permits_after_def admission_start_def)
  have "admit_entry sample_pool_config False (context_unbounded 0) (sample_world 5) PriorityBackground
      (as_state ?x1) = (as_state sample_queued, Queued 0)"
    by (simp add: admit_entry_def sample_queued_def Let_def pool_state_default_def sample_pool_config_def
        pool_config_default_def context_check_def context_unbounded_def sample_world_def)
  from admission_step.entry_step [OF this]
  have 2: "admission_step sample_pool_config ?x1 sample_queued"
    by (simp add: permits_after_def sample_queued_def Let_def)
  have "reachable_from admission_start (admission_step sample_pool_config) ?x1"
    using reachable_start 1 by (rule reachable_step)
  then show ?thesis using 2 by (rule reachable_step)
qed

theorem admission_bounded_fair_witness:
  "as_calls sample_queued = wt_sequence ` set (po_waiters (as_state sample_queued)) \<and>
   as_overtaken sample_queued 0 \<le> 17"
proof -
  have w: "po_waiters (as_state sample_queued) = [\<lparr>wt_sequence = 0, wt_priority = PriorityBackground,
      wt_enqueued = 5, wt_boost = 0\<rparr>]" "po_next_sequence (as_state sample_queued) = 1"
    by (simp_all add: sample_queued_def Let_def admit_entry_def pool_state_default_def
        sample_pool_config_def pool_config_default_def context_check_def context_unbounded_def
        sample_world_def sat_add64_def u64_max_def)
  have "po_next_sequence (as_state sample_queued) < u64_max" by (simp add: w u64_max_def)
  from admission_bounded_fair [OF sample_queued_reachable this] show ?thesis
    by (simp add: w sample_pool_config_def pool_config_default_def)
qed

lemma admission_deadline:
  assumes "world_now w0 + pc_query_queue_timeout cfg \<le> horizon"
    "world_now w0 + pc_query_queue_timeout cfg \<le> world_now w"
  shows "\<exists>a. context_check (admission_context horizon cfg ctx w0) w = Inl a"
  using assms
  by (auto simp: admission_context_def context_bounded_by_def instant_checked_add_def
      context_check_def Let_def min_le_iff_disj split: option.split)

lemma admit_turn_abort:
  assumes "context_check q w = Inl a"
  shows "\<exists>st' f. admit_turn cfg stopped q w s st = (st', Admission (Inl f))"
  using assms by (cases a) (auto simp: admit_turn_def admission_abort_def Let_def)

text \<open>
  C33: Admission always returns. A call whose wait budget could be added to the clock leaves
  the loop at the latest in the first turn it takes after that budget, with an outcome,
  whatever the other callers do; between two turns it sleeps ten milliseconds at most.
\<close>

theorem admission_returns:
  assumes "world_now w0 + pc_query_queue_timeout cfg \<le> horizon"
    and "k < turns" "world_now w0 + pc_query_queue_timeout cfg \<le> world_now (worlds (n + k))"
  shows "(\<exists>r. snd (admit_loop cfg others stops worlds (admission_context horizon cfg ctx w0) s n turns st) = Some r) \<and>
    admission_wait (admission_context horizon cfg ctx w0) w \<le> millis 10"
proof
  let ?q = "admission_context horizon cfg ctx w0"
  show "\<exists>r. snd (admit_loop cfg others stops worlds ?q s n turns st) = Some r"
    using assms(2,3)
  proof (induction turns arbitrary: n k st)
    case (Suc turns)
    obtain st' r where t: "admit_turn cfg (stops n) ?q (worlds n) s (others n st) = (st', r)"
      by fastforce
    show ?case
    proof (cases k)
      case 0
      with Suc.prems(2) obtain a where "context_check ?q (worlds n) = Inl a"
        using admission_deadline [OF assms(1), of "worlds n" ctx] by auto
      from admit_turn_abort [OF this] obtain st1 f where
        "admit_turn cfg (stops n) ?q (worlds n) s (others n st) = (st1, Admission (Inl f))" by blast
      then show ?thesis by simp
    next
      case (Suc k')
      with Suc.prems Suc.IH [of k' "Suc n" st'] t show ?thesis by (cases r) simp_all
    qed
  qed simp
  show "admission_wait ?q w \<le> millis 10"
    using poll_timeout_bounded [of ?q admission_poll_interval w]
    by (auto simp: admission_wait_def admission_poll_interval_def split: sum.split)
qed

theorem admission_returns_witness:
  "\<exists>r. snd (admit_loop sample_pool_config (\<lambda>_ st. st) (\<lambda>_. False) (\<lambda>n. sample_world (seconds n))
     (admission_context (seconds 100) sample_pool_config (context_unbounded 0) (sample_world 0)) 0 0 3
     (as_state sample_queued)) = Some r"
  by (rule conjunct1, rule admission_returns [where k = 2])
    (simp_all add: sample_world_def sample_pool_config_def pool_config_default_def seconds_def)

end
