(* ===== verification/Provider_Pool.thy ===== *)
theory Provider_Pool
  imports Pool_Admission
begin

section \<open>Slots, activation, eviction and capacity of the provider pool\<close>

text \<open>
  The rest of \<open>chakra-provider-pool/src/lib.rs\<close>. A slot is the place of one provider of one
  worktree; the slot vector only grows, so a slot is its index. An adapter is a value of the
  type \<open>'p\<close>: its name, the languages it supports and the outcomes of its \<open>shutdown\<close> and of the
  factory are arguments. Each operation below is a section that holds the slot's mutex (and
  the pool's, nested) from its first access to its last; two sections that only differ by
  counters of the metrics are written as one. \<open>Provider_Leases\<close> and \<open>Pool_Capacity\<close> run these
  sections concurrently.
\<close>

record 'p slot_runtime =
  sr_provider :: "'p option"
  sr_activating :: bool
  sr_in_flight :: nat
  sr_last_used :: nat
  sr_consecutive_failures :: nat
  sr_retry_after :: "nat option"
  sr_last_error :: "string option"

definition slot_runtime_default :: "nat \<Rightarrow> 'p slot_runtime" where
  "slot_runtime_default now =
     \<lparr>sr_provider = None, sr_activating = False, sr_in_flight = 0, sr_last_used = now,
      sr_consecutive_failures = 0, sr_retry_after = None, sr_last_error = None\<rparr>"

record 'p provider_slot =
  sl_workspace :: workspace_identity
  sl_registration :: registration
  sl_runtime :: "'p slot_runtime"

record 'p provider_pool =
  pl_config :: pool_config
  pl_registrations :: "registration list"
  pl_slots :: "'p provider_slot list"
  pl_state :: pool_state
  pl_stopped :: bool

definition empty_pool :: "pool_config \<Rightarrow> registration list \<Rightarrow> 'p provider_pool" where
  "empty_pool cfg rs = \<lparr>pl_config = cfg, pl_registrations = rs, pl_slots = [],
     pl_state = pool_state_default, pl_stopped = False\<rparr>"

text \<open>\<open>ProviderPool::start\<close>, without the thread of the reaper.\<close>

definition pool_start :: "pool_config \<Rightarrow> registration list \<Rightarrow> pool_config_error + 'p provider_pool" where
  "pool_start cfg rs =
     (case pool_validate cfg rs of Inl e \<Rightarrow> Inl e | Inr _ \<Rightarrow> Inr (empty_pool cfg rs))"

definition slot_of :: "'p provider_pool \<Rightarrow> nat \<Rightarrow> 'p provider_slot" where
  "slot_of pl i = pl_slots pl ! i"

definition runtime_of :: "'p provider_pool \<Rightarrow> nat \<Rightarrow> 'p slot_runtime" where
  "runtime_of pl i = sl_runtime (slot_of pl i)"

definition reservation_of :: "'p provider_pool \<Rightarrow> nat \<Rightarrow> nat" where
  "reservation_of pl i = reg_reserved_memory_bytes (sl_registration (slot_of pl i))"

definition slot_workspace :: "'p provider_pool \<Rightarrow> nat \<Rightarrow> workspace_id" where
  "slot_workspace pl i = wi_workspace (sl_workspace (slot_of pl i))"

definition set_runtime :: "nat \<Rightarrow> 'p slot_runtime \<Rightarrow> 'p provider_pool \<Rightarrow> 'p provider_pool" where
  "set_runtime i rt pl =
     pl\<lparr>pl_slots := (pl_slots pl)[i := (slot_of pl i)\<lparr>sl_runtime := rt\<rparr>]\<rparr>"

definition on_state :: "(pool_state \<Rightarrow> pool_state) \<Rightarrow> 'p provider_pool \<Rightarrow> 'p provider_pool" where
  "on_state f pl = pl\<lparr>pl_state := f (pl_state pl)\<rparr>"

subsection \<open>Workspace handles\<close>

datatype pool_workspace_error = PoolStopped | IdentityConflict workspace_id

definition providers_for ::
    "nat \<Rightarrow> workspace_identity \<Rightarrow> 'p provider_pool \<Rightarrow>
     (pool_workspace_error + nat list) \<times> 'p provider_pool" where
  "providers_for now ident pl =
     (if pl_stopped pl then (Inl PoolStopped, pl)
      else
        (let existing = filter (\<lambda>i. slot_workspace pl i = wi_workspace ident) [0..<length (pl_slots pl)]
         in if existing \<noteq> [] then
              (if \<exists>i\<in>set existing. sl_workspace (slot_of pl i) \<noteq> ident
               then (Inl (IdentityConflict (wi_workspace ident)), pl)
               else (Inr existing, pl))
            else
              (let created = map (\<lambda>r. \<lparr>sl_workspace = ident, sl_registration = r,
                     sl_runtime = slot_runtime_default now\<rparr>) (pl_registrations pl)
               in (Inr [length (pl_slots pl)..<length (pl_slots pl) + length created],
                   pl\<lparr>pl_slots := pl_slots pl @ created\<rparr>))))"

definition pooled_supports :: "'p provider_pool \<Rightarrow> nat \<Rightarrow> language \<Rightarrow> bool" where
  "pooled_supports pl i l \<longleftrightarrow> l \<in> set (reg_languages (sl_registration (slot_of pl i)))"

definition pooled_supports_path :: "'p provider_pool \<Rightarrow> nat \<Rightarrow> language \<Rightarrow> repo_path \<Rightarrow> bool" where
  "pooled_supports_path pl i l p = registration_supports_path (sl_registration (slot_of pl i)) l p"

definition pooled_state_for ::
    "('p \<Rightarrow> revision \<Rightarrow> provider_state) \<Rightarrow> nat \<Rightarrow> revision \<Rightarrow> nat \<Rightarrow> 'p provider_pool \<Rightarrow> provider_state" where
  "pooled_state_for state_for now revision i pl =
     (let rt = runtime_of pl i in
      if pl_stopped pl then ProviderDegraded
      else if sr_last_error rt \<noteq> None \<and> sr_provider rt \<noteq> None then ProviderDegraded
      else (case sr_provider rt of
              Some p \<Rightarrow> state_for p revision
            | None \<Rightarrow>
                if sr_activating rt then ProviderInitializing
                else (case sr_retry_after rt of
                        Some t \<Rightarrow> if now < t then ProviderDegraded else Dormant
                      | None \<Rightarrow> Dormant)))"

definition pooled_last_error :: "('p \<Rightarrow> string option) \<Rightarrow> nat \<Rightarrow> 'p provider_pool \<Rightarrow> string option" where
  "pooled_last_error last_error i pl =
     (let rt = runtime_of pl i in
      case sr_last_error rt of
        Some e \<Rightarrow> Some e
      | None \<Rightarrow> (case sr_provider rt of Some p \<Rightarrow> last_error p | None \<Rightarrow> None))"

text \<open>\<open>Duration::MAX\<close>, and the budget a query may wait for precision.\<close>

definition duration_max :: nat where "duration_max = 2 ^ 64 * 10 ^ 9 - 1"

definition query_wait_budget :: "nat \<Rightarrow> 'p provider_pool \<Rightarrow> nat" where
  "query_wait_budget i pl =
     min (pc_query_queue_timeout (pl_config pl) +
          reg_additional_wait_budget (sl_registration (slot_of pl i))) duration_max"

subsection \<open>Capacity\<close>

definition usage_of :: "workspace_id \<Rightarrow> pool_state \<Rightarrow> workspace_usage" where
  "usage_of ws st = omap_get_or workspace_usage_default (po_usage st) ws"

text \<open>
  One turn of \<open>reserve_capacity\<close>: either the reservation is taken, or the turn says whether the
  worktree's own limits are in the way.
\<close>

definition try_reserve ::
    "pool_config \<Rightarrow> workspace_id \<Rightarrow> nat \<Rightarrow> pool_state \<Rightarrow> (bool + unit) \<times> pool_state" where
  "try_reserve cfg ws reservation st =
     (let usage = usage_of ws st;
          global_active = po_active st < pc_max_active_providers cfg;
          global_memory = sat_add64 (po_memory st) reservation \<le> pc_max_reserved_memory_bytes cfg;
          workspace_active = wu_active usage < pc_max_active_providers_per_workspace cfg;
          workspace_memory =
            sat_add64 (wu_memory usage) reservation \<le> pc_max_reserved_memory_bytes_per_workspace cfg
      in if global_active \<and> global_memory \<and> workspace_active \<and> workspace_memory then
           (Inr (), st\<lparr>po_active := po_active st + 1,
                       po_memory := sat_add64 (po_memory st) reservation,
                       po_usage := omap_insert ws
                         (usage\<lparr>wu_active := wu_active usage + 1,
                                wu_memory := sat_add64 (wu_memory usage) reservation\<rparr>) (po_usage st)\<rparr>)
         else (Inl (\<not> workspace_active \<or> \<not> workspace_memory), st))"

definition release_reservation :: "workspace_id \<Rightarrow> nat \<Rightarrow> pool_state \<Rightarrow> pool_state" where
  "release_reservation ws reservation st =
     st\<lparr>po_active := po_active st - 1,
        po_memory := po_memory st - reservation,
        po_usage :=
          (case omap_get (po_usage st) ws of
             None \<Rightarrow> po_usage st
           | Some u \<Rightarrow>
               (let v = u\<lparr>wu_active := wu_active u - 1, wu_memory := wu_memory u - reservation\<rparr>
                in if wu_active v = 0 \<and> wu_memory v = 0 then omap_delete ws (po_usage st)
                   else omap_insert ws v (po_usage st)))\<rparr>"

definition release_slot :: "nat \<Rightarrow> 'p provider_pool \<Rightarrow> 'p provider_pool" where
  "release_slot i pl = on_state (release_reservation (slot_workspace pl i) (reservation_of pl i)) pl"

definition evictable :: "'p slot_runtime \<Rightarrow> bool" where
  "evictable rt \<longleftrightarrow> sr_provider rt \<noteq> None \<and> sr_in_flight rt = 0 \<and> \<not> sr_activating rt"

definition oldest_evictable_slot :: "nat \<Rightarrow> workspace_id option \<Rightarrow> 'p provider_pool \<Rightarrow> nat option" where
  "oldest_evictable_slot excluded ws pl =
     min_by_key (\<lambda>i. sr_last_used (runtime_of pl i))
       (filter (\<lambda>i. i \<noteq> excluded \<and> (case ws of None \<Rightarrow> True | Some x \<Rightarrow> slot_workspace pl i = x) \<and>
                    evictable (runtime_of pl i)) [0..<length (pl_slots pl)])"

subsection \<open>Eviction\<close>

datatype eviction_cause = EvictIdle | EvictResource | EvictShutdown

text \<open>The section before the adapter's \<open>shutdown\<close>: \<open>None\<close> is \<open>Ok(false)\<close>.\<close>

definition evict_begin :: "eviction_cause \<Rightarrow> nat \<Rightarrow> 'p provider_pool \<Rightarrow> 'p provider_pool \<times> 'p option" where
  "evict_begin cause i pl =
     (let rt = runtime_of pl i in
      if cause \<noteq> EvictShutdown \<and> (0 < sr_in_flight rt \<or> sr_activating rt) then (pl, None)
      else (case sr_provider rt of
              None \<Rightarrow> (pl, None)
            | Some p \<Rightarrow> (set_runtime i (rt\<lparr>sr_provider := None, sr_activating := True\<rparr>) pl, Some p)))"

definition count_shutdown_failure :: "pool_state \<Rightarrow> pool_state" where
  "count_shutdown_failure st = st\<lparr>po_shutdown_failures := sat_add64 (po_shutdown_failures st) 1\<rparr>"

definition count_eviction :: "eviction_cause \<Rightarrow> pool_state \<Rightarrow> pool_state" where
  "count_eviction cause st =
     (case cause of
        EvictIdle \<Rightarrow> st\<lparr>po_idle_shutdowns := sat_add64 (po_idle_shutdowns st) 1\<rparr>
      | EvictResource \<Rightarrow> st\<lparr>po_resource_evictions := sat_add64 (po_resource_evictions st) 1\<rparr>
      | EvictShutdown \<Rightarrow> st)"

definition evict_failed :: "'p \<Rightarrow> string \<Rightarrow> nat \<Rightarrow> 'p provider_pool \<Rightarrow> 'p provider_pool" where
  "evict_failed p err i pl =
     on_state count_shutdown_failure
       (set_runtime i ((runtime_of pl i)\<lparr>sr_provider := Some p, sr_activating := False,
          sr_last_error := Some (''provider shutdown failed: '' @ err)\<rparr>) pl)"

definition evict_cleared :: "nat \<Rightarrow> nat \<Rightarrow> 'p provider_pool \<Rightarrow> 'p provider_pool" where
  "evict_cleared now i pl =
     set_runtime i ((runtime_of pl i)\<lparr>sr_activating := False, sr_last_used := now,
       sr_last_error := None\<rparr>) pl"

definition evict_released :: "eviction_cause \<Rightarrow> nat \<Rightarrow> 'p provider_pool \<Rightarrow> 'p provider_pool" where
  "evict_released cause i pl = on_state (count_eviction cause) (release_slot i pl)"

text \<open>\<open>evict_provider\<close> of a caller that nobody interrupts; \<open>stop p\<close> is the adapter's shutdown.\<close>

definition evict_provider ::
    "('p \<Rightarrow> string + unit) \<Rightarrow> nat \<Rightarrow> eviction_cause \<Rightarrow> nat \<Rightarrow> 'p provider_pool \<Rightarrow>
     'p provider_pool \<times> (string + bool)" where
  "evict_provider stop now cause i pl =
     (case evict_begin cause i pl of
        (pl', None) \<Rightarrow> (pl', Inr False)
      | (pl', Some p) \<Rightarrow>
          (case stop p of
             Inl err \<Rightarrow> (evict_failed p err i pl', Inl err)
           | Inr _ \<Rightarrow> (evict_released cause i (evict_cleared now i pl'), Inr True)))"

subsection \<open>Activation\<close>

datatype activation_failure =
  ActivationStopped | ActivationCapacity | ActivationCancelled | ActivationTimedOut | ActivationStartFailed

fun record_activation_abort :: "op_abort \<Rightarrow> pool_state \<Rightarrow> pool_state \<times> activation_failure" where
  "record_activation_abort Cancelled st = (count_cancelled st, ActivationCancelled)"
| "record_activation_abort DeadlineExceeded st =
     (st\<lparr>po_activation_timeouts := sat_add64 (po_activation_timeouts st) 1\<rparr>, ActivationTimedOut)"

definition abort_activation :: "op_abort \<Rightarrow> 'p provider_pool \<Rightarrow> 'p provider_pool \<times> activation_failure" where
  "abort_activation a pl =
     (on_state (\<lambda>st. fst (record_activation_abort a st)) pl, snd (record_activation_abort a (pl_state pl)))"

text \<open>
  One turn of the first loop of \<open>activate\<close>: it fails, gets a lease on the running adapter,
  waits for the thread that is activating or stopping the slot, or claims the slot.
\<close>

datatype 'p activation =
  ActivationFailed activation_failure | ActivationLease 'p | ActivationBusy nat | ActivationClaimed

definition activate_turn ::
    "bool \<Rightarrow> op_context \<Rightarrow> op_world \<Rightarrow> op_world \<Rightarrow> nat \<Rightarrow> 'p provider_pool \<Rightarrow>
     'p provider_pool \<times> 'p activation" where
  "activate_turn stopped ctx w w' i pl =
     (case context_check ctx w of
        Inl a \<Rightarrow> (case abort_activation a pl of (pl', f) \<Rightarrow> (pl', ActivationFailed f))
      | Inr _ \<Rightarrow>
          if stopped then (pl, ActivationFailed ActivationStopped)
          else (let rt = runtime_of pl i in
            case sr_provider rt of
              Some p \<Rightarrow>
                if sr_last_error rt \<noteq> None then (pl, ActivationFailed ActivationStartFailed)
                else (set_runtime i (rt\<lparr>sr_in_flight := sr_in_flight rt + 1,
                        sr_last_used := world_now w\<rparr>) pl, ActivationLease p)
            | None \<Rightarrow>
                if (case sr_retry_after rt of Some t \<Rightarrow> world_now w < t | None \<Rightarrow> False)
                then (pl, ActivationFailed ActivationStartFailed)
                else if sr_activating rt then
                  (case poll_timeout ctx admission_poll_interval w' of
                     Inl a \<Rightarrow> (case abort_activation a pl of (pl', f) \<Rightarrow> (pl', ActivationFailed f))
                   | Inr t \<Rightarrow> (pl, ActivationBusy t))
                else (set_runtime i (rt\<lparr>sr_activating := True\<rparr>) pl, ActivationClaimed)))"

definition capacity_refused :: "nat \<Rightarrow> 'p provider_pool \<Rightarrow> 'p provider_pool" where
  "capacity_refused i pl =
     set_runtime i ((runtime_of pl i)\<lparr>sr_activating := False,
       sr_last_error := Some ''provider pool has no reclaimable capacity''\<rparr>) pl"

definition apply_activation_backoff ::
    "nat \<Rightarrow> pool_config \<Rightarrow> nat \<Rightarrow> string \<Rightarrow> 'p slot_runtime \<Rightarrow> 'p slot_runtime" where
  "apply_activation_backoff horizon cfg now message rt =
     (let failures = sat_add32 (sr_consecutive_failures rt) 1;
          exponent = min (failures - 1) 31;
          multiplier = 2 ^ exponent;
          delay = min (min (pc_activation_backoff_base cfg * multiplier) duration_max)
                      (pc_activation_backoff_max cfg)
      in rt\<lparr>sr_consecutive_failures := failures,
            sr_retry_after := instant_checked_add horizon now delay,
            sr_last_error := Some message\<rparr>)"

definition count_activation_failure :: "pool_state \<Rightarrow> pool_state" where
  "count_activation_failure st = st\<lparr>po_activation_failures := sat_add64 (po_activation_failures st) 1\<rparr>"

definition record_activation_failure ::
    "nat \<Rightarrow> nat \<Rightarrow> nat \<Rightarrow> string \<Rightarrow> 'p provider_pool \<Rightarrow> 'p provider_pool" where
  "record_activation_failure horizon now i message pl =
     on_state count_activation_failure (release_slot i
       (set_runtime i (apply_activation_backoff horizon (pl_config pl) now message (runtime_of pl i)) pl))"

definition retain_after_shutdown_failure ::
    "nat \<Rightarrow> nat \<Rightarrow> nat \<Rightarrow> 'p \<Rightarrow> string \<Rightarrow> bool \<Rightarrow> 'p provider_pool \<Rightarrow> 'p provider_pool" where
  "retain_after_shutdown_failure horizon now i p message activation_failed pl =
     (let rt = (runtime_of pl i)\<lparr>sr_provider := Some p, sr_activating := False, sr_last_used := now\<rparr>;
          rt' = (if activation_failed then apply_activation_backoff horizon (pl_config pl) now message rt
                 else rt\<lparr>sr_last_error := Some message\<rparr>)
      in on_state (\<lambda>st. if activation_failed then count_activation_failure (count_shutdown_failure st)
                        else count_shutdown_failure st)
           (set_runtime i rt' pl))"

text \<open>
  The section after the factory returned: a lease, a failure, or an adapter that has to be
  shut down before the call returns, because the pool stopped or the adapter does not fit.
\<close>

datatype discard_reason = DiscardStopped | DiscardIncompatible

datatype 'p finish = FinishLease 'p | FinishFailed activation_failure | FinishDiscard 'p discard_reason

definition compatible ::
    "('p \<Rightarrow> string) \<Rightarrow> ('p \<Rightarrow> language \<Rightarrow> bool) \<Rightarrow> registration \<Rightarrow> 'p \<Rightarrow> bool" where
  "compatible adapter_name adapter_supports r p \<longleftrightarrow>
     adapter_name p = reg_name r \<and> (\<forall>l\<in>set (reg_languages r). adapter_supports p l)"

definition activate_finish ::
    "('p \<Rightarrow> string) \<Rightarrow> ('p \<Rightarrow> language \<Rightarrow> bool) \<Rightarrow> nat \<Rightarrow> nat \<Rightarrow> provider_start_error + 'p \<Rightarrow> nat \<Rightarrow>
     'p provider_pool \<Rightarrow> 'p provider_pool \<times> 'p finish" where
  "activate_finish adapter_name adapter_supports horizon now started i pl =
     (let rt = (runtime_of pl i)\<lparr>sr_activating := False\<rparr>; pl0 = set_runtime i rt pl in
      case started of
        Inr p \<Rightarrow>
          if compatible adapter_name adapter_supports (sl_registration (slot_of pl i)) p then
            if pl_stopped pl then (pl0, FinishDiscard p DiscardStopped)
            else (on_state (\<lambda>st. st\<lparr>po_activations := sat_add64 (po_activations st) 1\<rparr>)
                    (set_runtime i (rt\<lparr>sr_provider := Some p, sr_in_flight := 1, sr_last_used := now,
                       sr_consecutive_failures := 0, sr_retry_after := None, sr_last_error := None\<rparr>) pl),
                  FinishLease p)
          else (set_runtime i (rt\<lparr>sr_activating := True\<rparr>) pl, FinishDiscard p DiscardIncompatible)
      | Inl err \<Rightarrow>
          (case start_error_abort err of
             Some a \<Rightarrow>
               (case abort_activation a (release_slot i (set_runtime i (rt\<lparr>sr_last_error := None\<rparr>) pl)) of
                  (pl', f) \<Rightarrow> (pl', FinishFailed f))
           | None \<Rightarrow>
               (record_activation_failure horizon now i
                  (case err of StartError m \<Rightarrow> m | _ \<Rightarrow> '''') pl0, FinishFailed ActivationStartFailed)))"

definition incompatible_message :: string where
  "incompatible_message = ''provider factory returned an incompatible adapter''"

text \<open>The section after that shutdown.\<close>

definition discard_finish ::
    "nat \<Rightarrow> nat \<Rightarrow> 'p \<Rightarrow> discard_reason \<Rightarrow> string + unit \<Rightarrow> nat \<Rightarrow> 'p provider_pool \<Rightarrow>
     'p provider_pool \<times> activation_failure" where
  "discard_finish horizon now p reason stopped i pl =
     (case reason of
        DiscardStopped \<Rightarrow>
          (case stopped of
             Inr _ \<Rightarrow> release_slot i pl
           | Inl err \<Rightarrow> retain_after_shutdown_failure horizon now i p
               (''provider activated after pool stopped; shutdown failed: '' @ err) False pl,
           ActivationStopped)
      | DiscardIncompatible \<Rightarrow>
          (case stopped of
             Inr _ \<Rightarrow> record_activation_failure horizon now i incompatible_message
               (set_runtime i ((runtime_of pl i)\<lparr>sr_activating := False\<rparr>) pl)
           | Inl err \<Rightarrow> retain_after_shutdown_failure horizon now i p
               (incompatible_message @ ''; shutdown failed: '' @ err) True pl,
           ActivationStartFailed))"

definition lease_drop :: "nat \<Rightarrow> nat \<Rightarrow> 'p provider_pool \<Rightarrow> 'p provider_pool" where
  "lease_drop now i pl =
     (let rt = runtime_of pl i
      in set_runtime i (rt\<lparr>sr_in_flight := sr_in_flight rt - 1, sr_last_used := now\<rparr>) pl)"

subsection \<open>The reaper and shutdown\<close>

definition reaper_due :: "nat \<Rightarrow> 'p provider_pool \<Rightarrow> nat \<Rightarrow> bool" where
  "reaper_due now pl i \<longleftrightarrow>
     evictable (runtime_of pl i) \<and> pc_idle_timeout (pl_config pl) \<le> now - sr_last_used (runtime_of pl i)"

definition reaper_pass :: "('p \<Rightarrow> string + unit) \<Rightarrow> nat \<Rightarrow> 'p provider_pool \<Rightarrow> 'p provider_pool" where
  "reaper_pass stop now pl =
     fold (\<lambda>i pl. if reaper_due now pl i then fst (evict_provider stop now EvictIdle i pl) else pl)
       [0..<length (pl_slots pl)] pl"

datatype pool_shutdown_error =
    ReaperPanicked
  | RunningQueries nat
  | ProviderShutdownFailed string
  | MultipleFailures "pool_shutdown_error list"

text \<open>
  The failures of \<open>shutdown\<close>: \<open>pl\<close> is the pool when the bounded wait for running queries has
  ended. Several failures are reported together (the code keeps their rendered messages).
\<close>

definition evict_all_slots ::
    "('p \<Rightarrow> string + unit) \<Rightarrow> nat \<Rightarrow> 'p provider_pool \<Rightarrow> 'p provider_pool \<times> pool_shutdown_error list" where
  "evict_all_slots stop now pl =
     fold (\<lambda>i (pl, errs). case evict_provider stop now EvictShutdown i pl of
            (pl', Inl e) \<Rightarrow> (pl', errs @ [ProviderShutdownFailed e])
          | (pl', Inr _) \<Rightarrow> (pl', errs)) [0..<length (pl_slots pl)] (pl, [])"

definition pool_stop :: "'p provider_pool \<Rightarrow> 'p provider_pool" where
  "pool_stop pl = pl\<lparr>pl_stopped := True\<rparr>"

definition pool_shutdown ::
    "('p \<Rightarrow> string + unit) \<Rightarrow> bool \<Rightarrow> nat \<Rightarrow> 'p provider_pool \<Rightarrow> 'p provider_pool \<times> (pool_shutdown_error + unit)" where
  "pool_shutdown stop reaper_panicked now pl =
     (let queries = (if 0 < po_running (pl_state pl) then [RunningQueries (po_running (pl_state pl))] else []);
          reaper = (if reaper_panicked then [ReaperPanicked] else [])
      in case evict_all_slots stop now pl of
           (pl', evictions) \<Rightarrow>
             (pl', case queries @ reaper @ evictions of
                     [] \<Rightarrow> Inr ()
                   | [e] \<Rightarrow> Inl e
                   | es \<Rightarrow> Inl (MultipleFailures es)))"

end
