(* ===== verification/Pool_System.thy ===== *)
theory Pool_System
  imports Provider_Pool
begin

section \<open>The provider pool under concurrent callers\<close>

text \<open>
  The threads of a pool, as the sections of \<open>Provider_Pool\<close> they are between: an activity is
  what one call still has to do after a section released its mutex. Any number of calls run;
  a call that evicts another slot inside \<open>reserve_capacity\<close> is two activities. What a section
  reads outside the mutexes (clocks, contexts, the factory's and the adapters' outcomes) is
  arbitrary, the stop flag read before a claim may be outdated, and admission changes its own
  part of the pool state at any time.
\<close>

datatype 'p activity =
    ActClaimed (act_slot: nat)
  | ActReserving (act_slot: nat)
  | ActStarting (act_slot: nat)
  | ActDiscarding (act_slot: nat) 'p discard_reason
  | ActEvicting (act_slot: nat) 'p eviction_cause
  | ActReleasing (act_slot: nat) eviction_cause
  | ActLease (act_slot: nat) (leased: 'p)

record 'p pool_system =
  ps_pool :: "'p provider_pool"
  ps_acts :: "'p activity multiset"
  ps_forced :: "nat set"

definition pool_system_start :: "pool_config \<Rightarrow> registration list \<Rightarrow> 'p pool_system" where
  "pool_system_start cfg rs = \<lparr>ps_pool = empty_pool cfg rs, ps_acts = {#}, ps_forced = {}\<rparr>"

fun turn_acts :: "nat \<Rightarrow> 'p activation \<Rightarrow> 'p activity multiset" where
  "turn_acts i (ActivationLease p) = {#ActLease i p#}"
| "turn_acts i ActivationClaimed = {#ActClaimed i#}"
| "turn_acts i (ActivationFailed f) = {#}"
| "turn_acts i (ActivationBusy t) = {#}"

fun finish_acts :: "nat \<Rightarrow> 'p finish \<Rightarrow> 'p activity multiset" where
  "finish_acts i (FinishLease p) = {#ActLease i p#}"
| "finish_acts i (FinishDiscard p reason) = {#ActDiscarding i p reason#}"
| "finish_acts i (FinishFailed f) = {#}"

definition same_capacity :: "pool_state \<Rightarrow> pool_state \<Rightarrow> bool" where
  "same_capacity st st' \<longleftrightarrow> po_active st' = po_active st \<and> po_memory st' = po_memory st \<and>
     po_usage st' = po_usage st"

text \<open>\<open>reserve_capacity\<close> failed: the section of \<open>activate\<close> after it.\<close>

definition reserve_refused :: "bool \<Rightarrow> nat \<Rightarrow> 'p provider_pool \<Rightarrow> 'p provider_pool" where
  "reserve_refused for_capacity i pl =
     capacity_refused i (if for_capacity then on_state count_saturated pl else pl)"

inductive pool_step ::
    "('p \<Rightarrow> string) \<Rightarrow> ('p \<Rightarrow> language \<Rightarrow> bool) \<Rightarrow> 'p pool_system \<Rightarrow> 'p pool_system \<Rightarrow> bool"
  for nm spt where
  providers_step: "providers_for now ident (ps_pool s) = (r, pl) \<Longrightarrow>
     pool_step nm spt s (s\<lparr>ps_pool := pl\<rparr>)"
| stop_step: "pool_step nm spt s (s\<lparr>ps_pool := pool_stop (ps_pool s)\<rparr>)"
| turn_step: "i < length (pl_slots (ps_pool s)) \<Longrightarrow>
     activate_turn stopped ctx w w' i (ps_pool s) = (pl, r) \<Longrightarrow>
     pool_step nm spt s (s\<lparr>ps_pool := pl, ps_acts := turn_acts i r + ps_acts s\<rparr>)"
| check_step: "ps_acts s = add_mset (ActClaimed i) rest \<Longrightarrow> \<not> pl_stopped (ps_pool s) \<Longrightarrow>
     pool_step nm spt s (s\<lparr>ps_acts := add_mset (ActReserving i) rest\<rparr>)"
| reserve_step: "ps_acts s = add_mset (ActReserving i) rest \<Longrightarrow>
     try_reserve (pl_config (ps_pool s)) (slot_workspace (ps_pool s) i) (reservation_of (ps_pool s) i)
       (pl_state (ps_pool s)) = (Inr (), st) \<Longrightarrow>
     pool_step nm spt s (s\<lparr>ps_pool := (ps_pool s)\<lparr>pl_state := st\<rparr>, ps_acts := add_mset (ActStarting i) rest\<rparr>)"
| retry_step: "ps_acts s = add_mset (ActReserving i) rest \<Longrightarrow>
     try_reserve (pl_config (ps_pool s)) (slot_workspace (ps_pool s) i) (reservation_of (ps_pool s) i)
       (pl_state (ps_pool s)) = (Inl limited, st) \<Longrightarrow>
     pool_step nm spt s (s\<lparr>ps_acts := add_mset (ActClaimed i) rest\<rparr>)"
| refuse_step: "ps_acts s = add_mset a rest \<Longrightarrow> a = ActClaimed i \<or> a = ActReserving i \<Longrightarrow>
     pool_step nm spt s (s\<lparr>ps_pool := reserve_refused for_capacity i (ps_pool s), ps_acts := rest\<rparr>)"
| finish_step: "ps_acts s = add_mset (ActStarting i) rest \<Longrightarrow>
     activate_finish nm spt horizon now started i (ps_pool s) = (pl, r) \<Longrightarrow>
     pool_step nm spt s (s\<lparr>ps_pool := pl, ps_acts := finish_acts i r + rest\<rparr>)"
| discard_step: "ps_acts s = add_mset (ActDiscarding i p reason) rest \<Longrightarrow>
     discard_finish horizon now p reason stopped i (ps_pool s) = (pl, f) \<Longrightarrow>
     pool_step nm spt s (s\<lparr>ps_pool := pl, ps_acts := rest\<rparr>)"
| evict_step: "i < length (pl_slots (ps_pool s)) \<Longrightarrow> evict_begin cause i (ps_pool s) = (pl, Some p) \<Longrightarrow>
     pool_step nm spt s (s\<lparr>ps_pool := pl, ps_acts := add_mset (ActEvicting i p cause) (ps_acts s),
       ps_forced := (if cause = EvictShutdown then insert i (ps_forced s) else ps_forced s)\<rparr>)"
| evict_failed_step: "ps_acts s = add_mset (ActEvicting i p cause) rest \<Longrightarrow>
     pool_step nm spt s (s\<lparr>ps_pool := evict_failed p err i (ps_pool s), ps_acts := rest\<rparr>)"
| evict_cleared_step: "ps_acts s = add_mset (ActEvicting i p cause) rest \<Longrightarrow>
     pool_step nm spt s (s\<lparr>ps_pool := evict_cleared now i (ps_pool s),
       ps_acts := add_mset (ActReleasing i cause) rest\<rparr>)"
| evict_released_step: "ps_acts s = add_mset (ActReleasing i cause) rest \<Longrightarrow>
     pool_step nm spt s (s\<lparr>ps_pool := evict_released cause i (ps_pool s), ps_acts := rest\<rparr>)"
| lease_step: "ps_acts s = add_mset (ActLease i p) rest \<Longrightarrow>
     pool_step nm spt s (s\<lparr>ps_pool := lease_drop now i (ps_pool s), ps_acts := rest\<rparr>)"
| admission_step: "same_capacity (pl_state (ps_pool s)) st \<Longrightarrow>
     pool_step nm spt s (s\<lparr>ps_pool := (ps_pool s)\<lparr>pl_state := st\<rparr>\<rparr>)"

subsection \<open>What the sections do to a slot\<close>

lemma set_runtime_fields [simp]:
  "length (pl_slots (set_runtime i rt pl)) = length (pl_slots pl)"
  "pl_config (set_runtime i rt pl) = pl_config pl"
  "pl_registrations (set_runtime i rt pl) = pl_registrations pl"
  "pl_state (set_runtime i rt pl) = pl_state pl"
  "pl_stopped (set_runtime i rt pl) = pl_stopped pl"
  by (simp_all add: set_runtime_def)

lemma on_state_fields [simp]:
  "pl_slots (on_state f pl) = pl_slots pl" "pl_config (on_state f pl) = pl_config pl"
  "pl_registrations (on_state f pl) = pl_registrations pl"
  "pl_state (on_state f pl) = f (pl_state pl)" "pl_stopped (on_state f pl) = pl_stopped pl"
  by (simp_all add: on_state_def)

lemma on_state_slot [simp]:
  "slot_of (on_state f pl) = slot_of pl" "runtime_of (on_state f pl) = runtime_of pl"
  "reservation_of (on_state f pl) = reservation_of pl" "slot_workspace (on_state f pl) = slot_workspace pl"
  by (simp_all add: fun_eq_iff slot_of_def runtime_of_def reservation_of_def slot_workspace_def)

lemma slot_set:
  "slot_of (set_runtime i rt pl) j =
     (if j = i \<and> i < length (pl_slots pl) then (slot_of pl i)\<lparr>sl_runtime := rt\<rparr> else slot_of pl j)"
  by (cases "i < length (pl_slots pl)") (auto simp: slot_of_def set_runtime_def nth_list_update list_update_beyond)

lemma runtime_set [simp]:
  "runtime_of (set_runtime i rt pl) j =
     (if j = i \<and> i < length (pl_slots pl) then rt else runtime_of pl j)"
  by (simp add: runtime_of_def slot_set)

lemma static_set [simp]:
  "reservation_of (set_runtime i rt pl) j = reservation_of pl j"
  "slot_workspace (set_runtime i rt pl) j = slot_workspace pl j"
  "sl_registration (slot_of (set_runtime i rt pl) j) = sl_registration (slot_of pl j)"
  by (simp_all add: reservation_of_def slot_workspace_def slot_set)

lemma state_slot [simp]:
  "slot_of (pl\<lparr>pl_state := st\<rparr>) = slot_of pl" "runtime_of (pl\<lparr>pl_state := st\<rparr>) = runtime_of pl"
  "reservation_of (pl\<lparr>pl_state := st\<rparr>) = reservation_of pl"
  "slot_workspace (pl\<lparr>pl_state := st\<rparr>) = slot_workspace pl"
  by (simp_all add: fun_eq_iff slot_of_def runtime_of_def reservation_of_def slot_workspace_def)

lemma stop_slot [simp]:
  "runtime_of (pool_stop pl) = runtime_of pl" "reservation_of (pool_stop pl) = reservation_of pl"
  "slot_workspace (pool_stop pl) = slot_workspace pl" "pl_slots (pool_stop pl) = pl_slots pl"
  "pl_state (pool_stop pl) = pl_state pl" "pl_config (pool_stop pl) = pl_config pl"
  "pl_stopped (pool_stop pl)"
  by (simp_all add: fun_eq_iff slot_of_def runtime_of_def reservation_of_def slot_workspace_def
      pool_stop_def)

lemma backoff_fields [simp]:
  "sr_provider (apply_activation_backoff horizon cfg now m rt) = sr_provider rt"
  "sr_activating (apply_activation_backoff horizon cfg now m rt) = sr_activating rt"
  "sr_in_flight (apply_activation_backoff horizon cfg now m rt) = sr_in_flight rt"
  by (simp_all add: apply_activation_backoff_def Let_def)

subsection \<open>The activities of a slot\<close>

definition acts_at :: "nat \<Rightarrow> 'p activity multiset \<Rightarrow> 'p activity multiset" where
  "acts_at i acts = filter_mset (\<lambda>a. act_slot a = i) acts"

lemma acts_at_simps [simp]:
  "acts_at i {#} = {#}"
  "acts_at i (add_mset a M) = (if act_slot a = i then add_mset a (acts_at i M) else acts_at i M)"
  "acts_at i (M + N) = acts_at i M + acts_at i N"
  by (simp_all add: acts_at_def)

lemma in_acts_at [simp]: "a \<in># acts_at i M \<longleftrightarrow> a \<in># M \<and> act_slot a = i"
  by (simp add: acts_at_def)

text \<open>Activities that keep a process of the slot running or are about to start one.\<close>

fun occupies :: "'p activity \<Rightarrow> bool" where
  "occupies (ActReserving i) \<longleftrightarrow> True"
| "occupies (ActStarting i) \<longleftrightarrow> True"
| "occupies (ActDiscarding i p r) \<longleftrightarrow> True"
| "occupies (ActEvicting i p c) \<longleftrightarrow> True"
| "occupies (ActClaimed i) \<longleftrightarrow> False"
| "occupies (ActReleasing i c) \<longleftrightarrow> False"
| "occupies (ActLease i p) \<longleftrightarrow> False"

text \<open>Activities that have set the slot's \<open>activating\<close> flag and will clear it.\<close>

fun holds_flag :: "'p activity \<Rightarrow> bool" where
  "holds_flag (ActClaimed i) \<longleftrightarrow> True"
| "holds_flag (ActReserving i) \<longleftrightarrow> True"
| "holds_flag (ActStarting i) \<longleftrightarrow> True"
| "holds_flag (ActDiscarding i p r) \<longleftrightarrow> r = DiscardIncompatible"
| "holds_flag (ActEvicting i p c) \<longleftrightarrow> True"
| "holds_flag (ActReleasing i c) \<longleftrightarrow> False"
| "holds_flag (ActLease i p) \<longleftrightarrow> False"

fun stopped_discard :: "'p activity \<Rightarrow> bool" where
  "stopped_discard (ActDiscarding i p r) \<longleftrightarrow> r = DiscardStopped"
| "stopped_discard _ \<longleftrightarrow> False"

definition number_of :: "('a \<Rightarrow> bool) \<Rightarrow> 'a multiset \<Rightarrow> nat" where
  "number_of P M = size (filter_mset P M)"

lemma number_of_simps [simp]:
  "number_of P {#} = 0"
  "number_of P (add_mset a M) = (if P a then Suc (number_of P M) else number_of P M)"
  "number_of P (M + N) = number_of P M + number_of P N"
  by (simp_all add: number_of_def)

text \<open>
  What a slot keeps: at most one process is running, starting or stopping; while the pool
  runs, the flag is set exactly while one call activates or stops the slot, and never while
  an adapter is installed.
\<close>

definition slot_exclusive :: "bool \<Rightarrow> 'p slot_runtime \<Rightarrow> 'p activity multiset \<Rightarrow> bool" where
  "slot_exclusive stopped rt M \<longleftrightarrow>
     of_bool (sr_provider rt \<noteq> None) + number_of occupies M \<le> (1 :: nat) \<and>
     (\<not> stopped \<longrightarrow> number_of holds_flag M = of_bool (sr_activating rt) \<and>
        (sr_activating rt \<longrightarrow> sr_provider rt = None) \<and> number_of stopped_discard M = 0)"

definition is_lease :: "'p activity \<Rightarrow> bool" where
  "is_lease a \<longleftrightarrow> (\<exists>i p. a = ActLease i p)"

lemma is_lease_simps [simp]:
  "is_lease (ActLease i p)" "\<not> is_lease (ActClaimed i)" "\<not> is_lease (ActReserving i)"
  "\<not> is_lease (ActStarting i)" "\<not> is_lease (ActDiscarding i p r)" "\<not> is_lease (ActEvicting i p c)"
  "\<not> is_lease (ActReleasing i c)"
  by (simp_all add: is_lease_def)

definition slot_leases :: "'p slot_runtime \<Rightarrow> 'p activity multiset \<Rightarrow> bool" where
  "slot_leases rt M \<longleftrightarrow> number_of is_lease M = sr_in_flight rt \<and>
     (\<forall>a\<in>#M. is_lease a \<longrightarrow> sr_provider rt = Some (leased a))"

definition slot_inv :: "'p pool_system \<Rightarrow> nat \<Rightarrow> bool" where
  "slot_inv s i \<longleftrightarrow>
     slot_exclusive (pl_stopped (ps_pool s)) (runtime_of (ps_pool s) i) (acts_at i (ps_acts s)) \<and>
     (i \<notin> ps_forced s \<longrightarrow> slot_leases (runtime_of (ps_pool s) i) (acts_at i (ps_acts s)))"

definition acts_in_range :: "'p pool_system \<Rightarrow> bool" where
  "acts_in_range s \<longleftrightarrow> (\<forall>a\<in>#ps_acts s. act_slot a < length (pl_slots (ps_pool s)))"

definition slots_inv :: "'p pool_system \<Rightarrow> bool" where
  "slots_inv s \<longleftrightarrow> acts_in_range s \<and> (\<forall>i<length (pl_slots (ps_pool s)). slot_inv s i)"

text \<open>A step on slot \<open>i\<close> has to be looked at there only.\<close>

lemma slots_inv_local:
  assumes "slots_inv s" and n: "length (pl_slots (ps_pool t)) = length (pl_slots (ps_pool s))"
    and "pl_stopped (ps_pool t) = pl_stopped (ps_pool s)"
    and "\<And>j. j \<noteq> i \<Longrightarrow> runtime_of (ps_pool t) j = runtime_of (ps_pool s) j"
    and "\<And>j. j \<noteq> i \<Longrightarrow> acts_at j (ps_acts t) = acts_at j (ps_acts s)"
    and "\<And>j. j \<noteq> i \<Longrightarrow> j \<in> ps_forced t \<longleftrightarrow> j \<in> ps_forced s"
    and "i < length (pl_slots (ps_pool s))" "slot_inv s i \<Longrightarrow> slot_inv t i"
  shows "slots_inv t"
proof -
  have "slot_inv t j" if "j < length (pl_slots (ps_pool s))" for j
    using that assms by (cases "j = i") (simp_all add: slots_inv_def slot_inv_def)
  moreover have "act_slot a < length (pl_slots (ps_pool s))" if "a \<in># ps_acts t" for a
  proof (cases "act_slot a = i")
    case False
    then have "a \<in># acts_at (act_slot a) (ps_acts s)" using that assms(5) by (metis in_acts_at)
    then show ?thesis using assms(1) by (simp add: slots_inv_def acts_in_range_def)
  qed (use assms(7) in simp)
  ultimately show ?thesis by (simp add: slots_inv_def acts_in_range_def n)
qed

end
