(* ===== verification/Pool_Leases.thy ===== *)
theory Pool_Leases
  imports Pool_System
begin

section \<open>Leases protect providers\<close>

text \<open>
  Every section keeps the slot invariants of \<open>Pool_System\<close>. The lemmas below look at the slot
  a section works on; \<open>slots_inv_local\<close> carries them to the pool.
\<close>

definition exclusive_at :: "'p pool_system \<Rightarrow> nat \<Rightarrow> bool" where
  "exclusive_at s i \<longleftrightarrow>
     slot_exclusive (pl_stopped (ps_pool s)) (runtime_of (ps_pool s) i) (acts_at i (ps_acts s))"

lemma Suc_of_bool [simp]: "Suc n = of_bool b \<longleftrightarrow> n = 0 \<and> b"
  by (cases b) simp_all

lemma number_of_0: "number_of P M = 0 \<longleftrightarrow> (\<forall>a\<in>#M. \<not> P a)"
  by (simp add: number_of_def filter_mset_eq_conv)

lemma occupies_flag: "occupies a \<Longrightarrow> holds_flag a \<or> stopped_discard a"
proof (cases a)
  case (ActDiscarding i p r)
  then show ?thesis by (cases r) simp_all
qed simp_all

lemma none_occupy:
  "number_of holds_flag M = 0 \<Longrightarrow> number_of stopped_discard M = 0 \<Longrightarrow> number_of occupies M = 0"
  unfolding number_of_0 using occupies_flag by blast

lemma no_lease_without_provider:
  "slot_leases rt M \<Longrightarrow> sr_provider rt = None \<Longrightarrow> number_of is_lease M = 0 \<and> sr_in_flight rt = 0"
  unfolding slot_leases_def number_of_0 by (metis number_of_0 option.distinct(1))

text \<open>Sections that install or remove an adapter, or start to.\<close>

lemma slot_turn:
  assumes "activate_turn stopped ctx w w' i pl = (pl', r)" "i < length (pl_slots pl)"
    "slot_exclusive (pl_stopped pl) (runtime_of pl i) M"
  shows "slot_exclusive (pl_stopped pl) (runtime_of pl' i) (turn_acts i r + M)"
    and "slot_leases (runtime_of pl i) M \<Longrightarrow> slot_leases (runtime_of pl' i) (turn_acts i r + M)"
  using assms
  by (auto simp: activate_turn_def abort_activation_def slot_exclusive_def slot_leases_def Let_def
      split: sum.splits option.splits if_splits)

lemma turn_frame:
  assumes "activate_turn stopped ctx w w' i pl = (pl', r)"
  shows "length (pl_slots pl') = length (pl_slots pl)" "pl_stopped pl' = pl_stopped pl"
    "j \<noteq> i \<Longrightarrow> runtime_of pl' j = runtime_of pl j"
  using assms
  by (auto simp: activate_turn_def abort_activation_def Let_def
      split: sum.splits option.splits if_splits)

lemma slot_finish:
  assumes "activate_finish nm spt horizon now started i pl = (pl', r)" "i < length (pl_slots pl)"
    "slot_exclusive (pl_stopped pl) (runtime_of pl i) (add_mset (ActStarting i) M)"
  shows "slot_exclusive (pl_stopped pl) (runtime_of pl' i) (finish_acts i r + M)"
    and "slot_leases (runtime_of pl i) (add_mset (ActStarting i) M) \<Longrightarrow>
      slot_leases (runtime_of pl' i) (finish_acts i r + M)"
proof -
  have none: "sr_provider (runtime_of pl i) = None"
    using assms(3) by (simp add: slot_exclusive_def)
  show "slot_exclusive (pl_stopped pl) (runtime_of pl' i) (finish_acts i r + M)"
    using assms none
    by (auto simp: activate_finish_def abort_activation_def release_slot_def
        record_activation_failure_def slot_exclusive_def Let_def
        split: sum.splits option.splits if_splits prod.splits)
  assume "slot_leases (runtime_of pl i) (add_mset (ActStarting i) M)"
  moreover from no_lease_without_provider [OF this none]
  have "number_of is_lease M = 0" "sr_in_flight (runtime_of pl i) = 0" by simp_all
  ultimately show "slot_leases (runtime_of pl' i) (finish_acts i r + M)"
    using assms none
    by (auto simp: activate_finish_def abort_activation_def release_slot_def
        record_activation_failure_def slot_leases_def number_of_0 Let_def
        split: sum.splits option.splits if_splits prod.splits)
qed

lemma finish_frame:
  assumes "activate_finish nm spt horizon now started i pl = (pl', r)"
  shows "length (pl_slots pl') = length (pl_slots pl)" "pl_stopped pl' = pl_stopped pl"
    "j \<noteq> i \<Longrightarrow> runtime_of pl' j = runtime_of pl j"
  using assms
  by (auto simp: activate_finish_def abort_activation_def release_slot_def
      record_activation_failure_def Let_def split: sum.splits option.splits if_splits prod.splits)

lemma slot_discard:
  assumes "discard_finish horizon now p reason stopped i pl = (pl', f)" "i < length (pl_slots pl)"
    "slot_exclusive (pl_stopped pl) (runtime_of pl i) (add_mset (ActDiscarding i p reason) M)"
  shows "slot_exclusive (pl_stopped pl) (runtime_of pl' i) M"
    and "slot_leases (runtime_of pl i) (add_mset (ActDiscarding i p reason) M) \<Longrightarrow>
      slot_leases (runtime_of pl' i) M"
proof -
  have none: "sr_provider (runtime_of pl i) = None"
    using assms(3) by (simp add: slot_exclusive_def)
  show "slot_exclusive (pl_stopped pl) (runtime_of pl' i) M"
    using assms none
    by (auto simp: discard_finish_def release_slot_def record_activation_failure_def
        retain_after_shutdown_failure_def slot_exclusive_def Let_def
        split: sum.splits if_splits discard_reason.splits)
  assume "slot_leases (runtime_of pl i) (add_mset (ActDiscarding i p reason) M)"
  moreover from no_lease_without_provider [OF this none]
  have "number_of is_lease M = 0" "sr_in_flight (runtime_of pl i) = 0" by simp_all
  ultimately show "slot_leases (runtime_of pl' i) M"
    using assms none
    by (auto simp: discard_finish_def release_slot_def record_activation_failure_def
        retain_after_shutdown_failure_def slot_leases_def number_of_0 Let_def
        split: sum.splits if_splits discard_reason.splits)
qed

lemma discard_frame:
  assumes "discard_finish horizon now p reason stopped i pl = (pl', f)"
  shows "length (pl_slots pl') = length (pl_slots pl)" "pl_stopped pl' = pl_stopped pl"
    "j \<noteq> i \<Longrightarrow> runtime_of pl' j = runtime_of pl j"
  using assms
  by (auto simp: discard_finish_def release_slot_def record_activation_failure_def
      retain_after_shutdown_failure_def Let_def split: sum.splits if_splits discard_reason.splits)

lemma evict_begin_Some:
  assumes "evict_begin cause i pl = (pl', Some p)"
  shows "sr_provider (runtime_of pl i) = Some p"
    and "pl' = set_runtime i ((runtime_of pl i)\<lparr>sr_provider := None, sr_activating := True\<rparr>) pl"
    and "cause \<noteq> EvictShutdown \<Longrightarrow> sr_in_flight (runtime_of pl i) = 0 \<and> \<not> sr_activating (runtime_of pl i)"
  using assms by (auto simp: evict_begin_def Let_def split: if_splits option.splits)

lemma slot_evict:
  assumes "evict_begin cause i pl = (pl', Some p)" "i < length (pl_slots pl)"
    "slot_exclusive (pl_stopped pl) (runtime_of pl i) M"
  shows "slot_exclusive (pl_stopped pl) (runtime_of pl' i) (add_mset (ActEvicting i p cause) M)"
    and "cause \<noteq> EvictShutdown \<Longrightarrow> slot_leases (runtime_of pl i) M \<Longrightarrow>
      slot_leases (runtime_of pl' i) (add_mset (ActEvicting i p cause) M)"
  using assms(2,3) evict_begin_Some [OF assms(1)]
  by (auto simp: slot_exclusive_def slot_leases_def number_of_0)

subsection \<open>Every step keeps the slots\<close>

lemma providers_for_frame:
  assumes "providers_for now ident pl = (r, pl')"
  obtains "pl' = pl"
  | slots where "pl' = pl\<lparr>pl_slots := pl_slots pl @ slots\<rparr>"
      "\<forall>sl\<in>set slots. sl_runtime sl = slot_runtime_default now"
  using assms unfolding providers_for_def Let_def by (auto split: if_splits)

lemma slot_inv_fresh:
  assumes "acts_in_range s" "length (pl_slots (ps_pool s)) \<le> j" "sl_runtime sl = slot_runtime_default now"
    "slot_of pl j = sl" "ps_pool t = pl" "ps_acts t = ps_acts s"
  shows "slot_inv t j"
proof -
  have "\<And>a. a \<in># ps_acts s \<Longrightarrow> act_slot a \<noteq> j"
    using assms(1,2) by (auto simp: acts_in_range_def)
  then have "acts_at j (ps_acts s) = {#}" by (auto simp: acts_at_def filter_mset_eq_conv)
  with assms(3-6) show ?thesis
    by (simp add: slot_inv_def slot_exclusive_def slot_leases_def runtime_of_def slot_runtime_default_def)
qed

lemma slots_inv_providers:
  assumes "slots_inv s" "providers_for now ident (ps_pool s) = (r, pl)"
  shows "slots_inv (s\<lparr>ps_pool := pl\<rparr>)"
  using assms(2)
proof (cases rule: providers_for_frame)
  case 1 with assms(1) show ?thesis by simp
next
  case (2 slots)
  let ?n = "length (pl_slots (ps_pool s))"
  have old: "slot_of pl j = slot_of (ps_pool s) j" if "j < ?n" for j
    using that by (simp add: 2(1) slot_of_def nth_append)
  have "slot_inv (s\<lparr>ps_pool := pl\<rparr>) j" if j: "j < length (pl_slots pl)" for j
  proof (cases "j < ?n")
    case True
    then show ?thesis
      using assms(1) old [OF True] 2(1) by (simp add: slots_inv_def slot_inv_def runtime_of_def)
  next
    case False
    then have "slot_of pl j \<in> set slots" using j by (simp add: 2(1) slot_of_def nth_append)
    with 2(2) have "sl_runtime (slot_of pl j) = slot_runtime_default now" by blast
    with assms(1) False show ?thesis
      by (intro slot_inv_fresh [where s = s and pl = pl and sl = "slot_of pl j" and now = now])
        (simp_all add: slots_inv_def)
  qed
  moreover have "acts_in_range (s\<lparr>ps_pool := pl\<rparr>)"
    using assms(1) by (auto simp: slots_inv_def acts_in_range_def 2(1) intro: less_le_trans)
  ultimately show ?thesis by (simp add: slots_inv_def)
qed

lemma acts_slot: "slots_inv s \<Longrightarrow> ps_acts s = add_mset a rest \<Longrightarrow> act_slot a < length (pl_slots (ps_pool s))"
  by (simp add: slots_inv_def acts_in_range_def)

text \<open>Which activities of slot \<open>i\<close> a pool section changes.\<close>

lemma turn_acts_other: "j \<noteq> i \<Longrightarrow> acts_at j (turn_acts i r) = {#}"
  by (cases r) simp_all

lemma turn_acts_own: "acts_at i (turn_acts i r) = turn_acts i r"
  by (cases r) simp_all

lemma finish_acts_other: "j \<noteq> i \<Longrightarrow> acts_at j (finish_acts i r) = {#}"
  by (cases r) simp_all

lemma finish_acts_own: "acts_at i (finish_acts i r) = finish_acts i r"
  by (cases r) simp_all

lemma refused_fields [simp]:
  "length (pl_slots (reserve_refused b i pl)) = length (pl_slots pl)"
  "pl_stopped (reserve_refused b i pl) = pl_stopped pl"
  "runtime_of (reserve_refused b i pl) j =
     (if j = i \<and> i < length (pl_slots pl)
      then (runtime_of pl i)\<lparr>sr_activating := False,
             sr_last_error := Some ''provider pool has no reclaimable capacity''\<rparr>
      else runtime_of pl j)"
  by (simp_all add: reserve_refused_def capacity_refused_def)

lemma evict_end_fields [simp]:
  "length (pl_slots (evict_failed p e i pl)) = length (pl_slots pl)"
  "length (pl_slots (evict_cleared now i pl)) = length (pl_slots pl)"
  "length (pl_slots (evict_released c i pl)) = length (pl_slots pl)"
  "pl_stopped (evict_failed p e i pl) = pl_stopped pl"
  "pl_stopped (evict_cleared now i pl) = pl_stopped pl"
  "pl_stopped (evict_released c i pl) = pl_stopped pl"
  "runtime_of (evict_released c i pl) = runtime_of pl"
  by (simp_all add: evict_failed_def evict_cleared_def evict_released_def release_slot_def)

lemma lease_drop_fields [simp]:
  "length (pl_slots (lease_drop now i pl)) = length (pl_slots pl)"
  "pl_stopped (lease_drop now i pl) = pl_stopped pl"
  by (simp_all add: lease_drop_def Let_def)

lemma slots_inv_step:
  assumes inv: "slots_inv s" and "pool_step nm spt s t"
  shows "slots_inv t"
  using assms(2)
proof cases
  case (providers_step now ident r pl)
  with slots_inv_providers [OF inv] show ?thesis by simp
next
  case stop_step
  with inv show ?thesis
    by (auto simp: slots_inv_def acts_in_range_def slot_inv_def slot_exclusive_def)
next
  case (turn_step i stopped ctx w w' pl r)
  show ?thesis
    by (rule slots_inv_local [OF inv, where i = i])
      (use turn_frame [OF turn_step(3)] slot_turn [OF turn_step(3,2)] turn_step(2) in
        \<open>simp_all add: turn_step(1) turn_acts_other turn_acts_own slot_inv_def\<close>)
next
  case (finish_step i rest horizon now started pl r)
  have i: "i < length (pl_slots (ps_pool s))" using acts_slot [OF inv finish_step(2)] by simp
  show ?thesis
    by (rule slots_inv_local [OF inv, where i = i])
      (use finish_frame [OF finish_step(3)] slot_finish [OF finish_step(3) i] i in
        \<open>simp_all add: finish_step(1,2) finish_acts_other finish_acts_own slot_inv_def\<close>)
next
  case (discard_step i p reason rest horizon now stopped pl f)
  have i: "i < length (pl_slots (ps_pool s))" using acts_slot [OF inv discard_step(2)] by simp
  show ?thesis
    by (rule slots_inv_local [OF inv, where i = i])
      (use discard_frame [OF discard_step(3)] slot_discard [OF discard_step(3) i] i in
        \<open>simp_all add: discard_step(1,2) slot_inv_def\<close>)
next
  case (evict_step i cause pl p)
  show ?thesis
    by (rule slots_inv_local [OF inv, where i = i])
      (use slot_evict [OF evict_step(3,2)] evict_step(2) evict_begin_Some(2) [OF evict_step(3)] in
        \<open>simp_all add: evict_step(1) slot_inv_def\<close>)
next
  case (check_step i rest)
  have i: "i < length (pl_slots (ps_pool s))" using acts_slot [OF inv check_step(2)] by simp
  show ?thesis
    by (rule slots_inv_local [OF inv, where i = i])
      (use i check_step(3) in \<open>auto simp: none_occupy check_step(1,2) slot_inv_def slot_exclusive_def slot_leases_def\<close>)
next
  case (reserve_step i rest st)
  have i: "i < length (pl_slots (ps_pool s))" using acts_slot [OF inv reserve_step(2)] by simp
  show ?thesis
    by (rule slots_inv_local [OF inv, where i = i])
      (use i in \<open>auto simp: reserve_step(1,2) slot_inv_def slot_exclusive_def slot_leases_def\<close>)
next
  case (retry_step i rest limited st)
  have i: "i < length (pl_slots (ps_pool s))" using acts_slot [OF inv retry_step(2)] by simp
  show ?thesis
    by (rule slots_inv_local [OF inv, where i = i])
      (use i in \<open>auto simp: retry_step(1,2) slot_inv_def slot_exclusive_def slot_leases_def\<close>)
next
  case (refuse_step a rest i b)
  have i: "i < length (pl_slots (ps_pool s))" using acts_slot [OF inv refuse_step(2)] refuse_step(3) by auto
  show ?thesis
    by (rule slots_inv_local [OF inv, where i = i])
      (use i refuse_step(3) in \<open>auto simp: refuse_step(1,2) slot_inv_def slot_exclusive_def slot_leases_def\<close>)
next
  case (evict_failed_step i p cause rest err)
  have i: "i < length (pl_slots (ps_pool s))" using acts_slot [OF inv evict_failed_step(2)] by simp
  show ?thesis
    by (rule slots_inv_local [OF inv, where i = i])
      (use i in \<open>auto simp: evict_failed_step(1,2) evict_failed_def slot_inv_def slot_exclusive_def
        slot_leases_def\<close>)
next
  case (evict_cleared_step i p cause rest now)
  have i: "i < length (pl_slots (ps_pool s))" using acts_slot [OF inv evict_cleared_step(2)] by simp
  show ?thesis
    by (rule slots_inv_local [OF inv, where i = i])
      (use i in \<open>auto simp: evict_cleared_step(1,2) evict_cleared_def slot_inv_def slot_exclusive_def
        slot_leases_def\<close>)
next
  case (evict_released_step i cause rest)
  have i: "i < length (pl_slots (ps_pool s))" using acts_slot [OF inv evict_released_step(2)] by simp
  show ?thesis
    by (rule slots_inv_local [OF inv, where i = i])
      (use i in \<open>auto simp: evict_released_step(1,2) slot_inv_def slot_exclusive_def slot_leases_def\<close>)
next
  case (lease_step i p rest now)
  have i: "i < length (pl_slots (ps_pool s))" using acts_slot [OF inv lease_step(2)] by simp
  show ?thesis
    by (rule slots_inv_local [OF inv, where i = i])
      (use i in \<open>auto simp: lease_step(1,2) lease_drop_def Let_def slot_inv_def slot_exclusive_def
        slot_leases_def\<close>)
next
  case (admission_step st)
  with inv show ?thesis
    by (simp add: slots_inv_def acts_in_range_def slot_inv_def)
qed

interpretation slots: step_invariant "pool_system_start cfg rs" "pool_step nm spt" slots_inv
  for cfg rs nm spt
proof (unfold_locales, goal_cases)
  case 1 show ?case
    by (simp add: slots_inv_def acts_in_range_def pool_system_start_def empty_pool_def)
next
  case (2 s t) then show ?case by (rule slots_inv_step)
qed

subsection \<open>Properties\<close>

text \<open>
  C34: A slot has one provider, and a leased provider is not reclaimed. However calls,
  evictions and the shutdown interleave, a slot never has more than one adapter installed,
  starting or stopping. As long as nobody has forced the slot's shutdown, its in-flight count
  is the number of outstanding leases, every lease is on the installed adapter, and the
  reaper or a capacity eviction starts on the slot only when there is no lease.
\<close>

theorem leases_protect_providers:
  assumes "reachable_from (pool_system_start cfg rs) (pool_step nm spt) s"
    and "i < length (pl_slots (ps_pool s))"
  shows "of_bool (sr_provider (runtime_of (ps_pool s) i) \<noteq> None) +
      number_of occupies (acts_at i (ps_acts s)) \<le> (1 :: nat) \<and>
    (i \<notin> ps_forced s \<longrightarrow>
      sr_in_flight (runtime_of (ps_pool s) i) = number_of is_lease (acts_at i (ps_acts s)) \<and>
      (\<forall>p. ActLease i p \<in># ps_acts s \<longrightarrow> sr_provider (runtime_of (ps_pool s) i) = Some p) \<and>
      (\<forall>cause pl p. cause \<noteq> EvictShutdown \<and> evict_begin cause i (ps_pool s) = (pl, Some p) \<longrightarrow>
         (\<forall>q. ActLease i q \<notin># ps_acts s)))"
proof -
  have inv: "slot_inv s i" using slots.inv_reachable [OF assms(1)] assms(2) by (simp add: slots_inv_def)
  let ?M = "acts_at i (ps_acts s)" and ?rt = "runtime_of (ps_pool s) i"
  have lease_at: "ActLease i q \<in># ?M" if "ActLease i q \<in># ps_acts s" for q using that by simp
  have none: "ActLease i q \<notin># ps_acts s" if "number_of is_lease ?M = 0" for q
  proof
    assume "ActLease i q \<in># ps_acts s"
    then have "ActLease i q \<in># ?M" by (rule lease_at)
    with that have "\<not> is_lease (ActLease i q)" unfolding number_of_0 by blast
    then show False by simp
  qed
  have idle: "sr_in_flight ?rt = 0"
    if "cause \<noteq> EvictShutdown" "evict_begin cause i (ps_pool s) = (pl, Some p)" for cause pl p
    using evict_begin_Some(3) [OF that(2,1)] by simp
  have leases: "number_of is_lease ?M = sr_in_flight ?rt"
      "\<And>q. ActLease i q \<in># ps_acts s \<Longrightarrow> sr_provider ?rt = Some q" if "i \<notin> ps_forced s"
    using inv that lease_at unfolding slot_inv_def slot_leases_def by force+
  show ?thesis
  proof (intro conjI impI)
    show "of_bool (sr_provider ?rt \<noteq> None) + number_of occupies ?M \<le> (1 :: nat)"
      using inv by (simp add: slot_inv_def slot_exclusive_def)
  next
    assume "i \<notin> ps_forced s"
    note l = leases [OF this]
    show "sr_in_flight ?rt = number_of is_lease ?M" using l(1) by simp
    show "\<forall>p. ActLease i p \<in># ps_acts s \<longrightarrow> sr_provider ?rt = Some p" using l(2) by blast
    show "\<forall>cause pl p. cause \<noteq> EvictShutdown \<and> evict_begin cause i (ps_pool s) = (pl, Some p) \<longrightarrow>
        (\<forall>q. ActLease i q \<notin># ps_acts s)"
      using idle none l(1) by metis
  qed
qed

text \<open>A pool with one worktree and one adapter; adapters are numbered to tell them apart.\<close>

definition sample_identity_pool :: workspace_identity where
  "sample_identity_pool = \<lparr>wi_repository = ''r'', wi_workspace = ''w'', wi_root = ''/w''\<rparr>"

definition sample_registration :: registration where
  "sample_registration = registration_new ''ra'' [LangRust] 1"

type_synonym sample_adapter = "string \<times> nat"

definition sample_supports :: "sample_adapter \<Rightarrow> language \<Rightarrow> bool" where
  "sample_supports p l \<longleftrightarrow> l = LangRust"

definition sample_pool :: "sample_adapter slot_runtime \<Rightarrow> pool_state \<Rightarrow> sample_adapter provider_pool" where
  "sample_pool rt st = \<lparr>pl_config = pool_config_default, pl_registrations = [sample_registration],
     pl_slots = [\<lparr>sl_workspace = sample_identity_pool, sl_registration = sample_registration,
       sl_runtime = rt\<rparr>], pl_state = st, pl_stopped = False\<rparr>"

definition sample_system :: "sample_adapter slot_runtime \<Rightarrow> pool_state \<Rightarrow> sample_adapter activity multiset \<Rightarrow>
    nat set \<Rightarrow> sample_adapter pool_system" where
  "sample_system rt st M F = \<lparr>ps_pool = sample_pool rt st, ps_acts = M, ps_forced = F\<rparr>"

abbreviation sample_reach :: "sample_adapter pool_system \<Rightarrow> bool" where
  "sample_reach s \<equiv> reachable_from (pool_system_start pool_config_default [sample_registration])
     (pool_step fst sample_supports) s"

lemma sample_pool_simps [simp]:
  "runtime_of (sample_pool rt st) 0 = rt" "set_runtime 0 rt' (sample_pool rt st) = sample_pool rt' st"
  "slot_workspace (sample_pool rt st) 0 = ''w''" "reservation_of (sample_pool rt st) 0 = 1"
  "pl_state (sample_pool rt st) = st" "pl_config (sample_pool rt st) = pool_config_default"
  "\<not> pl_stopped (sample_pool rt st)" "(sample_pool rt st)\<lparr>pl_state := st'\<rparr> = sample_pool rt st'"
  "on_state f (sample_pool rt st) = sample_pool rt (f st)" "length (pl_slots (sample_pool rt st)) = 1"
  "sl_registration (slot_of (sample_pool rt st) 0) = sample_registration"
  by (simp_all add: sample_pool_def runtime_of_def slot_of_def set_runtime_def slot_workspace_def
      reservation_of_def on_state_def sample_registration_def registration_new_def sample_identity_pool_def)

lemma sample_step:
  assumes "sample_reach (sample_system rt st M F)"
    "pool_step fst sample_supports (sample_system rt st M F) t" "t = sample_system rt' st' M' F'"
  shows "sample_reach (sample_system rt' st' M' F')"
  using assms(1,2) unfolding assms(3) by (rule reachable_step)

definition sample_held :: "pool_state \<Rightarrow> bool" where
  "sample_held st \<longleftrightarrow> po_active st = 1 \<and> po_memory st = 1 \<and>
     po_usage st = [(''w'', \<lparr>wu_active = 1, wu_memory = 1\<rparr>)]"

definition sample_free :: "pool_state \<Rightarrow> bool" where
  "sample_free st \<longleftrightarrow> po_active st = 0 \<and> po_memory st = 0 \<and> po_usage st = []"

definition sample_world_at :: op_world where
  "sample_world_at = \<lparr>world_cancelled = (\<lambda>_. False), world_now = 0\<rparr>"

lemma sample_activate:
  assumes "sample_reach (sample_system rt st M F)" "sr_provider rt = None" "\<not> sr_activating rt"
    "sr_retry_after rt = None" "sample_free st"
  shows "\<exists>rt' st'. sample_reach (sample_system rt' st' (add_mset (ActLease 0 (''ra'', n)) M) F) \<and>
    sr_provider rt' = Some (''ra'', n) \<and> \<not> sr_activating rt' \<and> sr_retry_after rt' = None \<and>
    sr_in_flight rt' = 1 \<and> sample_held st'"
proof -
  let ?c = "rt\<lparr>sr_activating := True\<rparr>"
  have "activate_turn False (context_unbounded 0) sample_world_at sample_world_at 0 (sample_pool rt st) =
      (sample_pool ?c st, ActivationClaimed)"
    using assms(2-4) by (simp add: activate_turn_def Let_def context_check_def context_unbounded_def
        sample_world_at_def)
  then have "sample_reach (sample_system ?c st (add_mset (ActClaimed 0) M) F)"
    by (intro sample_step [OF assms(1) turn_step [where r = ActivationClaimed]])
      (simp_all add: sample_system_def)
  then have r: "sample_reach (sample_system ?c st (add_mset (ActReserving 0) M) F)"
    by (rule sample_step [OF _ check_step]) (simp_all add: sample_system_def)
  obtain st1 where t: "try_reserve pool_config_default ''w'' 1 st = (Inr (), st1)" and held: "sample_held st1"
    using assms(5) by (simp add: sample_free_def try_reserve_def Let_def usage_of_def
        workspace_usage_default_def pool_config_default_def sample_held_def sat_add64_def u64_max_def)
  from r have s: "sample_reach (sample_system ?c st1 (add_mset (ActStarting 0) M) F)"
    by (rule sample_step [OF _ reserve_step [where st = st1]]) (use t in \<open>simp_all add: sample_system_def\<close>)
  obtain rt2 st2 where f: "activate_finish fst sample_supports 0 0 (Inr (''ra'', n)) 0 (sample_pool ?c st1) =
      (sample_pool rt2 st2, FinishLease (''ra'', n))"
    and rt2: "sr_provider rt2 = Some (''ra'', n)" "\<not> sr_activating rt2" "sr_retry_after rt2 = None"
      "sr_in_flight rt2 = 1" "sample_held st2"
    using held by (simp add: activate_finish_def Let_def compatible_def sample_registration_def
        registration_new_def sample_supports_def sample_held_def)
  from s have "sample_reach (sample_system rt2 st2 (add_mset (ActLease 0 (''ra'', n)) M) F)"
    by (rule sample_step [OF _ finish_step [where r = "FinishLease (''ra'', n)"]]) (use f in \<open>simp_all add: sample_system_def\<close>)
  with rt2 show ?thesis by blast
qed

lemma sample_registered:
  "sample_reach (sample_system (slot_runtime_default 0) pool_state_default {#} {})"
proof -
  have "providers_for 0 sample_identity_pool (ps_pool (pool_system_start pool_config_default [sample_registration])) =
      (Inr [0], sample_pool (slot_runtime_default 0) pool_state_default)"
    by (simp add: providers_for_def pool_system_start_def empty_pool_def sample_pool_def Let_def)
  from providers_step [OF this]
  have "pool_step fst sample_supports (pool_system_start pool_config_default [sample_registration])
      (sample_system (slot_runtime_default 0) pool_state_default {#} {})"
    by (simp add: pool_system_start_def sample_system_def)
  with reachable_start show ?thesis by (rule reachable_step)
qed

lemma sample_leased:
  "\<exists>rt st. sample_reach (sample_system rt st {#ActLease 0 (''ra'', 0)#} {}) \<and>
     sr_provider rt = Some (''ra'', 0) \<and> \<not> sr_activating rt \<and> sr_retry_after rt = None \<and>
     sr_in_flight rt = 1 \<and> sample_held st"
  by (rule sample_activate [OF sample_registered])
    (simp_all add: slot_runtime_default_def pool_state_default_def sample_free_def)

theorem leases_protect_providers_witness:
  "\<exists>s. sample_reach s \<and> ActLease 0 (''ra'', 0) \<in># ps_acts s \<and>
     sr_provider (runtime_of (ps_pool s) 0) = Some (''ra'', 0)"
proof -
  obtain rt st where r: "sample_reach (sample_system rt st {#ActLease 0 (''ra'', 0)#} {})"
    using sample_leased by blast
  from leases_protect_providers [OF this, of 0] r show ?thesis
    by (intro exI [of _ "sample_system rt st {#ActLease 0 (''ra'', 0)#} {}"])
      (simp add: sample_system_def)
qed

lemma sample_forced_evict:
  assumes "sample_reach (sample_system rt st M F)" "sr_provider rt = Some p" "sample_held st"
    "sr_retry_after rt = None"
  shows "\<exists>rt' st'. sample_reach (sample_system rt' st' M (insert 0 F)) \<and> sr_provider rt' = None \<and>
    \<not> sr_activating rt' \<and> sr_retry_after rt' = None \<and> sample_free st'"
proof -
  let ?e = "rt\<lparr>sr_provider := None, sr_activating := True\<rparr>"
  let ?c = "?e\<lparr>sr_activating := False, sr_last_used := 0, sr_last_error := None\<rparr>"
  let ?st = "release_reservation ''w'' 1 st"
  have "evict_begin EvictShutdown 0 (sample_pool rt st) = (sample_pool ?e st, Some p)"
    using assms(2) by (simp add: evict_begin_def Let_def)
  then have 1: "sample_reach (sample_system ?e st (add_mset (ActEvicting 0 p EvictShutdown) M) (insert 0 F))"
    by (intro sample_step [OF assms(1) evict_step [where cause = EvictShutdown and p = p]])
      (simp_all add: sample_system_def)
  then have 2: "sample_reach (sample_system ?c st (add_mset (ActReleasing 0 EvictShutdown) M) (insert 0 F))"
    by (rule sample_step [OF _ evict_cleared_step [where now = 0 and i = 0 and rest = M]])
      (simp_all add: sample_system_def evict_cleared_def)
  then have 3: "sample_reach (sample_system ?c ?st M (insert 0 F))"
    by (rule sample_step [OF _ evict_released_step [where i = 0 and cause = EvictShutdown and rest = M]])
      (simp_all add: sample_system_def evict_released_def release_slot_def count_eviction_def)
  have "sample_free ?st"
    using assms(3) by (simp add: sample_held_def sample_free_def release_reservation_def Let_def omap_delete_def)
  with 3 assms(4) show ?thesis by (intro exI [of _ ?c] exI [of _ ?st]) simp
qed

text \<open>
  C36: The hypothesis on forced shutdowns is needed. After \<open>PooledProvider::shutdown\<close> with a query
  in flight, the next activation sets \<open>in_flight = 1\<close> although the old lease is alive; when
  that one is dropped, the count is zero with a query running, and the idle reaper takes the
  adapter away from it.
\<close>

theorem forced_shutdown_loses_lease:
  "\<exists>s pl. sample_reach s \<and> \<not> pl_stopped (ps_pool s) \<and> ActLease 0 (''ra'', 1) \<in># ps_acts s \<and>
     evict_begin EvictIdle 0 (ps_pool s) = (pl, Some (''ra'', 1))"
proof -
  obtain rt st where "sample_reach (sample_system rt st {#ActLease 0 (''ra'', 0)#} {})"
    "sr_provider rt = Some (''ra'', 0)" "sample_held st" "sr_retry_after rt = None"
    using sample_leased by blast
  from sample_forced_evict [OF this] obtain rt1 st1 where
    1: "sample_reach (sample_system rt1 st1 {#ActLease 0 (''ra'', 0)#} {0})"
      "sr_provider rt1 = None" "\<not> sr_activating rt1" "sr_retry_after rt1 = None" "sample_free st1"
    by blast
  from sample_activate [OF 1, of 1] obtain rt2 st2 where
    2: "sample_reach (sample_system rt2 st2 {#ActLease 0 (''ra'', 1), ActLease 0 (''ra'', 0)#} {0})"
      "sr_provider rt2 = Some (''ra'', 1)" "\<not> sr_activating rt2" "sr_in_flight rt2 = 1"
    by blast
  let ?rt = "rt2\<lparr>sr_in_flight := 0, sr_last_used := 0\<rparr>"
  have 3: "sample_reach (sample_system ?rt st2 {#ActLease 0 (''ra'', 1)#} {0})"
    by (rule sample_step [OF 2(1) lease_step [where i = 0 and p = "(''ra'', 0)" and now = 0]])
      (use 2(4) in \<open>simp_all add: sample_system_def lease_drop_def Let_def add_mset_commute\<close>)
  have "evict_begin EvictIdle 0 (sample_pool ?rt st2) =
      (sample_pool (?rt\<lparr>sr_provider := None, sr_activating := True\<rparr>) st2, Some (''ra'', 1))"
    using 2(2,3) by (simp add: evict_begin_def Let_def)
  with 3 show ?thesis
    by (intro exI [of _ "sample_system ?rt st2 {#ActLease 0 (''ra'', 1)#} {0}"] exI)
      (simp add: sample_system_def)
qed

end
