(* ===== verification/Pool_Capacity.thy ===== *)
theory Pool_Capacity
  imports Pool_Leases
begin

section \<open>Capacity accounting of the provider pool\<close>

text \<open>
  A slot holds one reservation while an adapter is installed or while a call starts, discards,
  stops or has not yet released one. The shared counters of the pool are the sums of the held
  reservations, for the process and for each worktree, and stay within the configured limits.
\<close>

fun holds_reservation :: "'p activity \<Rightarrow> bool" where
  "holds_reservation (ActStarting i) \<longleftrightarrow> True"
| "holds_reservation (ActDiscarding i p r) \<longleftrightarrow> True"
| "holds_reservation (ActEvicting i p c) \<longleftrightarrow> True"
| "holds_reservation (ActReleasing i c) \<longleftrightarrow> True"
| "holds_reservation (ActClaimed i) \<longleftrightarrow> False"
| "holds_reservation (ActReserving i) \<longleftrightarrow> False"
| "holds_reservation (ActLease i p) \<longleftrightarrow> False"

definition held :: "'p pool_system \<Rightarrow> nat \<Rightarrow> nat" where
  "held s i = of_bool (sr_provider (runtime_of (ps_pool s) i) \<noteq> None) +
     number_of holds_reservation (acts_at i (ps_acts s))"

definition held_total :: "'p provider_pool \<Rightarrow> (nat \<Rightarrow> nat) \<Rightarrow> (nat \<Rightarrow> bool) \<Rightarrow> (nat \<Rightarrow> nat) \<Rightarrow> nat" where
  "held_total pl h P weight = (\<Sum>i | i < length (pl_slots pl) \<and> P i. h i * weight i)"

abbreviation in_workspace :: "'p provider_pool \<Rightarrow> workspace_id \<Rightarrow> nat \<Rightarrow> bool" where
  "in_workspace pl ws i \<equiv> slot_workspace pl i = ws"

definition workspace_accounts ::
    "pool_config \<Rightarrow> 'p provider_pool \<Rightarrow> (nat \<Rightarrow> nat) \<Rightarrow> workspace_id \<Rightarrow> bool" where
  "workspace_accounts cfg pl h ws \<longleftrightarrow>
     wu_active (usage_of ws (pl_state pl)) = held_total pl h (in_workspace pl ws) (\<lambda>_. 1) \<and>
     wu_memory (usage_of ws (pl_state pl)) = held_total pl h (in_workspace pl ws) (reservation_of pl) \<and>
     (omap_get (po_usage (pl_state pl)) ws = None \<longleftrightarrow> held_total pl h (in_workspace pl ws) (\<lambda>_. 1) = 0) \<and>
     held_total pl h (in_workspace pl ws) (\<lambda>_. 1) \<le> pc_max_active_providers_per_workspace cfg \<and>
     held_total pl h (in_workspace pl ws) (reservation_of pl) \<le> pc_max_reserved_memory_bytes_per_workspace cfg"

definition accounts :: "pool_config \<Rightarrow> 'p provider_pool \<Rightarrow> (nat \<Rightarrow> nat) \<Rightarrow> bool" where
  "accounts cfg pl h \<longleftrightarrow>
     po_active (pl_state pl) = held_total pl h (\<lambda>_. True) (\<lambda>_. 1) \<and>
     po_memory (pl_state pl) = held_total pl h (\<lambda>_. True) (reservation_of pl) \<and>
     held_total pl h (\<lambda>_. True) (\<lambda>_. 1) \<le> pc_max_active_providers cfg \<and>
     held_total pl h (\<lambda>_. True) (reservation_of pl) \<le> pc_max_reserved_memory_bytes cfg \<and>
     (\<forall>ws. workspace_accounts cfg pl h ws)"

lemma held_total_bump:
  assumes "i < length (pl_slots pl)"
  shows "held_total pl (h(i := Suc (h i))) P w = held_total pl h P w + (if P i then w i else 0)"
proof -
  let ?I = "{j. j < length (pl_slots pl) \<and> P j}"
  have fin: "finite ?I" by simp
  show ?thesis
  proof (cases "P i")
    case True
    with assms have i: "i \<in> ?I" by simp
    have "(\<Sum>j\<in>?I. (h(i := Suc (h i))) j * w j) = (\<Sum>j\<in>?I. h j * w j + (if j = i then w i else 0))"
      by (rule sum.cong) auto
    also have "\<dots> = (\<Sum>j\<in>?I. h j * w j) + w i"
      using i fin by (simp add: sum.distrib)
    finally show ?thesis using True by (simp add: held_total_def)
  next
    case False
    then have "(\<Sum>j\<in>?I. (h(i := Suc (h i))) j * w j) = (\<Sum>j\<in>?I. h j * w j)"
      by (intro sum.cong) auto
    with False show ?thesis by (simp add: held_total_def)
  qed
qed

lemma held_total_le: "(\<And>i. P i \<Longrightarrow> Q i) \<Longrightarrow> held_total pl h P w \<le> held_total pl h Q w"
  unfolding held_total_def by (rule sum_mono2) auto

lemma accounts_reserve:
  assumes "accounts cfg pl h" "i < length (pl_slots pl)" "pc_max_reserved_memory_bytes cfg < u64_max"
    and "try_reserve cfg (slot_workspace pl i) (reservation_of pl i) (pl_state pl) = (Inr (), st)"
  shows "accounts cfg (pl\<lparr>pl_state := st\<rparr>) (h(i := Suc (h i)))"
proof -
  let ?st = "pl_state pl" and ?ws = "slot_workspace pl i" and ?r = "reservation_of pl i"
  let ?u = "usage_of ?ws ?st"
  have ok: "po_active ?st < pc_max_active_providers cfg"
    "sat_add64 (po_memory ?st) ?r \<le> pc_max_reserved_memory_bytes cfg"
    "wu_active ?u < pc_max_active_providers_per_workspace cfg"
    "sat_add64 (wu_memory ?u) ?r \<le> pc_max_reserved_memory_bytes_per_workspace cfg"
    and st: "st = ?st\<lparr>po_active := po_active ?st + 1, po_memory := sat_add64 (po_memory ?st) ?r,
      po_usage := omap_insert ?ws (?u\<lparr>wu_active := wu_active ?u + 1,
        wu_memory := sat_add64 (wu_memory ?u) ?r\<rparr>) (po_usage ?st)\<rparr>"
    using assms(4) by (auto simp: try_reserve_def Let_def split: if_splits)
  have room: "po_memory ?st + ?r < u64_max"
    using ok(2) assms(3) by (simp add: sat_add64_def min_def split: if_splits)
  have acc: "po_memory ?st = held_total pl h (\<lambda>_. True) (reservation_of pl)"
    "wu_memory ?u = held_total pl h (in_workspace pl ?ws) (reservation_of pl)"
    using assms(1) by (simp_all add: accounts_def workspace_accounts_def)
  have "wu_memory ?u \<le> po_memory ?st" unfolding acc by (rule held_total_le) simp
  with room have exact: "sat_add64 (po_memory ?st) ?r = po_memory ?st + ?r"
    "sat_add64 (wu_memory ?u) ?r = wu_memory ?u + ?r" by (simp_all add: sat_add64_def)
  have usage: "usage_of ws st = (if ws = ?ws then ?u\<lparr>wu_active := wu_active ?u + 1,
      wu_memory := wu_memory ?u + ?r\<rparr> else usage_of ws ?st)" for ws
    by (simp add: st usage_of_def exact [unfolded usage_of_def])
  have frame: "slot_workspace (pl\<lparr>pl_state := st\<rparr>) = slot_workspace pl"
    "reservation_of (pl\<lparr>pl_state := st\<rparr>) = reservation_of pl"
    "held_total (pl\<lparr>pl_state := st\<rparr>) = held_total pl" "pl_state (pl\<lparr>pl_state := st\<rparr>) = st"
    by (simp_all add: fun_eq_iff held_total_def)
  note bump = held_total_bump [OF assms(2)]
  have get: "omap_get (po_usage st) ws = None \<longleftrightarrow> ws \<noteq> ?ws \<and> omap_get (po_usage ?st) ws = None" for ws
    by (simp add: st)
  have wa: "workspace_accounts cfg pl h ws" for ws using assms(1) by (simp add: accounts_def)
  have "workspace_accounts cfg (pl\<lparr>pl_state := st\<rparr>) (h(i := Suc (h i))) ws" for ws
    using wa [of ws] ok(3,4) acc(2)
    unfolding workspace_accounts_def frame bump usage get exact
    by (cases "ws = ?ws") auto
  moreover have "po_active st = po_active ?st + 1" "po_memory st = po_memory ?st + ?r"
    by (simp_all add: st exact)
  ultimately show ?thesis
    using assms(1) ok(1,2) unfolding accounts_def frame bump exact by auto
qed

lemma accounts_release:
  assumes "accounts cfg pl h'" "i < length (pl_slots pl)" "h' = h(i := Suc (h i))"
  shows "accounts cfg (release_slot i pl) h"
proof -
  let ?st = "pl_state pl" and ?ws = "slot_workspace pl i" and ?r = "reservation_of pl i"
  let ?u = "usage_of ?ws ?st" and ?pl = "release_slot i pl"
  note bump = held_total_bump [OF assms(2)]
  have wa: "workspace_accounts cfg pl (h(i := Suc (h i))) ws" for ws
    using assms(1,3) by (simp add: accounts_def)
  then obtain u where u: "omap_get (po_usage ?st) ?ws = Some u"
    unfolding workspace_accounts_def bump by fastforce
  then have u_eq: "?u = u" by (simp add: usage_of_def omap_get_or_def)
  have zero: "held_total pl h (in_workspace pl ?ws) (\<lambda>_. 1) = 0 \<longrightarrow>
      held_total pl h (in_workspace pl ?ws) (reservation_of pl) = 0"
    by (simp add: held_total_def)
  have frame: "slot_workspace ?pl = slot_workspace pl" "reservation_of ?pl = reservation_of pl"
    "held_total ?pl = held_total pl"
    by (simp_all add: fun_eq_iff held_total_def release_slot_def)
  have st: "po_active (pl_state ?pl) = po_active ?st - 1" "po_memory (pl_state ?pl) = po_memory ?st - ?r"
    by (simp_all add: release_slot_def release_reservation_def)
  have own: "usage_of ?ws (pl_state ?pl) = (if wu_active u = 1 \<and> wu_memory u = ?r then workspace_usage_default
       else u\<lparr>wu_active := wu_active u - 1, wu_memory := wu_memory u - ?r\<rparr>)"
    "omap_get (po_usage (pl_state ?pl)) ?ws = None \<longleftrightarrow> wu_active u = 1 \<and> wu_memory u = ?r"
    if "1 \<le> wu_active u" "?r \<le> wu_memory u"
    using u that by (auto simp: release_slot_def release_reservation_def usage_of_def Let_def omap_get_or_def)
  have away: "usage_of ws (pl_state ?pl) = usage_of ws ?st"
    "omap_get (po_usage (pl_state ?pl)) ws = omap_get (po_usage ?st) ws" if "ws \<noteq> ?ws" for ws
    using u that by (auto simp: release_slot_def release_reservation_def usage_of_def Let_def omap_get_or_def)
  have "workspace_accounts cfg ?pl h ws" for ws
  proof (cases "ws = ?ws")
    case True
    have w: "wu_active u = held_total pl h (in_workspace pl ?ws) (\<lambda>_. 1) + 1"
      "wu_memory u = held_total pl h (in_workspace pl ?ws) (reservation_of pl) + ?r"
      "held_total pl h (in_workspace pl ?ws) (\<lambda>_. 1) + 1 \<le> pc_max_active_providers_per_workspace cfg"
      "held_total pl h (in_workspace pl ?ws) (reservation_of pl) + ?r \<le> pc_max_reserved_memory_bytes_per_workspace cfg"
      using wa [of ?ws] unfolding workspace_accounts_def bump u_eq by simp_all
    then have "1 \<le> wu_active u" "?r \<le> wu_memory u" by simp_all
    note own = own [OF this]
    show ?thesis
      using w zero unfolding True workspace_accounts_def frame own
      by (auto simp: workspace_usage_default_def)
  next
    case False
    then show ?thesis
      using wa [of ws] unfolding workspace_accounts_def frame away [OF False] bump by simp
  qed
  then show ?thesis
    using assms(1) unfolding assms(3) accounts_def frame st bump by auto
qed

text \<open>The books depend on the slots' owners and sizes and on the shared counters only.\<close>

lemma accounts_cong:
  assumes "accounts cfg pl h" "length (pl_slots pl') = length (pl_slots pl)"
    "\<And>i. slot_workspace pl' i = slot_workspace pl i" "\<And>i. reservation_of pl' i = reservation_of pl i"
    "same_capacity (pl_state pl) (pl_state pl')" "\<And>i. i < length (pl_slots pl) \<Longrightarrow> h' i = h i"
  shows "accounts cfg pl' h'"
proof -
  have f: "slot_workspace pl' = slot_workspace pl" "reservation_of pl' = reservation_of pl"
    using assms(3,4) by (simp_all add: fun_eq_iff)
  have "held_total pl' h' P w = held_total pl h P w" for P w
    unfolding held_total_def assms(2) using assms(6) by (auto intro!: sum.cong)
  then show ?thesis
    using assms(1,5) unfolding accounts_def workspace_accounts_def f same_capacity_def usage_of_def by simp
qed

subsection \<open>The step relation\<close>

lemma release_fields [simp]:
  "length (pl_slots (release_slot i pl)) = length (pl_slots pl)"
  "slot_workspace (release_slot i pl) = slot_workspace pl" "reservation_of (release_slot i pl) = reservation_of pl"
  "runtime_of (release_slot i pl) = runtime_of pl" "pl_config (release_slot i pl) = pl_config pl"
  "pl_stopped (release_slot i pl) = pl_stopped pl"
  by (simp_all add: release_slot_def)

lemma same_capacity_refl [simp]: "same_capacity st st"
  by (simp add: same_capacity_def)

lemma same_capacity_counts [simp]:
  "same_capacity st (count_saturated st)" "same_capacity st (count_cancelled st)"
  "same_capacity st (count_shutdown_failure st)" "same_capacity st (count_activation_failure st)"
  "same_capacity st (count_activation_failure (count_shutdown_failure st))"
  "same_capacity st (count_eviction c st)" "same_capacity st (fst (record_activation_abort a st))"
  by (cases c; cases a; simp add: same_capacity_def count_shutdown_failure_def count_activation_failure_def
      count_eviction_def)+

lemma same_capacity_activations [simp]: "same_capacity st (st\<lparr>po_activations := n\<rparr>)"
  by (simp add: same_capacity_def)

definition capacity_inv :: "pool_config \<Rightarrow> 'p pool_system \<Rightarrow> bool" where
  "capacity_inv cfg s \<longleftrightarrow> slots_inv s \<and> pl_config (ps_pool s) = cfg \<and> accounts cfg (ps_pool s) (held s)"

text \<open>
  A step on slot \<open>i\<close> that leaves the shared counters alone keeps the books if the slot holds
  as much as before; one that releases a reservation, if the slot held one more.
\<close>

lemma accounts_kept:
  assumes "accounts cfg (ps_pool s) (held s)"
    and "length (pl_slots (ps_pool t)) = length (pl_slots (ps_pool s))"
    "\<And>j. slot_workspace (ps_pool t) j = slot_workspace (ps_pool s) j"
    "\<And>j. reservation_of (ps_pool t) j = reservation_of (ps_pool s) j"
    "same_capacity (pl_state (ps_pool s)) (pl_state (ps_pool t))"
    and "\<And>j. j \<noteq> i \<Longrightarrow> runtime_of (ps_pool t) j = runtime_of (ps_pool s) j"
    "\<And>j. j \<noteq> i \<Longrightarrow> acts_at j (ps_acts t) = acts_at j (ps_acts s)"
    and "held t i = held s i"
  shows "accounts cfg (ps_pool t) (held t)"
proof (rule accounts_cong [OF assms(1-5)])
  fix j show "held t j = held s j"
    using assms(6-8) by (cases "j = i") (simp_all add: held_def)
qed

lemma accounts_freed:
  assumes "accounts cfg (ps_pool s) (held s)" "i < length (pl_slots (ps_pool s))"
    and "length (pl_slots (ps_pool t)) = length (pl_slots (ps_pool s))"
    "\<And>j. slot_workspace (ps_pool t) j = slot_workspace (ps_pool s) j"
    "\<And>j. reservation_of (ps_pool t) j = reservation_of (ps_pool s) j"
    "same_capacity (pl_state (release_slot i (ps_pool s))) (pl_state (ps_pool t))"
    and "\<And>j. j \<noteq> i \<Longrightarrow> runtime_of (ps_pool t) j = runtime_of (ps_pool s) j"
    "\<And>j. j \<noteq> i \<Longrightarrow> acts_at j (ps_acts t) = acts_at j (ps_acts s)"
    and "held s i = Suc (held t i)"
  shows "accounts cfg (ps_pool t) (held t)"
proof -
  have "held s j = ((held t)(i := Suc (held t i))) j" for j
    using assms(7-9) by (cases "j = i") (simp_all add: held_def)
  then have "held s = (held t)(i := Suc (held t i))" by (rule ext)
  then have "accounts cfg (release_slot i (ps_pool s)) (held t)"
    by (rule accounts_release [OF assms(1,2)])
  then show ?thesis
    by (rule accounts_cong) (use assms(3-6) in simp_all)
qed

text \<open>The effect of the longer sections on what the slot holds and on the shared counters.\<close>

lemma turn_capacity:
  assumes "activate_turn stopped ctx w w' i pl = (pl', r)"
  shows "slot_workspace pl' = slot_workspace pl" "reservation_of pl' = reservation_of pl"
    "pl_config pl' = pl_config pl" "same_capacity (pl_state pl) (pl_state pl')"
    "(sr_provider (runtime_of pl' i) = None) = (sr_provider (runtime_of pl i) = None)"
    "number_of holds_reservation (turn_acts i r) = 0"
  using assms
  by (auto simp: fun_eq_iff activate_turn_def abort_activation_def Let_def
      split: sum.splits option.splits if_splits)

lemma finish_capacity:
  assumes "activate_finish nm spt horizon now started i pl = (pl', r)" "i < length (pl_slots pl)"
    "sr_provider (runtime_of pl i) = None"
  shows "slot_workspace pl' = slot_workspace pl" "reservation_of pl' = reservation_of pl"
    "pl_config pl' = pl_config pl"
    "if \<exists>f. r = FinishFailed f
     then same_capacity (pl_state (release_slot i pl)) (pl_state pl') \<and> sr_provider (runtime_of pl' i) = None
     else same_capacity (pl_state pl) (pl_state pl') \<and>
       of_bool (sr_provider (runtime_of pl' i) \<noteq> None) + number_of holds_reservation (finish_acts i r) = (1 :: nat)"
  using assms
  by (auto simp: fun_eq_iff activate_finish_def abort_activation_def record_activation_failure_def Let_def
      release_slot_def split: sum.splits option.splits if_splits prod.splits)

lemma discard_capacity:
  assumes "discard_finish horizon now p reason stopped i pl = (pl', f)" "i < length (pl_slots pl)"
    "sr_provider (runtime_of pl i) = None"
  shows "slot_workspace pl' = slot_workspace pl" "reservation_of pl' = reservation_of pl"
    "pl_config pl' = pl_config pl"
    "case stopped of
       Inr _ \<Rightarrow> same_capacity (pl_state (release_slot i pl)) (pl_state pl') \<and> sr_provider (runtime_of pl' i) = None
     | Inl _ \<Rightarrow> same_capacity (pl_state pl) (pl_state pl') \<and> sr_provider (runtime_of pl' i) \<noteq> None"
  using assms
  by (auto simp: fun_eq_iff discard_finish_def record_activation_failure_def retain_after_shutdown_failure_def
      release_slot_def Let_def split: sum.splits discard_reason.splits if_splits)

lemma evict_end_capacity [simp]:
  "slot_workspace (evict_failed p e i pl) = slot_workspace pl"
  "reservation_of (evict_failed p e i pl) = reservation_of pl" "pl_config (evict_failed p e i pl) = pl_config pl"
  "same_capacity (pl_state pl) (pl_state (evict_failed p e i pl))"
  "slot_workspace (evict_cleared now i pl) = slot_workspace pl"
  "reservation_of (evict_cleared now i pl) = reservation_of pl" "pl_config (evict_cleared now i pl) = pl_config pl"
  "pl_state (evict_cleared now i pl) = pl_state pl"
  "slot_workspace (evict_released c i pl) = slot_workspace pl"
  "reservation_of (evict_released c i pl) = reservation_of pl" "pl_config (evict_released c i pl) = pl_config pl"
  "same_capacity (pl_state (release_slot i pl)) (pl_state (evict_released c i pl))"
  "slot_workspace (lease_drop now i pl) = slot_workspace pl"
  "reservation_of (lease_drop now i pl) = reservation_of pl" "pl_config (lease_drop now i pl) = pl_config pl"
  "pl_state (lease_drop now i pl) = pl_state pl"
  "slot_workspace (reserve_refused b i pl) = slot_workspace pl"
  "reservation_of (reserve_refused b i pl) = reservation_of pl" "pl_config (reserve_refused b i pl) = pl_config pl"
  "same_capacity (pl_state pl) (pl_state (reserve_refused b i pl))"
  by (simp_all add: fun_eq_iff evict_failed_def evict_cleared_def evict_released_def lease_drop_def Let_def
      reserve_refused_def capacity_refused_def)

lemma accounts_providers:
  assumes "accounts cfg (ps_pool s) (held s)" "acts_in_range s"
    "providers_for now ident (ps_pool s) = (r, pl)"
  shows "accounts cfg pl (held (s\<lparr>ps_pool := pl\<rparr>)) \<and> pl_config pl = pl_config (ps_pool s)"
  using assms(3)
proof (cases rule: providers_for_frame)
  case 1
  with assms(1) show ?thesis by (simp add: held_def [abs_def])
next
  case (2 slots)
  note pl = 2(1)
  let ?n = "length (pl_slots (ps_pool s))" and ?t = "s\<lparr>ps_pool := pl\<rparr>"
  have old: "slot_of pl j = slot_of (ps_pool s) j" if "j < ?n" for j
    using that by (simp add: pl slot_of_def nth_append)
  have new: "held ?t j = 0" if "?n \<le> j" "j < length (pl_slots pl)" for j
  proof -
    have "slot_of pl j \<in> set slots" using that by (simp add: pl slot_of_def nth_append)
    with 2(2) have "sr_provider (runtime_of pl j) = None"
      by (auto simp: runtime_of_def slot_runtime_default_def)
    moreover have "acts_at j (ps_acts s) = {#}"
      using assms(2) that by (auto simp: acts_at_def filter_mset_eq_conv acts_in_range_def)
    ultimately show ?thesis by (simp add: held_def)
  qed
  have total: "held_total pl (held ?t) P w = held_total (ps_pool s) (held s) Q v"
    if "\<And>j. j < ?n \<Longrightarrow> P j = Q j" "\<And>j. j < ?n \<Longrightarrow> w j = v j" for P w Q v
    unfolding held_total_def
  proof (rule sum.mono_neutral_cong_right)
    show "\<forall>j\<in>{j. j < length (pl_slots pl) \<and> P j} - {j. j < ?n \<and> Q j}. held ?t j * w j = 0"
    proof
      fix j assume j: "j \<in> {j. j < length (pl_slots pl) \<and> P j} - {j. j < ?n \<and> Q j}"
      with that have "?n \<le> j" by (cases "j < ?n") auto
      with j new [of j] show "held ?t j * w j = 0" by simp
    qed
    show "{j. j < ?n \<and> Q j} \<subseteq> {j. j < length (pl_slots pl) \<and> P j}" using that by (auto simp: pl)
  qed (use that old in \<open>auto simp: held_def runtime_of_def\<close>)
  have same: "slot_workspace pl j = slot_workspace (ps_pool s) j"
    "reservation_of pl j = reservation_of (ps_pool s) j" if "j < ?n" for j
    using old [OF that] by (simp_all add: slot_workspace_def reservation_of_def)
  have "pl_state pl = pl_state (ps_pool s)" by (simp add: pl)
  moreover have "held_total pl (held ?t) (\<lambda>_. True) (\<lambda>_. 1) = held_total (ps_pool s) (held s) (\<lambda>_. True) (\<lambda>_. 1)"
    "held_total pl (held ?t) (\<lambda>_. True) (reservation_of pl) =
       held_total (ps_pool s) (held s) (\<lambda>_. True) (reservation_of (ps_pool s))"
    "held_total pl (held ?t) (in_workspace pl ws) (\<lambda>_. 1) =
       held_total (ps_pool s) (held s) (in_workspace (ps_pool s) ws) (\<lambda>_. 1)"
    "held_total pl (held ?t) (in_workspace pl ws) (reservation_of pl) =
       held_total (ps_pool s) (held s) (in_workspace (ps_pool s) ws) (reservation_of (ps_pool s))" for ws
    by (rule total; simp add: same)+
  ultimately show ?thesis
    using assms(1) by (simp add: accounts_def workspace_accounts_def pl)
qed

lemma capacity_step:
  assumes inv: "capacity_inv cfg s" and step: "pool_step nm spt s t"
    and room: "pc_max_reserved_memory_bytes cfg < u64_max"
  shows "capacity_inv cfg t"
proof -
  have slots: "slots_inv s" and acc: "accounts cfg (ps_pool s) (held s)" and cfg: "pl_config (ps_pool s) = cfg"
    using inv by (simp_all add: capacity_inv_def)
  have none: "sr_provider (runtime_of (ps_pool s) i) = None"
    if "ps_acts s = add_mset a rest" "act_slot a = i" "occupies a" for a rest i
  proof -
    have "slot_inv s i" using slots acts_slot [OF slots that(1)] that(2) by (simp add: slots_inv_def)
    then show ?thesis using that by (simp add: slot_inv_def slot_exclusive_def)
  qed
  have "accounts cfg (ps_pool t) (held t) \<and> pl_config (ps_pool t) = cfg"
    using step
  proof cases
    case (providers_step now ident r pl)
    with accounts_providers [OF acc _ providers_step(2)] slots cfg show ?thesis by (simp add: slots_inv_def)
  next
    case stop_step
    have "accounts cfg (ps_pool t) (held t)"
      by (rule accounts_cong [OF acc]) (simp_all add: stop_step held_def)
    with cfg show ?thesis by (simp add: stop_step)
  next
    case (turn_step i stopped ctx w w' pl r)
    note c = turn_capacity [OF turn_step(3)] and f = turn_frame [OF turn_step(3)]
    have "accounts cfg (ps_pool t) (held t)"
      by (rule accounts_kept [OF acc, where i = i])
        (simp_all add: turn_step(1) c f turn_acts_other turn_acts_own held_def)
    with c cfg show ?thesis by (simp add: turn_step(1))
  next
    case (check_step i rest)
    have "accounts cfg (ps_pool t) (held t)"
      by (rule accounts_kept [OF acc, where i = i]) (simp_all add: check_step(1,2) held_def)
    with cfg show ?thesis by (simp add: check_step(1))
  next
    case (reserve_step i rest st)
    have i: "i < length (pl_slots (ps_pool s))" using acts_slot [OF slots reserve_step(2)] by simp
    have "accounts cfg ((ps_pool s)\<lparr>pl_state := st\<rparr>) ((held s)(i := Suc (held s i)))"
      using accounts_reserve [OF acc i room] reserve_step(3) cfg by simp
    moreover have "(held s)(i := Suc (held s i)) = held t"
      by (rule ext) (simp add: reserve_step(1,2) held_def)
    ultimately show ?thesis using cfg by (simp add: reserve_step(1))
  next
    case (retry_step i rest limited st)
    have "accounts cfg (ps_pool t) (held t)"
      by (rule accounts_kept [OF acc, where i = i]) (simp_all add: retry_step(1,2) held_def)
    with cfg show ?thesis by (simp add: retry_step(1))
  next
    case (refuse_step a rest i b)
    have "accounts cfg (ps_pool t) (held t)"
      by (rule accounts_kept [OF acc, where i = i])
        (use refuse_step(3) in \<open>elim disjE; simp add: refuse_step(1,2) held_def\<close>)+
    with cfg show ?thesis by (simp add: refuse_step(1))
  next
    case (finish_step i rest horizon now started pl r)
    have i: "i < length (pl_slots (ps_pool s))" using acts_slot [OF slots finish_step(2)] by simp
    have n: "sr_provider (runtime_of (ps_pool s) i) = None" using none [OF finish_step(2)] by simp
    note c = finish_capacity [OF finish_step(3) i n] and f = finish_frame [OF finish_step(3)]
    have "accounts cfg (ps_pool t) (held t)"
    proof (cases "\<exists>e. r = FinishFailed e")
      case True
      show ?thesis
        by (rule accounts_freed [OF acc i])
          (use c f True n in \<open>auto simp: finish_step(1,2) finish_acts_other held_def\<close>)
    next
      case False
      show ?thesis
        by (rule accounts_kept [OF acc, where i = i])
          (use c f False n in \<open>simp_all add: finish_step(1,2) finish_acts_other finish_acts_own held_def\<close>)
    qed
    with c cfg show ?thesis by (simp add: finish_step(1))
  next
    case (discard_step i p reason rest horizon now stopped pl e)
    have i: "i < length (pl_slots (ps_pool s))" using acts_slot [OF slots discard_step(2)] by simp
    have n: "sr_provider (runtime_of (ps_pool s) i) = None" using none [OF discard_step(2)] by simp
    note c = discard_capacity [OF discard_step(3) i n] and f = discard_frame [OF discard_step(3)]
    have "accounts cfg (ps_pool t) (held t)"
    proof (cases stopped)
      case (Inr u)
      show ?thesis
        by (rule accounts_freed [OF acc i]) (use c f Inr n in \<open>auto simp: discard_step(1,2) held_def\<close>)
    next
      case (Inl err)
      show ?thesis
        by (rule accounts_kept [OF acc, where i = i]) (use c f Inl n in \<open>auto simp: discard_step(1,2) held_def\<close>)
    qed
    with c cfg show ?thesis by (simp add: discard_step(1))
  next
    case (evict_step i cause pl p)
    note e = evict_begin_Some [OF evict_step(3)]
    have "accounts cfg (ps_pool t) (held t)"
      by (rule accounts_kept [OF acc, where i = i]) (use evict_step(2) e(1) in \<open>simp_all add: evict_step(1) e(2) held_def\<close>)
    with e cfg show ?thesis by (simp add: evict_step(1))
  next
    case (evict_failed_step i p cause rest err)
    have i: "i < length (pl_slots (ps_pool s))" using acts_slot [OF slots evict_failed_step(2)] by simp
    have n: "sr_provider (runtime_of (ps_pool s) i) = None" using none [OF evict_failed_step(2)] by simp
    have "accounts cfg (ps_pool t) (held t)"
      by (rule accounts_kept [OF acc, where i = i])
        (use i n in \<open>simp_all add: evict_failed_step(1,2) held_def, simp_all add: evict_failed_def\<close>)
    with cfg show ?thesis by (simp add: evict_failed_step(1))
  next
    case (evict_cleared_step i p cause rest now)
    have "accounts cfg (ps_pool t) (held t)"
      by (rule accounts_kept [OF acc, where i = i])
        (simp_all add: evict_cleared_step(1,2) held_def, simp_all add: evict_cleared_def)
    with cfg show ?thesis by (simp add: evict_cleared_step(1))
  next
    case (evict_released_step i cause rest)
    have i: "i < length (pl_slots (ps_pool s))" using acts_slot [OF slots evict_released_step(2)] by simp
    have "accounts cfg (ps_pool t) (held t)"
      by (rule accounts_freed [OF acc i]) (simp_all add: evict_released_step(1,2) held_def)
    with cfg show ?thesis by (simp add: evict_released_step(1))
  next
    case (lease_step i p rest now)
    have "accounts cfg (ps_pool t) (held t)"
      by (rule accounts_kept [OF acc, where i = i])
        (simp_all add: lease_step(1,2) held_def, simp_all add: lease_drop_def Let_def)
    with cfg show ?thesis by (simp add: lease_step(1))
  next
    case (admission_step st)
    have "accounts cfg (ps_pool t) (held t)"
      by (rule accounts_cong [OF acc]) (use admission_step(2) in \<open>simp_all add: admission_step(1) held_def\<close>)
    with cfg show ?thesis by (simp add: admission_step(1))
  qed
  with slots_inv_step [OF slots step] show ?thesis by (simp add: capacity_inv_def)
qed

interpretation capacity: step_invariant "pool_system_start cfg rs" "pool_step nm spt"
  "\<lambda>s. pc_max_reserved_memory_bytes cfg < u64_max \<longrightarrow> capacity_inv cfg s" for cfg rs nm spt
proof (unfold_locales, goal_cases)
  case 1 show ?case
    by (simp add: capacity_inv_def accounts_def workspace_accounts_def held_total_def usage_of_def
        pool_system_start_def empty_pool_def pool_state_default_def workspace_usage_default_def
        slots_inv_def acts_in_range_def)
next
  case (2 s t) then show ?case using capacity_step by blast
qed

subsection \<open>Properties\<close>

text \<open>
  C35: Exact and bounded capacity. In every interleaving the process counters are the number
  of held reservations and their memory, each worktree's entry is exactly its share, an entry
  exists only for a worktree that holds something, and no limit is ever exceeded. A slot with
  an installed adapter holds exactly its reservation, so a quiescent pool has one reservation
  per running provider.
\<close>

theorem pool_capacity_exact:
  assumes "reachable_from (pool_system_start cfg rs) (pool_step nm spt) s"
    and "pc_max_reserved_memory_bytes cfg < u64_max"
  shows "po_active (pl_state (ps_pool s)) = (\<Sum>i<length (pl_slots (ps_pool s)). held s i) \<and>
    po_memory (pl_state (ps_pool s)) =
      (\<Sum>i<length (pl_slots (ps_pool s)). held s i * reservation_of (ps_pool s) i) \<and>
    po_active (pl_state (ps_pool s)) \<le> pc_max_active_providers cfg \<and>
    po_memory (pl_state (ps_pool s)) \<le> pc_max_reserved_memory_bytes cfg \<and>
    (\<forall>ws. workspace_accounts cfg (ps_pool s) (held s) ws)"
proof -
  have "accounts cfg (ps_pool s) (held s)"
    using capacity.inv_reachable [OF assms(1)] assms(2) by (simp add: capacity_inv_def)
  moreover have "{i. i < length (pl_slots (ps_pool s)) \<and> True} = {..<length (pl_slots (ps_pool s))}" by auto
  ultimately show ?thesis by (simp add: accounts_def held_total_def)
qed

theorem pool_capacity_exact_witness:
  "\<exists>s. sample_reach s \<and> held s 0 = 1 \<and> po_active (pl_state (ps_pool s)) = 1"
proof -
  obtain rt st where r: "sample_reach (sample_system rt st {#ActLease 0 (''ra'', 0)#} {})"
    and p: "sr_provider rt = Some (''ra'', 0)" using sample_leased by blast
  have "pc_max_reserved_memory_bytes pool_config_default < u64_max"
    by (simp add: pool_config_default_def u64_max_def)
  from pool_capacity_exact [OF r this] p
  have "po_active (pl_state (ps_pool (sample_system rt st {#ActLease 0 (''ra'', 0)#} {}))) = 1"
    by (simp add: sample_system_def held_def)
  with r p show ?thesis
    by (intro exI [of _ "sample_system rt st {#ActLease 0 (''ra'', 0)#} {}"])
      (simp add: sample_system_def held_def)
qed

end
