(* ===== verification/Pool_Queries.thy ===== *)
theory Pool_Queries
  imports Provider_Pool
begin

section \<open>Precise queries through the pool\<close>

text \<open>
  The request and result types of \<open>chakra-engine/src/precise.rs\<close> that cross the provider
  boundary, \<open>PooledProvider::enrich_with_context\<close> as the chain of admission, activation and
  the adapter's answer, and the metrics the pool reports.
\<close>

record provider_symbol =
  ps_name :: string
  ps_declaration :: source_range
  ps_language :: language

record call_hierarchy_directions =
  dir_incoming :: bool
  dir_outgoing :: bool

record precise_query_request =
  rq_workspace :: provider_workspace
  rq_symbol :: provider_symbol
  rq_directions :: call_hierarchy_directions
  rq_limit :: nat
  rq_priority :: request_priority

record precise_relation =
  pr_name :: string
  pr_declaration :: source_range
  pr_occurrence_count :: nat
  pr_call_sites :: "source_range list"
  pr_provenance :: provenance

datatype fallback_cause =
    CauseQueueSaturated
  | CauseQueueTimedOut
  | CauseActivationCapacity
  | CauseActivationFailed
  | CauseActivationTimedOut
  | CauseCancelled
  | CauseProviderStopped

record precise_query_result =
  pq_revision :: revision
  pq_state :: provider_state
  pq_fallback_cause :: "fallback_cause option"
  pq_incoming :: "precise_relation list"
  pq_outgoing :: "precise_relation list"
  pq_incoming_truncated :: bool
  pq_outgoing_truncated :: bool

definition unavailable :: "revision \<Rightarrow> provider_state \<Rightarrow> precise_query_result" where
  "unavailable revision st =
     \<lparr>pq_revision = revision, pq_state = st, pq_fallback_cause = None, pq_incoming = [],
      pq_outgoing = [], pq_incoming_truncated = False, pq_outgoing_truncated = False\<rparr>"

definition unavailable_because :: "revision \<Rightarrow> provider_state \<Rightarrow> fallback_cause \<Rightarrow> precise_query_result" where
  "unavailable_because revision st cause = (unavailable revision st)\<lparr>pq_fallback_cause := Some cause\<rparr>"

fun admission_fallback :: "admission_failure \<Rightarrow> provider_state \<times> fallback_cause" where
  "admission_fallback AdmissionStopped = (ProviderDegraded, CauseProviderStopped)"
| "admission_fallback AdmissionSaturated = (CatchingUp, CauseQueueSaturated)"
| "admission_fallback AdmissionQueueTimeout = (CatchingUp, CauseQueueTimedOut)"
| "admission_fallback AdmissionCancelled = (CatchingUp, CauseCancelled)"

fun activation_fallback :: "activation_failure \<Rightarrow> provider_state \<times> fallback_cause" where
  "activation_fallback ActivationStopped = (ProviderDegraded, CauseProviderStopped)"
| "activation_fallback ActivationStartFailed = (ProviderDegraded, CauseActivationFailed)"
| "activation_fallback ActivationCapacity = (CatchingUp, CauseActivationCapacity)"
| "activation_fallback ActivationCancelled = (CatchingUp, CauseCancelled)"
| "activation_fallback ActivationTimedOut = (CatchingUp, CauseActivationTimedOut)"

fun abort_fallback :: "op_abort \<Rightarrow> provider_state \<times> fallback_cause" where
  "abort_fallback Cancelled = (CatchingUp, CauseCancelled)"
| "abort_fallback DeadlineExceeded = (CatchingUp, CauseActivationTimedOut)"

text \<open>
  \<open>admitted\<close> and \<open>activated\<close> are the outcomes of \<open>admit\<close> and \<open>activate\<close> (whose effects the
  concurrent models have), \<open>after\<close> that of the check between them and the adapter, \<open>answer\<close>
  what the adapter would say.
\<close>

definition enrich_with_context ::
    "precise_query_request \<Rightarrow> nat \<Rightarrow> 'p provider_pool \<Rightarrow> admission_failure + unit \<Rightarrow>
     activation_failure + 'p \<Rightarrow> op_abort + unit \<Rightarrow> ('p \<Rightarrow> precise_query_request \<Rightarrow> precise_query_result) \<Rightarrow>
     precise_query_result" where
  "enrich_with_context rq i pl admitted activated after answer =
     (let refuse = (\<lambda>(st, cause). unavailable_because (pw_revision (rq_workspace rq)) st cause) in
      if \<not> pooled_supports pl i (ps_language (rq_symbol rq)) \<or>
         pw_root (rq_workspace rq) \<noteq> wi_root (sl_workspace (slot_of pl i))
      then refuse (ProviderDegraded, CauseActivationFailed)
      else (case admitted of
        Inl f \<Rightarrow> refuse (admission_fallback f)
      | Inr _ \<Rightarrow> (case activated of
          Inl f \<Rightarrow> refuse (activation_fallback f)
        | Inr p \<Rightarrow> (case after of
            Inl a \<Rightarrow> refuse (abort_fallback a)
          | Inr _ \<Rightarrow> answer p rq))))"

text \<open>A refusal is honest: it is tied to the requested revision, names its cause and claims nothing.\<close>

definition refusal :: "revision \<Rightarrow> precise_query_result \<Rightarrow> bool" where
  "refusal revision r \<longleftrightarrow> pq_revision r = revision \<and> pq_fallback_cause r \<noteq> None \<and>
     pq_incoming r = [] \<and> pq_outgoing r = [] \<and> \<not> pq_incoming_truncated r \<and> \<not> pq_outgoing_truncated r"

lemma unavailable_because_refusal [simp]: "refusal revision (unavailable_because revision st cause)"
  by (simp add: refusal_def unavailable_because_def unavailable_def)

lemma enrich_with_context_cases:
  "refusal (pw_revision (rq_workspace rq)) (enrich_with_context rq i pl admitted activated after answer) \<or>
   (\<exists>p. admitted = Inr () \<and> activated = Inr p \<and> after = Inr () \<and>
      pooled_supports pl i (ps_language (rq_symbol rq)) \<and>
      pw_root (rq_workspace rq) = wi_root (sl_workspace (slot_of pl i)) \<and>
      enrich_with_context rq i pl admitted activated after answer = answer p rq)"
  by (auto simp: enrich_with_context_def Let_def split: sum.split prod.split)

subsection \<open>Metrics\<close>

record queue_latency_by_priority =
  ql_background :: queue_latency_stats
  ql_normal :: queue_latency_stats
  ql_interactive :: queue_latency_stats

record workspace_orchestration_metrics =
  wom_active_providers :: nat
  wom_max_active_providers :: nat
  wom_reserved_memory_bytes :: nat
  wom_max_reserved_memory_bytes :: nat

record orchestration_metrics =
  om_configured_providers :: nat
  om_configured_workspaces :: nat
  om_active_providers :: nat
  om_max_active_providers :: nat
  om_reserved_memory_bytes :: nat
  om_max_reserved_memory_bytes :: nat
  om_running_queries :: nat
  om_queued_queries :: nat
  om_max_concurrent_queries :: nat
  om_max_queued_queries :: nat
  om_activations :: nat
  om_activation_failures :: nat
  om_activation_timeouts :: nat
  om_idle_shutdowns :: nat
  om_resource_evictions :: nat
  om_shutdown_failures :: nat
  om_saturated_queries :: nat
  om_queue_timeouts :: nat
  om_cancelled_queries :: nat
  om_queue_latency_by_priority :: queue_latency_by_priority
  om_workspace :: "workspace_orchestration_metrics option"

definition metrics_for :: "workspace_id option \<Rightarrow> 'p provider_pool \<Rightarrow> orchestration_metrics" where
  "metrics_for ws pl =
     (let st = pl_state pl; cfg = pl_config pl in
      \<lparr>om_configured_providers = length (pl_registrations pl),
       om_configured_workspaces =
         length (remdups_adj (sort (map (\<lambda>sl. wi_workspace (sl_workspace sl)) (pl_slots pl)))),
       om_active_providers = po_active st,
       om_max_active_providers = pc_max_active_providers cfg,
       om_reserved_memory_bytes = po_memory st,
       om_max_reserved_memory_bytes = pc_max_reserved_memory_bytes cfg,
       om_running_queries = po_running st,
       om_queued_queries = length (po_waiters st),
       om_max_concurrent_queries = pc_max_concurrent_queries cfg,
       om_max_queued_queries = pc_max_queued_queries cfg,
       om_activations = po_activations st,
       om_activation_failures = po_activation_failures st,
       om_activation_timeouts = po_activation_timeouts st,
       om_idle_shutdowns = po_idle_shutdowns st,
       om_resource_evictions = po_resource_evictions st,
       om_shutdown_failures = po_shutdown_failures st,
       om_saturated_queries = po_saturated_queries st,
       om_queue_timeouts = po_queue_timeouts st,
       om_cancelled_queries = po_cancelled_queries st,
       om_queue_latency_by_priority =
         \<lparr>ql_background = po_queue_latency st PriorityBackground,
          ql_normal = po_queue_latency st PriorityNormal,
          ql_interactive = po_queue_latency st PriorityInteractive\<rparr>,
       om_workspace = map_option (\<lambda>w. \<lparr>
         wom_active_providers = wu_active (usage_of w st),
         wom_max_active_providers = pc_max_active_providers_per_workspace cfg,
         wom_reserved_memory_bytes = wu_memory (usage_of w st),
         wom_max_reserved_memory_bytes = pc_max_reserved_memory_bytes_per_workspace cfg\<rparr>) ws\<rparr>)"

lemma distinct_remdups_adj_sorted: "sorted xs \<Longrightarrow> distinct (remdups_adj xs)"
  by (induction xs rule: remdups_adj.induct) (auto simp: le_less)

lemma configured_workspaces_exact:
  "om_configured_workspaces (metrics_for ws pl) =
     card ((\<lambda>sl. wi_workspace (sl_workspace sl)) ` set (pl_slots pl))"
proof -
  let ?f = "\<lambda>sl. wi_workspace (sl_workspace sl)"
  let ?ws = "sort (map ?f (pl_slots pl))"
  have "distinct (remdups_adj ?ws)"
    by (simp add: distinct_remdups_adj_sorted)
  then show ?thesis
    using distinct_card [of "remdups_adj ?ws"] by (simp add: metrics_for_def Let_def)
qed

end
