(* ===== verification/Query_Types.thy ===== *)
theory Query_Types
  imports Graph_Cancellation Query_Envelope Project_Model Diff_Layers
begin

section \<open>The vocabulary of queries\<close>

text \<open>
  \<open>chakra-domain/src/query.rs\<close>: references to symbols, the views of symbols, relations and
  call sites that responses carry, source filters, the requests and responses of the
  structural queries, and the typed query failures. The messages of \<open>Invalid\<close> and of the
  other textual failures are the strings of the source.
\<close>

subsection \<open>References and views\<close>

definition default_query_limit :: nat where "default_query_limit = 20"
definition max_query_limit :: nat where "max_query_limit = 500"

datatype symbol_ref = ById entity_id revision | ByName string

record symbol_view =
  view_id :: entity_id
  view_language :: language
  view_name :: string
  view_qualified_name :: string
  view_kind :: symbol_kind
  view_location :: source_range
  view_signature :: "string option"
  view_provenance :: provenance
  view_precision :: precision
  view_source_layer :: source_layer
  view_source_role :: source_role
  view_source_classification :: source_classification
  view_package :: "source_package option"

definition view_from_symbol_with_metadata :: "symbol \<Rightarrow> source_metadata \<Rightarrow> symbol_view" where
  "view_from_symbol_with_metadata s md =
     \<lparr>view_id = sym_id s, view_language = key_language (sym_key s), view_name = symbol_name s,
      view_qualified_name = qualified_name (sym_key s), view_kind = key_kind (sym_key s),
      view_location = sym_location s, view_signature = signature s,
      view_provenance = sym_provenance s, view_precision = sym_precision s,
      view_source_layer = CommitSnapshot, view_source_role = meta_role md,
      view_source_classification = meta_classification md, view_package = meta_package md\<rparr>"

definition view_from_symbol :: "symbol \<Rightarrow> symbol_view" where
  "view_from_symbol s = view_from_symbol_with_metadata s (path_fallback_metadata (key_path (sym_key s)))"

record call_site_evidence =
  ev_form :: call_form
  ev_target_kind :: call_target_kind
  ev_name :: string
  ev_qualifier :: "string option"
  ev_receiver_type :: "string option"
  ev_receiver_type_source :: "receiver_type_source option"
  ev_receiver_hint :: "string option"
  ev_location :: source_range
  ev_resolution :: call_resolution

record related_symbol =
  rel_symbol :: symbol_view
  rel_edge_kind :: edge_kind
  rel_provenance :: provenance
  rel_precision :: precision
  rel_occurrence_count :: nat
  rel_locations :: "source_range list"
  rel_locations_omitted :: nat
  rel_call_sites :: "call_site_evidence list"
  rel_call_sites_omitted :: nat

datatype relation_direction = Incoming | Outgoing

record directed_related_symbol =
  dir_direction :: relation_direction
  dir_relation :: related_symbol

record call_site_view =
  csv_caller :: symbol_view
  csv_candidate_target :: "symbol_view option"
  csv_occurrence_count :: nat
  csv_evidence :: "call_site_evidence list"
  csv_evidence_omitted :: nat
  csv_provenance :: provenance
  csv_precision :: precision

subsection \<open>Filters and repository maps\<close>

record source_filter =
  sf_package :: "string option"
  sf_path_prefix :: "string option"
  sf_include_roles :: "source_role list"
  sf_exclude_roles :: "source_role list"
  sf_project :: "scope_selector option"

definition source_filter_default :: source_filter where
  "source_filter_default =
     \<lparr>sf_package = None, sf_path_prefix = None, sf_include_roles = [], sf_exclude_roles = [],
      sf_project = None\<rparr>"

record repo_map_scope =
  rms_include_languages :: "language list"
  rms_source :: source_filter

definition repo_map_scope_default :: repo_map_scope where
  "repo_map_scope_default = \<lparr>rms_include_languages = [], rms_source = source_filter_default\<rparr>"

record repo_map_cursor =
  cur_workspace_id :: workspace_id
  cur_revision :: revision
  cur_after :: repo_path
  cur_scope :: repo_map_scope

record repo_map_request =
  rmr_include_languages :: "language list"
  rmr_source :: source_filter
  rmr_include_project_scope :: bool
  rmr_cursor :: "repo_map_cursor option"
  rmr_limit :: "nat option"
  rmr_freshness :: freshness_requirement

record file_view =
  fv_path :: repo_path
  fv_language :: language
  fv_symbol_count :: nat
  fv_provenance :: provenance
  fv_precision :: precision
  fv_source_layer :: source_layer
  fv_source_role :: source_role
  fv_source_classification :: source_classification
  fv_package :: "source_package option"

datatype repo_map_group_kind =
    GroupTopLevelDirectory
  | GroupCargoPackage
  | GroupComposerPsr4
  | GroupNpmPackage
  | GroupPyprojectPackage
  | GroupMavenModule
  | GroupGradleProject
  | GroupDotnetProject
  | GroupShellProject
  | GroupCppProject
  | GroupTerraformModule
  | GroupGoModule

fun repo_map_group_kind_rank :: "repo_map_group_kind \<Rightarrow> nat" where
  "repo_map_group_kind_rank GroupTopLevelDirectory = 0"
| "repo_map_group_kind_rank GroupCargoPackage = 1"
| "repo_map_group_kind_rank GroupComposerPsr4 = 2"
| "repo_map_group_kind_rank GroupNpmPackage = 3"
| "repo_map_group_kind_rank GroupPyprojectPackage = 4"
| "repo_map_group_kind_rank GroupMavenModule = 5"
| "repo_map_group_kind_rank GroupGradleProject = 6"
| "repo_map_group_kind_rank GroupDotnetProject = 7"
| "repo_map_group_kind_rank GroupShellProject = 8"
| "repo_map_group_kind_rank GroupCppProject = 9"
| "repo_map_group_kind_rank GroupTerraformModule = 10"
| "repo_map_group_kind_rank GroupGoModule = 11"

lemma repo_map_group_kind_rank_inj:
  "repo_map_group_kind_rank a = repo_map_group_kind_rank b \<Longrightarrow> a = b"
  by (cases a; cases b) simp_all

record repo_map_group =
  rg_kind :: repo_map_group_kind
  rg_name :: string
  rg_root :: "repo_path option"
  rg_language :: language
  rg_file_count :: nat
  rg_symbol_count :: nat

record project_unit_summary =
  pus_id :: unit_id
  pus_kind :: unit_kind
  pus_name :: string
  pus_root :: "repo_path option"
  pus_manifest :: "repo_path option"
  pus_source_roots :: "source_root list"
  pus_dependencies :: "dependency list"
  pus_file_count :: nat
  pus_symbol_count :: nat

record project_scope_data =
  psd_units :: "project_unit_summary list"
  psd_ambiguous_files :: nat
  psd_unassigned_files :: nat
  psd_issues :: "manifest_issue list"

subsection \<open>Symbol search and changes\<close>

datatype symbol_match_mode = MatchSubstring | MatchExact

record symbol_search_request =
  ssr_query :: string
  ssr_match_mode :: symbol_match_mode
  ssr_include_languages :: "language list"
  ssr_include_kinds :: "symbol_kind list"
  ssr_exclude_kinds :: "symbol_kind list"
  ssr_namespace_prefix :: "string option"
  ssr_source :: source_filter
  ssr_limit :: "nat option"
  ssr_freshness :: freshness_requirement

record diff_related_symbol =
  drs_changed_symbol_id :: entity_id
  drs_relation :: related_symbol

record diff_directed_related_symbol =
  ddr_changed_symbol_id :: entity_id
  ddr_relation :: directed_related_symbol

subsection \<open>Failures\<close>

datatype query_error =
    Unsupported string
  | MissingSymbolRef
  | StaleSymbolRef revision revision
  | StaleCursor revision revision
  | CursorWorkspaceMismatch workspace_id workspace_id
  | SymbolNotFound string
  | AmbiguousSymbol string nat
  | Invalid string
  | FreshnessNotMet freshness_requirement freshness
  | FreshnessUnavailable string
  | DiffUnavailable string
  | QueryCancelled
  | ExecutionDeadlineExceeded
  | ResponseConstruction string
  | NoWorkspacesRegistered
  | WorkspaceNotFound workspace_id
  | WorkspaceSelectionRequired "workspace_id list"

fun query_error_of_abort :: "op_abort \<Rightarrow> query_error" where
  "query_error_of_abort Cancelled = QueryCancelled"
| "query_error_of_abort DeadlineExceeded = ExecutionDeadlineExceeded"

text \<open>
  A query polls its caller's context and reads the monotonic clock. Both are observations of
  the world, numbered in the order they are made; the state of a running query is the number
  of observations made so far.
\<close>

type_synonym 'a query_op = "(nat, query_error, 'a) op"

definition from_abort :: "'a polled \<Rightarrow> 'a query_op" where
  "from_abort f n = (case f n of (Inl a, m) \<Rightarrow> (Inl (query_error_of_abort a), m) | (Inr x, m) \<Rightarrow> (Inr x, m))"

definition returns :: "'a \<Rightarrow> 'a query_op" where
  "returns x n = (Inr x, n)"

definition fails :: "query_error \<Rightarrow> 'a query_op" where
  "fails e n = (Inl e, n)"

definition of_result :: "query_error + 'a \<Rightarrow> 'a query_op" where
  "of_result r n = (r, n)"

definition query_check :: "(nat \<Rightarrow> op_world) \<Rightarrow> op_context \<Rightarrow> unit query_op" where
  "query_check worlds c = from_abort (poll worlds c)"

definition instant_now :: "(nat \<Rightarrow> op_world) \<Rightarrow> nat query_op" where
  "instant_now worlds n = (Inr (world_now (worlds n)), n + 1)"

text \<open>A query that succeeds with a result satisfying \<open>P\<close>, whatever it observes.\<close>

definition yields :: "'a query_op \<Rightarrow> ('a \<Rightarrow> bool) \<Rightarrow> bool" where
  "yields f P \<longleftrightarrow> (\<forall>n x m. f n = (Inr x, m) \<longrightarrow> P x)"

named_theorems yields_rules \<open>results of query operations\<close>

lemma yields_returns [yields_rules]: "P x \<Longrightarrow> yields (returns x) P"
  by (simp add: yields_def returns_def)

lemma yields_fails [yields_rules]: "yields (fails e) P"
  by (simp add: yields_def fails_def)

lemma yields_of_result: "(\<And>x. r = Inr x \<Longrightarrow> P x) \<Longrightarrow> yields (of_result r) P"
  by (auto simp: yields_def of_result_def)

lemma yields_bind:
  assumes "yields f Q" "\<And>x. Q x \<Longrightarrow> yields (g x) P"
  shows "yields (op_bind f g) P"
  using assms unfolding yields_def op_bind_def by (fastforce split: prod.splits sum.splits)

lemma yields_any: "yields f (\<lambda>_. True)"
  by (simp add: yields_def)

lemma yields_then: "(\<And>x. yields (g x) P) \<Longrightarrow> yields (op_bind f g) P"
  by (rule yields_bind [OF yields_any])

lemma yields_mono: "yields f Q \<Longrightarrow> (\<And>x. Q x \<Longrightarrow> P x) \<Longrightarrow> yields f P"
  by (auto simp: yields_def)

lemma yieldsD: "yields f P \<Longrightarrow> f n = (Inr x, m) \<Longrightarrow> P x"
  by (auto simp: yields_def)

end
