(* ===== verification/Query_Budget.thy ===== *)
theory Query_Budget
  imports Query_Types
begin

section \<open>Work budgets and bounded response sections\<close>

text \<open>
  The execution guards of \<open>chakra-engine/src/query.rs\<close>: the cancellation poll of a loop, the
  budget of the work one response section may cause, and the bounds on the items and encoded
  bytes of a section. Durations are in nanoseconds. The JSON encoder is third-party code: it
  is the argument \<open>encode\<close>, which gives an error message or the chunks it writes.
\<close>

definition cancellation_poll_work_items :: nat where "cancellation_poll_work_items = 256"
definition max_query_filter_values :: nat where "max_query_filter_values = 16"
definition max_package_filter_chars :: nat where "max_package_filter_chars = 256"
definition max_namespace_filter_chars :: nat where "max_namespace_filter_chars = 1024"
definition max_representative_locations :: nat where "max_representative_locations = 3"
definition repo_map_files_bytes :: nat where "repo_map_files_bytes = 256 * 1024"
definition repo_map_overview_bytes :: nat where "repo_map_overview_bytes = 64 * 1024"
definition repo_map_project_scope_bytes :: nat where "repo_map_project_scope_bytes = 64 * 1024"
definition symbol_search_candidates_bytes :: nat where "symbol_search_candidates_bytes = 128 * 1024"
definition min_examined_work :: nat where "min_examined_work = 1024"
definition max_examined_work :: nat where "max_examined_work = 8192"
definition examined_work_per_result :: nat where "examined_work_per_result = 16"
definition min_traversal_work :: nat where "min_traversal_work = 2048"
definition max_traversal_work :: nat where "max_traversal_work = 16384"
definition traversal_work_per_result :: nat where "traversal_work_per_result = 32"
definition min_intermediate_items :: nat where "min_intermediate_items = 2048"
definition max_intermediate_items :: nat where "max_intermediate_items = 4096"
definition intermediate_items_per_result :: nat where "intermediate_items_per_result = 8"
definition section_wall_time :: nat where "section_wall_time = 250 * 1000000"

definition as_millis :: "nat \<Rightarrow> nat" where "as_millis d = d div 1000000"

subsection \<open>Polling\<close>

text \<open>The counter of a \<open>CancellationPoll\<close>; one call polls when it has run out.\<close>

definition cancellation_poll_new :: nat where "cancellation_poll_new = 0"

definition observe :: "(nat \<Rightarrow> op_world) \<Rightarrow> op_context \<Rightarrow> nat \<Rightarrow> nat query_op" where
  "observe worlds c remaining =
     (if remaining = 0
      then op_bind (query_check worlds c) (\<lambda>_. returns (cancellation_poll_work_items - 1))
      else returns (remaining - 1))"

subsection \<open>The section budget\<close>

datatype work_stop = StopExamined | StopTraversal | StopAllocation | StopWallTime
datatype examined_kind = ExaminedFile | ExaminedSymbol | ExaminedCandidate
datatype traversal_kind = TraversalEdge | TraversalCallSite

record work_stats =
  ws_files_examined :: nat
  ws_symbols_examined :: nat
  ws_candidates_examined :: nat
  ws_edges_visited :: nat
  ws_call_sites_visited :: nat
  ws_intermediate_items_retained :: nat
  ws_diff_wait_micros :: nat
  ws_provider_wait_micros :: nat

definition work_stats_default :: work_stats where
  "work_stats_default =
     \<lparr>ws_files_examined = 0, ws_symbols_examined = 0, ws_candidates_examined = 0,
      ws_edges_visited = 0, ws_call_sites_visited = 0, ws_intermediate_items_retained = 0,
      ws_diff_wait_micros = 0, ws_provider_wait_micros = 0\<rparr>"

record section_budget =
  sb_started :: nat
  sb_wall_time :: nat
  sb_examined_limit :: nat
  sb_traversal_limit :: nat
  sb_intermediate_limit :: nat
  sb_files_examined :: nat
  sb_symbols_examined :: nat
  sb_candidates_examined :: nat
  sb_edges_visited :: nat
  sb_call_sites_visited :: nat
  sb_intermediate_retained :: nat
  sb_stopped :: "work_stop option"

definition clamp :: "nat \<Rightarrow> nat \<Rightarrow> nat \<Rightarrow> nat" where
  "clamp lo hi x = (if x < lo then lo else if hi < x then hi else x)"

definition sat_mul64 :: "nat \<Rightarrow> nat \<Rightarrow> nat" where
  "sat_mul64 a b = min (a * b) u64_max"

definition budget_with_limits :: "nat \<Rightarrow> nat \<Rightarrow> nat \<Rightarrow> nat \<Rightarrow> nat \<Rightarrow> section_budget" where
  "budget_with_limits examined traversal intermediate wall now =
     \<lparr>sb_started = now, sb_wall_time = wall, sb_examined_limit = examined,
      sb_traversal_limit = traversal, sb_intermediate_limit = intermediate,
      sb_files_examined = 0, sb_symbols_examined = 0, sb_candidates_examined = 0,
      sb_edges_visited = 0, sb_call_sites_visited = 0, sb_intermediate_retained = 0,
      sb_stopped = (if wall = 0 then Some StopWallTime else None)\<rparr>"

definition budget_new :: "nat \<Rightarrow> nat \<Rightarrow> section_budget" where
  "budget_new result_limit now =
     budget_with_limits
       (clamp min_examined_work max_examined_work (sat_mul64 result_limit examined_work_per_result))
       (clamp min_traversal_work max_traversal_work (sat_mul64 result_limit traversal_work_per_result))
       (clamp min_intermediate_items max_intermediate_items
         (sat_mul64 result_limit intermediate_items_per_result))
       section_wall_time now"

text \<open>
  \<open>now\<close> is the clock when the guard looks at it; \<open>Instant::elapsed\<close> saturates at zero. The
  second component is the budget after the call.
\<close>

definition check_wall_time :: "nat \<Rightarrow> section_budget \<Rightarrow> bool \<times> section_budget" where
  "check_wall_time now b =
     (let b' = (if sb_stopped b = None \<and> sb_wall_time b \<le> sat_sub now (sb_started b)
                then b\<lparr>sb_stopped := Some StopWallTime\<rparr> else b)
      in (sb_stopped b' = None, b'))"

definition examined :: "section_budget \<Rightarrow> nat" where
  "examined b =
     sat_add64 (sat_add64 (sb_files_examined b) (sb_symbols_examined b)) (sb_candidates_examined b)"

definition traversed :: "section_budget \<Rightarrow> nat" where
  "traversed b = sat_add64 (sb_edges_visited b) (sb_call_sites_visited b)"

fun count_examined :: "examined_kind \<Rightarrow> section_budget \<Rightarrow> section_budget" where
  "count_examined ExaminedFile b = b\<lparr>sb_files_examined := sb_files_examined b + 1\<rparr>"
| "count_examined ExaminedSymbol b = b\<lparr>sb_symbols_examined := sb_symbols_examined b + 1\<rparr>"
| "count_examined ExaminedCandidate b = b\<lparr>sb_candidates_examined := sb_candidates_examined b + 1\<rparr>"

fun count_traversed :: "traversal_kind \<Rightarrow> section_budget \<Rightarrow> section_budget" where
  "count_traversed TraversalEdge b = b\<lparr>sb_edges_visited := sb_edges_visited b + 1\<rparr>"
| "count_traversed TraversalCallSite b = b\<lparr>sb_call_sites_visited := sb_call_sites_visited b + 1\<rparr>"

definition record_examined :: "examined_kind \<Rightarrow> nat \<Rightarrow> section_budget \<Rightarrow> bool \<times> section_budget" where
  "record_examined kind now b =
     (case check_wall_time now b of
        (False, b') \<Rightarrow> (False, b')
      | (True, b') \<Rightarrow>
          if sb_examined_limit b' \<le> examined b' then (False, b'\<lparr>sb_stopped := Some StopExamined\<rparr>)
          else (True, count_examined kind b'))"

definition record_traversal :: "traversal_kind \<Rightarrow> nat \<Rightarrow> section_budget \<Rightarrow> bool \<times> section_budget" where
  "record_traversal kind now b =
     (case check_wall_time now b of
        (False, b') \<Rightarrow> (False, b')
      | (True, b') \<Rightarrow>
          if sb_traversal_limit b' \<le> traversed b' then (False, b'\<lparr>sb_stopped := Some StopTraversal\<rparr>)
          else (True, count_traversed kind b'))"

definition visit_edge :: "nat \<Rightarrow> section_budget \<Rightarrow> bool \<times> section_budget" where
  "visit_edge = record_traversal TraversalEdge"

definition visit_call_site :: "nat \<Rightarrow> section_budget \<Rightarrow> bool \<times> section_budget" where
  "visit_call_site = record_traversal TraversalCallSite"

definition remaining_examined :: "nat \<Rightarrow> section_budget \<Rightarrow> nat \<times> section_budget" where
  "remaining_examined now b =
     (case check_wall_time now b of
        (False, b') \<Rightarrow> (0, b') | (True, b') \<Rightarrow> (sat_sub (sb_examined_limit b') (examined b'), b'))"

definition remaining_traversal :: "nat \<Rightarrow> section_budget \<Rightarrow> nat \<times> section_budget" where
  "remaining_traversal now b =
     (case check_wall_time now b of
        (False, b') \<Rightarrow> (0, b') | (True, b') \<Rightarrow> (sat_sub (sb_traversal_limit b') (traversed b'), b'))"

definition remaining_intermediate :: "nat \<Rightarrow> section_budget \<Rightarrow> nat \<times> section_budget" where
  "remaining_intermediate now b =
     (case check_wall_time now b of
        (False, b') \<Rightarrow> (0, b')
      | (True, b') \<Rightarrow> (sat_sub (sb_intermediate_limit b') (sb_intermediate_retained b'), b'))"

definition retain_intermediate :: "nat \<Rightarrow> section_budget \<Rightarrow> bool \<times> section_budget" where
  "retain_intermediate now b =
     (case check_wall_time now b of
        (False, b') \<Rightarrow> (False, b')
      | (True, b') \<Rightarrow>
          if sb_intermediate_limit b' \<le> sb_intermediate_retained b'
          then (False, b'\<lparr>sb_stopped := Some StopAllocation\<rparr>)
          else (True, b'\<lparr>sb_intermediate_retained := sb_intermediate_retained b' + 1\<rparr>))"

definition mark_exhausted :: "work_stop \<Rightarrow> section_budget \<Rightarrow> section_budget" where
  "mark_exhausted stop b = (if sb_stopped b = None then b\<lparr>sb_stopped := Some stop\<rparr> else b)"

definition budget_truncation :: "truncation_section \<Rightarrow> section_budget \<Rightarrow> truncation_detail option" where
  "budget_truncation s b =
     (case sb_stopped b of
        None \<Rightarrow> None
      | Some StopExamined \<Rightarrow> Some (truncation_detail_new s ExaminedWorkLimit (sb_examined_limit b) None)
      | Some StopTraversal \<Rightarrow> Some (truncation_detail_new s GraphTraversalLimit (sb_traversal_limit b) None)
      | Some StopAllocation \<Rightarrow>
          Some (truncation_detail_new s IntermediateAllocationLimit (sb_intermediate_limit b) None)
      | Some StopWallTime \<Rightarrow>
          Some (truncation_detail_new s WallTimeLimit (to_u64 (as_millis (sb_wall_time b))) None))"

definition add_to_stats :: "section_budget \<Rightarrow> work_stats \<Rightarrow> work_stats" where
  "add_to_stats b st =
     st\<lparr>ws_files_examined := sat_add64 (ws_files_examined st) (sb_files_examined b),
        ws_symbols_examined := sat_add64 (ws_symbols_examined st) (sb_symbols_examined b),
        ws_candidates_examined := sat_add64 (ws_candidates_examined st) (sb_candidates_examined b),
        ws_edges_visited := sat_add64 (ws_edges_visited st) (sb_edges_visited b),
        ws_call_sites_visited := sat_add64 (ws_call_sites_visited st) (sb_call_sites_visited b),
        ws_intermediate_items_retained :=
          sat_add64 (ws_intermediate_items_retained st) (sb_intermediate_retained b)\<rparr>"

text \<open>A guard inside a query reads the clock.\<close>

definition timed :: "(nat \<Rightarrow> op_world) \<Rightarrow> (nat \<Rightarrow> section_budget \<Rightarrow> 'a) \<Rightarrow> section_budget \<Rightarrow> 'a query_op" where
  "timed worlds f b = op_bind (instant_now worlds) (\<lambda>now. returns (f now b))"

subsection \<open>Bounded sections\<close>

definition clamp_limit :: "nat option \<Rightarrow> nat" where
  "clamp_limit limit = min (case limit of None \<Rightarrow> default_query_limit | Some l \<Rightarrow> l) max_query_limit"

text \<open>\<open>JsonCountWriter\<close>: one \<open>write\<close> of the encoder.\<close>

definition count_write :: "string \<Rightarrow> nat \<Rightarrow> nat" where
  "count_write chunk bytes = sat_add64 bytes (length chunk)"

definition serialized_len :: "('a \<Rightarrow> string + string list) \<Rightarrow> 'a \<Rightarrow> query_error + nat" where
  "serialized_len encode value =
     (case encode value of
        Inl message \<Rightarrow> Inl (ResponseConstruction message)
      | Inr chunks \<Rightarrow> Inr (fold count_write chunks 0))"

record 'a section_result =
  bs_items :: "'a list"
  bs_truncation :: "truncation_detail list"
  bs_retained_bytes :: nat

text \<open>The loop that measures items until the section's time is over.\<close>

fun measure_items ::
    "(nat \<Rightarrow> op_world) \<Rightarrow> ('a \<Rightarrow> string + string list) \<Rightarrow> nat \<Rightarrow> nat \<Rightarrow> 'a list \<Rightarrow> nat list query_op" where
  "measure_items worlds encode started wall [] = returns []"
| "measure_items worlds encode started wall (x # xs) =
     op_bind (instant_now worlds) (\<lambda>now.
       if wall \<le> sat_sub now started then returns []
       else op_bind (of_result (serialized_len encode x)) (\<lambda>sz.
              op_bind (measure_items worlds encode started wall xs) (\<lambda>sizes. returns (sz # sizes))))"

fun retain_sizes :: "nat \<Rightarrow> nat list \<Rightarrow> nat \<times> nat \<Rightarrow> nat \<times> nat" where
  "retain_sizes byte_limit [] st = st"
| "retain_sizes byte_limit (sz # sizes) (cnt, bytes) =
     (let next_bytes = sat_add64 (sat_add64 bytes (if 0 < cnt then 1 else 0)) sz
      in if byte_limit < next_bytes then (cnt, bytes)
         else retain_sizes byte_limit sizes (cnt + 1, next_bytes))"

definition finish_section ::
    "'a list \<Rightarrow> nat \<Rightarrow> nat \<Rightarrow> truncation_section \<Rightarrow> nat \<Rightarrow> nat list \<Rightarrow> 'a section_result" where
  "finish_section items item_limit byte_limit s wall sizes =
     (let total_items = length items; desired = min total_items item_limit; item_count = length sizes;
          item_limited_bytes =
            sat_add64 (fold (\<lambda>sz bytes. sat_add64 bytes sz) sizes 2) (sat_sub item_count 1);
          (retained_count, retained_bytes) = retain_sizes byte_limit sizes (0, 2)
      in \<lparr>bs_items = take retained_count items,
          bs_truncation =
            (if item_limit < total_items
             then [truncation_detail_new s ItemLimit item_limit (Some (total_items - item_limit))] else []) @
            (if item_count < desired
             then [truncation_detail_new s WallTimeLimit (to_u64 (as_millis wall)) None] else []) @
            (if retained_count < item_count
             then [truncation_detail_new s ResponseByteLimit byte_limit
                     (Some (sat_sub item_limited_bytes retained_bytes))] else []),
          bs_retained_bytes = retained_bytes\<rparr>)"

definition bounded_section_with_wall_time ::
    "(nat \<Rightarrow> op_world) \<Rightarrow> ('a \<Rightarrow> string + string list) \<Rightarrow> 'a list \<Rightarrow> nat \<Rightarrow> nat \<Rightarrow> truncation_section \<Rightarrow>
     nat \<Rightarrow> 'a section_result query_op" where
  "bounded_section_with_wall_time worlds encode items item_limit byte_limit s wall =
     op_bind (instant_now worlds) (\<lambda>started.
       op_bind (measure_items worlds encode started wall (take (min (length items) item_limit) items))
         (\<lambda>sizes. returns (finish_section items item_limit byte_limit s wall sizes)))"

definition bounded_section ::
    "(nat \<Rightarrow> op_world) \<Rightarrow> ('a \<Rightarrow> string + string list) \<Rightarrow> 'a list \<Rightarrow> nat \<Rightarrow> nat \<Rightarrow> truncation_section \<Rightarrow>
     'a section_result query_op" where
  "bounded_section worlds encode items item_limit byte_limit s =
     bounded_section_with_wall_time worlds encode items item_limit byte_limit s section_wall_time"

definition candidate_truncation :: "truncation_section \<Rightarrow> nat \<Rightarrow> bool \<Rightarrow> truncation_detail option" where
  "candidate_truncation s limit truncated =
     (if truncated then Some (truncation_detail_new s UnresolvedCandidateFanout limit None) else None)"

subsection \<open>Resolving a reference\<close>

text \<open>
  \<open>resolve\<close>; \<open>show_id\<close> is the \<open>Debug\<close> rendering of an entity id. The revision of an id must
  be the published one; a name must be unambiguous.
\<close>

definition resolve ::
    "(entity_id \<Rightarrow> string) \<Rightarrow> (nat \<Rightarrow> op_world) \<Rightarrow> op_context \<Rightarrow> workspace_graph \<Rightarrow> symbol_ref \<Rightarrow>
     revision \<Rightarrow> symbol query_op" where
  "resolve show_id worlds c graph reference current =
     (case reference of
        ById i r \<Rightarrow>
          if r \<noteq> current then fails (StaleSymbolRef r current)
          else (case ws_symbol graph i of
                  Some s \<Rightarrow> returns s | None \<Rightarrow> fails (SymbolNotFound (show_id i)))
      | ByName name \<Rightarrow>
          op_bind (from_abort (resolve_name_with_context worlds c graph name)) (\<lambda>matches.
            case matches of
              [] \<Rightarrow> fails (SymbolNotFound name)
            | [i] \<Rightarrow> (case ws_symbol graph i of
                        Some s \<Rightarrow> returns s | None \<Rightarrow> fails (SymbolNotFound name))
            | _ \<Rightarrow> fails (AmbiguousSymbol name (length matches))))"

end
