(* ===== verification/Query_Filters.thy ===== *)
theory Query_Filters
  imports Query_Budget
begin

section \<open>Prepared source and symbol filters\<close>

text \<open>
  The request filters of \<open>chakra-engine/src/query.rs\<close>: validation and normalisation of a
  source filter, of the scope of a repository map and of a symbol filter, and their decisions
  on files and symbols. \<open>str::trim\<close> works on the UTF-8 bytes.
\<close>

subsection \<open>Trimming\<close>

text \<open>The number of bytes of the white-space character a text starts or ends with.\<close>

definition leading_space :: "string \<Rightarrow> nat" where
  "leading_space s =
     (case map of_char (take 3 s) of
        [] \<Rightarrow> 0
      | x # r \<Rightarrow>
          if x \<in> {9, 10, 11, 12, 13, 32} then 1
          else if x = 194 then (case r of y # _ \<Rightarrow> if y \<in> {133, 160} then 2 else 0 | [] \<Rightarrow> 0)
          else (case r of y # z # _ \<Rightarrow> if wide_space x y z then 3 else 0 | _ \<Rightarrow> 0))"

definition trailing_space :: "string \<Rightarrow> nat" where
  "trailing_space s =
     (case map of_char (take 3 (rev s)) of
        [] \<Rightarrow> 0
      | x # r \<Rightarrow>
          if x \<in> {9, 10, 11, 12, 13, 32} then 1
          else (case r of
                  [] \<Rightarrow> 0
                | y # r' \<Rightarrow>
                    if y = 194 \<and> x \<in> {133, 160} then 2
                    else (case r' of z # _ \<Rightarrow> if wide_space z y x then 3 else 0 | [] \<Rightarrow> 0)))"

lemma leading_space_le: "leading_space s \<le> length s"
  by (cases s rule: remdups_adj.cases; cases "tl (tl s)")
    (auto simp: leading_space_def split: list.splits)

lemma trailing_space_le: "trailing_space s \<le> length s"
proof -
  have "trailing_space s \<le> length (rev s)"
    by (cases "rev s" rule: remdups_adj.cases; cases "tl (tl (rev s))")
      (auto simp: trailing_space_def split: list.splits)
  then show ?thesis by simp
qed

function trim_start :: "string \<Rightarrow> string" where
  "trim_start s = (if leading_space s = 0 then s else trim_start (drop (leading_space s) s))"
  by pat_completeness auto

termination
proof (relation "measure length")
  fix s :: string
  assume "leading_space s \<noteq> 0"
  with leading_space_le [of s] show "(drop (leading_space s) s, s) \<in> measure length" by (cases s) auto
qed simp

function trim_end :: "string \<Rightarrow> string" where
  "trim_end s =
     (if trailing_space s = 0 then s else trim_end (take (length s - trailing_space s) s))"
  by pat_completeness auto

termination
proof (relation "measure length")
  fix s :: string
  assume "trailing_space s \<noteq> 0"
  with trailing_space_le [of s] show "(take (length s - trailing_space s) s, s) \<in> measure length"
    by (cases s) auto
qed simp

declare trim_start.simps [simp del] trim_end.simps [simp del]

definition trim :: "string \<Rightarrow> string" where
  "trim s = trim_end (trim_start s)"

definition trim_end_char :: "char \<Rightarrow> string \<Rightarrow> string" where
  "trim_end_char ch s = rev (dropWhile (\<lambda>x. x = ch) (rev s))"

text \<open>\<open>s.trim_end_matches("::")\<close>, on the reversed text.\<close>

fun drop_seps :: "string \<Rightarrow> string" where
  "drop_seps (x # y # zs) = (if x = CHR '':'' \<and> y = CHR '':'' then drop_seps zs else x # y # zs)"
| "drop_seps s = s"

definition trim_end_seps :: "string \<Rightarrow> string" where
  "trim_end_seps s = rev (drop_seps (rev s))"

subsection \<open>Source filters\<close>

record prepared_source_filter =
  psf_package :: "string option"
  psf_path_prefix :: "repo_path option"
  psf_include_roles :: "source_role list"
  psf_exclude_roles :: "source_role list"
  psf_project :: "scope_selector option"

fun source_rank :: "source_role \<Rightarrow> nat" where
  "source_rank Production = 0"
| "source_rank RoleTest = 1"
| "source_rank RoleExample = 2"
| "source_rank RoleBench = 3"
| "source_rank RoleFixture = 4"
| "source_rank Generated = 5"
| "source_rank Vendor = 6"

lemma source_rank_inj: "source_rank a = source_rank b \<Longrightarrow> a = b"
  by (cases a; cases b) simp_all

text \<open>\<open>sort_unstable\<close> and \<open>dedup\<close>; the derived order of \<open>SourceRole\<close> is that of \<open>source_rank\<close>.\<close>

definition sorted_roles :: "source_role list \<Rightarrow> source_role list" where
  "sorted_roles roles = remdups_adj (sort_key source_rank roles)"

definition sorted_languages :: "language list \<Rightarrow> language list" where
  "sorted_languages langs = remdups_adj (sort langs)"

definition prepare_package :: "string option \<Rightarrow> query_error + string option" where
  "prepare_package package =
     (case package of
        None \<Rightarrow> Inr None
      | Some p \<Rightarrow>
          let q = trim p
          in if q = [] then Inl (Invalid ''package filter must be non-empty'')
             else if max_package_filter_chars < char_count q
             then Inl (Invalid ''package filter exceeds 256 characters'')
             else Inr (Some q))"

definition selector_package_error :: "string option \<Rightarrow> query_error option" where
  "selector_package_error package =
     (case package of
        None \<Rightarrow> None
      | Some p \<Rightarrow>
          let q = trim p
          in if q = [] then Some (Invalid ''project package filter must be non-empty'')
             else if max_package_filter_chars < char_count q
             then Some (Invalid ''project package filter exceeds 256 characters'')
             else None)"

definition prepare_project :: "scope_selector option \<Rightarrow> query_error + scope_selector option" where
  "prepare_project project =
     (case project of
        None \<Rightarrow> Inr None
      | Some sel \<Rightarrow>
          if (case sel_unit sel of None \<Rightarrow> False | Some u \<Rightarrow> max_namespace_filter_chars < char_count u)
          then Inl (Invalid ''project unit filter exceeds 1024 characters'')
          else (case selector_package_error (sel_package sel) of
                  Some e \<Rightarrow> Inl e
                | None \<Rightarrow>
                    if (sel_unit sel \<noteq> None) = (sel_package sel \<noteq> None)
                    then Inl (Invalid ''project scope selector must set exactly one of `unit` or `package`'')
                    else Inr (Some sel)))"

fun repo_path_error_message :: "repo_path_error \<Rightarrow> string" where
  "repo_path_error_message PathEmpty = ''path is empty''"
| "repo_path_error_message (PathAbsolute raw) = ''path must be relative, got: '' @ raw"
| "repo_path_error_message (PathDotComponent raw) = ''path contains a `.` or `..` component: '' @ raw"
| "repo_path_error_message (PathBackslash raw) = ''path must use forward slashes: '' @ raw"
| "repo_path_error_message (PathTrailingSlash raw) = ''path must not end with a slash: '' @ raw"

definition prepare_path_prefix :: "string option \<Rightarrow> query_error + repo_path option" where
  "prepare_path_prefix prefix =
     (case prefix of
        None \<Rightarrow> Inr None
      | Some raw \<Rightarrow>
          let p = trim_end_char CHR ''/'' raw
          in if p = [] then Inl (Invalid ''path prefix must be non-empty'')
             else (case repo_path_new p of
                     Inl e \<Rightarrow> Inl (Invalid (''invalid path prefix: '' @ repo_path_error_message e))
                   | Inr q \<Rightarrow> Inr (Some q)))"

definition result_bind :: "'e + 'a \<Rightarrow> ('a \<Rightarrow> 'e + 'b) \<Rightarrow> 'e + 'b" where
  "result_bind r f = (case r of Inl e \<Rightarrow> Inl e | Inr x \<Rightarrow> f x)"

lemma result_bind_simps [simp]: "result_bind (Inl e) f = Inl e" "result_bind (Inr x) f = f x"
  by (simp_all add: result_bind_def)

lemma result_bind_Inr: "result_bind r f = Inr y \<longleftrightarrow> (\<exists>x. r = Inr x \<and> f x = Inr y)"
  by (cases r) simp_all

definition prepare_source_filter :: "source_filter \<Rightarrow> query_error + prepared_source_filter" where
  "prepare_source_filter f =
     (if max_query_filter_values < length (sf_include_roles f) \<or>
         max_query_filter_values < length (sf_exclude_roles f)
      then Inl (Invalid ''source role filters accept at most 16 values'')
      else result_bind (prepare_package (sf_package f)) (\<lambda>package.
             result_bind (prepare_project (sf_project f)) (\<lambda>project.
               result_bind (prepare_path_prefix (sf_path_prefix f)) (\<lambda>path_prefix.
                 Inr \<lparr>psf_package = package, psf_path_prefix = path_prefix,
                   psf_include_roles = sorted_roles (sf_include_roles f),
                   psf_exclude_roles = sorted_roles (sf_exclude_roles f), psf_project = project\<rparr>))))"

fun scope_error_message :: "scope_error \<Rightarrow> string" where
  "scope_error_message InvalidSelector = ''project scope selector must set exactly one of `unit` or `package`''"
| "scope_error_message (UnknownUnit i) = ''unknown project unit `'' @ i @ ''`''"
| "scope_error_message (UnknownPackage p) = ''no project unit is named `'' @ p @ ''`''"

definition resolve_project_units ::
    "prepared_source_filter \<Rightarrow> project_model \<Rightarrow> query_error + unit_id list option" where
  "resolve_project_units f model =
     (case psf_project f of
        None \<Rightarrow> Inr None
      | Some sel \<Rightarrow>
          (case resolve_selector model sel of
             Inl e \<Rightarrow> Inl (Invalid (scope_error_message e)) | Inr found \<Rightarrow> Inr (Some found)))"

definition under_prefix :: "repo_path \<Rightarrow> repo_path \<Rightarrow> bool" where
  "under_prefix prefix p \<longleftrightarrow>
     path_str p = path_str prefix \<or>
     (case strip_prefix (path_str prefix) (path_str p) of
        None \<Rightarrow> False | Some suffix \<Rightarrow> starts_with ''/'' suffix)"

definition filter_matches :: "prepared_source_filter \<Rightarrow> repo_path \<Rightarrow> source_metadata \<Rightarrow> bool" where
  "filter_matches f p md =
     (if (case psf_package f of
            None \<Rightarrow> False | Some expected \<Rightarrow> map_option package_name (meta_package md) \<noteq> Some expected)
      then False
      else if (case psf_path_prefix f of None \<Rightarrow> False | Some prefix \<Rightarrow> \<not> under_prefix prefix p)
      then False
      else (psf_include_roles f = [] \<or> meta_role md \<in> set (psf_include_roles f)) \<and>
           meta_role md \<notin> set (psf_exclude_roles f))"

definition matches_project :: "project_model \<Rightarrow> unit_id list option \<Rightarrow> repo_path \<Rightarrow> language \<Rightarrow> bool" where
  "matches_project model selected p lang =
     (case selected of
        None \<Rightarrow> True
      | Some found \<Rightarrow>
          (case ownership model p lang of
             OwnedBy i \<Rightarrow> i \<in> set found | AmbiguousOwners _ _ \<Rightarrow> False | Unassigned \<Rightarrow> False))"

definition normalized_source :: "prepared_source_filter \<Rightarrow> source_filter" where
  "normalized_source f =
     \<lparr>sf_package = psf_package f, sf_path_prefix = map_option path_str (psf_path_prefix f),
      sf_include_roles = psf_include_roles f, sf_exclude_roles = psf_exclude_roles f,
      sf_project = psf_project f\<rparr>"

subsection \<open>Scopes of repository maps\<close>

record prepared_repo_map_scope =
  prs_source :: prepared_source_filter
  prs_include_languages :: "language list"

definition prepare_repo_map_scope :: "repo_map_scope \<Rightarrow> query_error + prepared_repo_map_scope" where
  "prepare_repo_map_scope scope =
     (if max_query_filter_values < length (rms_include_languages scope)
      then Inl (Invalid ''language filters accept at most 16 values'')
      else result_bind (prepare_source_filter (rms_source scope)) (\<lambda>source.
             Inr \<lparr>prs_source = source,
                  prs_include_languages = sorted_languages (rms_include_languages scope)\<rparr>))"

definition normalized_scope :: "prepared_repo_map_scope \<Rightarrow> repo_map_scope" where
  "normalized_scope scope =
     \<lparr>rms_include_languages = prs_include_languages scope,
      rms_source = normalized_source (prs_source scope)\<rparr>"

definition scope_matches ::
    "prepared_repo_map_scope \<Rightarrow> project_model \<Rightarrow> unit_id list option \<Rightarrow> repo_path \<Rightarrow> language \<Rightarrow>
     source_metadata \<Rightarrow> bool" where
  "scope_matches scope model selected p lang md \<longleftrightarrow>
     (prs_include_languages scope = [] \<or> lang \<in> set (prs_include_languages scope)) \<and>
     filter_matches (prs_source scope) p md \<and> matches_project model selected p lang"

subsection \<open>Symbol filters\<close>

record prepared_symbol_filter =
  pyf_source :: prepared_source_filter
  pyf_include_languages :: "language list"
  pyf_include_kinds :: "symbol_kind list"
  pyf_exclude_kinds :: "symbol_kind list"
  pyf_namespace_prefix :: "string option"

definition prepare_namespace_prefix :: "string option \<Rightarrow> query_error + string option" where
  "prepare_namespace_prefix prefix =
     (case prefix of
        None \<Rightarrow> Inr None
      | Some raw \<Rightarrow>
          let p = trim_end_seps (trim raw)
          in if p = [] then Inl (Invalid ''namespace prefix must be non-empty'')
             else if max_namespace_filter_chars < char_count p
             then Inl (Invalid ''namespace prefix exceeds 1024 characters'')
             else Inr (Some p))"

definition prepare_symbol_filter :: "symbol_search_request \<Rightarrow> query_error + prepared_symbol_filter" where
  "prepare_symbol_filter request =
     (case find (\<lambda>(name, n). max_query_filter_values < n)
             [(''language'', length (ssr_include_languages request)),
              (''symbol kind'', length (ssr_include_kinds request)),
              (''excluded symbol kind'', length (ssr_exclude_kinds request))] of
        Some (name, n) \<Rightarrow> Inl (Invalid (name @ '' filters accept at most 16 values''))
      | None \<Rightarrow>
          result_bind (prepare_namespace_prefix (ssr_namespace_prefix request)) (\<lambda>prefix.
            result_bind (prepare_source_filter (ssr_source request)) (\<lambda>source.
              Inr \<lparr>pyf_source = source, pyf_include_languages = ssr_include_languages request,
                   pyf_include_kinds = ssr_include_kinds request,
                   pyf_exclude_kinds = ssr_exclude_kinds request, pyf_namespace_prefix = prefix\<rparr>)))"

definition symbol_filter_matches ::
    "prepared_symbol_filter \<Rightarrow> project_model \<Rightarrow> unit_id list option \<Rightarrow> symbol \<Rightarrow> source_metadata \<Rightarrow> bool" where
  "symbol_filter_matches f model selected s md =
     (let key = sym_key s
      in if \<not> filter_matches (pyf_source f) (key_path key) md \<or>
            \<not> matches_project model selected (key_path key) (key_language key) \<or>
            (pyf_include_languages f \<noteq> [] \<and> key_language key \<notin> set (pyf_include_languages f)) \<or>
            (pyf_include_kinds f \<noteq> [] \<and> key_kind key \<notin> set (pyf_include_kinds f)) \<or>
            key_kind key \<in> set (pyf_exclude_kinds f)
         then False
         else (case pyf_namespace_prefix f of
                 None \<Rightarrow> True
               | Some prefix \<Rightarrow>
                   qualified_name key = prefix \<or>
                   (case strip_prefix prefix (qualified_name key) of
                      None \<Rightarrow> False | Some suffix \<Rightarrow> starts_with ''::'' suffix)))"

subsection \<open>The language of a path\<close>

definition has_extension :: "repo_path \<Rightarrow> string list \<Rightarrow> bool" where
  "has_extension p extensions \<longleftrightarrow> list_ex (\<lambda>e. ends_with e (path_str p)) extensions"

definition file_language :: "repo_path \<Rightarrow> language option" where
  "file_language p =
     (if has_extension p [''.rs''] then Some LangRust
      else if has_extension p [''.php''] then Some LangPhp
      else if has_extension p [''.ts'', ''.tsx'', ''.mts'', ''.cts''] then Some LangTypeScript
      else if has_extension p [''.py'', ''.pyi''] then Some LangPython
      else if has_extension p [''.js'', ''.jsx'', ''.mjs'', ''.cjs''] then Some LangJavaScript
      else if has_extension p [''.java''] then Some LangJava
      else if has_extension p [''.cs''] then Some LangCSharp
      else if has_extension p [''.sh'', ''.bash'', ''.zsh'', ''.ksh''] then Some LangShell
      else if has_extension p [''.go''] then Some LangGo
      else if has_extension p [''.kt'', ''.kts''] then Some LangKotlin
      else if has_extension p [''.c'', ''.h'', ''.cc'', ''.cpp'', ''.cxx'', ''.hh'', ''.hpp'', ''.hxx'',
          ''.ipp'', ''.tpp'', ''.inc''] then Some LangCpp
      else if has_extension p [''.tf'', ''.tfvars'', ''.hcl''] then Some LangHcl
      else None)"

subsection \<open>Scopes of related symbols\<close>

record related_source_scope =
  rss_filter :: prepared_source_filter
  rss_project_units :: "unit_id list option"
  rss_model :: project_model

definition related_source_scope_new ::
    "source_filter \<Rightarrow> project_model \<Rightarrow> query_error + related_source_scope option" where
  "related_source_scope_new f model =
     (if f = source_filter_default then Inr None
      else result_bind (prepare_source_filter f) (\<lambda>prepared.
             result_bind (resolve_project_units prepared model) (\<lambda>selected.
               Inr (Some \<lparr>rss_filter = prepared, rss_project_units = selected, rss_model = model\<rparr>))))"

definition matches_view :: "related_source_scope \<Rightarrow> symbol_view \<Rightarrow> bool" where
  "matches_view scope v \<longleftrightarrow>
     filter_matches (rss_filter scope) (range_file (view_location v))
       \<lparr>meta_role = view_source_role v, meta_classification = view_source_classification v,
        meta_package = view_package v\<rparr> \<and>
     matches_project (rss_model scope) (rss_project_units scope) (range_file (view_location v))
       (view_language v)"

definition matches_related :: "related_source_scope \<Rightarrow> related_symbol \<Rightarrow> bool" where
  "matches_related scope r = matches_view scope (rel_symbol r)"

definition matches_call_site :: "related_source_scope \<Rightarrow> call_site_view \<Rightarrow> bool" where
  "matches_call_site scope cs = matches_view scope (csv_caller cs)"

definition matches_diff_path :: "related_source_scope \<Rightarrow> workspace_graph \<Rightarrow> repo_path \<Rightarrow> bool" where
  "matches_diff_path scope graph p =
     (let md = (case ws_file_metadata graph p of None \<Rightarrow> path_fallback_metadata p | Some md \<Rightarrow> md)
      in if \<not> filter_matches (rss_filter scope) p md then False
         else (case (rss_project_units scope, file_language p) of
                 (None, _) \<Rightarrow> True
               | (Some found, Some lang) \<Rightarrow> matches_project (rss_model scope) (Some found) p lang
               | (Some _, None) \<Rightarrow> False))"

end
