(* ===== verification/Filter_Properties.thy ===== *)
theory Filter_Properties
  imports Query_Filters
begin

section \<open>Filters are stable\<close>

text \<open>
  A continuation cursor carries the normalised scope, and the next page prepares it again.
  Preparing is idempotent: normalisation loses nothing of what a filter decides by.
\<close>

subsection \<open>Trimming again changes nothing\<close>

lemma leading_space_append: "0 < leading_space t \<Longrightarrow> leading_space (t @ u) = leading_space t"
  by (cases t rule: remdups_adj.cases; cases "tl (tl t)")
    (auto simp: leading_space_def take_Cons' split: list.splits if_splits)

lemma trim_start_done: "leading_space (trim_start s) = 0"
  by (induction s rule: trim_start.induct) (simp add: trim_start.simps [of s for s])

lemma trim_end_done: "trailing_space (trim_end s) = 0"
  by (induction s rule: trim_end.induct) (simp add: trim_end.simps [of s for s])

lemma trim_end_prefix: "\<exists>u. s = trim_end s @ u"
proof (induction s rule: trim_end.induct)
  case (1 s)
  show ?case
  proof (cases "trailing_space s = 0")
    case True
    then show ?thesis by (simp add: trim_end.simps)
  next
    case False
    let ?t = "take (length s - trailing_space s) s"
    obtain u where "?t = trim_end ?t @ u" using 1 False by blast
    then have "s = trim_end ?t @ u @ drop (length s - trailing_space s) s"
      by (metis append_assoc append_take_drop_id)
    with False show ?thesis by (subst trim_end.simps) auto
  qed
qed

lemma trim_idem: "trim (trim s) = trim s"
proof -
  obtain u where u: "trim_start s = trim s @ u"
    using trim_end_prefix [of "trim_start s"] by (auto simp: trim_def)
  have "leading_space (trim s) = 0"
    using leading_space_append [of "trim s" u] trim_start_done [of s] u by (cases "leading_space (trim s)") auto
  then have "trim_start (trim s) = trim s" by (simp add: trim_start.simps)
  moreover have "trim_end (trim s) = trim s"
    using trim_end_done [of "trim_start s"] by (simp add: trim_def trim_end.simps)
  ultimately show ?thesis by (simp add: trim_def)
qed

lemma sorted_roles_idem: "sorted_roles (sorted_roles roles) = sorted_roles roles"
proof -
  have "inj source_rank" by (auto intro: injI source_rank_inj)
  then have "map source_rank (sorted_roles roles) = remdups_adj (map source_rank (sort_key source_rank roles))"
    by (simp add: sorted_roles_def remdups_adj_map_injective)
  then have "sorted (map source_rank (sorted_roles roles))" by simp
  then show ?thesis
    using distinct_adj_remdups_adj [of "sort_key source_rank roles"]
    by (simp add: sorted_roles_def sort_key_id_if_sorted distinct_adj_altdef)
qed

lemma sorted_languages_idem: "sorted_languages (sorted_languages langs) = sorted_languages langs"
  using distinct_adj_remdups_adj [of "sort langs"]
  by (simp add: sorted_languages_def sorted_sort_id distinct_adj_altdef)

lemma sorted_length: "length (sorted_roles roles) \<le> length roles" "length (sorted_languages ls) \<le> length ls"
  using remdups_adj_length [of "sort_key source_rank roles"] remdups_adj_length [of "sort ls"]
  by (simp_all add: sorted_roles_def sorted_languages_def del: remdups_adj_length)

subsection \<open>Preparing again changes nothing\<close>

lemma prepare_package_idem: "prepare_package p = Inr q \<Longrightarrow> prepare_package q = Inr q"
  by (auto simp: prepare_package_def Let_def trim_idem split: option.splits if_splits)

lemma prepare_project_idem: "prepare_project p = Inr q \<Longrightarrow> prepare_project q = Inr q"
  by (auto simp: prepare_project_def split: option.splits if_splits)

lemma prepare_path_prefix_idem:
  assumes "prepare_path_prefix p = Inr q"
  shows "prepare_path_prefix (map_option path_str q) = Inr q"
proof (cases q)
  case None
  then show ?thesis by (simp add: prepare_path_prefix_def)
next
  case (Some r)
  then obtain s where "repo_path_new s = Inr r"
    using assms by (auto simp: prepare_path_prefix_def Let_def split: option.splits if_splits sum.splits)
  then have "repo_path_ok r" by (rule repo_path_new_ok)
  then have ne: "path_str r \<noteq> []" "\<not> ends_with ''/'' (path_str r)" and new: "repo_path_new (path_str r) = Inr r"
    using repo_path_okD by (simp_all add: repo_path_ok_def)
  then have "trim_end_char CHR ''/'' (path_str r) = path_str r"
    by (cases "rev (path_str r)") (auto simp: trim_end_char_def ends_with_def starts_with_def)
  with Some ne(1) new show ?thesis by (simp add: prepare_path_prefix_def)
qed

lemma prepare_source_filter_idem:
  assumes "prepare_source_filter f = Inr p"
  shows "prepare_source_filter (normalized_source p) = Inr p"
proof -
  obtain package project prefix where parts:
    "prepare_package (sf_package f) = Inr package" "prepare_project (sf_project f) = Inr project"
    "prepare_path_prefix (sf_path_prefix f) = Inr prefix"
    and short: "length (sf_include_roles f) \<le> max_query_filter_values"
      "length (sf_exclude_roles f) \<le> max_query_filter_values"
    and p: "p = \<lparr>psf_package = package, psf_path_prefix = prefix,
      psf_include_roles = sorted_roles (sf_include_roles f),
      psf_exclude_roles = sorted_roles (sf_exclude_roles f), psf_project = project\<rparr>"
    using assms by (auto simp: prepare_source_filter_def result_bind_Inr split: if_splits)
  have "length (sorted_roles roles) \<le> max_query_filter_values" if "length roles \<le> max_query_filter_values" for roles
    using sorted_length(1) [of roles] that by linarith
  with short parts(1) [THEN prepare_package_idem] parts(2) [THEN prepare_project_idem]
    parts(3) [THEN prepare_path_prefix_idem]
  show ?thesis
    by (simp add: p prepare_source_filter_def normalized_source_def sorted_roles_idem not_less [symmetric])
qed

text \<open>C39: Preparing the normalised scope of a cursor gives back the prepared scope that the
  cursor was made from, with the same decision on every file; it cannot fail.\<close>

theorem scope_cursor_roundtrip:
  assumes "prepare_repo_map_scope scope = Inr p"
  shows "prepare_repo_map_scope (normalized_scope p) = Inr p"
proof -
  obtain source where source: "prepare_source_filter (rms_source scope) = Inr source"
    and short: "length (rms_include_languages scope) \<le> max_query_filter_values"
    and p: "p = \<lparr>prs_source = source, prs_include_languages = sorted_languages (rms_include_languages scope)\<rparr>"
    using assms by (auto simp: prepare_repo_map_scope_def result_bind_Inr split: if_splits)
  have "\<not> max_query_filter_values < length (sorted_languages (rms_include_languages scope))"
    using sorted_length(2) [of "rms_include_languages scope"] short by linarith
  with prepare_source_filter_idem [OF source] show ?thesis
    by (simp add: p prepare_repo_map_scope_def normalized_scope_def sorted_languages_idem)
qed

text \<open>Witness: a scope with a padded package name, a trailing slash and repeated roles.\<close>

definition sample_scope :: repo_map_scope where
  "sample_scope =
     \<lparr>rms_include_languages = [LangPhp, LangRust, LangPhp],
      rms_source =
        \<lparr>sf_package = Some '' core '', sf_path_prefix = Some ''src/'',
         sf_include_roles = [RoleTest, Production, RoleTest], sf_exclude_roles = [],
         sf_project = None\<rparr>\<rparr>"

theorem scope_cursor_roundtrip_witness:
  "\<exists>p. prepare_repo_map_scope sample_scope = Inr p \<and> prs_include_languages p = [LangRust, LangPhp] \<and>
     psf_package (prs_source p) = Some ''core'' \<and> prepare_repo_map_scope (normalized_scope p) = Inr p"
proof -
  have "case prepare_repo_map_scope sample_scope of
      Inr p \<Rightarrow> prs_include_languages p = [LangRust, LangPhp] \<and> psf_package (prs_source p) = Some ''core''
    | Inl _ \<Rightarrow> False"
    by code_simp
  then obtain p where "prepare_repo_map_scope sample_scope = Inr p" "prs_include_languages p = [LangRust, LangPhp]"
    "psf_package (prs_source p) = Some ''core''"
    by (auto split: sum.splits)
  then show ?thesis using scope_cursor_roundtrip by blast
qed

subsection \<open>Selectors\<close>

text \<open>A project selector never turns into a silently empty filter: if a scope on related
  symbols is accepted with a selector, then the selector is resolved to at least one unit, all
  of them in the published model, and a file that no unit or more than one unit claims is
  outside the scope; the default filter imposes no scope.\<close>

theorem related_scope_resolved:
  "case related_source_scope_new f model of
     Inr (Some scope) \<Rightarrow>
       f \<noteq> source_filter_default \<and>
       (case sf_project f of
          None \<Rightarrow> rss_project_units scope = None
        | Some sel \<Rightarrow>
            (\<exists>found. rss_project_units scope = Some found \<and> found \<noteq> [] \<and>
               set found \<subseteq> unit_id ` set (units model) \<and>
               {v. matches_view scope v} \<subseteq> {v. \<exists>i. i \<in> set found \<and>
                  ownership model (range_file (view_location v)) (view_language v) = OwnedBy i}))
   | Inr None \<Rightarrow> f = source_filter_default
   | Inl e \<Rightarrow> f \<noteq> source_filter_default"
proof (cases "related_source_scope_new f model")
  case (Inl e)
  then show ?thesis by (auto simp: related_source_scope_new_def split: if_splits)
next
  case (Inr r)
  show ?thesis
  proof (cases r)
    case None
    with Inr show ?thesis by (auto simp: related_source_scope_new_def result_bind_Inr split: if_splits)
  next
    case (Some scope)
    with Inr obtain p found where p: "f \<noteq> source_filter_default" "prepare_source_filter f = Inr p"
      "resolve_project_units p model = Inr found"
      "scope = \<lparr>rss_filter = p, rss_project_units = found, rss_model = model\<rparr>"
      by (auto simp: related_source_scope_new_def result_bind_Inr split: if_splits)
    have sel: "psf_project p = sf_project f"
      using p(2) by (auto simp: prepare_source_filter_def result_bind_Inr prepare_project_def
          split: if_splits option.splits)
    have resolved: "is \<noteq> [] \<and> set is \<subseteq> unit_id ` set (units model)"
      if "resolve_selector model s = Inr is" for s "is"
      using that by (auto simp: resolve_selector_def unit_of_def Let_def image_iff find_Some_iff to_set_ok
          split: option.splits if_splits)
    show ?thesis
      using p resolved
      by (auto simp: Inr Some sel resolve_project_units_def matches_view_def matches_project_def
          split: option.splits sum.splits ownership.splits)
  qed
qed

end
