(* ===== verification/Query_Ranking.thy ===== *)
theory Query_Ranking
  imports Query_Filters
begin

section \<open>Ranked symbol search\<close>

text \<open>
  \<open>ranked_symbol_matches\<close> of \<open>chakra-engine/src/query.rs\<close>: the best \<open>limit\<close> symbols that match
  a query and pass a filter, found in one pass with a bounded heap under a work budget. A
  smaller rank is a better candidate. The \<open>BinaryHeap\<close> is the sorted list of what it holds:
  \<open>push\<close> inserts, \<open>peek\<close> and \<open>pop\<close> look at and remove the greatest.
\<close>

subsection \<open>Ranks\<close>

record ranked_symbol =
  rks_match_rank :: nat
  rks_kind_rank :: nat
  rks_source_rank :: nat
  rks_symbol :: symbol

fun kind_rank :: "symbol_kind \<Rightarrow> nat" where
  "kind_rank KindImplBlock = 1"
| "kind_rank KindImport = 2"
| "kind_rank _ = 0"

fun kind_order :: "symbol_kind \<Rightarrow> nat" where
  "kind_order KindModule = 0"
| "kind_order KindFunction = 1"
| "kind_order KindMethod = 2"
| "kind_order KindStruct = 3"
| "kind_order KindClass = 4"
| "kind_order KindEnum = 5"
| "kind_order KindTrait = 6"
| "kind_order KindInterface = 7"
| "kind_order KindConstant = 8"
| "kind_order KindField = 9"
| "kind_order KindProperty = 10"
| "kind_order KindTypeAlias = 15"
| "kind_order KindImplBlock = 11"
| "kind_order KindImport = 12"
| "kind_order KindConfiguration = 13"
| "kind_order KindTest = 14"

type_synonym rank_key =
  "nat \<times> nat \<times> nat \<times> language \<times> string \<times> repo_path \<times> text_position \<times> text_position \<times> nat \<times> entity_id"

definition rank_key :: "ranked_symbol \<Rightarrow> rank_key" where
  "rank_key r =
     (let s = rks_symbol r
      in (rks_match_rank r, rks_kind_rank r, rks_source_rank r, key_language (sym_key s),
          qualified_name (sym_key s), key_path (sym_key s), range_start (sym_location s),
          range_end (sym_location s), kind_order (key_kind (sym_key s)), sym_id s))"

definition match_rank :: "(string \<Rightarrow> string) \<Rightarrow> symbol \<Rightarrow> string \<Rightarrow> nat option" where
  "match_rank lower s query_lower =
     (let qualified = lower (qualified_name (sym_key s)); simple = last_segment qualified
      in if qualified = query_lower \<or> simple = query_lower then Some 0
         else if starts_with query_lower simple then Some 1
         else if starts_with query_lower qualified then Some 2
         else if contains_str query_lower simple then Some 3
         else if contains_str query_lower qualified then Some 4
         else None)"

subsection \<open>The exact-name index of a composition\<close>

fun ws_folded_name_candidates :: "workspace_graph \<Rightarrow> string \<Rightarrow> entity_id list" where
  "ws_folded_name_candidates (Owned _ g) name = folded_name_candidates g name"
| "ws_folded_name_candidates (Composite _ ps) name =
     concat (map (\<lambda>p. ws_folded_name_candidates p name) ps)"

subsection \<open>The search\<close>

record search_state =
  ss_work :: section_budget
  ss_poll :: nat
  ss_best :: "ranked_symbol list"
  ss_truncated :: bool

definition heap_push :: "ranked_symbol \<Rightarrow> ranked_symbol list \<Rightarrow> ranked_symbol list" where
  "heap_push = insort_key rank_key"

text \<open>A matching symbol enters the heap; the result says whether the search goes on.\<close>

definition retain_candidate ::
    "(nat \<Rightarrow> op_world) \<Rightarrow> nat \<Rightarrow> ranked_symbol \<Rightarrow> search_state \<Rightarrow> (bool \<times> search_state) query_op" where
  "retain_candidate worlds limit candidate st =
     (if length (ss_best st) < limit
      then op_bind (timed worlds retain_intermediate (ss_work st)) (\<lambda>(ok, work).
             if ok
             then returns (True, st\<lparr>ss_work := work, ss_best := heap_push candidate (ss_best st)\<rparr>)
             else returns (False, st\<lparr>ss_work := work\<rparr>))
      else returns (True, st\<lparr>ss_truncated := True,
             ss_best :=
               (if ss_best st \<noteq> [] \<and> rank_key candidate < rank_key (last (ss_best st))
                then heap_push candidate (butlast (ss_best st))
                else ss_best st)\<rparr>))"

definition consider_ranked_symbol ::
    "(nat \<Rightarrow> op_world) \<Rightarrow> op_context \<Rightarrow> workspace_graph \<Rightarrow> project_model \<Rightarrow> unit_id list option \<Rightarrow>
     prepared_symbol_filter \<Rightarrow> nat \<Rightarrow> symbol \<Rightarrow> nat option \<Rightarrow> search_state \<Rightarrow> (bool \<times> search_state) query_op" where
  "consider_ranked_symbol worlds c graph model selected f limit s mrank st =
     op_bind (observe worlds c (ss_poll st)) (\<lambda>p.
     op_bind (timed worlds (record_examined ExaminedSymbol) (ss_work st)) (\<lambda>(ok, work).
       let st = st\<lparr>ss_poll := p, ss_work := work\<rparr>
       in if \<not> ok then returns (False, st)
          else (case ws_file_metadata graph (key_path (sym_key s)) of
                  None \<Rightarrow> returns (True, st)
                | Some md \<Rightarrow>
                    if \<not> symbol_filter_matches f model selected s md then returns (True, st)
                    else (case mrank of
                            None \<Rightarrow> returns (True, st)
                          | Some r \<Rightarrow>
                              retain_candidate worlds limit
                                \<lparr>rks_match_rank = r, rks_kind_rank = kind_rank (key_kind (sym_key s)),
                                 rks_source_rank = source_rank (meta_role md), rks_symbol = s\<rparr> st))))"

text \<open>A loop over symbols with their match ranks; the result says whether it was cut short.\<close>

fun rank_loop ::
    "(nat \<Rightarrow> op_world) \<Rightarrow> op_context \<Rightarrow> workspace_graph \<Rightarrow> project_model \<Rightarrow> unit_id list option \<Rightarrow>
     prepared_symbol_filter \<Rightarrow> nat \<Rightarrow> (symbol \<times> nat option) list \<Rightarrow> search_state \<Rightarrow>
     (bool \<times> search_state) query_op" where
  "rank_loop worlds c graph model selected f limit [] st = returns (False, st)"
| "rank_loop worlds c graph model selected f limit ((s, mrank) # ss) st =
     op_bind (consider_ranked_symbol worlds c graph model selected f limit s mrank st) (\<lambda>(go, st').
       if go then rank_loop worlds c graph model selected f limit ss st' else returns (True, st'))"

definition exact_symbols ::
    "(string \<Rightarrow> string) \<Rightarrow> workspace_graph \<Rightarrow> string \<Rightarrow> (symbol \<times> nat option) list" where
  "exact_symbols lower graph query_lower =
     map (\<lambda>s. (s, match_rank lower s query_lower))
       (List.map_filter (ws_symbol graph) (ws_folded_name_candidates graph query_lower))"

definition broad_symbols ::
    "(string \<Rightarrow> string) \<Rightarrow> workspace_graph \<Rightarrow> string \<Rightarrow> (symbol \<times> nat option) list" where
  "broad_symbols lower graph query_lower =
     filter (\<lambda>(s, mrank). mrank \<noteq> Some 0)
       (map (\<lambda>s. (s, match_rank lower s query_lower)) (ws_symbols graph))"

definition ranked_symbol_matches ::
    "(string \<Rightarrow> string) \<Rightarrow> (nat \<Rightarrow> op_world) \<Rightarrow> op_context \<Rightarrow> workspace_graph \<Rightarrow> project_model \<Rightarrow>
     unit_id list option \<Rightarrow> string \<Rightarrow> prepared_symbol_filter \<Rightarrow> nat \<Rightarrow> section_budget \<Rightarrow> bool \<Rightarrow>
     (entity_id list \<times> bool \<times> section_budget) query_op" where
  "ranked_symbol_matches lower worlds c graph model selected query f limit work exact_only =
     (let query_lower = lower query;
          run = rank_loop worlds c graph model selected f limit;
          start = \<lparr>ss_work = work, ss_poll = cancellation_poll_new, ss_best = [], ss_truncated = False\<rparr>
      in op_bind (run (exact_symbols lower graph query_lower) start) (\<lambda>(work_exhausted, st).
         op_bind
           (if \<not> exact_only \<and> \<not> work_exhausted \<and> \<not> ss_truncated st
            then op_bind (run (broad_symbols lower graph query_lower) st) (\<lambda>(cut, st). returns st)
            else returns st) (\<lambda>st.
         op_bind (query_check worlds c) (\<lambda>_.
           returns (map (\<lambda>r. sym_id (rks_symbol r)) (ss_best st), ss_truncated st, ss_work st)))))"

end
