(* ===== verification/Budget_Properties.thy ===== *)
theory Budget_Properties
  imports Query_Budget Step_Systems
begin

section \<open>Budgets hold\<close>

text \<open>
  A section budget is never overspent and never revives; a bounded section is the longest
  prefix that fits, and says so exactly when something is missing; a reference resolves to
  the one symbol it names in the revision it was taken from.
\<close>

subsection \<open>The life of a budget\<close>

datatype budget_call =
    CallExamined examined_kind
  | CallTraversal traversal_kind
  | CallRetain
  | CallRemainingExamined
  | CallRemainingTraversal
  | CallRemainingIntermediate
  | CallMark work_stop

definition call_guard :: "bool \<times> section_budget \<Rightarrow> bool option \<times> section_budget" where
  "call_guard r = (Some (fst r), snd r)"

text \<open>One call at one time; \<open>None\<close> for the calls that are not a guard.\<close>

fun run_call :: "budget_call \<Rightarrow> nat \<Rightarrow> section_budget \<Rightarrow> bool option \<times> section_budget" where
  "run_call (CallExamined kind) now b = call_guard (record_examined kind now b)"
| "run_call (CallTraversal kind) now b = call_guard (record_traversal kind now b)"
| "run_call CallRetain now b = call_guard (retain_intermediate now b)"
| "run_call CallRemainingExamined now b = (None, snd (remaining_examined now b))"
| "run_call CallRemainingTraversal now b = (None, snd (remaining_traversal now b))"
| "run_call CallRemainingIntermediate now b = (None, snd (remaining_intermediate now b))"
| "run_call (CallMark stop) now b = (None, mark_exhausted stop b)"

fun budget_run :: "(budget_call \<times> nat) list \<Rightarrow> section_budget \<Rightarrow> section_budget" where
  "budget_run [] b = b"
| "budget_run ((call, now) # calls) b = budget_run calls (snd (run_call call now b))"

text \<open>The guards that granted, in order.\<close>

fun budget_grants :: "(budget_call \<times> nat) list \<Rightarrow> section_budget \<Rightarrow> budget_call list" where
  "budget_grants [] b = []"
| "budget_grants ((call, now) # calls) b =
     (if fst (run_call call now b) = Some True then [call] else []) @
       budget_grants calls (snd (run_call call now b))"

definition budget_ok :: "section_budget \<Rightarrow> bool" where
  "budget_ok b \<longleftrightarrow>
     sb_files_examined b + sb_symbols_examined b + sb_candidates_examined b \<le> sb_examined_limit b \<and>
     sb_edges_visited b + sb_call_sites_visited b \<le> sb_traversal_limit b \<and>
     sb_intermediate_retained b \<le> sb_intermediate_limit b \<and>
     sb_examined_limit b < u64_max \<and> sb_traversal_limit b < u64_max"

lemma check_wall_time_cases:
  obtains "check_wall_time now b = (True, b)" "sb_stopped b = None"
  | stop where "check_wall_time now b = (False, b\<lparr>sb_stopped := Some stop\<rparr>)"
      "sb_stopped b = None \<or> sb_stopped b = Some stop"
proof (cases "sb_stopped b")
  case None
  show ?thesis
  proof (cases "sb_wall_time b \<le> now - sb_started b")
    case True
    with None that(2) [of StopWallTime] show ?thesis by (simp add: check_wall_time_def)
  next
    case False
    with None that(1) show ?thesis by (simp add: check_wall_time_def)
  qed
next
  case (Some stop)
  then have "b\<lparr>sb_stopped := Some stop\<rparr> = b" by simp
  with Some that(2) [of stop] show ?thesis by (simp add: check_wall_time_def)
qed

lemma budget_ok_stop [simp]: "budget_ok (b\<lparr>sb_stopped := s\<rparr>) = budget_ok b"
  by (simp add: budget_ok_def)

lemma examined_exact: "budget_ok b \<Longrightarrow>
    examined b = sb_files_examined b + sb_symbols_examined b + sb_candidates_examined b"
  by (simp add: examined_def budget_ok_def sat_add64_def)

lemma traversed_exact: "budget_ok b \<Longrightarrow> traversed b = sb_edges_visited b + sb_call_sites_visited b"
  by (simp add: traversed_def budget_ok_def sat_add64_def)

lemma budget_call_ok [chakra_inv]:
  assumes "budget_ok b"
  shows "budget_ok (snd (run_call call now b))"
proof -
  note exact = examined_exact [OF assms] traversed_exact [OF assms]
  note defs = call_guard_def record_examined_def record_traversal_def retain_intermediate_def
    remaining_examined_def remaining_traversal_def remaining_intermediate_def mark_exhausted_def
  show ?thesis
  proof (cases rule: check_wall_time_cases [of now b])
    case 1
    then show ?thesis
    proof (cases call)
      case (CallExamined kind)
      with 1 exact assms show ?thesis by (cases kind) (auto simp: defs budget_ok_def)
    next
      case (CallTraversal kind)
      with 1 exact assms show ?thesis by (cases kind) (auto simp: defs budget_ok_def)
    qed (use 1 assms in \<open>auto simp: defs budget_ok_def\<close>)
  next
    case (2 stop)
    then show ?thesis using assms by (cases call) (auto simp: defs)
  qed
qed

lemma stopped_stays:
  assumes "sb_stopped b = Some stop"
  shows "sb_stopped (snd (run_call call now b)) = Some stop \<and>
    fst (run_call call now b) \<noteq> Some True"
  using assms
  by (cases call) (simp_all add: call_guard_def record_examined_def record_traversal_def
      retain_intermediate_def remaining_examined_def remaining_traversal_def
      remaining_intermediate_def mark_exhausted_def check_wall_time_def)

lemma refusal_stops:
  assumes "fst (run_call call now b) = Some False"
  shows "\<exists>stop. sb_stopped (snd (run_call call now b)) = Some stop"
proof (cases rule: check_wall_time_cases [of now b])
  case 1
  with assms show ?thesis
    by (cases call) (auto simp: call_guard_def record_examined_def record_traversal_def
        retain_intermediate_def split: if_splits)
next
  case (2 stop)
  with assms show ?thesis
    by (cases call) (auto simp: call_guard_def record_examined_def record_traversal_def
        retain_intermediate_def)
qed

lemma budget_run_stopped:
  "sb_stopped b = Some stop \<Longrightarrow> sb_stopped (budget_run calls b) = Some stop"
  by (induction calls b rule: budget_run.induct) (simp_all add: stopped_stays)

lemma budget_run_ok: "budget_ok b \<Longrightarrow> budget_ok (budget_run calls b)"
  by (induction calls b rule: budget_run.induct) (simp_all add: budget_call_ok)

lemma budget_new_ok: "budget_ok (budget_new result_limit now)"
  by (simp add: budget_ok_def budget_new_def budget_with_limits_def clamp_def u64_max_def
      max_examined_work_def min_examined_work_def max_traversal_work_def min_traversal_work_def)

text \<open>The counters of a section, by the guard that counts them, and what no call changes.\<close>

fun budget_counter :: "budget_call \<Rightarrow> section_budget \<Rightarrow> nat" where
  "budget_counter (CallExamined ExaminedFile) b = sb_files_examined b"
| "budget_counter (CallExamined ExaminedSymbol) b = sb_symbols_examined b"
| "budget_counter (CallExamined ExaminedCandidate) b = sb_candidates_examined b"
| "budget_counter (CallTraversal TraversalEdge) b = sb_edges_visited b"
| "budget_counter (CallTraversal TraversalCallSite) b = sb_call_sites_visited b"
| "budget_counter CallRetain b = sb_intermediate_retained b"
| "budget_counter _ b = 0"

definition budget_frame :: "section_budget \<Rightarrow> nat \<times> nat \<times> nat \<times> nat \<times> nat" where
  "budget_frame b = (sb_examined_limit b, sb_traversal_limit b, sb_intermediate_limit b,
     sb_started b, sb_wall_time b)"

lemma budget_call_effect:
  "budget_frame (snd (run_call call now b)) = budget_frame b \<and>
   budget_counter guard (snd (run_call call now b)) =
     budget_counter guard b + (if fst (run_call call now b) = Some True \<and> call = guard then 1 else 0)"
proof -
  note defs = call_guard_def record_examined_def record_traversal_def retain_intermediate_def
    remaining_examined_def remaining_traversal_def remaining_intermediate_def mark_exhausted_def
    budget_frame_def
  have stop: "budget_frame (b\<lparr>sb_stopped := x\<rparr>) = budget_frame b"
    "budget_counter guard (b\<lparr>sb_stopped := x\<rparr>) = budget_counter guard b" for x
    by (simp add: budget_frame_def, cases "(guard, b)" rule: budget_counter.cases) simp_all
  have counted: "budget_frame (count_examined k b) = budget_frame b"
    "budget_frame (count_traversed t b) = budget_frame b"
    "budget_frame (b\<lparr>sb_intermediate_retained := n\<rparr>) = budget_frame b" for k t n
    by (cases k; cases t; simp add: budget_frame_def)+
  have "budget_counter guard (count_examined k b) =
        budget_counter guard b + (if CallExamined k = guard then 1 else 0)" for k
    by (cases k; cases "(guard, b)" rule: budget_counter.cases) simp_all
  moreover have "budget_counter guard (count_traversed t b) =
        budget_counter guard b + (if CallTraversal t = guard then 1 else 0)" for t
    by (cases t; cases "(guard, b)" rule: budget_counter.cases) simp_all
  moreover have "budget_counter guard (b\<lparr>sb_intermediate_retained := Suc (sb_intermediate_retained b)\<rparr>) =
        budget_counter guard b + (if CallRetain = guard then 1 else 0)"
    by (cases "(guard, b)" rule: budget_counter.cases) simp_all
  ultimately have counts: "budget_counter guard (count_examined k b) =
        budget_counter guard b + (if CallExamined k = guard then 1 else 0)"
    "budget_counter guard (count_traversed t b) =
        budget_counter guard b + (if CallTraversal t = guard then 1 else 0)"
    "budget_counter guard (b\<lparr>sb_intermediate_retained := Suc (sb_intermediate_retained b)\<rparr>) =
        budget_counter guard b + (if CallRetain = guard then 1 else 0)" for k t
    by blast+
  show ?thesis
  proof (cases rule: check_wall_time_cases [of now b])
    case 1
    then show ?thesis
      by (cases call) (simp_all add: defs(1-8) stop counted counts)
  next
    case (2 x)
    then show ?thesis by (cases call) (simp_all add: defs(1-8) stop)
  qed
qed

lemma budget_run_effect:
  "budget_frame (budget_run calls b) = budget_frame b \<and>
   budget_counter guard (budget_run calls b) =
     budget_counter guard b + count_list (budget_grants calls b) guard"
  by (induction calls b rule: budget_run.induct) (auto simp: budget_call_effect)

lemma budget_new_frame:
  "budget_frame (budget_new l t) = (max 1024 (min 8192 (16 * l)), max 2048 (min 16384 (32 * l)),
     max 2048 (min 4096 (8 * l)), t, section_wall_time)"
  by (simp add: budget_frame_def budget_new_def budget_with_limits_def clamp_def sat_mul64_def
      max_examined_work_def min_examined_work_def max_traversal_work_def min_traversal_work_def
      max_intermediate_items_def min_intermediate_items_def examined_work_per_result_def
      traversal_work_per_result_def intermediate_items_per_result_def u64_max_def min_def max_def)

lemma budget_new_counter: "budget_counter guard (budget_new l t) = 0"
  by (cases "(guard, budget_new l t)" rule: budget_counter.cases)
    (simp_all add: budget_new_def budget_with_limits_def)

text \<open>A guard grants, and a remainder is positive, only for a section that may still work.\<close>

definition budget_live :: "nat \<Rightarrow> section_budget \<Rightarrow> bool" where
  "budget_live now b \<longleftrightarrow> sb_stopped b = None \<and> now - sb_started b < sb_wall_time b"

lemma check_wall_time_live: "fst (check_wall_time now b) = budget_live now b"
  "budget_live now b \<Longrightarrow> check_wall_time now b = (True, b)"
  "\<not> budget_live now b \<Longrightarrow> \<exists>b'. check_wall_time now b = (False, b')"
  by (auto simp: check_wall_time_def budget_live_def Let_def)

lemma budget_guards:
  assumes "budget_ok b"
  shows "fst (run_call (CallExamined kind) now b) = Some (budget_live now b \<and>
      sb_files_examined b + sb_symbols_examined b + sb_candidates_examined b < sb_examined_limit b)"
    "fst (run_call (CallTraversal way) now b) = Some (budget_live now b \<and>
      sb_edges_visited b + sb_call_sites_visited b < sb_traversal_limit b)"
    "fst (run_call CallRetain now b) = Some (budget_live now b \<and>
      sb_intermediate_retained b < sb_intermediate_limit b)"
    "fst (remaining_examined now b) = (if budget_live now b then sb_examined_limit b -
      (sb_files_examined b + sb_symbols_examined b + sb_candidates_examined b) else 0)"
    "fst (remaining_traversal now b) = (if budget_live now b then sb_traversal_limit b -
      (sb_edges_visited b + sb_call_sites_visited b) else 0)"
    "fst (remaining_intermediate now b) = (if budget_live now b then sb_intermediate_limit b -
      sb_intermediate_retained b else 0)"
  using check_wall_time_live(2,3) [of now b] examined_exact [OF assms] traversed_exact [OF assms]
  by (cases "budget_live now b"; force simp: call_guard_def record_examined_def record_traversal_def
      retain_intermediate_def remaining_examined_def remaining_traversal_def
      remaining_intermediate_def)+

text \<open>
  C37: Whatever a section does, in any order and at any times, its budget is never overspent.
  Its counters are the numbers of guards that granted, by kind; for a result limit \<open>l\<close> at most
  \<open>16 l\<close> files, symbols and candidates are examined, \<open>32 l\<close> edges and call sites visited and
  \<open>8 l\<close> intermediate items retained, each within its fixed floor and cap. A guard grants exactly
  while the section has not stopped, its wall time is not over and its own limit is not
  reached, and the remainders are exactly what the limits leave. Once a guard has refused, no
  guard of the section ever grants again, and the section reports a truncation.
\<close>

theorem section_budget_never_overspent:
  "let b = budget_run calls (budget_new l started);
       grants = count_list (budget_grants calls (budget_new l started));
       work_examined = sb_files_examined b + sb_symbols_examined b + sb_candidates_examined b;
       work_traversed = sb_edges_visited b + sb_call_sites_visited b;
       live = (sb_stopped b = None \<and> now - started < 250 * 1000000);
       r = run_call call now b
   in sb_files_examined b = grants (CallExamined ExaminedFile) \<and>
      sb_symbols_examined b = grants (CallExamined ExaminedSymbol) \<and>
      sb_candidates_examined b = grants (CallExamined ExaminedCandidate) \<and>
      sb_edges_visited b = grants (CallTraversal TraversalEdge) \<and>
      sb_call_sites_visited b = grants (CallTraversal TraversalCallSite) \<and>
      sb_intermediate_retained b = grants CallRetain \<and>
      work_examined \<le> max 1024 (min 8192 (16 * l)) \<and>
      work_traversed \<le> max 2048 (min 16384 (32 * l)) \<and>
      sb_intermediate_retained b \<le> max 2048 (min 4096 (8 * l)) \<and>
      fst (run_call (CallExamined kind) now b) = Some (live \<and> work_examined < max 1024 (min 8192 (16 * l))) \<and>
      fst (run_call (CallTraversal way) now b) = Some (live \<and> work_traversed < max 2048 (min 16384 (32 * l))) \<and>
      fst (run_call CallRetain now b) =
        Some (live \<and> sb_intermediate_retained b < max 2048 (min 4096 (8 * l))) \<and>
      fst (remaining_examined now b) = (if live then max 1024 (min 8192 (16 * l)) - work_examined else 0) \<and>
      fst (remaining_traversal now b) = (if live then max 2048 (min 16384 (32 * l)) - work_traversed else 0) \<and>
      fst (remaining_intermediate now b) =
        (if live then max 2048 (min 4096 (8 * l)) - sb_intermediate_retained b else 0) \<and>
      (fst r = Some False \<longrightarrow>
         fst (run_call call' now' (budget_run calls' (snd r))) \<noteq> Some True \<and>
         budget_truncation s (budget_run calls' (snd r)) \<noteq> None)"
proof -
  define b where "b = budget_run calls (budget_new l started)"
  have ok: "budget_ok b" unfolding b_def by (rule budget_run_ok [OF budget_new_ok])
  have "budget_frame b = (max 1024 (min 8192 (16 * l)), max 2048 (min 16384 (32 * l)),
      max 2048 (min 4096 (8 * l)), started, section_wall_time)"
    unfolding b_def by (simp add: budget_run_effect budget_new_frame)
  then have frame: "sb_examined_limit b = max 1024 (min 8192 (16 * l))"
    "sb_traversal_limit b = max 2048 (min 16384 (32 * l))"
    "sb_intermediate_limit b = max 2048 (min 4096 (8 * l))"
    "budget_live now b \<longleftrightarrow> sb_stopped b = None \<and> now - started < 250 * 1000000"
    by (simp_all add: budget_frame_def budget_live_def section_wall_time_def)
  have bounds: "sb_files_examined b + sb_symbols_examined b + sb_candidates_examined b \<le> sb_examined_limit b"
    "sb_edges_visited b + sb_call_sites_visited b \<le> sb_traversal_limit b"
    "sb_intermediate_retained b \<le> sb_intermediate_limit b"
    using ok by (simp_all add: budget_ok_def)
  have counts: "budget_counter guard b = count_list (budget_grants calls (budget_new l started)) guard" for guard
    unfolding b_def by (simp add: budget_run_effect budget_new_counter)
  note counters = counts [of "CallExamined ExaminedFile"] counts [of "CallExamined ExaminedSymbol"]
    counts [of "CallExamined ExaminedCandidate"] counts [of "CallTraversal TraversalEdge"]
    counts [of "CallTraversal TraversalCallSite"] counts [of CallRetain]
  have refused: "fst (run_call call' now' (budget_run calls' (snd (run_call call now b)))) \<noteq> Some True \<and>
      budget_truncation s (budget_run calls' (snd (run_call call now b))) \<noteq> None"
    if no: "fst (run_call call now b) = Some False"
  proof -
    obtain stop where "sb_stopped (snd (run_call call now b)) = Some stop"
      using refusal_stops [OF no] by blast
    then have "sb_stopped (budget_run calls' (snd (run_call call now b))) = Some stop"
      by (rule budget_run_stopped)
    with stopped_stays show ?thesis by (cases stop) (simp_all add: budget_truncation_def)
  qed
  show ?thesis
    unfolding Let_def b_def [symmetric]
    using counters [unfolded budget_counter.simps] bounds [unfolded frame]
      budget_guards [OF ok, where now = now, unfolded frame] refused
    by (intro conjI) (assumption | blast)+
qed

text \<open>Witness: a refused call on a spent budget.\<close>

theorem section_budget_never_overspent_witness:
  "(let b = budget_run [(CallMark StopExamined, 0)] (budget_new 3 0);
        r = run_call CallRetain 7 b
    in fst r = Some False \<and> budget_truncation SearchMatches (budget_run [] (snd r)) \<noteq> None)"
proof -
  have refused: "fst (run_call CallRetain 7
      (budget_run [(CallMark StopExamined, 0)] (budget_new 3 0))) = Some False"
    by (simp add: call_guard_def retain_intermediate_def mark_exhausted_def check_wall_time_def
        budget_new_def budget_with_limits_def section_wall_time_def)
  show ?thesis
    using section_budget_never_overspent [of "[(CallMark StopExamined, 0)]" 3 0, where now = 7 and call = CallRetain and
        calls' = "[]" and s = SearchMatches] refused
    unfolding Let_def by blast
qed

subsection \<open>Sections\<close>

definition item_bytes :: "('a \<Rightarrow> string + string list) \<Rightarrow> 'a \<Rightarrow> nat" where
  "item_bytes encode x = (case encode x of Inl _ \<Rightarrow> 0 | Inr chunks \<Rightarrow> min (length (concat chunks)) u64_max)"

text \<open>The bytes of a JSON array: brackets, items, commas.\<close>

definition array_bytes :: "('a \<Rightarrow> string + string list) \<Rightarrow> 'a list \<Rightarrow> nat" where
  "array_bytes encode xs = 2 + sum_list (map (item_bytes encode) xs) + (length xs - 1)"

lemma count_writes: "b \<le> u64_max \<Longrightarrow> fold count_write chunks b = min (b + length (concat chunks)) u64_max"
  by (induction chunks arbitrary: b) (simp_all add: count_write_def sat_add64_def min_def)

lemma serialized_len_Inr: "serialized_len encode x = Inr k \<Longrightarrow> k = item_bytes encode x"
  by (auto simp: serialized_len_def item_bytes_def count_writes split: sum.splits)

lemma measure_items_yields:
  "yields (measure_items worlds encode started wall xs)
     (\<lambda>sizes. length sizes \<le> length xs \<and> sizes = map (item_bytes encode) (take (length sizes) xs))"
proof (induction xs)
  case Nil
  show ?case by (simp add: yields_returns)
next
  case (Cons x xs)
  show ?case
    unfolding measure_items.simps
  proof (rule yields_then)
    fix now
    show "yields (if wall \<le> now - started then returns []
       else op_bind (of_result (serialized_len encode x)) (\<lambda>sz.
              op_bind (measure_items worlds encode started wall xs) (\<lambda>sizes. returns (sz # sizes))))
       (\<lambda>sizes. length sizes \<le> length (x # xs) \<and>
          sizes = map (item_bytes encode) (take (length sizes) (x # xs)))"
      by (auto intro!: yields_returns yields_bind [OF yields_of_result [where P = "\<lambda>sz. sz = item_bytes encode x"]]
          yields_bind [OF Cons.IH] dest: serialized_len_Inr)
  qed
qed

text \<open>The retained prefix is the longest one that fits, and its size is exact.\<close>

definition running_bytes :: "nat \<Rightarrow> nat list \<Rightarrow> nat" where
  "running_bytes cnt sizes = 2 + sum_list sizes + (cnt + length sizes - 1)"

lemma retain_sizes_spec:
  assumes "byte_limit < u64_max"
  shows "\<exists>k \<le> length sizes. retain_sizes byte_limit sizes (cnt, bytes) =
      (cnt + k, bytes + sum_list (take k sizes) + (cnt + k - 1 - (cnt - 1))) \<and>
    (0 < k \<longrightarrow> bytes + sum_list (take k sizes) + (cnt + k - 1 - (cnt - 1)) \<le> byte_limit) \<and>
    (k < length sizes \<longrightarrow>
       byte_limit < bytes + sum_list (take (Suc k) sizes) + (cnt + Suc k - 1 - (cnt - 1)))"
proof (induction sizes arbitrary: cnt bytes)
  case Nil
  then show ?case by simp
next
  case (Cons s sizes)
  define nb where "nb = bytes + (if 0 < cnt then 1 else 0) + s"
  have sat: "byte_limit < sat_add64 (sat_add64 bytes (if 0 < cnt then 1 else 0)) s \<longleftrightarrow> byte_limit < nb"
    "\<not> byte_limit < nb \<Longrightarrow> sat_add64 (sat_add64 bytes (if 0 < cnt then 1 else 0)) s = nb"
    using assms by (auto simp: nb_def sat_add64_def min_def)
  show ?case
  proof (cases "byte_limit < nb")
    case True
    then show ?thesis
      using sat(1) by (intro exI [of _ 0]) (cases cnt; simp add: nb_def)
  next
    case False
    obtain k where k: "k \<le> length sizes"
      "retain_sizes byte_limit sizes (Suc cnt, nb) =
        (Suc cnt + k, nb + sum_list (take k sizes) + (Suc cnt + k - 1 - (Suc cnt - 1)))"
      "0 < k \<longrightarrow> nb + sum_list (take k sizes) + (Suc cnt + k - 1 - (Suc cnt - 1)) \<le> byte_limit"
      "k < length sizes \<longrightarrow>
        byte_limit < nb + sum_list (take (Suc k) sizes) + (Suc cnt + Suc k - 1 - (Suc cnt - 1))"
      using Cons.IH [of "Suc cnt" nb] by auto
    have step: "retain_sizes byte_limit (s # sizes) (cnt, bytes) = retain_sizes byte_limit sizes (Suc cnt, nb)"
      using False sat by (simp add: Let_def)
    show ?thesis
      unfolding step k(2)
      using False k(1,3,4) by (intro exI [of _ "Suc k"]) (cases cnt; cases k; auto simp: nb_def)
  qed
qed

lemma finish_section_spec:
  assumes "byte_limit < u64_max" "sizes = map (item_bytes encode) (take (length sizes) items)"
    "length sizes \<le> min (length items) item_limit" "finish_section items item_limit byte_limit s wall sizes = r"
  shows "\<exists>k \<le> length sizes. bs_items r = take k items \<and>
      bs_retained_bytes r = array_bytes encode (take k items) \<and>
      (0 < k \<longrightarrow> bs_retained_bytes r \<le> byte_limit) \<and>
      (k < length sizes \<longrightarrow> byte_limit < array_bytes encode (take (Suc k) items)) \<and>
      (bs_truncation r = [] \<longleftrightarrow> k = length items)"
proof -
  obtain k where k: "k \<le> length sizes"
    "retain_sizes byte_limit sizes (0, 2) = (k, 2 + sum_list (take k sizes) + (k - 1))"
    "0 < k \<longrightarrow> 2 + sum_list (take k sizes) + (k - 1) \<le> byte_limit"
    "k < length sizes \<longrightarrow> byte_limit < 2 + sum_list (take (Suc k) sizes) + (Suc k - 1)"
    using retain_sizes_spec [OF assms(1), of sizes 0 2] by auto
  have pre: "array_bytes encode (take j items) = 2 + sum_list (take j sizes) + (j - 1)"
    if "j \<le> length sizes" for j
  proof -
    have "take j sizes = map (item_bytes encode) (take j items)"
      using that by (subst assms(2)) (simp add: take_map min_def)
    moreover have "length (take j items) = j" using that assms(3) by simp
    ultimately show ?thesis by (simp add: array_bytes_def)
  qed
  have "bs_truncation r = [] \<longleftrightarrow> k = length items"
    using k(1) assms(3) by (auto simp: assms(4) [symmetric] finish_section_def k(2) Let_def)
  with k(1,3,4) pre [of k] pre [of "Suc k"] show ?thesis
    by (intro exI [of _ k]) (auto simp: assms(4) [symmetric] finish_section_def k(2) Let_def)
qed

lemma finish_section_wall:
  assumes "length sizes < min (length items) item_limit"
  shows "WallTimeLimit \<in> td_cause ` set (bs_truncation (finish_section items item_limit byte_limit s wall sizes))"
proof -
  obtain k b where "retain_sizes byte_limit sizes (0, 2) = (k, b)" by (cases "retain_sizes byte_limit sizes (0, 2)")
  with assms show ?thesis
    by (simp add: finish_section_def Let_def image_Un) (simp add: truncation_detail_new_def)
qed

text \<open>C38: A response section that is built keeps a prefix of its items, at most the item limit,
  whose encoding as a JSON array has exactly the reported number of bytes and stays within the
  byte limit; it stops short of the item limit only where the next item would break the byte
  limit or where the time for measuring ran out; and it reports a truncation exactly if an item
  is missing.\<close>

theorem bounded_section_exact:
  assumes "byte_limit < u64_max"
    and "bounded_section_with_wall_time worlds encode items item_limit byte_limit s wall n = (Inr r, m)"
  shows "\<exists>k. bs_items r = take k items \<and> k \<le> item_limit \<and> k \<le> length items \<and>
    bs_retained_bytes r = array_bytes encode (bs_items r) \<and>
    bs_retained_bytes r \<le> max 2 byte_limit \<and>
    (k = min (length items) item_limit \<or>
     byte_limit < array_bytes encode (take (Suc k) items) \<or>
     WallTimeLimit \<in> td_cause ` set (bs_truncation r)) \<and>
    (bs_truncation r = [] \<longleftrightarrow> bs_items r = items)"
proof -
  let ?desired = "min (length items) item_limit"
  define fin where "fin sizes \<longleftrightarrow> length sizes \<le> ?desired \<and>
    sizes = map (item_bytes encode) (take (length sizes) items)" for sizes
  have "yields (bounded_section_with_wall_time worlds encode items item_limit byte_limit s wall)
      (\<lambda>r. \<exists>sizes. fin sizes \<and> r = finish_section items item_limit byte_limit s wall sizes)"
    unfolding bounded_section_with_wall_time_def
    by (intro yields_then yields_bind [OF measure_items_yields] yields_returns)
      (auto simp: fin_def take_take min_def)
  then obtain sizes where sizes: "fin sizes" "finish_section items item_limit byte_limit s wall sizes = r"
    using assms(2) by (blast dest: yieldsD)
  have fit: "length sizes \<le> ?desired" and eq: "sizes = map (item_bytes encode) (take (length sizes) items)"
    using sizes(1) unfolding fin_def by blast+
  obtain k where k: "k \<le> length sizes" "bs_items r = take k items"
      "bs_retained_bytes r = array_bytes encode (take k items)"
      "0 < k \<longrightarrow> bs_retained_bytes r \<le> byte_limit"
      "k < length sizes \<longrightarrow> byte_limit < array_bytes encode (take (Suc k) items)"
      "bs_truncation r = [] \<longleftrightarrow> k = length items"
    using finish_section_spec [OF assms(1) eq fit sizes(2)] by blast
  have "WallTimeLimit \<in> td_cause ` set (bs_truncation r)" if "length sizes < ?desired"
    using finish_section_wall [OF that, of byte_limit s wall] unfolding sizes(2) .
  moreover have "k = 0 \<longrightarrow> bs_retained_bytes r = 2" using k(3) by (simp add: array_bytes_def)
  moreover have "take k items = items \<longleftrightarrow> k = length items"
    using k(1) fit by auto
  moreover have "k \<le> item_limit \<and> k \<le> length items" using k(1) fit by simp
  moreover have "k = ?desired \<or> byte_limit < array_bytes encode (take (Suc k) items) \<or>
      length sizes < ?desired"
    using k(1,5) fit by (cases "k = length sizes") auto
  moreover have "bs_retained_bytes r \<le> max 2 byte_limit"
    using k(4) calculation by (cases "k = 0") auto
  ultimately show ?thesis
    using k(2,3,6) by (intro exI [of _ k]) auto
qed

text \<open>Witness: three items of one byte under a limit of two items.\<close>

definition still_world :: "nat \<Rightarrow> op_world" where
  "still_world n = \<lparr>world_cancelled = \<lambda>_. False, world_now = 0\<rparr>"

theorem bounded_section_exact_witness:
  "\<exists>r m. bounded_section_with_wall_time still_world (\<lambda>x. Inr [x]) [''1'', ''2'', ''3''] 2 9 SearchMatches 5 0
      = (Inr r, m) \<and> bs_items r = [''1'', ''2''] \<and>
    (\<exists>k. bs_items r = take k [''1'', ''2'', ''3''] \<and> bs_retained_bytes r \<le> max 2 9)"
proof -
  have run: "bounded_section_with_wall_time still_world (\<lambda>x. Inr [x]) [''1'', ''2'', ''3''] 2 9 SearchMatches 5 0
    = (Inr \<lparr>bs_items = [''1'', ''2''],
          bs_truncation = [truncation_detail_new SearchMatches ItemLimit 2 (Some 1)], bs_retained_bytes = 5\<rparr>, 3)"
    by (simp add: bounded_section_with_wall_time_def op_bind_def instant_now_def still_world_def
        of_result_def serialized_len_def count_write_def returns_def finish_section_def sat_add64_def
        u64_max_def Let_def)
  obtain k where k: "[''1'', ''2''] = take k [''1'', ''2'', ''3'']"
    using bounded_section_exact [OF _ run] by (auto simp: u64_max_def)
  have "\<exists>k. [''1'', ''2''] = take k [''1'', ''2'', ''3'']" by (rule exI) (rule k)
  then show ?thesis unfolding run by simp
qed

subsection \<open>References\<close>

text \<open>A reference that resolves gives a symbol of the graph it is resolved in: an id only in
  the revision it was taken from and only its own symbol, a name only if exactly one symbol
  carries it. A stale id, an unknown id or name, an ambiguous name and an abort are each
  refused with their own error.\<close>

theorem resolve_exact:
  "(case reference of
      ById i r \<Rightarrow>
        fst (resolve show_id worlds c graph reference current n) =
          (if r \<noteq> current then Inl (StaleSymbolRef r current)
           else (case ws_symbol graph i of
                   None \<Rightarrow> Inl (SymbolNotFound (show_id i)) | Some s \<Rightarrow> Inr s))
    | ByName name \<Rightarrow>
        fst (resolve show_id worlds c graph reference current n) \<in>
          {Inl QueryCancelled, Inl ExecutionDeadlineExceeded,
           (case ws_exact_name_candidates graph name of
              [] \<Rightarrow> Inl (SymbolNotFound name)
            | [i] \<Rightarrow> (case ws_symbol graph i of None \<Rightarrow> Inl (SymbolNotFound name) | Some s \<Rightarrow> Inr s)
            | found \<Rightarrow> Inl (AmbiguousSymbol name (length found)))})"
proof (cases reference)
  case (ById i r)
  then show ?thesis
    by (auto simp: resolve_def fails_def returns_def split: option.split)
next
  case (ByName name)
  have cases_op: "(case sort found of [] \<Rightarrow> P | [i] \<Rightarrow> Q i | a # b # rest' \<Rightarrow> R) =
      (case found of [] \<Rightarrow> P | [i] \<Rightarrow> Q i | a # b # rest' \<Rightarrow> R)"
    for P R :: "symbol query_op" and Q and found :: "entity_id list"
  proof (cases "length found \<le> 1")
    case True
    then show ?thesis by (cases found) auto
  next
    case False
    have len: "length (sort found) = length found" by simp
    from False obtain i j rest where "found = i # j # rest" by (cases found; cases "tl found") auto
    moreover obtain a b rest' where "sort found = a # b # rest'"
      using False len by (cases "sort found"; cases "tl (sort found)") auto
    ultimately show ?thesis by simp
  qed
  have abort: "(query_error_of_abort a = QueryCancelled \<or>
      query_error_of_abort a = ExecutionDeadlineExceeded \<or> P) = True" for a P by (cases a) simp_all
  show ?thesis
    unfolding ByName
    by (cases "context_check c (worlds n)"; cases "context_check c (worlds (Suc n))")
      (simp_all add: abort resolve_def op_bind_def from_abort_def resolve_name_with_context_def
        poll_def ws_resolve_name_def Let_def cases_op fails_def returns_def split: list.split option.split)
qed

end
