(* ===== verification/Ranking_Properties.thy ===== *)
theory Ranking_Properties
  imports Query_Ranking Budget_Properties
begin

section \<open>The search finds the best matches\<close>

text \<open>
  As long as its work budget lasts, the bounded search gives what sorting all matches and
  keeping the first ones would give, although it never holds more than the limit and skips the
  broad scan where exact matches alone fill the response.
\<close>

subsection \<open>Keeping the least\<close>

lemma take_insort_key:
  assumes "sorted (map f xs)" "f x \<notin> f ` set xs"
  shows "take k (insort_key f x xs) =
    (if length xs < k then insort_key f x xs
     else if 0 < k \<and> f x < f (last (take k xs)) then insort_key f x (butlast (take k xs))
     else take k xs)"
  using assms
proof (induction xs arbitrary: k)
  case Nil
  then show ?case by (cases k) auto
next
  case (Cons y ys)
  show ?case
  proof (cases k)
    case 0
    then show ?thesis by simp
  next
    case (Suc j)
    have ys: "sorted (map f ys)" "f x \<notin> f ` set ys" "\<forall>z\<in>set ys. f y \<le> f z" "f x \<noteq> f y"
      using Cons.prems by auto
    show ?thesis
    proof (cases "f x \<le> f y")
      case True
      have least: "insort_key f x zs = x # zs" if "set zs \<subseteq> set (y # ys)" for zs
        using that True ys(3) by (cases zs) force+
      have "f x < f (last (take k (y # ys)))"
      proof -
        have "last (take k (y # ys)) \<in> set (take k (y # ys))" using Suc by (intro last_in_set) simp
        then have "last (take k (y # ys)) \<in> set (y # ys)" by (rule in_set_takeD)
        with True ys show ?thesis by force
      qed
      moreover have "insort_key f x (butlast (take k (y # ys))) = x # butlast (take k (y # ys))"
        by (rule least) (meson in_set_butlastD in_set_takeD subsetI)
      moreover have "take j (y # ys) = butlast (take k (y # ys))" if "k \<le> length (y # ys)"
        using butlast_take [OF that] by (simp only: Suc diff_Suc_1)
      ultimately show ?thesis
        using Suc True by (auto simp: not_less)
    next
      case False
      note IH = Cons.IH [OF ys(1,2), of j]
      show ?thesis
      proof (cases "length ys < j")
        case True
        with IH False Suc show ?thesis by simp
      next
        case long: False
        show ?thesis
        proof (cases j)
          case 0
          with False Suc show ?thesis by auto
        next
          case (Suc i)
          then have "ys \<noteq> []" "take j ys \<noteq> []" using long by auto
          with IH False \<open>k = Suc j\<close> long Suc show ?thesis by (auto simp: not_less)
        qed
      qed
    qed
  qed
qed

subsection \<open>One pass\<close>

text \<open>What a symbol contributes to a search.\<close>

definition candidate_of ::
    "workspace_graph \<Rightarrow> project_model \<Rightarrow> unit_id list option \<Rightarrow> prepared_symbol_filter \<Rightarrow>
     symbol \<times> nat option \<Rightarrow> ranked_symbol list" where
  "candidate_of graph model selected f = (\<lambda>(s, mrank).
     case (ws_file_metadata graph (key_path (sym_key s)), mrank) of
       (Some md, Some r) \<Rightarrow>
         if symbol_filter_matches f model selected s md
         then [\<lparr>rks_match_rank = r, rks_kind_rank = kind_rank (key_kind (sym_key s)),
                rks_source_rank = source_rank (meta_role md), rks_symbol = s\<rparr>]
         else []
     | _ \<Rightarrow> [])"

definition holds_best :: "nat \<Rightarrow> ranked_symbol list \<Rightarrow> search_state \<Rightarrow> bool" where
  "holds_best limit seen st \<longleftrightarrow>
     ss_best st = take limit (sort_key rank_key seen) \<and> ss_truncated st = (limit < length seen)"

definition rank_ids :: "ranked_symbol list \<Rightarrow> entity_id list" where
  "rank_ids rs = map (\<lambda>r. sym_id (rks_symbol r)) rs"

lemma rank_key_id: "rank_key a = rank_key b \<Longrightarrow> sym_id (rks_symbol a) = sym_id (rks_symbol b)"
  by (simp add: rank_key_def Let_def)

lemma holds_best_more:
  assumes "holds_best limit seen st" "sym_id (rks_symbol x) \<notin> set (rank_ids seen)"
  shows "length (ss_best st) < limit \<Longrightarrow> holds_best limit (x # seen) (st\<lparr>ss_best := heap_push x (ss_best st)\<rparr>)"
    and "\<not> length (ss_best st) < limit \<Longrightarrow>
      holds_best limit (x # seen) (st\<lparr>ss_truncated := True,
        ss_best := (if ss_best st \<noteq> [] \<and> rank_key x < rank_key (last (ss_best st))
          then heap_push x (butlast (ss_best st)) else ss_best st)\<rparr>)"
proof -
  define l where "l = sort_key rank_key seen"
  have "rank_key x \<notin> rank_key ` set l"
  proof
    assume "rank_key x \<in> rank_key ` set l"
    then obtain y where "rank_key x = rank_key y" "y \<in> set seen" by (auto simp: l_def)
    then have "sym_id (rks_symbol x) \<in> set (rank_ids seen)"
      using rank_key_id [of x y] by (simp add: rank_ids_def)
    with assms(2) show False by blast
  qed
  moreover have "sorted (map rank_key l)" by (simp add: l_def)
  ultimately have t: "take limit (sort_key rank_key (x # seen)) =
      (if length l < limit then insort_key rank_key x l
       else if 0 < limit \<and> rank_key x < rank_key (last (take limit l))
       then insort_key rank_key x (butlast (take limit l)) else take limit l)"
    using take_insort_key [of rank_key l x limit] by (simp add: l_def)
  have st: "ss_best st = take limit l" "ss_truncated st = (limit < length l)" "length l = length seen"
    using assms(1) by (simp_all add: holds_best_def l_def)
  have size: "length (ss_best st) < limit \<longleftrightarrow> length l < limit"
    by (auto simp: st min_def)
  show "holds_best limit (x # seen) (st\<lparr>ss_best := heap_push x (ss_best st)\<rparr>)"
    if "length (ss_best st) < limit"
    using that unfolding size by (simp add: holds_best_def heap_push_def t st del: sort_key_simps)
  show "holds_best limit (x # seen) (st\<lparr>ss_truncated := True,
        ss_best := (if ss_best st \<noteq> [] \<and> rank_key x < rank_key (last (ss_best st))
          then heap_push x (butlast (ss_best st)) else ss_best st)\<rparr>)"
    if "\<not> length (ss_best st) < limit"
  proof -
    have "ss_best st \<noteq> [] \<longleftrightarrow> 0 < limit" using that st(3) unfolding size by (auto simp: st(1))
    with that show ?thesis unfolding size by (simp add: holds_best_def heap_push_def t st del: sort_key_simps)
  qed
qed

lemma record_examined_refused:
  "record_examined kind now b = (False, b') \<Longrightarrow> sb_stopped b' \<noteq> None"
  by (cases rule: check_wall_time_cases [of now b]) (auto simp: record_examined_def split: if_splits)

lemma retain_refused: "retain_intermediate now b = (False, b') \<Longrightarrow> sb_stopped b' \<noteq> None"
  by (cases rule: check_wall_time_cases [of now b]) (auto simp: retain_intermediate_def split: if_splits)

lemma timed_yields:
  assumes "\<And>now. P (f now b)"
  shows "yields (timed worlds f b) P"
  unfolding timed_def by (intro yields_then yields_returns) (rule assms)

definition step_ok :: "nat \<Rightarrow> ranked_symbol list \<Rightarrow> bool \<times> search_state \<Rightarrow> bool" where
  "step_ok limit seen r \<longleftrightarrow>
     (if fst r then holds_best limit seen (snd r) else sb_stopped (ss_work (snd r)) \<noteq> None)"

lemma step_ok_simps [simp]:
  "step_ok limit seen (True, st) = holds_best limit seen st"
  "step_ok limit seen (False, st) = (sb_stopped (ss_work st) \<noteq> None)"
  by (simp_all add: step_ok_def)

lemma retain_candidate_yields:
  assumes "holds_best limit seen st" "sym_id (rks_symbol x) \<notin> set (rank_ids seen)"
  shows "yields (retain_candidate worlds limit x st) (step_ok limit (x # seen))"
proof (cases "length (ss_best st) < limit")
  case True
  have "yields (timed worlds retain_intermediate (ss_work st)) (\<lambda>(ok, w). \<not> ok \<longrightarrow> sb_stopped w \<noteq> None)"
    by (rule timed_yields) (auto dest: retain_refused)
  moreover have "holds_best limit (x # seen) (st\<lparr>ss_work := w, ss_best := heap_push x (ss_best st)\<rparr>)" for w
    using holds_best_more(1) [OF assms True] by (simp add: holds_best_def)
  ultimately show ?thesis
    unfolding retain_candidate_def using True
    by (auto intro!: yields_bind yields_returns)
next
  case False
  show ?thesis
    unfolding retain_candidate_def if_not_P [OF False]
    by (rule yields_returns) (simp only: step_ok_simps holds_best_more(2) [OF assms False])
qed

lemma consider_yields:
  assumes "holds_best limit seen st" "sym_id s \<notin> set (rank_ids seen)"
  shows "yields (consider_ranked_symbol worlds c graph model selected f limit s mrank st)
    (step_ok limit (candidate_of graph model selected f (s, mrank) @ seen))"
    (is "yields _ ?P")
  unfolding consider_ranked_symbol_def
proof (rule yields_then, rule yields_bind)
  fix p
  show "yields (timed worlds (record_examined ExaminedSymbol) (ss_work st)) (\<lambda>(ok, w). \<not> ok \<longrightarrow> sb_stopped w \<noteq> None)"
    by (rule timed_yields) (auto dest: record_examined_refused)
next
  fix p and r :: "bool \<times> section_budget"
  assume r: "case r of (ok, w) \<Rightarrow> \<not> ok \<longrightarrow> sb_stopped w \<noteq> None"
  obtain ok w where rw: "r = (ok, w)" by (cases r)
  let ?st = "st\<lparr>ss_poll := p, ss_work := w\<rparr>"
  have held: "holds_best limit seen ?st" using assms(1) by (simp add: holds_best_def)
  show "yields (case r of (ok, work) \<Rightarrow>
       let st = st\<lparr>ss_poll := p, ss_work := work\<rparr>
       in if \<not> ok then returns (False, st)
          else (case ws_file_metadata graph (key_path (sym_key s)) of
                  None \<Rightarrow> returns (True, st)
                | Some md \<Rightarrow>
                    if \<not> symbol_filter_matches f model selected s md then returns (True, st)
                    else (case mrank of
                            None \<Rightarrow> returns (True, st)
                          | Some r \<Rightarrow>
                              retain_candidate worlds limit
                                \<lparr>rks_match_rank = r, rks_kind_rank = kind_rank (key_kind (sym_key s)),
                                 rks_source_rank = source_rank (meta_role md), rks_symbol = s\<rparr> st))) ?P"
    using r held retain_candidate_yields [OF held, where worlds = worlds] assms(2)
    by (auto simp: rw Let_def candidate_of_def intro!: yields_returns split: option.split)
qed

text \<open>The candidates of a list of symbols.\<close>

definition candidates_of ::
    "workspace_graph \<Rightarrow> project_model \<Rightarrow> unit_id list option \<Rightarrow> prepared_symbol_filter \<Rightarrow>
     (symbol \<times> nat option) list \<Rightarrow> ranked_symbol list" where
  "candidates_of graph model selected f ss = concat (map (candidate_of graph model selected f) ss)"

lemma candidate_ids: "set (rank_ids (candidate_of graph model selected f sm)) \<subseteq> {sym_id (fst sm)}"
  by (auto simp: candidate_of_def rank_ids_def split: prod.splits option.splits if_splits)

lemma rank_ids_append [simp]: "rank_ids (xs @ ys) = rank_ids xs @ rank_ids ys"
  by (simp add: rank_ids_def)

lemma sort_key_ids:
  assumes "mset xs = mset ys" "distinct (rank_ids xs)"
  shows "sort_key rank_key xs = sort_key rank_key ys"
proof (rule sort_key_inj_key_eq)
  have "inj_on (\<lambda>r. sym_id (rks_symbol r)) (set xs)"
    using assms(2) by (simp add: rank_ids_def distinct_map)
  then show "inj_on rank_key (set xs)"
    using rank_key_id by (meson inj_on_def)
qed (use assms(1) in simp_all)

lemma holds_best_mset:
  assumes "holds_best limit xs st" "mset xs = mset ys" "distinct (rank_ids xs)"
  shows "holds_best limit ys st"
  using assms(1) sort_key_ids [OF assms(2,3)] mset_eq_length [OF assms(2)] by (simp add: holds_best_def)

lemma disjoint_sub: "A \<inter> C = {} \<Longrightarrow> B \<subseteq> C \<Longrightarrow> A \<inter> B = {}"
  by blast

lemma disjoint_step: "A \<subseteq> {i} \<Longrightarrow> i \<notin> I \<Longrightarrow> B \<inter> I = {} \<Longrightarrow> (A \<union> B) \<inter> I = {}"
  by blast

definition loop_ok :: "nat \<Rightarrow> ranked_symbol list \<Rightarrow> bool \<times> search_state \<Rightarrow> bool" where
  "loop_ok limit seen r \<longleftrightarrow>
     (if fst r then sb_stopped (ss_work (snd r)) \<noteq> None
      else holds_best limit seen (snd r) \<and> distinct (rank_ids seen))"

lemma loop_ok_simps [simp]:
  "loop_ok limit seen (True, st) = (sb_stopped (ss_work st) \<noteq> None)"
  "loop_ok limit seen (False, st) = (holds_best limit seen st \<and> distinct (rank_ids seen))"
  by (simp_all add: loop_ok_def)

lemma loop_ok_mset:
  assumes "loop_ok limit xs r" "mset xs = mset ys"
  shows "loop_ok limit ys r"
proof -
  have "mset (rank_ids xs) = mset (rank_ids ys)"
    unfolding rank_ids_def mset_map using assms(2) by (rule arg_cong)
  then have "distinct (rank_ids xs) = distinct (rank_ids ys)" by (rule mset_eq_imp_distinct_iff)
  with assms holds_best_mset [of limit xs "snd r" ys] show ?thesis by (auto simp: loop_ok_def)
qed

lemma rank_loop_yields:
  assumes "holds_best limit seen st" "distinct (map (\<lambda>sm. sym_id (fst sm)) ss)"
    "distinct (rank_ids seen)" "set (rank_ids seen) \<inter> (\<lambda>sm. sym_id (fst sm)) ` set ss = {}"
  shows "yields (rank_loop worlds c graph model selected f limit ss st)
    (loop_ok limit (candidates_of graph model selected f ss @ seen))"
  using assms
proof (induction ss arbitrary: st seen)
  case Nil
  then show ?case by (auto simp: candidates_of_def intro!: yields_returns)
next
  case (Cons sm ss)
  obtain s mrank where sm: "sm = (s, mrank)" by (cases sm)
  let ?x = "candidate_of graph model selected f (s, mrank)"
  let ?all = "candidates_of graph model selected f (sm # ss) @ seen"
  have ids: "set (rank_ids ?x) \<subseteq> {sym_id s}" "distinct (rank_ids ?x)"
    using candidate_ids [of graph model selected f sm]
    by (auto simp: sm, auto simp: candidate_of_def rank_ids_def split: option.split)
  have new: "sym_id s \<notin> set (rank_ids seen)" using Cons.prems(4) by (auto simp: sm)
  have dis: "distinct (rank_ids (?x @ seen))"
    using ids new Cons.prems(3) by auto
  have rest: "distinct (map (\<lambda>sm. sym_id (fst sm)) ss)" using Cons.prems(2) by simp
  have sep: "set (rank_ids (?x @ seen)) \<inter> (\<lambda>sm. sym_id (fst sm)) ` set ss = {}"
  proof -
    have "sym_id s \<notin> (\<lambda>sm. sym_id (fst sm)) ` set ss"
      using Cons.prems(2) unfolding sm list.map distinct.simps set_map by simp
    moreover have "set (rank_ids seen) \<inter> (\<lambda>sm. sym_id (fst sm)) ` set ss = {}"
      by (rule disjoint_sub [OF Cons.prems(4)]) auto
    ultimately show ?thesis unfolding rank_ids_append set_append by (rule disjoint_step [OF ids(1)])
  qed
  have next_loop: "yields (rank_loop worlds c graph model selected f limit ss st') (loop_ok limit ?all)"
    if held: "holds_best limit (?x @ seen) st'" for st'
    by (rule yields_mono [OF Cons.IH [OF held rest dis sep]], erule loop_ok_mset)
      (simp add: candidates_of_def sm)
  show ?case
    unfolding sm rank_loop.simps
  proof (rule yields_bind [OF consider_yields [OF Cons.prems(1) new]])
    fix r
    assume "step_ok limit (?x @ seen) r"
    then show "yields (case r of (go, st') \<Rightarrow>
        if go then rank_loop worlds c graph model selected f limit ss st' else returns (True, st'))
      (loop_ok limit (candidates_of graph model selected f ((s, mrank) # ss) @ seen))"
      using next_loop by (cases r) (auto simp: step_ok_def sm intro: yields_returns)
  qed
qed

subsection \<open>The whole search\<close>

text \<open>The specification: all matches, best first.\<close>

definition all_symbols ::
    "(string \<Rightarrow> string) \<Rightarrow> workspace_graph \<Rightarrow> string \<Rightarrow> (symbol \<times> nat option) list" where
  "all_symbols lower graph q = map (\<lambda>s. (s, match_rank lower s q)) (ws_symbols graph)"

definition all_matches ::
    "(string \<Rightarrow> string) \<Rightarrow> workspace_graph \<Rightarrow> project_model \<Rightarrow> unit_id list option \<Rightarrow>
     prepared_symbol_filter \<Rightarrow> string \<Rightarrow> bool \<Rightarrow> ranked_symbol list" where
  "all_matches lower graph model selected f q exact_only =
     sort_key rank_key (candidates_of graph model selected f
       (filter (\<lambda>(s, mrank). exact_only \<longrightarrow> mrank = Some 0) (all_symbols lower graph q)))"

text \<open>
  Case folding treats a qualified name segment by segment. Unicode lower-casing does, but for
  a capital sigma at the end of a segment.
\<close>

definition folds_segments :: "(string \<Rightarrow> string) \<Rightarrow> workspace_graph \<Rightarrow> bool" where
  "folds_segments lower graph \<longleftrightarrow>
     (\<forall>s\<in>set (ws_symbols graph). last_segment (lower (qualified_name (sym_key s))) = lower (symbol_name s))"

lemma ws_folded_leaves:
  "ws_folded_name_candidates w name = concat (map (\<lambda>g. folded_name_candidates g name) (leaves w))"
proof (induction w)
  case (Composite ls ps)
  then have IH: "map (\<lambda>p. ws_folded_name_candidates p name) ps =
      map (\<lambda>p. concat (map (\<lambda>g. folded_name_candidates g name) (leaves p))) ps" by simp
  have flat: "concat (map (\<lambda>p. concat (map f (leaves p))) ps) = concat (map f (concat (map leaves ps)))"
    for f :: "partition \<Rightarrow> entity_id list" and ps by (induction ps) simp_all
  show ?case by (simp only: ws_folded_name_candidates.simps leaves.simps IH flat)
qed simp

lemma folded_distinct:
  assumes "leaves_ok lower w" "ws_disjoint w"
  shows "distinct (ws_folded_name_candidates w name)"
  unfolding ws_folded_leaves
proof (rule distinct_concat_disjoint)
  have ok: "graph_ok lower g" if "g \<in> set (leaves w)" for g using assms(1) that by (simp add: leaves_ok_def)
  fix a assume "a < length (map (\<lambda>g. folded_name_candidates g name) (leaves w))"
  then have "graph_ok lower (leaves w ! a)" using ok by simp
  then have "index_covers (folded_names lower) (symbols (leaves w ! a)) (symbols_by_folded_name (leaves w ! a))"
    by (simp add: graph_ok_def arena_ok_def lookups_ok_def)
  then show "distinct (map (\<lambda>g. folded_name_candidates g name) (leaves w) ! a)"
    using \<open>a < _\<close> by (simp add: index_covers_def folded_name_candidates_def)
next
  have ok: "graph_ok lower g" if "g \<in> set (leaves w)" for g using assms(1) that by (simp add: leaves_ok_def)
  fix a b x
  assume ab: "a < length (map (\<lambda>g. folded_name_candidates g name) (leaves w))"
    "b < length (map (\<lambda>g. folded_name_candidates g name) (leaves w))"
    and x: "x \<in> set (map (\<lambda>g. folded_name_candidates g name) (leaves w) ! a)"
      "x \<in> set (map (\<lambda>g. folded_name_candidates g name) (leaves w) ! b)"
  then obtain s t where "omap_get (symbols (leaves w ! a)) x = Some s" "omap_get (symbols (leaves w ! b)) x = Some t"
    using folded_lookup [OF ok] by fastforce
  with leaf_unique [OF assms] ab show "a = b" by (simp only: length_map)
qed

lemma folded_set:
  assumes "leaves_ok lower w" "ws_disjoint w"
  shows "i \<in> set (ws_folded_name_candidates w name) \<longleftrightarrow> (\<exists>s. ws_symbol w i = Some s \<and>
    (lower (symbol_name s) = name \<or> lower (qualified_name (sym_key s)) = name))"
proof -
  have ok: "graph_ok lower g" if "g \<in> set (leaves w)" for g using assms(1) that by (simp add: leaves_ok_def)
  show ?thesis
    unfolding ws_folded_leaves ws_symbol_iff [OF assms] using folded_lookup [OF ok] by auto
qed

lemma ws_symbol_id:
  assumes "leaves_ok lower w" "ws_disjoint w" "ws_symbol w i = Some s"
  shows "sym_id s = i"
proof -
  from assms obtain g where "g \<in> set (leaves w)" "omap_get (symbols g) i = Some s"
    using ws_symbol_iff [OF assms(1,2)] by blast
  moreover from this assms(1) have "symbols_ok g"
    by (simp add: leaves_ok_def graph_ok_def arena_ok_def ids_ok_def lookups_ok_def)
  ultimately show ?thesis by (simp add: symbols_ok_def)
qed

text \<open>The index finds exactly the symbols of match rank zero.\<close>

lemma exact_symbols_mset:
  assumes "leaves_ok lower w" "ws_disjoint w" "folds_segments lower w"
  shows "mset (exact_symbols lower w q) = mset (filter (\<lambda>(s, mrank). mrank = Some 0) (all_symbols lower w q))"
proof -
  let ?is = "ws_folded_name_candidates w q"
  let ?ss = "List.map_filter (ws_symbol w) ?is"
  have ids: "map sym_id ?ss = ?is"
  proof -
    have "map sym_id (List.map_filter (ws_symbol w) is) = is"
      if "\<forall>i\<in>set is. \<exists>s. ws_symbol w i = Some s" for "is"
      using that by (induction "is") (auto simp: List.map_filter_simps ws_symbol_id [OF assms(1,2)])
    then show ?thesis using folded_set [OF assms(1,2)] by blast
  qed
  have zero: "match_rank lower s q = Some 0 \<longleftrightarrow>
      lower (symbol_name s) = q \<or> lower (qualified_name (sym_key s)) = q" if "s \<in> set (ws_symbols w)" for s
    using assms(3) that by (auto simp: match_rank_def folds_segments_def Let_def)
  have "distinct ?ss" using folded_distinct [OF assms(1,2), of q] distinct_map [of sym_id ?ss] ids by simp
  moreover have "distinct (filter (\<lambda>s. match_rank lower s q = Some 0) (ws_symbols w))"
    using ws_symbols_exact(1) [OF assms(1,2)] by (simp add: distinct_map)
  moreover have "set ?ss = set (filter (\<lambda>s. match_rank lower s q = Some 0) (ws_symbols w))"
  proof -
    have "s \<in> set ?ss \<longleftrightarrow> (\<exists>i\<in>set ?is. ws_symbol w i = Some s)" for s
      unfolding List.map_filter_def set_map set_filter by force
    moreover have "(\<exists>i\<in>set ?is. ws_symbol w i = Some s) \<longleftrightarrow>
        s \<in> set (ws_symbols w) \<and> match_rank lower s q = Some 0" for s
    proof
      assume "\<exists>i\<in>set ?is. ws_symbol w i = Some s"
      then obtain i where i: "i \<in> set ?is" "ws_symbol w i = Some s" by blast
      then have "s \<in> set (ws_symbols w)"
        using ws_symbols_exact(2) [OF assms(1,2)] ws_symbol_id [OF assms(1,2) i(2)] by simp
      moreover have "lower (symbol_name s) = q \<or> lower (qualified_name (sym_key s)) = q"
        using i folded_set [OF assms(1,2), of i q] by simp
      ultimately show "s \<in> set (ws_symbols w) \<and> match_rank lower s q = Some 0" using zero by blast
    next
      assume s: "s \<in> set (ws_symbols w) \<and> match_rank lower s q = Some 0"
      then have "ws_symbol w (sym_id s) = Some s" using ws_symbols_exact(2) [OF assms(1,2)] by simp
      moreover from this s have "sym_id s \<in> set ?is"
        using folded_set [OF assms(1,2), of "sym_id s" q] zero [of s] by auto
      ultimately show "\<exists>i\<in>set ?is. ws_symbol w i = Some s" by blast
    qed
    ultimately show ?thesis by auto
  qed
  ultimately have "mset ?ss = mset (filter (\<lambda>s. match_rank lower s q = Some 0) (ws_symbols w))"
    using set_eq_iff_mset_eq_distinct by blast
  then have "mset (map (\<lambda>s. (s, match_rank lower s q)) ?ss) =
      mset (map (\<lambda>s. (s, match_rank lower s q)) (filter (\<lambda>s. match_rank lower s q = Some 0) (ws_symbols w)))"
    by simp
  then show ?thesis by (simp add: exact_symbols_def all_symbols_def filter_map comp_def)
qed

lemma match_rank_class:
  "a \<in> set (candidates_of graph model selected f ss) \<Longrightarrow> (rks_symbol a, Some (rks_match_rank a)) \<in> set ss"
  by (auto simp: candidates_of_def candidate_of_def split: option.splits if_splits)

lemma candidates_append [simp]:
  "candidates_of graph model selected f (xs @ ys) =
     candidates_of graph model selected f xs @ candidates_of graph model selected f ys"
  by (simp add: candidates_of_def)

lemma candidates_mset:
  assumes "mset xs = mset ys"
  shows "mset (candidates_of graph model selected f xs) = mset (candidates_of graph model selected f ys)"
proof -
  have "mset (concat (map g zs)) = (\<Sum>z\<in>#mset zs. mset (g z))" for g :: "symbol \<times> nat option \<Rightarrow> ranked_symbol list" and zs
    by (induction zs) simp_all
  with assms show ?thesis by (simp add: candidates_of_def)
qed

lemma take_sort_key_append:
  assumes "\<forall>a\<in>set xs. \<forall>b\<in>set ys. k a \<le> k b" "limit \<le> length xs"
  shows "take limit (sort_key k (xs @ ys)) = take limit (sort_key k xs)"
proof -
  have "sort_key k (xs @ ys) = sort_key k xs @ sort_key k ys"
    using assms(1)
  proof (induction xs)
    case (Cons x xs)
    have least: "\<forall>b\<in>set (sort_key k ys). k x \<le> k b" using Cons.prems by simp
    have "insort_key k x (as @ bs) = insort_key k x as @ bs" if "\<forall>b\<in>set bs. k x \<le> k b" for as bs
      using that by (induction as) (auto simp: insort_is_Cons)
    with Cons least show ?case by simp
  qed simp
  with assms(2) show ?thesis by simp
qed

lemma rank_key_less: "rks_match_rank a < rks_match_rank b \<Longrightarrow> rank_key a < rank_key b"
  by (simp add: rank_key_def Let_def less_prod_def)

lemma symbols_split:
  assumes "leaves_ok lower w" "ws_disjoint w" "folds_segments lower w"
  shows "mset (exact_symbols lower w q @ broad_symbols lower w q) = mset (all_symbols lower w q)"
proof -
  have "broad_symbols lower w q = filter (\<lambda>sm. \<not> (case sm of (s, mrank) \<Rightarrow> mrank = Some 0)) (all_symbols lower w q)"
    by (simp add: broad_symbols_def all_symbols_def case_prod_unfold)
  then show ?thesis
    unfolding mset_append exact_symbols_mset [OF assms] by (simp only: mset_filter multiset_partition [symmetric])
qed

lemma all_symbols_distinct:
  assumes "leaves_ok lower w" "ws_disjoint w"
  shows "distinct (map (\<lambda>sm. sym_id (fst sm)) (all_symbols lower w q))"
  using ws_symbols_exact(1) [OF assms] by (simp add: all_symbols_def comp_def)

lemma broad_below:
  assumes "leaves_ok lower w" "ws_disjoint w" "folds_segments lower w"
    and "a \<in> set (candidates_of w model selected f (exact_symbols lower w q))"
    and "b \<in> set (candidates_of w model selected f (broad_symbols lower w q))"
  shows "rank_key a \<le> rank_key b"
proof -
  have "(rks_symbol a, Some (rks_match_rank a)) \<in> set (exact_symbols lower w q)"
    using assms(4) by (rule match_rank_class)
  then have "rks_match_rank a = 0"
    using mset_eq_setD [OF exact_symbols_mset [OF assms(1-3), of q]] by auto
  moreover have "(rks_symbol b, Some (rks_match_rank b)) \<in> set (broad_symbols lower w q)"
    using assms(5) by (rule match_rank_class)
  then have "rks_match_rank b \<noteq> 0" by (auto simp: broad_symbols_def)
  ultimately show ?thesis by (intro less_imp_le rank_key_less) simp
qed

lemma holds_best_sorted:
  assumes "holds_best limit seen st" "mset seen = mset cands" "distinct (rank_ids seen)"
  shows "ss_best st = take limit (sort_key rank_key cands) \<and> ss_truncated st = (limit < length cands)"
  using holds_best_mset [OF assms] by (simp add: holds_best_def)

lemma candidates_ids:
  "set (rank_ids (candidates_of graph model selected f ss)) \<subseteq> (\<lambda>sm. sym_id (fst sm)) ` set ss"
  by (auto simp: rank_ids_def dest!: match_rank_class intro: rev_image_eqI)

lemma candidates_distinct:
  assumes "distinct (map (\<lambda>sm. sym_id (fst sm)) ss)"
  shows "distinct (rank_ids (candidates_of graph model selected f ss))"
  using assms
proof (induction ss)
  case (Cons sm ss)
  have "candidates_of graph model selected f (sm # ss) =
      candidate_of graph model selected f sm @ candidates_of graph model selected f ss"
    by (simp add: candidates_of_def)
  moreover have "distinct (rank_ids (candidate_of graph model selected f sm))"
    by (cases sm) (auto simp: candidate_of_def rank_ids_def split: option.split)
  moreover have "sym_id (fst sm) \<notin> set (rank_ids (candidates_of graph model selected f ss))"
    using Cons.prems candidates_ids by fastforce
  ultimately show ?case
    using Cons candidate_ids [of graph model selected f sm] by auto
qed (simp add: candidates_of_def rank_ids_def)

text \<open>What the search holds when it has seen all it needs to.\<close>

definition search_done :: "nat \<Rightarrow> ranked_symbol list \<Rightarrow> search_state \<Rightarrow> bool" where
  "search_done limit best st \<longleftrightarrow>
     (sb_stopped (ss_work st) = None \<longrightarrow>
        ss_best st = take limit best \<and> ss_truncated st = (limit < length best))"

lemma loop_done:
  assumes "loop_ok limit seen r" "mset seen = mset cands" "best = sort_key rank_key cands"
  shows "search_done limit best (snd r)"
  using loop_ok_mset [OF assms(1,2)] assms(3)
  by (auto simp: loop_ok_def search_done_def holds_best_def split: if_splits)

abbreviation exact_candidates where
  "exact_candidates lower w model selected f q \<equiv> candidates_of w model selected f (exact_symbols lower w q)"

abbreviation broad_candidates where
  "broad_candidates lower w model selected f q \<equiv> candidates_of w model selected f (broad_symbols lower w q)"

lemma candidates_split:
  assumes "leaves_ok lower w" "ws_disjoint w" "folds_segments lower w"
  shows "mset (broad_candidates lower w model selected f q @ exact_candidates lower w model selected f q) =
      mset (candidates_of w model selected f (all_symbols lower w q))"
    and "distinct (map (\<lambda>sm. sym_id (fst sm)) (exact_symbols lower w q @ broad_symbols lower w q))"
proof -
  show "mset (broad_candidates lower w model selected f q @ exact_candidates lower w model selected f q) =
      mset (candidates_of w model selected f (all_symbols lower w q))"
    using candidates_mset [OF symbols_split [OF assms, of q]] by (simp add: union_commute)
  show "distinct (map (\<lambda>sm. sym_id (fst sm)) (exact_symbols lower w q @ broad_symbols lower w q))"
    using all_symbols_distinct [OF assms(1,2), of q]
      mset_eq_imp_distinct_iff [of "map (\<lambda>sm. sym_id (fst sm)) (exact_symbols lower w q @ broad_symbols lower w q)"
        "map (\<lambda>sm. sym_id (fst sm)) (all_symbols lower w q)"] symbols_split [OF assms, of q]
    by (simp only: mset_map)
qed

text \<open>After the exact phase alone, in exact mode or because exact matches fill the response.\<close>

lemma exact_phase_done:
  assumes w: "leaves_ok lower w" "ws_disjoint w" "folds_segments lower w"
    and loop: "loop_ok limit (exact_candidates lower w model selected f q) r"
    and enough: "exact_only \<or> ss_truncated (snd r)"
  shows "search_done limit (all_matches lower w model selected f q exact_only) (snd r)"
proof (cases exact_only)
  case True
  show ?thesis
    by (rule loop_done [OF loop candidates_mset [OF exact_symbols_mset [OF w]]])
      (simp add: all_matches_def True)
next
  case False
  let ?E = "exact_candidates lower w model selected f q"
  let ?B = "broad_candidates lower w model selected f q"
  let ?M = "all_matches lower w model selected f q exact_only"
  have M: "?M = sort_key rank_key (candidates_of w model selected f (all_symbols lower w q))"
    using False by (simp add: all_matches_def)
  have "sort_key rank_key (?E @ ?B) = ?M"
    unfolding M using candidates_distinct [OF candidates_split(2) [OF w], of w model selected f]
      candidates_split(1) [OF w, of model selected f q]
    by (intro sort_key_ids) (simp_all add: union_commute)
  moreover have "take limit (sort_key rank_key (?E @ ?B)) = take limit (sort_key rank_key ?E)"
    if "limit < length ?E"
    by (rule take_sort_key_append) (use that broad_below [OF w] in auto)
  moreover have "length ?M = length ?E + length ?B"
    unfolding M using mset_eq_length [OF candidates_split(1) [OF w, of model selected f q]] by simp
  ultimately show ?thesis
    using loop enough False by (auto simp: loop_ok_def search_done_def holds_best_def split: if_splits)
qed

lemma exact_phase_yields:
  assumes w: "leaves_ok lower w" "ws_disjoint w" "folds_segments lower w"
  shows "yields (rank_loop worlds c w model selected f limit (exact_symbols lower w q)
      \<lparr>ss_work = work, ss_poll = cancellation_poll_new, ss_best = [], ss_truncated = False\<rparr>)
    (loop_ok limit (exact_candidates lower w model selected f q))"
proof -
  have "yields (rank_loop worlds c w model selected f limit (exact_symbols lower w q)
      \<lparr>ss_work = work, ss_poll = cancellation_poll_new, ss_best = [], ss_truncated = False\<rparr>)
    (loop_ok limit (exact_candidates lower w model selected f q @ []))"
    by (rule rank_loop_yields)
      (use candidates_split(2) [OF w] in \<open>auto simp: holds_best_def rank_ids_def\<close>)
  then show ?thesis by simp
qed

lemma broad_phase_yields:
  assumes w: "leaves_ok lower w" "ws_disjoint w" "folds_segments lower w"
    and "holds_best limit (exact_candidates lower w model selected f q) st"
    and "distinct (rank_ids (exact_candidates lower w model selected f q))"
  shows "yields (rank_loop worlds c w model selected f limit (broad_symbols lower w q) st)
    (loop_ok limit (broad_candidates lower w model selected f q @ exact_candidates lower w model selected f q))"
proof (rule rank_loop_yields [OF assms(4) _ assms(5)])
  note dis = candidates_split(2) [OF w, of q]
  show "distinct (map (\<lambda>sm. sym_id (fst sm)) (broad_symbols lower w q))" using dis by simp
  have "(\<lambda>sm. sym_id (fst sm)) ` set (exact_symbols lower w q) \<inter>
      (\<lambda>sm. sym_id (fst sm)) ` set (broad_symbols lower w q) = {}"
    using dis by simp
  with candidates_ids [of w model selected f "exact_symbols lower w q"]
  show "set (rank_ids (exact_candidates lower w model selected f q)) \<inter>
      (\<lambda>sm. sym_id (fst sm)) ` set (broad_symbols lower w q) = {}" by blast
qed

lemma both_phases_yield:
  assumes w: "leaves_ok lower w" "ws_disjoint w" "folds_segments lower w"
    and loop: "loop_ok limit (exact_candidates lower w model selected f q) r"
  shows "yields (if \<not> exact_only \<and> \<not> fst r \<and> \<not> ss_truncated (snd r)
       then op_bind (rank_loop worlds c w model selected f limit (broad_symbols lower w q) (snd r))
         (\<lambda>(hit, st). returns st)
       else returns (snd r)) (search_done limit (all_matches lower w model selected f q exact_only))"
proof (cases "\<not> exact_only \<and> \<not> fst r \<and> \<not> ss_truncated (snd r)")
  case True
  then have held: "holds_best limit (exact_candidates lower w model selected f q) (snd r)"
    "distinct (rank_ids (exact_candidates lower w model selected f q))"
    using loop by (simp_all add: loop_ok_def)
  have M: "all_matches lower w model selected f q exact_only =
      sort_key rank_key (candidates_of w model selected f (all_symbols lower w q))"
    using True by (simp add: all_matches_def)
  show ?thesis
    unfolding if_P [OF True] case_prod_beta
    by (rule yields_bind [OF broad_phase_yields [OF w held]], rule yields_returns)
      (rule loop_done [OF _ candidates_split(1) [OF w] M])
next
  case False
  have "search_done limit best (snd r)" if "fst r" for best
    using loop that by (auto simp: loop_ok_def search_done_def)
  with exact_phase_done [OF w loop] False
  show ?thesis unfolding if_not_P [OF False] by (intro yields_returns) blast
qed

lemma search_phases:
  assumes w: "leaves_ok lower w" "ws_disjoint w" "folds_segments lower w"
  shows "yields (ranked_symbol_matches lower worlds c w model selected query f limit work exact_only)
    (\<lambda>r. sb_stopped (snd (snd r)) = None \<longrightarrow>
        fst r = take limit (rank_ids (all_matches lower w model selected f (lower query) exact_only)) \<and>
        fst (snd r) = (limit < length (all_matches lower w model selected f (lower query) exact_only)))"
  unfolding ranked_symbol_matches_def Let_def case_prod_beta
  by (rule yields_bind [OF exact_phase_yields [OF w]],
      rule yields_bind [OF both_phases_yield [OF w, unfolded case_prod_beta]], assumption,
      intro yields_then yields_returns)
    (auto simp: search_done_def rank_ids_def take_map)

text \<open>C40: A symbol search whose work budget was not exhausted returns the first \<open>limit\<close> of all
  matching symbols in rank order (match quality, kind, source role, then the deterministic
  tie-breakers), and says exactly whether matches were left out: the bounded heap, the
  exact-name shortcut and the skipped broad scan change nothing. In exact mode the matches are
  those whose folded simple or qualified name is the query.\<close>

theorem ranked_search_exact:
  assumes "leaves_ok lower graph" "ws_disjoint graph" "folds_segments lower graph"
    and "ranked_symbol_matches lower worlds c graph model selected query f limit work exact_only n =
      (Inr (ids, truncated, work'), m)"
    and "sb_stopped work' = None"
  shows "ids = take limit (rank_ids (all_matches lower graph model selected f (lower query) exact_only)) \<and>
    truncated = (limit < length (all_matches lower graph model selected f (lower query) exact_only))"
  using yieldsD [OF search_phases [OF assms(1-3)] assms(4)] assms(5) by simp

text \<open>Witness: the one function of a small graph, found by its name.\<close>

definition any_symbol :: prepared_symbol_filter where
  "any_symbol =
     \<lparr>pyf_source = \<lparr>psf_package = None, psf_path_prefix = None, psf_include_roles = [],
        psf_exclude_roles = [], psf_project = None\<rparr>,
      pyf_include_languages = [], pyf_include_kinds = [], pyf_exclude_kinds = [],
      pyf_namespace_prefix = None\<rparr>"

theorem ranked_search_exact_witness:
  "\<exists>ids work' m. ranked_symbol_matches (\<lambda>s. s) still_world (context_unbounded 0) (Owned [] sample_rust)
      project_model_default None ''f'' any_symbol 5 (budget_new 5 0) True 0 = (Inr (ids, False, work'), m) \<and>
    length ids = 1 \<and>
    ids = take 5 (rank_ids (all_matches (\<lambda>s. s) (Owned [] sample_rust) project_model_default None any_symbol
      ''f'' True))"
proof -
  have dis: "ws_disjoint (Owned [] sample_rust)" by (simp add: ws_disjoint_def distinct_owned_languages)
  have fold: "folds_segments (\<lambda>s. s) (Owned [] sample_rust)"
    by (simp add: folds_segments_def symbol_name_def)
  have "\<exists>i work' m. ranked_symbol_matches (\<lambda>s. s) still_world (context_unbounded 0) (Owned [] sample_rust)
      project_model_default None ''f'' any_symbol 5 (budget_new 5 0) True 0 = (Inr ([i], False, work'), m) \<and>
      sb_stopped work' = None"
    by (simp add: ranked_symbol_matches_def exact_symbols_def sample_rust_def graph_eval folded_name_candidates_def
        List.map_filter_simps match_rank_def op_bind_def consider_ranked_symbol_def observe_def query_check_def
        from_abort_def poll_def context_check_def still_world_def context_unbounded_def returns_def
        cancellation_poll_new_def timed_def instant_now_def record_examined_def check_wall_time_def
        budget_new_def budget_with_limits_def clamp_def section_wall_time_def examined_def sat_mul64_def
        min_examined_work_def max_examined_work_def examined_work_per_result_def
        symbol_filter_matches_def any_symbol_def filter_matches_def matches_project_def
        retain_candidate_def retain_intermediate_def min_intermediate_items_def max_intermediate_items_def
        intermediate_items_per_result_def heap_push_def)
  then obtain i work' m where run: "ranked_symbol_matches (\<lambda>s. s) still_world (context_unbounded 0)
      (Owned [] sample_rust) project_model_default None ''f'' any_symbol 5 (budget_new 5 0) True 0 =
      (Inr ([i], False, work'), m)" "sb_stopped work' = None"
    by blast
  have ids: "[i] = take 5 (rank_ids (all_matches (\<lambda>s. s) (Owned [] sample_rust) project_model_default None
      any_symbol ''f'' True))"
    using ranked_search_exact [OF sample_leaves_ok(1) dis fold run] by blast
  show ?thesis
    by (rule exI [of _ "[i]"], rule exI [of _ work'], rule exI [of _ m], intro conjI, rule run(1), simp, rule ids)
qed

end
