(* ===== verification/Spec2Isabelle.thy ===== *)
theory Spec2Isabelle
  imports Delta_Properties Project_Impact Query_Envelope Registry_Properties Cache_Properties Diff_Layers Work_Scheduling
    Admission_Properties Pool_Capacity Pool_Queries Filter_Properties Ranking_Properties
begin

text \<open>
  \<^bold>\<open>Chakra: a verification of its core.\<close> Chakra indexes the source code of a worktree into a
  symbol graph, keeps the graph current while files change, enriches it with facts of
  external language servers, and answers bounded queries over atomically published
  snapshots. This development models the parts that carry that logic; everything below names
  files relative to \<open>src/crates/\<close>.

  \<^bold>\<open>Theories and what they model.\<close>
  \<^item> \<open>Chakra_Prelude\<close>: ordered maps, saturating counters, selection and sorting helpers shared
    by all parts. \<open>Ranked_Selection\<close>: the interface of choosing waiting work by urgency and
    arrival, interpreted by the work queue and by the provider pool. \<open>Step_Systems\<close>:
    reachability under a step relation and the interface of an invariant, interpreted by every
    concurrent part.
  \<^item> \<open>Chakra_Location\<close>, \<open>Chakra_Symbols\<close>: the values of \<open>chakra-domain\<close> (paths, ranges,
    revisions, states, symbols, edges, call sites, source metadata).
  \<^item> \<open>Work_Scheduling\<close>: \<open>chakra-language/src/scheduler.rs\<close> and the metrics of
    \<open>chakra-domain/src/scheduling.rs\<close>.
  \<^item> \<open>Symbol_Graph\<close>, \<open>Graph_Arena\<close>, \<open>Graph_Edges\<close>, \<open>Graph_Calls\<close>, \<open>Graph_Invariant\<close>,
    \<open>Graph_Site_Updates\<close>, \<open>Graph_Site_Removal\<close>, \<open>Graph_Runs\<close>, \<open>Graph_Properties\<close>: one partition of
    \<open>chakra-engine/src/graph.rs\<close>, with its indexes, edges, call resolution and removals.
    \<open>Graph_Builder\<close>: the bounded builder. \<open>Graph_Composite\<close>, \<open>Graph_Merge\<close>, \<open>Graph_Dispatch\<close>,
    \<open>Graph_Streams\<close>, \<open>Graph_Cancellation\<close>, \<open>Composite_Properties\<close>: the graph composed of one
    partition per language, its streaming queries and their cancellable variants.
  \<^item> \<open>Project_Model\<close>, \<open>Project_Properties\<close>, \<open>Project_Impact\<close>: \<open>chakra-domain/src/project.rs\<close>.
    \<open>Indexing_Status\<close>, \<open>Query_Envelope\<close>, \<open>Operation_Context\<close>: \<open>indexing.rs\<close>, \<open>envelope.rs\<close> with
    \<open>identity.rs\<close> and \<open>composition.rs\<close>, and \<open>operation.rs\<close> of \<open>chakra-domain\<close>.
  \<^item> \<open>Provider_Delta\<close>, \<open>Delta_Properties\<close>: provider workspaces and their differences
    (\<open>chakra-engine/src/precise.rs\<close>).
  \<^item> \<open>Workspace_Engine\<close>, \<open>Engine_Concurrency\<close>, \<open>Engine_Properties\<close>, \<open>Engine_Readers\<close>,
    \<open>Engine_Routing\<close>: \<open>chakra-engine/src/engine.rs\<close>. \<open>Diff_Layers\<close>: \<open>diff.rs\<close> and the source
    layers.
  \<^item> \<open>Workspace_Registry\<close>, \<open>Registry_Properties\<close>: \<open>chakra-workspace/src/lib.rs\<close>.
    \<open>Snapshot_Cache\<close>, \<open>Cache_Properties\<close>: \<open>chakra-workspace/src/snapshot_cache.rs\<close>.
  \<^item> \<open>Pool_State\<close>, \<open>Pool_Admission\<close>, \<open>Provider_Pool\<close>, \<open>Pool_Queries\<close>: \<open>chakra-provider-pool\<close>;
    \<open>Admission_Properties\<close>, \<open>Pool_System\<close>, \<open>Pool_Leases\<close>, \<open>Pool_Capacity\<close> run its critical
    sections under any number of callers.
  \<^item> \<open>Query_Types\<close>: the requests and views of \<open>chakra-domain/src/query.rs\<close>. \<open>Query_Budget\<close>,
    \<open>Query_Filters\<close>, \<open>Query_Ranking\<close>: the section budgets and bounded sections, the source and
    symbol filters with their cursors, and the ranked symbol search of
    \<open>chakra-engine/src/query.rs\<close>; \<open>Budget_Properties\<close>, \<open>Filter_Properties\<close> and
    \<open>Ranking_Properties\<close> hold their theorems.

  \<^bold>\<open>How state and effects are modelled.\<close> A struct is a record, an enum a datatype, an
  operation a function from the state to the new state and its result; an operation that can
  fail after a partial change returns both. \<open>HashMap\<close>, \<open>BTreeMap\<close> and the persistent maps are
  key-sorted association lists; where the code iterates a \<open>HashMap\<close>, the results modelled do not
  depend on the order. Shared allocations (\<open>Arc\<close>) that the code compares by pointer are an
  address with the contents. A file that is read is its contents with the outcome of every
  single read (how many bytes it gives, or that it fails). A \<open>u64\<close> counter is a natural number with the saturation or
  conversion written out; revisions wrap at \<open>2 ^ 64\<close>; entity ids are 64-bit words. Strings are
  byte lists. Unicode lower-casing, the clock, the file system, git, factories and adapters are
  arguments of the operations that use them.

  \<^bold>\<open>Concurrency.\<close> Code under a mutex is one step; code that uses several atomic accesses or
  releases the mutex in between is one step per section, and an inductive relation interleaves
  them: publishers of the engine, callers of the registry and of the snapshot cache, admission
  and the slots of the provider pool. The invariants are proved through \<open>Step_Systems\<close>.

  \<^bold>\<open>What is proved.\<close> Functional correctness of the graph operations on every branch, with the
  invariant that ties indexes, edges, provenance and counters together; budgets of the bounded
  builder and the equality of a build that fits with the unbounded one; that merging and
  streaming change no answer; unambiguity of unit ids and ownership by the deepest claim;
  exactness and replay of deltas; linearizability of publication, conflicts and freshness;
  ownership, bounds and shutdown of registry, cache and pool; absence of starvation in the work
  queue and bounded overtaking in admission, which also always returns; and in the query
  service the limits of every section, the longest prefix that fits a response, the round trip
  of a repository-map cursor and the equality of the bounded symbol search with a sorted
  specification. Where case folding is a parameter, the search assumes that it folds a
  qualified name segment by segment, which lower-casing does except for a final sigma.

  \<^bold>\<open>Bounds and fuel.\<close> No definition uses fuel to hide non-termination: loops over finite data
  are structural or have a measure, and retry loops (\<open>mark_stale_attempts\<close>, \<open>start_attempts\<close>)
  carry the retry bound of the code. \<open>admit_loop\<close> takes the number of turns a caller makes; the
  property on it shows how many are enough. Hypotheses such as a sequence number below
  \<open>2 ^ 64 - 1\<close> exclude the exhaustion of counters that grow by one per operation.

  \<^bold>\<open>Not modelled, and why.\<close> Parsers and per-language indexers work on syntax trees of the
  tree-sitter library; discovery, watching and persistence on the file system and git;
  adapters on child processes; servers and command line on transports. Of the query service
  the relation, context and diff sections, the waits for freshness and for providers, the text
  excerpts and the service methods that assemble them are left out. The read-only audit of
  a graph and the rendering of diagnostics change no state. Exhaustion of the \<open>u64\<close> edge counter
  and panics on allocation failure are out of reach of any real workspace.
\<close>

end
